(* ===== verification/Prelude.thy ===== *)
theory Prelude
  imports Main "HOL-Library.Word" "HOL-Library.Monad_Syntax"
begin

text \<open>
  The prelude of the development: the machine types of \<open>include/types.h\<close>, checked array
  accesses, copying a run of bytes into a buffer (the effect of \<open>memcpy\<close> on a list), the
  little-endian layout of integers in memory, and the lemmas about them that the components share.

  A computation that may not come back (a kernel panic, an access outside of an object, an endless
  loop) has an \<open>option\<close> type: \<open>None\<close> says that the code does not return a
  result. Error codes that the code returns are ordinary values.
\<close>

unbundle bit_operations_syntax

section \<open>Types\<close>

type_synonym u8 = "8 word"
type_synonym u16 = "16 word"
type_synonym u32 = "32 word"
type_synonym s32 = "32 word"
type_synonym bytes = "u8 list"

lemma unat_u8_lt: "unat (w :: u8) < 256"
  using unsigned_less [of w] by simp

lemma unat_u16_lt: "unat (w :: u16) < 65536"
  using unsigned_less [of w] by simp

lemma unat_u32_lt: "unat (w :: u32) < 4294967296"
  using unsigned_less [of w] by simp

text \<open>The facts about buffers and the facts that unfold a byte layout.\<close>

named_theorems buf_simps
named_theorems layout_simps

section \<open>Checked accesses to arrays\<close>

definition rd_at :: "'a list \<Rightarrow> nat \<Rightarrow> 'a option" where
  "rd_at xs i = (if i < length xs then Some (xs ! i) else None)"

definition wr_at :: "'a list \<Rightarrow> nat \<Rightarrow> 'a \<Rightarrow> 'a list option" where
  "wr_at xs i v = (if i < length xs then Some (xs[i := v]) else None)"

lemma rd_at_Some [simp]: "rd_at xs i = Some v \<longleftrightarrow> i < length xs \<and> v = xs ! i"
  by (auto simp: rd_at_def)

lemma rd_at_None [simp]: "rd_at xs i = None \<longleftrightarrow> length xs \<le> i"
  by (auto simp: rd_at_def)

lemma wr_at_Some [simp]: "wr_at xs i v = Some ys \<longleftrightarrow> i < length xs \<and> ys = xs[i := v]"
  by (auto simp: wr_at_def)

lemma wr_at_None [simp]: "wr_at xs i v = None \<longleftrightarrow> length xs \<le> i"
  by (auto simp: wr_at_def)

lemma rd_at_in [simp]: "i < length xs \<Longrightarrow> rd_at xs i = Some (xs ! i)"
  by simp

lemma wr_at_in [simp]: "i < length xs \<Longrightarrow> wr_at xs i v = Some (xs[i := v])"
  by simp

section \<open>Copying into a buffer\<close>

text \<open>
  \<open>blit off ys xs\<close> is the buffer \<open>xs\<close> after the bytes \<open>ys\<close> have been copied over it
  from offset \<open>off\<close> on; \<open>sub_bytes off n xs\<close> is the run of \<open>n\<close> bytes at \<open>off\<close>. Both are used
  only where the run lies inside of the buffer; the checked forms say so.
\<close>

definition blit :: "nat \<Rightarrow> 'a list \<Rightarrow> 'a list \<Rightarrow> 'a list" where
  "blit off ys xs = take off xs @ ys @ drop (off + length ys) xs"

definition sub_bytes :: "nat \<Rightarrow> nat \<Rightarrow> 'a list \<Rightarrow> 'a list" where
  "sub_bytes off n xs = take n (drop off xs)"

definition wr_run :: "nat \<Rightarrow> 'a list \<Rightarrow> 'a list \<Rightarrow> 'a list option" where
  "wr_run off ys xs = (if off + length ys \<le> length xs then Some (blit off ys xs) else None)"

definition rd_run :: "nat \<Rightarrow> nat \<Rightarrow> 'a list \<Rightarrow> 'a list option" where
  "rd_run off n xs = (if off + n \<le> length xs then Some (sub_bytes off n xs) else None)"

lemma length_blit [simp, buf_simps]: "off + length ys \<le> length xs \<Longrightarrow> length (blit off ys xs) = length xs"
  by (simp add: blit_def)

lemma length_sub_bytes [simp, buf_simps]:
  "off + n \<le> length xs \<Longrightarrow> length (sub_bytes off n xs) = n"
  by (simp add: sub_bytes_def)

lemma nth_sub_bytes [buf_simps]:
  "i < n \<Longrightarrow> off + n \<le> length xs \<Longrightarrow> sub_bytes off n xs ! i = xs ! (off + i)"
  by (simp add: sub_bytes_def)

lemma nth_blit [buf_simps]:
  "off + length ys \<le> length xs \<Longrightarrow> i < length xs \<Longrightarrow>
   blit off ys xs ! i = (if off \<le> i \<and> i < off + length ys then ys ! (i - off) else xs ! i)"
  by (auto simp: blit_def nth_append min_def)

lemma sub_bytes_blit_same [simp, buf_simps]:
  "off + length ys \<le> length xs \<Longrightarrow> n = length ys \<Longrightarrow> sub_bytes off n (blit off ys xs) = ys"
  by (simp add: sub_bytes_def blit_def)

lemma sub_bytes_blit_other [buf_simps]:
  assumes "off + length ys \<le> length xs" "o2 + n \<le> length xs" "o2 + n \<le> off \<or> off + length ys \<le> o2"
  shows "sub_bytes o2 n (blit off ys xs) = sub_bytes o2 n xs"
  using assms by (intro nth_equalityI) (auto simp: nth_sub_bytes nth_blit)

lemma blit_full [simp]: "length ys = length xs \<Longrightarrow> blit 0 ys xs = ys"
  by (simp add: blit_def)

lemma sub_bytes_full [simp]: "n = length xs \<Longrightarrow> sub_bytes 0 n xs = xs"
  by (simp add: sub_bytes_def)

lemma blit_Nil [simp]: "off \<le> length xs \<Longrightarrow> blit off [] xs = xs"
  by (simp add: blit_def)

lemma blit_sub_bytes_id [simp]: "off + n \<le> length xs \<Longrightarrow> blit off (sub_bytes off n xs) xs = xs"
  by (intro nth_equalityI) (auto simp: nth_sub_bytes nth_blit)

lemma sub_bytes_split:
  "off + (a + b) \<le> length xs \<Longrightarrow> sub_bytes off (a + b) xs = sub_bytes off a xs @ sub_bytes (off + a) b xs"
  by (simp add: sub_bytes_def take_add add.commute)

lemma wr_run_Some [simp]: "wr_run off ys xs = Some zs \<longleftrightarrow> off + length ys \<le> length xs \<and> zs = blit off ys xs"
  by (auto simp: wr_run_def)

lemma wr_run_in [simp]: "off + length ys \<le> length xs \<Longrightarrow> wr_run off ys xs = Some (blit off ys xs)"
  by simp

lemma rd_run_Some [simp]: "rd_run off n xs = Some zs \<longleftrightarrow> off + n \<le> length xs \<and> zs = sub_bytes off n xs"
  by (auto simp: rd_run_def)

lemma rd_run_in [simp]: "off + n \<le> length xs \<Longrightarrow> rd_run off n xs = Some (sub_bytes off n xs)"
  by simp

section \<open>Integers as little-endian bytes\<close>

primrec le_bytes :: "nat \<Rightarrow> nat \<Rightarrow> bytes" where
  "le_bytes 0 v = []"
| "le_bytes (Suc n) v = word_of_nat v # le_bytes n (v div 256)"

primrec le_val :: "bytes \<Rightarrow> nat" where
  "le_val [] = 0"
| "le_val (b # bs) = unat b + 256 * le_val bs"

lemma length_le_bytes [simp]: "length (le_bytes n v) = n"
  by (induction n arbitrary: v) auto

lemma le_val_le_bytes: "le_val (le_bytes n v) = v mod 256 ^ n"
proof (induction n arbitrary: v)
  case (Suc n)
  have "v mod (256 * 256 ^ n) = 256 * (v div 256 mod 256 ^ n) + v mod 256"
    by (rule mod_mult2_eq)
  with Suc show ?case by (simp add: unat_of_nat)
qed simp

lemma le_val_bound: "le_val bs < 256 ^ length bs"
proof (induction bs)
  case (Cons b bs)
  have "unat b < 256" by (rule unat_u8_lt)
  moreover from Cons have "256 * Suc (le_val bs) \<le> 256 * 256 ^ length bs"
    by (intro mult_le_mono2) simp
  ultimately show ?case by simp
qed simp

lemma le_bytes_le_val [simp]: "n = length bs \<Longrightarrow> le_bytes n (le_val bs) = bs"
proof (induction bs arbitrary: n)
  case (Cons b bs)
  have "word_of_nat (unat b + 256 * le_val bs) = b"
    by (rule word_unat_eq_iff [THEN iffD2]) (simp only: unat_of_nat, simp add: unat_u8_lt)
  moreover have "unat b < 256" by (rule unat_u8_lt)
  ultimately show ?case using Cons by simp
qed simp

definition le32 :: "u32 \<Rightarrow> bytes" where
  "le32 w = le_bytes 4 (unat w)"

definition le16 :: "u16 \<Rightarrow> bytes" where
  "le16 w = le_bytes 2 (unat w)"

definition un_le32 :: "bytes \<Rightarrow> u32" where
  "un_le32 bs = word_of_nat (le_val bs)"

definition un_le16 :: "bytes \<Rightarrow> u16" where
  "un_le16 bs = word_of_nat (le_val bs)"

lemma length_le32 [simp]: "length (le32 w) = 4"
  by (simp add: le32_def)

lemma length_le16 [simp]: "length (le16 w) = 2"
  by (simp add: le16_def)

lemma un_le32_le32 [simp]: "un_le32 (le32 w) = w"
  using unat_u32_lt [of w] by (simp add: un_le32_def le32_def le_val_le_bytes)

lemma un_le16_le16 [simp]: "un_le16 (le16 w) = w"
  using unat_u16_lt [of w] by (simp add: un_le16_def le16_def le_val_le_bytes)

lemma le32_un_le32 [simp]: "length bs = 4 \<Longrightarrow> le32 (un_le32 bs) = bs"
  using le_val_bound [of bs] by (simp add: un_le32_def le32_def unat_of_nat)

lemma le16_un_le16 [simp]: "length bs = 2 \<Longrightarrow> le16 (un_le16 bs) = bs"
  using le_val_bound [of bs] by (simp add: un_le16_def le16_def unat_of_nat)

end
