(* ===== verification/VMonitor.thy ===== *)
theory VMonitor
  imports Prelude
begin

text \<open>
  One virtual monitor (\<open>io/io_virtual.c\<close>): the text screen of a process, a ring of lines in memory with a
  visible window of 24 lines. Pointers into the memory (\<open>vis_begin\<close>) are cell numbers from \<open>begin\<close> on; a cell
  has the character and the colours in 16 bits. An access outside of the memory has no result.
\<close>

section \<open>Data\<close>

definition VIRTUAL_MONITOR_SIZE :: u32 where "VIRTUAL_MONITOR_SIZE = 160000"
definition LINE_WIDTH :: u32 where "LINE_WIDTH = 80"
definition VMONITOR_HEIGHT :: u32 where "VMONITOR_HEIGHT = 0xF00"

definition WHITE :: u8 where "WHITE = 0xF"
definition BLACK :: u8 where "BLACK = 0"
definition GREEN :: u8 where "GREEN = 2"
definition RED :: u8 where "RED = 4"

record vmonitor =
  vm_mem :: "u16 list"
  vm_name :: bytes
  vm_size :: u32
  vis_begin :: u32
  vm_offset :: u32
  scrolldown_limit :: u32
  scrollup_limit :: u32
  disable_refresh :: bool
  vm_pid :: u32

section \<open>Operations\<close>

text \<open>
  The arguments are what the two calls of \<open>mallocn\<close> return: memory with arbitrary contents. The loop
  clears as many cells as the window has bytes.
\<close>

definition new_virt_monitor :: "u16 list \<Rightarrow> bytes \<Rightarrow> u32 \<Rightarrow> vmonitor option" where
  "new_virt_monitor mon name pid = do {
     m \<leftarrow> wr_run 0 (replicate (unat VMONITOR_HEIGHT) 0xF00) mon;
     Some \<lparr>vm_mem = m, vm_name = name, vm_size = VIRTUAL_MONITOR_SIZE, vis_begin = 0, vm_offset = 0, scrolldown_limit = 0,
       scrollup_limit = 0, disable_refresh = False, vm_pid = pid\<rparr> }"

definition vm_cell :: "u8 \<Rightarrow> u8 \<Rightarrow> u8 \<Rightarrow> u16" where
  "vm_cell bg fg ch = ucast bg * 0x1000 + ucast fg * 0x100 + ucast ch"

text \<open>The part of \<open>virt_monitor_cputc\<close> before the \<open>switch\<close>: scroll when the window is full.\<close>

definition vm_scroll :: "vmonitor \<Rightarrow> vmonitor option" where
  "vm_scroll vm =
     (if vm_offset vm \<ge> VMONITOR_HEIGHT div 2 - 1 then do {
        let vm = (if scrollup_limit vm < (vm_size vm - VMONITOR_HEIGHT) div 0xA0
                  then vm\<lparr>scrollup_limit := scrollup_limit vm + 1\<rparr> else vm);
        let vm = vm\<lparr>vis_begin := vis_begin vm + LINE_WIDTH\<rparr>;
        let vm = (if vis_begin vm \<ge> vm_size vm div 2 then vm\<lparr>vis_begin := 0\<rparr> else vm);
        let ptr = (vis_begin vm + VMONITOR_HEIGHT div 2 - LINE_WIDTH) mod (vm_size vm div 2);
        m \<leftarrow> wr_run (unat ptr) (replicate (unat LINE_WIDTH) 0xF00) (vm_mem vm);
        Some (vm\<lparr>vm_mem := m, vm_offset := vm_offset vm - LINE_WIDTH\<rparr>) }
      else Some vm)"

definition vm_put :: "vmonitor \<Rightarrow> u16 \<Rightarrow> vmonitor option" where
  "vm_put vm c = do {
     m \<leftarrow> wr_at (vm_mem vm) (unat ((vis_begin vm + vm_offset vm) mod (vm_size vm div 2))) c;
     Some (vm\<lparr>vm_mem := m\<rparr>) }"

text \<open>A character that is no control character: the \<open>default\<close> case.\<close>

definition vm_cputc_default :: "vmonitor \<Rightarrow> u8 \<Rightarrow> u8 \<Rightarrow> u8 \<Rightarrow> vmonitor option" where
  "vm_cputc_default vm ch fg bg = do {
     vm \<leftarrow> vm_scroll vm;
     vm \<leftarrow> vm_put vm (vm_cell bg fg ch);
     Some (vm\<lparr>vm_offset := vm_offset vm + 1\<rparr>) }"

text \<open>The loops that fill up with spaces call \<open>virt_monitor_cputc\<close> itself, with a space.\<close>

primrec vm_fill :: "vmonitor \<Rightarrow> u8 \<Rightarrow> u8 \<Rightarrow> nat \<Rightarrow> vmonitor option" where
  "vm_fill vm fg bg 0 = Some vm"
| "vm_fill vm fg bg (Suc n) = do { vm \<leftarrow> vm_fill vm fg bg n; vm_cputc_default vm 32 fg bg }"

definition virt_monitor_cputc :: "vmonitor \<Rightarrow> u8 \<Rightarrow> u8 \<Rightarrow> u8 \<Rightarrow> vmonitor option" where
  "virt_monitor_cputc vm ch fg bg =
     (if ch = 10 then do {
        vm \<leftarrow> vm_scroll vm;
        vm_fill vm fg bg (unat (LINE_WIDTH - vm_offset vm mod LINE_WIDTH)) }
      else if ch = 9 then do {
        vm \<leftarrow> vm_scroll vm;
        vm_fill vm fg bg (unat (8 - vm_offset vm mod 8)) }
      else if ch = 8 then do {
        vm \<leftarrow> vm_scroll vm;
        if vm_offset vm \<noteq> 0 then vm_put (vm\<lparr>vm_offset := vm_offset vm - 1\<rparr>) (vm_cell bg fg 32) else Some vm }
      else vm_cputc_default vm ch fg bg)"

text \<open>The tag of five characters at the start of the string.\<close>

definition get_color_tag :: "bytes \<Rightarrow> u8" where
  "get_color_tag str =
     (let buf = take 5 str in
      if buf = [123, 66, 76, 65, 125] then 0
      else if buf = [123, 66, 76, 85, 125] then 1
      else if buf = [123, 71, 82, 69, 125] then 2
      else if buf = [123, 67, 89, 65, 125] then 3
      else if buf = [123, 82, 69, 68, 125] then 4
      else if buf = [123, 86, 73, 79, 125] then 5
      else if buf = [123, 79, 82, 65, 125] then 6
      else if buf = [123, 68, 65, 82, 125] then 8
      else if buf = [123, 76, 73, 71, 125] then 7
      else if buf = [123, 76, 66, 76, 125] then 9
      else if buf = [123, 76, 71, 82, 125] then 0xA
      else if buf = [123, 84, 85, 82, 125] then 0xB
      else if buf = [123, 80, 73, 78, 125] then 0xC
      else if buf = [123, 77, 65, 71, 125] then 0xD
      else if buf = [123, 89, 69, 76, 125] then 0xE
      else WHITE)"

text \<open>
  The loop over the string: \<open>vm_cputs_tag\<close> is the part for a number sign, on the string after it. It
  gives the colour and the string to go on with.
\<close>

definition vm_cputs_tag :: "vmonitor \<Rightarrow> bytes \<Rightarrow> u8 \<Rightarrow> u8 \<Rightarrow> (vmonitor \<times> bytes \<times> u8) option" where
  "vm_cputs_tag vm str fg bg =
     (let tempcolor = get_color_tag str in
      if tempcolor \<noteq> WHITE then Some (vm, drop 5 str, tempcolor)
      else if str = [] \<or> hd str \<noteq> 35 then do { vm \<leftarrow> virt_monitor_cputc vm 35 fg bg; Some (vm, str, fg) }
      else Some (vm, tl str, tempcolor))"

lemma vm_cputs_tag_length: "vm_cputs_tag vm str fg bg = Some (vm', str', fg') \<Longrightarrow> length str' \<le> length str"
  by (auto simp: vm_cputs_tag_def Let_def split: if_splits bind_splits)

function virt_monitor_cputs :: "vmonitor \<Rightarrow> bytes \<Rightarrow> u8 \<Rightarrow> u8 \<Rightarrow> s32 \<Rightarrow> (vmonitor \<times> s32) option" where
  "virt_monitor_cputs vm [] fg bg res = Some (vm, res)"
| "virt_monitor_cputs vm (c # cs) fg bg res = do {
     (vm, str, fg) \<leftarrow> (if c = 35 then vm_cputs_tag vm cs fg bg else Some (vm, c # cs, fg));
     if str = [] then Some (vm, res)
     else do {
       vm \<leftarrow> virt_monitor_cputc vm (hd str) fg bg;
       virt_monitor_cputs vm (tl str) fg bg (res + 1) } }"
  by pat_completeness auto
termination
proof (relation "measure (\<lambda>(vm, str, fg, bg, res). length str)", goal_cases)
  case (2 vm c cs fg bg res p vm' q str fg' vm'')
  then have "length str \<le> length (c # cs)"
    using vm_cputs_tag_length [of vm cs fg bg vm' str fg'] by (auto split: if_splits)
  with 2 show ?case by (cases str) auto
qed simp

definition virt_monitor_putc :: "vmonitor \<Rightarrow> u8 \<Rightarrow> vmonitor option" where
  "virt_monitor_putc vm ch = virt_monitor_cputc vm ch WHITE BLACK"

definition virt_monitor_puts :: "vmonitor \<Rightarrow> bytes \<Rightarrow> (vmonitor \<times> s32) option" where
  "virt_monitor_puts vm str = virt_monitor_cputs vm str WHITE BLACK 0"

text \<open>The bytes for the cursor registers 0x0E and 0x0F of the graphics controller.\<close>

definition cursor_bytes :: "u32 \<Rightarrow> u8 \<times> u8" where
  "cursor_bytes offset = (ucast (drop_bit 8 (offset + 80)), ucast (offset + 80))"

definition virt_cursor_move :: "vmonitor \<Rightarrow> u8 \<Rightarrow> vmonitor \<times> (u8 \<times> u8) option" where
  "virt_cursor_move vm dir =
     (if disable_refresh vm then (vm, None)
      else
        let h = VMONITOR_HEIGHT div 2; off = vm_offset vm;
            off' = (if dir = 0 then (off + h - LINE_WIDTH) mod h
                  else if dir = 1 then (off + LINE_WIDTH) mod h
                  else if dir = 2 then (off - off mod LINE_WIDTH) + (off mod LINE_WIDTH + 80 - 1) mod LINE_WIDTH
                  else if dir = 3 then (off - off mod LINE_WIDTH) + (off + 1) mod LINE_WIDTH
                  else off)
        in (vm\<lparr>vm_offset := off'\<rparr>, Some (cursor_bytes off')))"

text \<open>
  What \<open>update_virt_monitor\<close> copies to the video memory from the second line on; \<open>None\<close> as the second result
  when the screen is not refreshed. The code compares a number of cells with a number of bytes, and
  copies twice as many bytes as the window has, from \<open>begin\<close> on, when the window is near the end.
\<close>

definition cells_bytes :: "u16 list \<Rightarrow> bytes" where
  "cells_bytes cs = concat (map le16 cs)"

definition update_virt_monitor :: "vmonitor \<Rightarrow> (bytes option) option" where
  "update_virt_monitor vm =
     (if disable_refresh vm then Some None
      else
        let rest = vm_size vm div 2 - vis_begin vm; b = cells_bytes (vm_mem vm) in
        if rest \<ge> VMONITOR_HEIGHT then do {
          d \<leftarrow> rd_run (2 * unat (vis_begin vm)) (unat VMONITOR_HEIGHT) b;
          Some (Some d) }
        else do {
          d \<leftarrow> rd_run (2 * unat (vis_begin vm)) (unat (2 * rest)) b;
          e \<leftarrow> rd_run 0 (unat (2 * (VMONITOR_HEIGHT - rest))) b;
          Some (Some (d @ e)) })"

definition virt_monitor_scrollup :: "vmonitor \<Rightarrow> vmonitor" where
  "virt_monitor_scrollup vm =
     (if scrollup_limit vm \<noteq> 0 then
        vm\<lparr>scrollup_limit := scrollup_limit vm - 1,
           vis_begin := (if vis_begin vm > 0 then vis_begin vm - LINE_WIDTH else vm_size vm div 2 - LINE_WIDTH),
           scrolldown_limit := scrolldown_limit vm + 1\<rparr>
      else vm)"

definition virt_monitor_scrolldown :: "vmonitor \<Rightarrow> vmonitor" where
  "virt_monitor_scrolldown vm =
     (if scrolldown_limit vm \<noteq> 0 then
        vm\<lparr>scrolldown_limit := scrolldown_limit vm - 1,
           vis_begin := (if vis_begin vm < vm_size vm div 2 then vis_begin vm + LINE_WIDTH else 0),
           scrollup_limit := scrollup_limit vm + 1\<rparr>
      else vm)"

text \<open>
  The loop inverts the colour byte of \<open>VMONITOR_HEIGHT\<close> cells from \<open>vis_begin\<close> on, twice the window.
\<close>

definition invert_cell :: "u16 \<Rightarrow> u16" where
  "invert_cell c = push_bit 8 (0xFF - drop_bit 8 c) OR take_bit 8 c"

definition virt_monitor_invert :: "vmonitor \<Rightarrow> vmonitor option" where
  "virt_monitor_invert vm = do {
     r \<leftarrow> rd_run (unat (vis_begin vm)) (unat VMONITOR_HEIGHT) (vm_mem vm);
     m \<leftarrow> wr_run (unat (vis_begin vm)) (map invert_cell r) (vm_mem vm);
     Some (vm\<lparr>vm_mem := m\<rparr>) }"

end
