(* ===== verification/Ringbuffer.thy ===== *)
theory Ringbuffer
  imports Prelude
begin

text \<open>
  \<open>lib/ringbuffer.c\<close>: the circular byte queue behind the standard input of a process and the
  snakes of the game. \<open>rf_data\<close> is the memory that \<open>fifo->data\<close> points to; a \<open>NULL\<close> argument
  is \<open>None\<close>. The abstraction \<open>rf_list\<close> is the sequence of the bytes that are stored, oldest first,
  and the locale \<open>byte_queue\<close> is the contract that the process management relies on.
\<close>

record ring_fifo =
  rf_data :: bytes
  rf_size :: u32
  rf_start :: u32
  rf_end :: u32
  rf_len :: u32

section \<open>Operations\<close>

definition rf_clear :: "ring_fifo \<Rightarrow> ring_fifo" where
  "rf_clear f = f\<lparr>rf_start := 0, rf_end := 0, rf_len := 0\<rparr>"

text \<open>
  \<open>rf_alloc\<close> calls \<open>mallocn\<close> twice. Its first two arguments are what these calls return: whether
  the structure could be allocated, and the memory of the data area, if it could.
\<close>

definition rf_alloc :: "bool \<Rightarrow> bytes option \<Rightarrow> u32 \<Rightarrow> ring_fifo option" where
  "rf_alloc fifo_ok data sz =
     (if \<not> fifo_ok then None
      else case data of
        None \<Rightarrow> None
      | Some d \<Rightarrow> Some (rf_clear \<lparr>rf_data = d, rf_size = sz, rf_start = 0, rf_end = 0, rf_len = 0\<rparr>))"

text \<open>
  \<open>rf_copy\<close> does not test the result of \<open>rf_alloc\<close>: it has a result only where both
  allocations succeed.
\<close>

definition rf_copy :: "bool \<Rightarrow> bytes option \<Rightarrow> ring_fifo \<Rightarrow> ring_fifo option" where
  "rf_copy fifo_ok data f =
     do { ret \<leftarrow> rf_alloc fifo_ok data (rf_size f);
          src \<leftarrow> rd_run 0 (unat (rf_size f)) (rf_data f);
          d \<leftarrow> wr_run 0 src (rf_data ret);
          Some (ret\<lparr>rf_data := d, rf_start := rf_start f, rf_end := rf_end f, rf_len := rf_len f\<rparr>) }"

definition rf_getlength :: "ring_fifo \<Rightarrow> u32" where
  "rf_getlength f = rf_len f"

definition rf_isfull :: "ring_fifo \<Rightarrow> bool" where
  "rf_isfull f \<longleftrightarrow> rf_len f = rf_size f"

definition rf_isempty :: "ring_fifo \<Rightarrow> bool" where
  "rf_isempty f \<longleftrightarrow> rf_len f = 0"

text \<open>
  The loop of \<open>rf_write\<close>: \<open>buf\<close> is the memory from the pointer on, \<open>n\<close> the number of rounds
  left. Reading past the end of \<open>buf\<close>, writing outside of the data area and the division by a
  zero size have no result.
\<close>

fun rf_write_loop :: "ring_fifo \<Rightarrow> bytes \<Rightarrow> nat \<Rightarrow> s32 \<Rightarrow> (ring_fifo \<times> s32) option" where
  "rf_write_loop f buf 0 written = Some (f, written)"
| "rf_write_loop f buf (Suc n) written =
     (if rf_len f = rf_size f then Some (f, written)
      else if rf_size f = 0 then None
      else case buf of
        [] \<Rightarrow> None
      | b # bs \<Rightarrow>
          do { d \<leftarrow> wr_at (rf_data f) (unat (rf_end f)) b;
               rf_write_loop
                 (f\<lparr>rf_data := d, rf_end := (rf_end f + 1) mod rf_size f, rf_len := rf_len f + 1\<rparr>)
                 bs n (written + 1) })"

definition rf_write :: "ring_fifo option \<Rightarrow> bytes option \<Rightarrow> u32 \<Rightarrow> (ring_fifo option \<times> s32) option" where
  "rf_write fifo buf count =
     (case (fifo, buf) of
        (Some f, Some b) \<Rightarrow> map_option (\<lambda>(f', w). (Some f', w)) (rf_write_loop f b (unat count) 0)
      | _ \<Rightarrow> Some (fifo, - 1))"

text \<open>The loop of \<open>rf_read\<close> returns the bytes it stores through \<open>buf\<close>.\<close>

fun rf_read_loop :: "ring_fifo \<Rightarrow> nat \<Rightarrow> bytes \<Rightarrow> s32 \<Rightarrow> (ring_fifo \<times> bytes \<times> s32) option" where
  "rf_read_loop f 0 out read = Some (f, out, read)"
| "rf_read_loop f (Suc n) out read =
     (if rf_len f = 0 then Some (f, out, read)
      else if rf_size f = 0 then None
      else
        do { b \<leftarrow> rd_at (rf_data f) (unat (rf_start f));
             rf_read_loop
               (f\<lparr>rf_start := (rf_start f + 1) mod rf_size f, rf_len := rf_len f - 1\<rparr>)
               n (out @ [b]) (read + 1) })"

definition rf_read :: "ring_fifo option \<Rightarrow> bool \<Rightarrow> u32 \<Rightarrow> (ring_fifo option \<times> bytes \<times> s32) option" where
  "rf_read fifo buf_ok count =
     (case fifo of
        Some f \<Rightarrow>
          (if buf_ok then map_option (\<lambda>(f', out, r). (Some f', out, r)) (rf_read_loop f (unat count) [] 0)
           else Some (fifo, [], - 1))
      | None \<Rightarrow> Some (fifo, [], - 1))"

section \<open>Invariant and abstraction\<close>

definition rf_inv :: "ring_fifo \<Rightarrow> bool" where
  "rf_inv f \<longleftrightarrow>
     length (rf_data f) = unat (rf_size f) \<and> 0 < unat (rf_size f) \<and>
     unat (rf_start f) < unat (rf_size f) \<and> unat (rf_len f) \<le> unat (rf_size f) \<and>
     unat (rf_end f) = (unat (rf_start f) + unat (rf_len f)) mod unat (rf_size f)"

definition rf_list :: "ring_fifo \<Rightarrow> bytes" where
  "rf_list f =
     map (\<lambda>i. rf_data f ! ((unat (rf_start f) + i) mod unat (rf_size f))) [0..<unat (rf_len f)]"

lemma rf_invD:
  assumes "rf_inv f"
  shows "length (rf_data f) = unat (rf_size f)" "0 < unat (rf_size f)"
    "unat (rf_start f) < unat (rf_size f)" "unat (rf_len f) \<le> unat (rf_size f)"
    "unat (rf_end f) = (unat (rf_start f) + unat (rf_len f)) mod unat (rf_size f)"
  using assms by (simp_all add: rf_inv_def)

lemma rf_not_full: "rf_inv f \<Longrightarrow> rf_len f \<noteq> rf_size f \<Longrightarrow> unat (rf_len f) < unat (rf_size f)"
  using rf_invD(4) [of f] by (metis le_neq_implies_less word_unat_eq_iff)

lemma rf_end_in: "rf_inv f \<Longrightarrow> unat (rf_end f) < length (rf_data f)"
  using rf_invD [of f] by simp

lemma rf_size_nz: "rf_inv f \<Longrightarrow> rf_size f \<noteq> 0"
  using rf_invD(2) [of f] by auto

lemma length_rf_list [simp]: "length (rf_list f) = unat (rf_len f)"
  by (simp add: rf_list_def)

lemma unat_succ_mod:
  fixes e s :: u32
  assumes "unat e < unat s"
  shows "unat ((e + 1) mod s) = (unat e + 1) mod unat s"
proof -
  have "unat (e + 1) = unat e + 1"
    using assms unat_u32_lt [of s] by (simp add: unat_word_ariths)
  then show ?thesis by (simp add: unat_mod)
qed

lemma unat_succ_lt:
  fixes l s :: u32
  assumes "unat l < unat s"
  shows "unat (l + 1) = unat l + 1"
  using assms unat_u32_lt [of s] by (simp add: unat_word_ariths)

lemma unat_pred:
  fixes l :: u32
  assumes "l \<noteq> 0"
  shows "unat (l - 1) = unat l - 1"
  using assms by (simp add: unat_minus_one)

lemma mod_add_inj:
  fixes i j s n :: nat
  assumes "(s + i) mod n = (s + j) mod n" "i < n" "j < n"
  shows "i = j"
proof -
  have "i = j" if "(s + i) mod n = (s + j) mod n" "i \<le> j" "j < n" for i j
  proof -
    have "n dvd (s + j) - (s + i)" using that mod_eq_dvd_iff_nat [of "s + i" "s + j" n] by auto
    then show ?thesis using that by (auto dest: dvd_imp_le)
  qed
  from this [of i j] this [of j i] show ?thesis using assms by linarith
qed

lemma rf_inv_clear:
  "length (rf_data f) = unat (rf_size f) \<Longrightarrow> 0 < unat (rf_size f) \<Longrightarrow> rf_inv (rf_clear f) \<and> rf_list (rf_clear f) = []"
  by (simp add: rf_inv_def rf_clear_def rf_list_def)

section \<open>One byte\<close>

text \<open>The bodies of the two loops keep the invariant and act as enqueue and dequeue.\<close>

lemma rf_push:
  assumes inv: "rf_inv f" and room: "rf_len f \<noteq> rf_size f"
    and f': "f' = f\<lparr>rf_data := (rf_data f)[unat (rf_end f) := b], rf_end := (rf_end f + 1) mod rf_size f, rf_len := rf_len f + 1\<rparr>"
  shows "rf_inv f'" "rf_list f' = rf_list f @ [b]"
proof -
  let ?n = "unat (rf_size f)" and ?s = "unat (rf_start f)" and ?l = "unat (rf_len f)"
  note lt = rf_not_full [OF inv room] and e = rf_invD(5) [OF inv] and n0 = rf_invD(2) [OF inv]
  have en: "unat (rf_end f) < ?n" using e n0 by simp
  from lt have l': "unat (rf_len f + 1) = ?l + 1" by (rule unat_succ_lt)
  have e': "unat ((rf_end f + 1) mod rf_size f) = (?s + (?l + 1)) mod ?n"
    using en e by (simp add: unat_succ_mod mod_Suc_eq)
  show "rf_inv f'" using inv lt l' e' by (simp add: rf_inv_def f')
  have ne: "(?s + i) mod ?n \<noteq> (?s + ?l) mod ?n" if "i < ?l" for i
    using mod_add_inj [of ?s i ?n ?l] that lt by auto
  have len: "length (rf_data f) = ?n" using inv by (simp add: rf_inv_def)
  show "rf_list f' = rf_list f @ [b]"
    using lt ne ne [symmetric] len en by (auto simp: rf_list_def f' l' e nth_list_update)
qed

lemma rf_pop:
  assumes inv: "rf_inv f" and some: "rf_len f \<noteq> 0"
    and f': "f' = f\<lparr>rf_start := (rf_start f + 1) mod rf_size f, rf_len := rf_len f - 1\<rparr>"
  shows "rf_inv f'" "rf_list f = rf_data f ! unat (rf_start f) # rf_list f'"
proof -
  let ?n = "unat (rf_size f)" and ?s = "unat (rf_start f)" and ?l = "unat (rf_len f)"
  from some have l': "unat (rf_len f - 1) = ?l - 1" and l0: "0 < ?l"
    by (auto simp: unat_pred unat_gt_0)
  from inv have sn: "?s < ?n" by (simp add: rf_inv_def)
  have s': "unat ((rf_start f + 1) mod rf_size f) = (?s + 1) mod ?n"
    using sn by (rule unat_succ_mod)
  have "((?s + 1) mod ?n + (?l - 1)) mod ?n = (?s + 1 + (?l - 1)) mod ?n"
    by (rule mod_add_left_eq)
  then have "((?s + 1) mod ?n + (?l - 1)) mod ?n = (?s + ?l) mod ?n" using l0 by simp
  moreover have "?l - 1 \<le> ?n" using rf_invD(4) [OF inv] by simp
  ultimately show "rf_inv f'" using inv sn by (simp add: rf_inv_def f' l' s')
  have idx: "((?s + 1) mod ?n + i) mod ?n = (?s + Suc i) mod ?n" for i
    by (simp add: mod_add_left_eq)
  have "[0..<?l] = 0 # map Suc [0..<?l - 1]"
    using l0 by (cases ?l) (simp_all add: map_Suc_upt upt_conv_Cons del: upt_Suc)
  then show "rf_list f = rf_data f ! ?s # rf_list f'"
    using sn by (simp add: rf_list_def f' l' s' idx [simplified])
qed

section \<open>The loops\<close>

lemma rf_write_loop_correct:
  assumes "rf_inv f" "n \<le> length buf"
  shows "\<exists>f'. rf_write_loop f buf n w = Some (f', w + word_of_nat (min n (unat (rf_size f) - unat (rf_len f))))
    \<and> rf_inv f' \<and> rf_size f' = rf_size f
    \<and> rf_list f' = rf_list f @ take (min n (unat (rf_size f) - unat (rf_len f))) buf"
  using assms
proof (induction n arbitrary: f buf w)
  case 0
  then show ?case by simp
next
  case (Suc n)
  show ?case
  proof (cases "rf_len f = rf_size f")
    case True
    with Suc.prems show ?thesis by simp
  next
    case False
    from Suc.prems obtain b bs where buf: "buf = b # bs" by (cases buf) auto
    let ?f = "f\<lparr>rf_data := (rf_data f)[unat (rf_end f) := b], rf_end := (rf_end f + 1) mod rf_size f, rf_len := rf_len f + 1\<rparr>"
    note push = rf_push [OF Suc.prems(1) False refl, of b]
    note lt = rf_not_full [OF Suc.prems(1) False] and en = rf_end_in [OF Suc.prems(1)]
      and s0 = rf_size_nz [OF Suc.prems(1)]
    have k: "min (Suc n) (unat (rf_size f) - unat (rf_len f))
        = Suc (min n (unat (rf_size f) - unat (rf_len f + 1)))"
      using lt by (simp add: unat_succ_lt [OF lt])
    have "n \<le> length bs" using Suc.prems(2) buf by simp
    from Suc.IH [OF push(1) this, of "w + 1"] obtain f' where
      run: "rf_write_loop ?f bs n (w + 1) = Some (f', w + 1 + word_of_nat (min n (unat (rf_size f) - unat (rf_len f + 1))))"
      and f': "rf_inv f'" "rf_size f' = rf_size f"
        "rf_list f' = rf_list ?f @ take (min n (unat (rf_size f) - unat (rf_len f + 1))) bs"
      by auto
    have "rf_write_loop f buf (Suc n) w = rf_write_loop ?f bs n (w + 1)"
      using False s0 en buf by simp
    then show ?thesis using run f' push(2) by (simp add: k buf add_ac)
  qed
qed

lemma rf_read_loop_correct:
  assumes "rf_inv f"
  shows "\<exists>f'. rf_read_loop f n out w = Some (f', out @ take n (rf_list f), w + word_of_nat (min n (unat (rf_len f))))
    \<and> rf_inv f' \<and> rf_size f' = rf_size f \<and> rf_list f' = drop n (rf_list f)"
  using assms
proof (induction n arbitrary: f out w)
  case 0
  then show ?case by simp
next
  case (Suc n)
  show ?case
  proof (cases "rf_len f = 0")
    case True
    then have "rf_list f = []" by (simp add: rf_list_def)
    with Suc.prems True show ?thesis by simp
  next
    case False
    let ?f = "f\<lparr>rf_start := (rf_start f + 1) mod rf_size f, rf_len := rf_len f - 1\<rparr>"
    note pop = rf_pop [OF Suc.prems False refl]
    have st: "unat (rf_start f) < length (rf_data f)" using rf_invD [OF Suc.prems] by simp
    note s0 = rf_size_nz [OF Suc.prems]
    from False have l': "unat (rf_len f) = Suc (unat (rf_len f - 1))"
      by (simp add: unat_pred unat_gt_0)
    have "rf_read_loop f (Suc n) out w = rf_read_loop ?f n (out @ [rf_data f ! unat (rf_start f)]) (w + 1)"
      using False s0 st by simp
    with Suc.IH [OF pop(1), of "out @ [rf_data f ! unat (rf_start f)]" "w + 1"]
    show ?thesis by (auto simp: pop(2) l' add_ac)
  qed
qed

section \<open>The queue contract\<close>

text \<open>
  What a user of the buffer relies on: a write stores the longest prefix that fits and says how
  much it stored, a read takes the oldest bytes out. \<open>q_run\<close> performs a sequence of such calls
  and collects what was accepted and what came out.
\<close>

datatype qop = QWrite bytes | QRead nat

fun q_run :: "('q \<Rightarrow> bytes \<Rightarrow> ('q \<times> nat) option) \<Rightarrow> ('q \<Rightarrow> nat \<Rightarrow> ('q \<times> bytes) option)
    \<Rightarrow> qop list \<Rightarrow> 'q \<Rightarrow> ('q \<times> bytes \<times> bytes) option" where
  "q_run wr rd [] q = Some (q, [], [])"
| "q_run wr rd (QWrite bs # ops) q =
     do { (q', k) \<leftarrow> wr q bs;
          (q'', i, out) \<leftarrow> q_run wr rd ops q';
          Some (q'', take k bs @ i, out) }"
| "q_run wr rd (QRead n # ops) q =
     do { (q', bs) \<leftarrow> rd q n;
          (q'', i, out) \<leftarrow> q_run wr rd ops q';
          Some (q'', i, bs @ out) }"

fun qop_ok :: "qop \<Rightarrow> bool" where
  "qop_ok (QWrite bs) \<longleftrightarrow> length bs < 2 ^ 32"
| "qop_ok (QRead n) \<longleftrightarrow> n < 2 ^ 32"

locale byte_queue =
  fixes wr :: "'q \<Rightarrow> bytes \<Rightarrow> ('q \<times> nat) option"
    and rd :: "'q \<Rightarrow> nat \<Rightarrow> ('q \<times> bytes) option"
    and cont :: "'q \<Rightarrow> bytes"
    and cap :: "'q \<Rightarrow> nat"
    and inv :: "'q \<Rightarrow> bool"
  assumes wr: "inv q \<Longrightarrow> length bs < 2 ^ 32 \<Longrightarrow>
      \<exists>q'. wr q bs = Some (q', min (length bs) (cap q - length (cont q))) \<and> inv q' \<and> cap q' = cap q
         \<and> cont q' = cont q @ take (min (length bs) (cap q - length (cont q))) bs"
    and rd: "inv q \<Longrightarrow> n < 2 ^ 32 \<Longrightarrow>
      \<exists>q'. rd q n = Some (q', take n (cont q)) \<and> inv q' \<and> cap q' = cap q \<and> cont q' = drop n (cont q)"
    and bounded: "inv q \<Longrightarrow> length (cont q) \<le> cap q"
begin

lemma run_fifo:
  "inv q \<Longrightarrow> list_all qop_ok ops \<Longrightarrow>
   \<exists>q' i out. q_run wr rd ops q = Some (q', i, out) \<and> inv q' \<and> cap q' = cap q
     \<and> cont q @ i = out @ cont q'"
proof (induction ops arbitrary: q)
  case Nil
  then show ?case by simp
next
  case (Cons x ops)
  show ?case
  proof (cases x)
    case (QWrite bs)
    with Cons.prems wr [of q bs] obtain q1 where
      1: "wr q bs = Some (q1, min (length bs) (cap q - length (cont q)))" "inv q1" "cap q1 = cap q"
        "cont q1 = cont q @ take (min (length bs) (cap q - length (cont q))) bs" by auto
    from Cons.IH [OF 1(2)] Cons.prems(2) obtain q2 i out where
      2: "q_run wr rd ops q1 = Some (q2, i, out)" "inv q2" "cap q2 = cap q1" "cont q1 @ i = out @ cont q2"
      by auto
    from 1 2 QWrite show ?thesis by simp
  next
    case (QRead n)
    with Cons.prems rd [of q n] obtain q1 where
      1: "rd q n = Some (q1, take n (cont q))" "inv q1" "cap q1 = cap q" "cont q1 = drop n (cont q)"
      by auto
    from Cons.IH [OF 1(2)] Cons.prems(2) obtain q2 i out where
      2: "q_run wr rd ops q1 = Some (q2, i, out)" "inv q2" "cap q2 = cap q1" "cont q1 @ i = out @ cont q2"
      by auto
    have "cont q @ i = take n (cont q) @ (drop n (cont q) @ i)" by simp
    also have "\<dots> = (take n (cont q) @ out) @ cont q2" using 1(4) 2(4) by simp
    finally show ?thesis using 1 2 QRead by simp
  qed
qed

end

definition fifo_put :: "ring_fifo \<Rightarrow> bytes \<Rightarrow> (ring_fifo \<times> nat) option" where
  "fifo_put f bs =
     (case rf_write (Some f) (Some bs) (word_of_nat (length bs)) of
        Some (Some f', w) \<Rightarrow> Some (f', unat w)
      | _ \<Rightarrow> None)"

definition fifo_get :: "ring_fifo \<Rightarrow> nat \<Rightarrow> (ring_fifo \<times> bytes) option" where
  "fifo_get f n =
     (case rf_read (Some f) True (word_of_nat n) of
        Some (Some f', out, r) \<Rightarrow> Some (f', out)
      | _ \<Rightarrow> None)"

lemma rf_write_correct:
  assumes "rf_inv f" "unat count \<le> length buf"
  shows "\<exists>f'. rf_write (Some f) (Some buf) count
      = Some (Some f', word_of_nat (min (unat count) (unat (rf_size f) - unat (rf_len f))))
    \<and> rf_inv f' \<and> rf_size f' = rf_size f
    \<and> rf_list f' = rf_list f @ take (min (unat count) (unat (rf_size f) - unat (rf_len f))) buf"
  using rf_write_loop_correct [OF assms, of 0] by (auto simp: rf_write_def)

lemma rf_read_correct:
  assumes "rf_inv f"
  shows "\<exists>f'. rf_read (Some f) True count
      = Some (Some f', take (unat count) (rf_list f), word_of_nat (min (unat count) (unat (rf_len f))))
    \<and> rf_inv f' \<and> rf_size f' = rf_size f \<and> rf_list f' = drop (unat count) (rf_list f)"
  using rf_read_loop_correct [OF assms, of "unat count" "[]" 0] by (auto simp: rf_read_def)

interpretation ring: byte_queue fifo_put fifo_get rf_list "\<lambda>f. unat (rf_size f)" rf_inv
proof unfold_locales
  fix f :: ring_fifo and bs :: bytes
  assume "rf_inv f" "length bs < 2 ^ 32"
  then have "unat (word_of_nat (length bs) :: u32) = length bs"
    and bound: "min (length bs) (unat (rf_size f) - unat (rf_len f)) < 2 ^ 32"
    by (auto simp: unat_of_nat)
  with rf_write_correct [OF \<open>rf_inv f\<close>, of "word_of_nat (length bs)" bs]
  show "\<exists>f'. fifo_put f bs = Some (f', min (length bs) (unat (rf_size f) - length (rf_list f))) \<and> rf_inv f'
      \<and> unat (rf_size f') = unat (rf_size f)
      \<and> rf_list f' = rf_list f @ take (min (length bs) (unat (rf_size f) - length (rf_list f))) bs"
    by (auto simp: fifo_put_def unat_of_nat)
next
  fix f :: ring_fifo and n :: nat
  assume "rf_inv f" "n < 2 ^ 32"
  then have "unat (word_of_nat n :: u32) = n" by (simp add: unat_of_nat)
  with rf_read_correct [OF \<open>rf_inv f\<close>, of "word_of_nat n"]
  show "\<exists>f'. fifo_get f n = Some (f', take n (rf_list f)) \<and> rf_inv f' \<and> unat (rf_size f') = unat (rf_size f)
      \<and> rf_list f' = drop n (rf_list f)"
    by (auto simp: fifo_get_def)
next
  fix f assume "rf_inv f"
  then show "length (rf_list f) \<le> unat (rf_size f)" by (simp add: rf_inv_def)
qed

section \<open>Properties\<close>

text \<open>
  C12. The ring buffer is a first-in first-out queue: starting from a buffer that satisfies its
  invariant, any sequence of writes and reads returns, keeps the invariant and the capacity, and
  the bytes that were stored before followed by the bytes that the writes accepted are the bytes
  that the reads returned followed by the bytes that are still stored, in this order.
\<close>

theorem rf_fifo:
  assumes "rf_inv f" and "list_all qop_ok ops"
  shows "\<exists>f' accepted returned. q_run fifo_put fifo_get ops f = Some (f', accepted, returned)
    \<and> rf_inv f' \<and> unat (rf_size f') = unat (rf_size f) \<and> rf_list f @ accepted = returned @ rf_list f'"
  using ring.run_fifo [OF assms] by blast

definition rf_example :: ring_fifo where
  "rf_example = \<lparr>rf_data = [7, 8, 9], rf_size = 3, rf_start = 2, rf_end = 1, rf_len = 2\<rparr>"

lemma rf_example_inv: "rf_inv rf_example"
  by (simp add: rf_inv_def rf_example_def)

theorem rf_fifo_witness:
  "\<exists>f' accepted returned. q_run fifo_put fifo_get [QWrite [1, 2], QRead 2, QWrite [3], QRead 9] rf_example
      = Some (f', accepted, returned)
    \<and> rf_inv f' \<and> unat (rf_size f') = unat (rf_size rf_example)
    \<and> rf_list rf_example @ accepted = returned @ rf_list f'"
  by (rule rf_fifo [OF rf_example_inv]) simp

text \<open>
  \<open>rf_write\<close> on a buffer that satisfies its invariant stores the longest prefix of the source
  that still fits, behind what is already stored, and returns the number of bytes stored (so less
  than \<open>count\<close> exactly when the buffer gets full).
\<close>

theorem rf_write_stores:
  assumes "rf_inv f" and "unat count \<le> length buf"
  shows "\<exists>f'. rf_write (Some f) (Some buf) count
      = Some (Some f', word_of_nat (min (unat count) (unat (rf_size f) - unat (rf_len f))))
    \<and> rf_inv f' \<and> rf_list f' = rf_list f @ take (min (unat count) (unat (rf_size f) - unat (rf_len f))) buf"
  using rf_write_correct [OF assms] by blast

theorem rf_write_stores_witness:
  "\<exists>f'. rf_write (Some rf_example) (Some [5, 6]) 2
      = Some (Some f', word_of_nat (min (unat (2 :: u32)) (unat (rf_size rf_example) - unat (rf_len rf_example))))
    \<and> rf_inv f' \<and> rf_list f' = rf_list rf_example
        @ take (min (unat (2 :: u32)) (unat (rf_size rf_example) - unat (rf_len rf_example))) [5, 6]"
  by (rule rf_write_stores [OF rf_example_inv]) simp

end
