(* ===== verification/Descriptors.thy ===== *)
theory Descriptors
  imports Prelude
begin

text \<open>
  The descriptor tables of the processor: the GDT of \<open>mm/mm_gdt.c\<close> and the IDT of \<open>io/int_idt.c\<close>,
  how \<open>io/int_isr.c\<close> and \<open>io/int_irq.c\<close> fill the IDT, and the dispatch of a hardware interrupt. The
  addresses of the assembly stubs and the handlers of other components are arguments. A write to an
  I/O port is recorded in a trace.
\<close>

section \<open>The GDT\<close>

record gdt_entry =
  gd_limit_low :: u16
  gd_base_low :: u16
  gd_base_middle :: u8
  gd_access :: u8
  gd_granularity :: u8
  gd_base_high :: u8

definition gdt_set :: "u32 \<Rightarrow> u32 \<Rightarrow> u8 \<Rightarrow> u8 \<Rightarrow> gdt_entry" where
  "gdt_set base limit access gran =
     \<lparr>gd_limit_low = ucast (limit AND 0xFFFF), gd_base_low = ucast (base AND 0xFFFF),
      gd_base_middle = ucast (drop_bit 16 base AND 0xFF), gd_access = access,
      gd_granularity = ucast (drop_bit 16 limit AND 0x0F) OR (gran AND 0xF0),
      gd_base_high = ucast (drop_bit 24 base AND 0xFF)\<rparr>"

definition gdt_add_entry :: "gdt_entry list \<Rightarrow> s32 \<Rightarrow> u32 \<Rightarrow> u32 \<Rightarrow> u8 \<Rightarrow> u8 \<Rightarrow> gdt_entry list option" where
  "gdt_add_entry gdt num base limit access gran = wr_at gdt (unat num) (gdt_set base limit access gran)"

text \<open>The limit field of the pointer to the table and the table that is flushed to the processor.\<close>

definition gdt_init :: "gdt_entry list \<Rightarrow> (u16 \<times> gdt_entry list) option" where
  "gdt_init gdt = do {
     let limit = 8 * 3 - 1;
     gdt \<leftarrow> gdt_add_entry gdt 0 0 0 0 0;
     gdt \<leftarrow> gdt_add_entry gdt 1 0 0xFFFFFFFF 0x9A 0xCF;
     gdt \<leftarrow> gdt_add_entry gdt 2 0 0xFFFFFFFF 0x92 0xCF;
     Some (limit, gdt) }"

section \<open>The IDT\<close>

record idt_entry =
  id_low_offset :: u16
  id_selector :: u16
  id_separator :: u8
  id_flags :: u8
  id_high_offset :: u16

text \<open>\<open>pos\<close> is a byte and the table has 256 entries.\<close>

definition idt_fill_entry :: "idt_entry list \<Rightarrow> u8 \<Rightarrow> u32 \<Rightarrow> u16 \<Rightarrow> u8 \<Rightarrow> idt_entry list option" where
  "idt_fill_entry idt pos offset sel flg = wr_at idt (unat pos)
     \<lparr>id_low_offset = ucast (offset AND 0xFFFF), id_selector = sel, id_separator = 0, id_flags = flg,
      id_high_offset = ucast (drop_bit 16 offset)\<rparr>"

fun idt_fill_range :: "idt_entry list \<Rightarrow> u8 \<Rightarrow> u32 list \<Rightarrow> u16 \<Rightarrow> u8 \<Rightarrow> idt_entry list option" where
  "idt_fill_range idt pos [] sel flg = Some idt"
| "idt_fill_range idt pos (offset # offsets) sel flg = do {
     idt \<leftarrow> idt_fill_entry idt pos offset sel flg;
     idt_fill_range idt (pos + 1) offsets sel flg }"

definition idt_init :: "idt_entry list \<Rightarrow> (u16 \<times> idt_entry list) option" where
  "idt_init idt = do {
     let maxsize = 8 * 256 - 1;
     idt \<leftarrow> idt_fill_range idt 0 (replicate 256 0) 0 0;
     Some (maxsize, idt) }"

text \<open>\<open>isrs\<close> are the addresses of \<open>isr0\<close> to \<open>isr31\<close>, \<open>irqs\<close> those of \<open>irq0\<close> to \<open>irq15\<close>.\<close>

definition isr_init :: "u32 list \<Rightarrow> u32 \<Rightarrow> idt_entry list \<Rightarrow> idt_entry list option" where
  "isr_init isrs incoming_syscall idt = do {
     idt \<leftarrow> idt_fill_range idt 0 isrs 0x8 0x8E;
     idt_fill_entry idt 0x42 incoming_syscall 0x8 0x8E }"

section \<open>Interrupts\<close>

datatype port_write = Outb u16 u8

definition pic_remap :: "port_write list" where
  "pic_remap = [Outb 0x20 0x11, Outb 0xA0 0x11, Outb 0x21 0x20, Outb 0xA1 0x28, Outb 0x21 0x04,
     Outb 0xA1 0x02, Outb 0x21 0x01, Outb 0xA1 0x01, Outb 0x21 0x0, Outb 0xA1 0x0]"

definition irq_init :: "u32 list \<Rightarrow> idt_entry list \<Rightarrow> (port_write list \<times> idt_entry list) option" where
  "irq_init irqs idt = do {
     idt \<leftarrow> idt_fill_range idt 32 irqs 0x8 0x8E;
     Some (pic_remap, idt) }"

definition reactivate_pic :: "bool \<Rightarrow> port_write list" where
  "reactivate_pic slave = (if slave then [Outb 0xA0 0x20] else []) @ [Outb 0x20 0x20]"

text \<open>
  The handlers run on the state \<open>'s\<close> of the kernel; the one of the timer returns the context of the
  process that runs next.
\<close>

definition irq_handler ::
  "('s \<Rightarrow> u32 \<Rightarrow> ('s \<times> u32) option) \<Rightarrow> ('s \<Rightarrow> 's option) \<Rightarrow> ('s \<Rightarrow> 's option) \<Rightarrow> 's \<Rightarrow> u32 \<Rightarrow> u32 \<Rightarrow>
   ('s \<times> u32 \<times> port_write list) option" where
  "irq_handler timer kb disk s int_no context = do {
     (s, ret) \<leftarrow>
       (if int_no - 32 = 0 then timer s context
        else if int_no - 32 = 1 then do { s \<leftarrow> kb s; Some (s, context) }
        else if int_no - 32 = 14 then do { s \<leftarrow> disk s; Some (s, context) }
        else Some (s, context));
     Some (s, ret, if int_no > 40 then reactivate_pic True else reactivate_pic False) }"

section \<open>What the processor reads\<close>

text \<open>The base and the limit of a segment and the entry point of an interrupt, as the processor assembles them.\<close>

definition gdt_base :: "gdt_entry \<Rightarrow> u32" where
  "gdt_base e = ucast (gd_base_low e) OR push_bit 16 (ucast (gd_base_middle e)) OR push_bit 24 (ucast (gd_base_high e))"

definition gdt_limit :: "gdt_entry \<Rightarrow> u32" where
  "gdt_limit e = ucast (gd_limit_low e) OR push_bit 16 (ucast (gd_granularity e) AND 0x0F)"

definition idt_offset :: "idt_entry \<Rightarrow> u32" where
  "idt_offset e = ucast (id_low_offset e) OR push_bit 16 (ucast (id_high_offset e))"

lemma and_low [layout_simps]:
  "x AND 0xFFFF = take_bit 16 x" "x AND 0xFF = take_bit 8 x" "x AND 0xF = take_bit 4 x" for x :: u32
  by (simp_all add: take_bit_eq_mask mask_eq_exp_minus_1)

lemma and_high [layout_simps]: "g AND 0xF0 = push_bit 4 (drop_bit 4 g)" for g :: u8
proof -
  have m: "(0xF0 :: u8) = push_bit 4 (mask 4)" by (simp add: mask_eq_exp_minus_1)
  show ?thesis unfolding m by (rule bit_word_eqI) (auto simp: bit_and_iff bit_push_bit_iff bit_mask_iff bit_drop_bit_eq)
qed

lemma idt_offset_fill:
  "idt_offset \<lparr>id_low_offset = ucast (offset AND 0xFFFF), id_selector = sel, id_separator = 0, id_flags = flg,
     id_high_offset = ucast (drop_bit 16 offset)\<rparr> = offset"
proof (rule bit_word_eqI)
  fix n :: nat assume "n < LENGTH(32)"
  then show "bit (idt_offset \<lparr>id_low_offset = ucast (offset AND 0xFFFF), id_selector = sel, id_separator = 0, id_flags = flg,
     id_high_offset = ucast (drop_bit 16 offset)\<rparr>) n = bit offset n"
    by (auto simp: idt_offset_def bit_simps layout_simps)
qed

lemma idt_fill_range_eq:
  "unat pos + length offs \<le> 256 \<Longrightarrow> length idt = 256 \<Longrightarrow> \<exists>idt'. idt_fill_range idt pos offs sel flg = Some idt' \<and>
     length idt' = 256 \<and> (\<forall>i. if unat pos \<le> i \<and> i < unat pos + length offs
        then idt_offset (idt' ! i) = offs ! (i - unat pos) \<and> id_selector (idt' ! i) = sel \<and> id_flags (idt' ! i) = flg
        else idt' ! i = idt ! i)"
proof (induction offs arbitrary: pos idt)
  case (Cons a offs)
  let ?idt = "idt[unat pos := \<lparr>id_low_offset = ucast (a AND 0xFFFF), id_selector = sel, id_separator = 0, id_flags = flg,
      id_high_offset = ucast (drop_bit 16 a)\<rparr>]"
  have 1: "idt_fill_entry idt pos a sel flg = Some ?idt" using Cons.prems by (simp add: idt_fill_entry_def)
  show ?case
  proof (cases offs)
    case Nil
    then show ?thesis using 1 Cons.prems by (intro exI [of _ ?idt]) (auto simp: idt_offset_fill nth_list_update)
  next
    case (Cons b bs)
    then have p: "unat (pos + 1) = unat pos + 1" using Cons.prems(1) unat_add_lem [of pos 1] by simp
    have "unat (pos + 1) + length offs \<le> 256" using p Cons.prems by simp
    moreover have "length ?idt = 256" using Cons.prems by simp
    ultimately obtain idt' where i: "idt_fill_range ?idt (pos + 1) offs sel flg = Some idt'" "length idt' = 256"
      "\<forall>i. if unat (pos + 1) \<le> i \<and> i < unat (pos + 1) + length offs
        then idt_offset (idt' ! i) = offs ! (i - unat (pos + 1)) \<and> id_selector (idt' ! i) = sel \<and> id_flags (idt' ! i) = flg
        else idt' ! i = ?idt ! i" using Cons.IH by blast
    have "if unat pos \<le> i \<and> i < unat pos + length (a # offs)
        then idt_offset (idt' ! i) = (a # offs) ! (i - unat pos) \<and> id_selector (idt' ! i) = sel \<and> id_flags (idt' ! i) = flg
        else idt' ! i = idt ! i" for i
      using i(3) [rule_format, of i] p Cons.prems
      by (cases "i = unat pos") (auto simp: idt_offset_fill nth_Cons' split: if_splits)
    with 1 i show ?thesis by auto
  qed
qed auto

section \<open>Properties\<close>

text \<open>
  A GDT entry reads back as what \<open>gdt_add_entry\<close> was given: the full 32-bit base, the low 20 bits
  of the limit, the access byte and the upper four bits of the granularity byte.
\<close>

theorem gdt_roundtrip:
  "gdt_base (gdt_set base limit access gran) = base \<and>
   gdt_limit (gdt_set base limit access gran) = limit AND mask 20 \<and>
   gd_access (gdt_set base limit access gran) = access \<and>
   gd_granularity (gdt_set base limit access gran) AND 0xF0 = gran AND 0xF0"
proof (intro conjI)
  show "gdt_base (gdt_set base limit access gran) = base"
  proof (rule bit_word_eqI)
    fix n :: nat assume "n < LENGTH(32)"
    then show "bit (gdt_base (gdt_set base limit access gran)) n = bit base n"
      by (cases "n < 24") (auto simp: gdt_base_def gdt_set_def bit_simps layout_simps)
  qed
  show "gdt_limit (gdt_set base limit access gran) = limit AND mask 20"
    by (rule bit_word_eqI) (auto simp: gdt_limit_def gdt_set_def bit_simps layout_simps)
  show "gd_granularity (gdt_set base limit access gran) AND 0xF0 = gran AND 0xF0"
    by (rule bit_word_eqI) (auto simp: gdt_set_def bit_simps layout_simps)
  show "gd_access (gdt_set base limit access gran) = access" by (simp add: gdt_set_def)
qed

text \<open>
  After \<open>idt_init\<close>, \<open>isr_init\<close> and \<open>irq_init\<close> the table has, for every exception \<open>i < 32\<close>, for every
  hardware interrupt \<open>32 + i\<close> and for the system call \<open>0x42\<close>, the entry point of its own handler in the
  kernel's code segment; every other entry is blank.
\<close>

theorem idt_complete:
  assumes len: "length idt = 256" "length isrs = 32" "length irqs = 16"
  shows "\<exists>idt1 idt2 idt3. idt_init idt = Some (2047, idt1) \<and> isr_init isrs sys idt1 = Some idt2 \<and>
    irq_init irqs idt2 = Some (pic_remap, idt3) \<and>
    (\<forall>i < 32. idt_offset (idt3 ! i) = isrs ! i \<and> id_selector (idt3 ! i) = 8) \<and>
    (\<forall>i < 16. idt_offset (idt3 ! (32 + i)) = irqs ! i \<and> id_selector (idt3 ! (32 + i)) = 8) \<and>
    idt_offset (idt3 ! 0x42) = sys \<and>
    (\<forall>i < 256. 48 \<le> i \<and> i \<noteq> 0x42 \<longrightarrow> idt_offset (idt3 ! i) = 0 \<and> id_flags (idt3 ! i) = 0)"
proof -
  obtain idt1 where 1: "idt_fill_range idt 0 (replicate 256 0) 0 0 = Some idt1" "length idt1 = 256"
    "\<And>i. i < 256 \<Longrightarrow> idt_offset (idt1 ! i) = 0 \<and> id_flags (idt1 ! i) = 0"
    using idt_fill_range_eq [of 0 "replicate 256 0" idt 0 0] len by auto
  obtain idt2 where 2: "idt_fill_range idt1 0 isrs 0x8 0x8E = Some idt2" "length idt2 = 256"
    "\<And>i. if i < 32 then idt_offset (idt2 ! i) = isrs ! i \<and> id_selector (idt2 ! i) = 8 else idt2 ! i = idt1 ! i"
    using idt_fill_range_eq [of 0 isrs idt1 8 "0x8E"] len 1(2) by auto
  obtain e where e: "idt_fill_entry idt2 0x42 sys 0x8 0x8E = Some (idt2[0x42 := e])" "idt_offset e = sys"
    using 2(2) by (auto simp: idt_fill_entry_def idt_offset_fill)
  let ?idt2 = "idt2[0x42 := e]"
  obtain idt3 where 3: "idt_fill_range ?idt2 32 irqs 0x8 0x8E = Some idt3" "length idt3 = 256"
    "\<And>i. if 32 \<le> i \<and> i < 48 then idt_offset (idt3 ! i) = irqs ! (i - 32) \<and> id_selector (idt3 ! i) = 8
       else idt3 ! i = ?idt2 ! i"
    using idt_fill_range_eq [of 32 irqs ?idt2 8 "0x8E"] len 2(2) by auto
  have "idt_offset (idt3 ! i) = isrs ! i \<and> id_selector (idt3 ! i) = 8" if "i < 32" for i
    using 3(3) [of i] 2(3) [of i] that by simp
  moreover have "idt_offset (idt3 ! (32 + i)) = irqs ! i \<and> id_selector (idt3 ! (32 + i)) = 8" if "i < 16" for i
    using 3(3) [of "32 + i"] that by simp
  moreover have "idt_offset (idt3 ! 0x42) = sys" using 3(3) [of "0x42"] 2(2) e by simp
  moreover have "idt_offset (idt3 ! i) = 0 \<and> id_flags (idt3 ! i) = 0" if "i < 256" "48 \<le> i" "i \<noteq> 0x42" for i
    using 3(3) [of i] 2(3) [of i] 1(3) [of i] that by simp
  ultimately show ?thesis using 1(1) 2(1) 3(1) e by (simp add: idt_init_def isr_init_def irq_init_def)
qed

definition blank_idt :: "idt_entry list" where
  "blank_idt = replicate 256 \<lparr>id_low_offset = 0, id_selector = 0, id_separator = 0, id_flags = 0, id_high_offset = 0\<rparr>"

theorem idt_complete_witness:
  "\<exists>idt1 idt2 idt3. idt_init blank_idt = Some (2047, idt1) \<and> isr_init (replicate 32 0x100000) 0x200000 idt1 = Some idt2 \<and>
    irq_init (replicate 16 0x300000) idt2 = Some (pic_remap, idt3) \<and>
    (\<forall>i < 32. idt_offset (idt3 ! i) = replicate 32 0x100000 ! i \<and> id_selector (idt3 ! i) = 8) \<and>
    (\<forall>i < 16. idt_offset (idt3 ! (32 + i)) = replicate 16 0x300000 ! i \<and> id_selector (idt3 ! (32 + i)) = 8) \<and>
    idt_offset (idt3 ! 0x42) = 0x200000 \<and>
    (\<forall>i < 256. 48 \<le> i \<and> i \<noteq> 0x42 \<longrightarrow> idt_offset (idt3 ! i) = 0 \<and> id_flags (idt3 ! i) = 0)"
  by (rule idt_complete) (simp_all add: blank_idt_def)

end
