(* ===== verification/Disk.thy ===== *)
theory Disk
  imports Descriptors
begin

text \<open>
  The hard disk driver \<open>io/io_harddisk.c\<close>: the geometry that the drive reports, the translation of a
  linear sector number into cylinder, head and sector, and the register writes that select a sector.
  The data port transfers one sector of 512 bytes. Reading the status register and waiting for the
  interrupt have no effect on the data; they are in theory \<open>HdInit\<close>.
\<close>

section \<open>Geometry\<close>

text \<open>The fields of \<open>struct hd_info\<close> that the driver uses.\<close>

record hd_info =
  apparent_cyl :: u16
  apparent_head :: u16
  apparent_spt :: u16
  capacity_low :: u16
  capacity_high :: u16

record chs_address =
  ad_cyl :: u16
  ad_head :: u8
  ad_sector :: u8

definition get_hdsize :: "hd_info \<Rightarrow> u32" where
  "get_hdsize hdi = push_bit 16 (ucast (capacity_high hdi)) + ucast (capacity_low hdi)"

text \<open>A drive that reports no sectors or no heads makes the kernel divide by zero.\<close>

definition itoaddr :: "hd_info \<Rightarrow> u32 \<Rightarrow> chs_address option" where
  "itoaddr hdi iaddr =
     (let spt = ucast (apparent_spt hdi) :: u32; heads = ucast (apparent_head hdi) :: u32 in
      if spt = 0 \<or> heads = 0 then None
      else
        let sector = ucast (iaddr mod spt + 1) :: u8;
            track = (iaddr - ucast sector + 1) div spt;
            head = ucast (track mod heads) :: u8;
            cyl = ucast ((track - ucast head) div heads) :: u16
        in Some \<lparr>ad_cyl = cyl, ad_head = head, ad_sector = sector\<rparr>)"

section \<open>Selecting a sector\<close>

definition HDBASE :: u16 where "HDBASE = 0x1F0"
definition MASTERDRIVE :: u8 where "MASTERDRIVE = 0xA0"
definition HDCMD_READ :: u8 where "HDCMD_READ = 0x20"
definition HDCMD_WRITE :: u8 where "HDCMD_WRITE = 0x30"

definition select_masterdrive :: "u8 \<Rightarrow> port_write list" where
  "select_masterdrive head = [Outb (HDBASE + 6) (MASTERDRIVE OR head)]"

text \<open>
  The register writes of \<open>hd_read_sector\<close> and \<open>hd_write_sector\<close> up to the command. \<open>outb\<close> takes a
  byte: the low byte of the cylinder goes to the low register, and the shift of the 16-bit cylinder
  by 16 leaves 0 for the high register. \<open>None\<close> is the panic.
\<close>

definition hd_select :: "hd_info \<Rightarrow> u32 \<Rightarrow> u8 \<Rightarrow> port_write list option" where
  "hd_select hdi nr cmd =
     (if get_hdsize hdi < nr then None
      else do {
        addr \<leftarrow> itoaddr hdi nr;
        Some ([Outb (HDBASE + 2) 1, Outb (HDBASE + 3) (ad_sector addr), Outb (HDBASE + 4) (ucast (ad_cyl addr)),
               Outb (HDBASE + 5) (ucast (drop_bit 16 (ucast (ad_cyl addr) :: u32)))] @
              select_masterdrive (ad_head addr) @ [Outb (HDBASE + 7) cmd]) })"

text \<open>
  The sectors of the drive, by their linear number. \<open>None\<close> is the panic for a number that is too large.
\<close>

type_synonym sectors = "u32 \<Rightarrow> bytes"

definition hd_write_sector :: "hd_info \<Rightarrow> sectors \<Rightarrow> u32 \<Rightarrow> bytes \<Rightarrow> sectors option" where
  "hd_write_sector hdi d dest src = (if get_hdsize hdi < dest then None else Some (d(dest := src)))"

definition hd_read_sector :: "hd_info \<Rightarrow> sectors \<Rightarrow> u32 \<Rightarrow> bytes option" where
  "hd_read_sector hdi d src = (if get_hdsize hdi < src then None else Some (d src))"

section \<open>Translation\<close>

text \<open>The values of the translation on natural numbers, for a drive whose numbers fit their fields.\<close>

definition chs_ok :: "hd_info \<Rightarrow> bool" where
  "chs_ok hdi \<longleftrightarrow> 0 < unat (apparent_spt hdi) \<and> unat (apparent_spt hdi) < 256 \<and>
     0 < unat (apparent_head hdi) \<and> unat (apparent_head hdi) \<le> 256"

lemma unat_ucast_up: "unat (ucast (w :: u16) :: u32) = unat w" "unat (ucast (b :: u8) :: u32) = unat b"
  using unat_u16_lt [of w] unat_u8_lt [of b] by (simp_all add: unsigned_ucast_eq take_bit_nat_eq_self)

lemma unat_ucast_u8: "unat w < 256 \<Longrightarrow> unat (ucast w :: u8) = unat w" for w :: u32
  by (simp add: unsigned_ucast_eq take_bit_nat_eq_self)

lemma unat_ucast_u16: "unat w < 65536 \<Longrightarrow> unat (ucast w :: u16) = unat w" for w :: u32
  by (simp add: unsigned_ucast_eq take_bit_nat_eq_self)

lemma itoaddr_eq:
  assumes ok: "chs_ok hdi" and cyl: "unat n div unat (apparent_spt hdi) div unat (apparent_head hdi) < 65536"
  shows "\<exists>a. itoaddr hdi n = Some a \<and> unat (ad_sector a) = unat n mod unat (apparent_spt hdi) + 1 \<and>
    unat (ad_head a) = unat n div unat (apparent_spt hdi) mod unat (apparent_head hdi) \<and>
    unat (ad_cyl a) = unat n div unat (apparent_spt hdi) div unat (apparent_head hdi)"
proof -
  let ?S = "unat (apparent_spt hdi)" and ?H = "unat (apparent_head hdi)"
  let ?spt = "ucast (apparent_spt hdi) :: u32" and ?heads = "ucast (apparent_head hdi) :: u32"
  have S: "unat ?spt = ?S" "unat ?heads = ?H" by (simp_all add: unat_ucast_up)
  have pos: "0 < ?S" "?S < 256" "0 < ?H" "?H \<le> 256" using ok by (auto simp: chs_ok_def)
  then have nz: "?spt \<noteq> 0" "?heads \<noteq> 0" using S by (metis unat_0 less_irrefl)+
  have m: "unat n mod ?S < ?S" using pos by simp
  have 1: "unat (n mod ?spt) = unat n mod ?S" by (simp add: unat_mod S)
  have 2: "unat (n mod ?spt + 1) = unat n mod ?S + 1"
    using unat_add_lem [of "n mod ?spt" 1] 1 m pos by simp
  let ?sector = "ucast (n mod ?spt + 1) :: u8"
  have s: "unat ?sector = unat n mod ?S + 1" 
    using unat_ucast_u8 [of "n mod ?spt + 1"] 2 m pos by linarith
  have us: "(ucast ?sector :: u32) = n mod ?spt + 1"
    by (rule word_unat_eq_iff [THEN iffD2]) (simp only: unat_ucast_up s 2)
  have t: "(n - ucast ?sector + 1) div ?spt = n div ?spt"
  proof -
    have "n - ucast ?sector + 1 = n - n mod ?spt" unfolding us by simp
    moreover have "unat (n - n mod ?spt) = unat n - unat n mod ?S"
      using 1 by (subst unat_sub) (simp_all add: word_le_nat_alt)
    ultimately show ?thesis
      by (simp add: word_unat_eq_iff unat_div S minus_mod_eq_mult_div)
  qed
  have tu: "unat (n div ?spt) = unat n div ?S" by (simp add: unat_div S)
  let ?head = "ucast (n div ?spt mod ?heads) :: u8"
  have hu: "unat (n div ?spt mod ?heads) = unat n div ?S mod ?H" by (simp add: unat_mod tu S)
  have hl: "unat n div ?S mod ?H < ?H" using pos by simp
  have h: "unat ?head = unat n div ?S mod ?H" 
    using unat_ucast_u8 [of "n div ?spt mod ?heads"] hu hl pos by linarith
  have uh: "(ucast ?head :: u32) = n div ?spt mod ?heads"
    by (rule word_unat_eq_iff [THEN iffD2]) (simp only: unat_ucast_up h hu)
  have cu: "unat ((n div ?spt - ucast ?head) div ?heads) = unat n div ?S div ?H"
  proof -
    have "unat (n div ?spt - n div ?spt mod ?heads) = unat n div ?S - unat n div ?S mod ?H"
      using hu tu by (subst unat_sub) (simp_all add: word_le_nat_alt)
    then show ?thesis unfolding uh using pos
      by (simp add: unat_div S minus_mod_eq_mult_div)
  qed
  have c: "unat (ucast ((n div ?spt - ucast ?head) div ?heads) :: u16) = unat n div ?S div ?H"
    using cu cyl by (simp add: unat_ucast_u16)
  show ?thesis using nz s h c t by (simp add: itoaddr_def Let_def)
qed

section \<open>Properties\<close>

text \<open>
  \<open>itoaddr\<close> is the inverse of the CHS numbering: for a drive whose sectors per track fit a byte
  and with at most 256 heads, and a sector whose cylinder fits 16 bits, the address it computes
  counts back to the sector, the head exists and the sector is between 1 and the track's length.
\<close>

theorem itoaddr_correct:
  assumes ok: "chs_ok hdi" and cyl: "unat n div unat (apparent_spt hdi) div unat (apparent_head hdi) < 65536"
  shows "\<exists>a. itoaddr hdi n = Some a \<and>
    (unat (ad_cyl a) * unat (apparent_head hdi) + unat (ad_head a)) * unat (apparent_spt hdi) + (unat (ad_sector a) - 1) = unat n \<and>
    unat (ad_head a) < unat (apparent_head hdi) \<and> 1 \<le> unat (ad_sector a) \<and> unat (ad_sector a) \<le> unat (apparent_spt hdi)"
proof -
  obtain a where a: "itoaddr hdi n = Some a" "unat (ad_sector a) = unat n mod unat (apparent_spt hdi) + 1"
    "unat (ad_head a) = unat n div unat (apparent_spt hdi) mod unat (apparent_head hdi)"
    "unat (ad_cyl a) = unat n div unat (apparent_spt hdi) div unat (apparent_head hdi)"
    using itoaddr_eq [OF assms] by blast
  have "0 < unat (apparent_spt hdi)" "0 < unat (apparent_head hdi)" using ok by (auto simp: chs_ok_def)
  then show ?thesis using a(1) by (intro exI [of _ a]) (simp add: a(2-4) Suc_le_eq)
qed

definition hdi_example :: hd_info where
  "hdi_example = \<lparr>apparent_cyl = 1000, apparent_head = 16, apparent_spt = 63, capacity_low = 25000, capacity_high = 15\<rparr>"

theorem itoaddr_correct_witness:
  "\<exists>a. itoaddr hdi_example 300000 = Some a \<and>
    (unat (ad_cyl a) * unat (apparent_head hdi_example) + unat (ad_head a)) * unat (apparent_spt hdi_example) +
      (unat (ad_sector a) - 1) = unat (300000 :: u32) \<and>
    unat (ad_head a) < unat (apparent_head hdi_example) \<and> 1 \<le> unat (ad_sector a) \<and>
    unat (ad_sector a) \<le> unat (apparent_spt hdi_example)"
  by (rule itoaddr_correct) (simp_all add: chs_ok_def hdi_example_def)

text \<open>
  The high cylinder register always gets 0, so the driver cannot tell cylinder \<open>c\<close> from cylinder
  \<open>c + 256\<close>: two sectors that lie 256 cylinders apart are selected by the same register writes, and
  a write to one of them goes to the sector of the other.
\<close>

theorem hd_select_aliases:
  assumes ok: "chs_ok hdi" and far: "unat n' = unat n + 256 * unat (apparent_head hdi) * unat (apparent_spt hdi)"
    and cyl: "unat n' div unat (apparent_spt hdi) div unat (apparent_head hdi) < 65536"
    and size: "unat n' \<le> unat (get_hdsize hdi)"
  shows "hd_select hdi n' cmd = hd_select hdi n cmd \<and> hd_select hdi n cmd \<noteq> None"
proof -
  let ?S = "unat (apparent_spt hdi)" and ?H = "unat (apparent_head hdi)"
  have pos: "0 < ?S" "0 < ?H" using ok by (auto simp: chs_ok_def)
  have t: "unat n' div ?S = unat n div ?S + 256 * ?H" unfolding far using pos by simp
  then have c': "unat n' div ?S div ?H = unat n div ?S div ?H + 256" using pos by simp
  with cyl have c: "unat n div ?S div ?H < 65536" by simp
  obtain a where a: "itoaddr hdi n = Some a" "unat (ad_sector a) = unat n mod ?S + 1"
    "unat (ad_head a) = unat n div ?S mod ?H" "unat (ad_cyl a) = unat n div ?S div ?H"
    using itoaddr_eq [OF ok c] by blast
  obtain a' where a': "itoaddr hdi n' = Some a'" "unat (ad_sector a') = unat n' mod ?S + 1"
    "unat (ad_head a') = unat n' div ?S mod ?H" "unat (ad_cyl a') = unat n' div ?S div ?H"
    using itoaddr_eq [OF ok cyl] by blast
  have "unat n' mod ?S = unat n mod ?S" unfolding far by simp
  with a a' have 1: "ad_sector a' = ad_sector a" by (simp add: word_unat_eq_iff)
  have 2: "ad_head a' = ad_head a" using a(3) a'(3) unfolding t by (simp add: word_unat_eq_iff)
  have "unat (ad_cyl a') = unat (ad_cyl a) + 256" using a(4) a'(4) c' by simp
  then have "unat (ucast (ad_cyl a') :: u8) = unat (ucast (ad_cyl a) :: u8)"
    by (simp add: unsigned_ucast_eq take_bit_eq_mod)
  then have 3: "(ucast (ad_cyl a') :: u8) = ucast (ad_cyl a)" by (simp only: word_unat_eq_iff)
  have high: "drop_bit 16 (ucast (c :: u16) :: u32) = 0" for c
    by (rule bit_word_eqI) (auto simp: bit_simps dest: bit_imp_le_length)
  have "\<not> get_hdsize hdi < n'" "\<not> get_hdsize hdi < n" using size far by (auto simp: word_less_nat_alt)
  then show ?thesis using a(1) a'(1) 1 2 3 high by (simp add: hd_select_def)
qed

theorem hd_select_aliases_witness:
  "hd_select hdi_example 258148 HDCMD_WRITE = hd_select hdi_example 100 HDCMD_WRITE \<and>
   hd_select hdi_example 100 HDCMD_WRITE \<noteq> None"
  by (rule hd_select_aliases) (simp_all add: chs_ok_def hdi_example_def get_hdsize_def)

end
