(* ===== verification/CMemory.thy ===== *)
theory CMemory
  imports Prelude
begin

text \<open>
  Byte-addressed memory and the block operations of \<open>lib/string.c\<close>: \<open>memset\<close>, \<open>bzero\<close>,
  \<open>memcpy\<close> and \<open>memmove\<close>. An address is a natural number and \<open>NULL\<close> is 0; a pointer that runs
  over the end of the 32-bit address space is outside of the model, as it is outside of C.
\<close>

type_synonym addr = nat
type_synonym mem = "addr \<Rightarrow> u8"

abbreviation NULL :: addr where
  "NULL \<equiv> 0"

section \<open>Runs of bytes in memory\<close>

definition get_bytes :: "mem \<Rightarrow> addr \<Rightarrow> nat \<Rightarrow> bytes" where
  "get_bytes m p n = map (\<lambda>i. m (p + i)) [0..<n]"

definition put_bytes :: "mem \<Rightarrow> addr \<Rightarrow> bytes \<Rightarrow> mem" where
  "put_bytes m p bs = (\<lambda>a. if p \<le> a \<and> a < p + length bs then bs ! (a - p) else m a)"

lemma length_get_bytes [simp]: "length (get_bytes m p n) = n"
  by (simp add: get_bytes_def)

lemma nth_get_bytes [simp]: "i < n \<Longrightarrow> get_bytes m p n ! i = m (p + i)"
  by (simp add: get_bytes_def)

lemma get_bytes_0 [simp]: "get_bytes m p 0 = []"
  by (simp add: get_bytes_def)

lemma get_bytes_Suc: "get_bytes m p (Suc n) = m p # get_bytes m (p + 1) n"
  by (rule nth_equalityI) (auto simp: nth_Cons split: nat.splits)

lemma get_bytes_append: "get_bytes m p (a + b) = get_bytes m p a @ get_bytes m (p + a) b"
  by (rule nth_equalityI) (auto simp: nth_append add.assoc)

lemma put_bytes_Nil [simp]: "put_bytes m p [] = m"
  by (rule ext) (auto simp: put_bytes_def)

lemma put_bytes_out: "a < p \<or> p + length bs \<le> a \<Longrightarrow> put_bytes m p bs a = m a"
  by (auto simp: put_bytes_def)

lemma put_bytes_in: "i < length bs \<Longrightarrow> put_bytes m p bs (p + i) = bs ! i"
  by (auto simp: put_bytes_def)

lemma diff_Suc_eqD: "x - p = Suc k \<Longrightarrow> x - Suc p = k" for x p k :: nat
  by simp

lemma put_bytes_Cons: "put_bytes m p (b # bs) = put_bytes (m(p := b)) (p + 1) bs"
  by (rule ext) (auto simp: put_bytes_def nth_Cons dest: diff_Suc_eqD split: nat.splits)

lemma put_bytes_Cons2: "put_bytes m p (b # bs) = (put_bytes m (p + 1) bs)(p := b)"
  by (rule ext) (auto simp: put_bytes_def nth_Cons dest: diff_Suc_eqD split: nat.splits)

lemma put_bytes_append: "put_bytes m p (xs @ ys) = put_bytes (put_bytes m p xs) (p + length xs) ys"
  by (rule ext) (auto simp: put_bytes_def nth_append)

lemma put_bytes_snoc: "put_bytes m p (xs @ [y]) = (put_bytes m p xs)(p + length xs := y)"
  by (simp add: put_bytes_append put_bytes_Cons)

lemma put_bytes_same [simp]: "length ys = length xs \<Longrightarrow> put_bytes (put_bytes m p xs) p ys = put_bytes m p ys"
  by (rule ext) (auto simp: put_bytes_def)

lemma get_put_bytes [simp]: "n = length bs \<Longrightarrow> get_bytes (put_bytes m p bs) p n = bs"
  by (rule nth_equalityI) (auto simp: put_bytes_in)

lemma get_put_bytes_other:
  "q + n \<le> p \<or> p + length bs \<le> q \<Longrightarrow> get_bytes (put_bytes m p bs) q n = get_bytes m q n"
  by (rule nth_equalityI) (auto simp: put_bytes_def)

lemma get_bytes_cong: "(\<And>i. i < n \<Longrightarrow> m (p + i) = m' (p + i)) \<Longrightarrow> get_bytes m p n = get_bytes m' p n"
  by (rule nth_equalityI) auto

section \<open>Block operations\<close>

text \<open>The loops run \<open>count\<close> times and move both pointers by one byte in each round.\<close>

fun memset_loop :: "mem \<Rightarrow> addr \<Rightarrow> u8 \<Rightarrow> nat \<Rightarrow> mem" where
  "memset_loop m dest v 0 = m"
| "memset_loop m dest v (Suc n) = memset_loop (m(dest := v)) (dest + 1) v n"

definition memset :: "mem \<Rightarrow> addr \<Rightarrow> u8 \<Rightarrow> u32 \<Rightarrow> mem \<times> addr" where
  "memset m dest v count = (memset_loop m dest v (unat count), dest)"

definition bzero :: "mem \<Rightarrow> addr \<Rightarrow> u32 \<Rightarrow> mem" where
  "bzero m dest count = fst (memset m dest 0 count)"

fun memcpy_loop :: "mem \<Rightarrow> addr \<Rightarrow> addr \<Rightarrow> nat \<Rightarrow> mem" where
  "memcpy_loop m dest src 0 = m"
| "memcpy_loop m dest src (Suc n) = memcpy_loop (m(dest := m src)) (dest + 1) (src + 1) n"

definition memcpy :: "mem \<Rightarrow> addr \<Rightarrow> addr \<Rightarrow> u32 \<Rightarrow> mem \<times> addr" where
  "memcpy m dest src count = (memcpy_loop m dest src (unat count), dest)"

text \<open>\<open>memmove\<close> goes through a temporary block; \<open>temp\<close> is what \<open>mallocn\<close> returned for it.\<close>

definition memmove :: "mem \<Rightarrow> addr \<Rightarrow> addr \<Rightarrow> addr \<Rightarrow> u32 \<Rightarrow> mem \<times> addr" where
  "memmove m temp dest src count =
     (let m1 = fst (memcpy m temp src count);
          m2 = fst (memcpy m1 dest temp count)
      in (m2, dest))"

lemma memset_loop_eq: "memset_loop m p v n = put_bytes m p (replicate n v)"
  by (induction n arbitrary: m p) (simp_all add: put_bytes_Cons)

lemma bzero_eq: "bzero m p n = put_bytes m p (replicate (unat n) 0)"
  by (simp add: bzero_def memset_def memset_loop_eq)

text \<open>
  The forward copy is right where the destination does not start inside of the source: it may
  overlap it from below.
\<close>

lemma memcpy_loop_eq:
  "dest \<le> src \<or> src + n \<le> dest \<Longrightarrow> memcpy_loop m dest src n = put_bytes m dest (get_bytes m src n)"
proof (induction n arbitrary: m dest src)
  case 0
  then show ?case by simp
next
  case (Suc n)
  let ?m = "m(dest := m src)"
  from Suc.prems have "dest + 1 \<le> src + 1 \<or> (src + 1) + n \<le> dest + 1" by auto
  then have "memcpy_loop ?m (dest + 1) (src + 1) n = put_bytes ?m (dest + 1) (get_bytes ?m (src + 1) n)"
    by (rule Suc.IH)
  moreover have "get_bytes ?m (src + 1) n = get_bytes m (src + 1) n"
    using Suc.prems by (intro get_bytes_cong) auto
  ultimately show ?case by (simp add: get_bytes_Suc put_bytes_Cons)
qed

lemma memcpy_eq:
  "dest \<le> src \<or> src + unat count \<le> dest \<Longrightarrow>
   memcpy m dest src count = (put_bytes m dest (get_bytes m src (unat count)), dest)"
  by (simp add: memcpy_def memcpy_loop_eq)

section \<open>Properties\<close>

definition disjoint_run :: "addr \<Rightarrow> addr \<Rightarrow> nat \<Rightarrow> bool" where
  "disjoint_run p q n \<longleftrightarrow> p + n \<le> q \<or> q + n \<le> p"

text \<open>
  \<open>memmove\<close> copies \<open>count\<close> bytes correctly however source and destination overlap, provided
  the temporary block that \<open>mallocn\<close> returned lies apart from both: afterwards the destination
  holds what the source held before, and no byte outside of the destination and the temporary
  block has changed.
\<close>

theorem memmove_correct:
  assumes src: "disjoint_run temp src (unat count)" and dest: "disjoint_run temp dest (unat count)"
    and out: "a < temp \<or> temp + unat count \<le> a" "a < dest \<or> dest + unat count \<le> a"
  shows "get_bytes (fst (memmove m temp dest src count)) dest (unat count) = get_bytes m src (unat count)
    \<and> fst (memmove m temp dest src count) a = m a"
proof -
  let ?n = "unat count" and ?bs = "get_bytes m src (unat count)"
  have 1: "fst (memcpy m temp src count) = put_bytes m temp ?bs"
    using src by (subst memcpy_eq) (auto simp: disjoint_run_def)
  have "fst (memcpy (put_bytes m temp ?bs) dest temp count) = put_bytes (put_bytes m temp ?bs) dest ?bs"
    using dest by (subst memcpy_eq) (auto simp: disjoint_run_def)
  then have "fst (memmove m temp dest src count) = put_bytes (put_bytes m temp ?bs) dest ?bs"
    by (simp add: memmove_def Let_def 1)
  then show ?thesis using out by (auto simp: put_bytes_out)
qed

definition mem_example :: mem where
  "mem_example = put_bytes (\<lambda>_. 0) 10 [1, 2, 3, 4]"

theorem memmove_correct_witness:
  "get_bytes (fst (memmove mem_example 50 11 10 3)) 11 (unat (3 :: u32)) = get_bytes mem_example 10 (unat (3 :: u32))
    \<and> fst (memmove mem_example 50 11 10 3) 10 = mem_example 10"
  by (rule memmove_correct) (simp_all add: disjoint_run_def)

end
