(* ===== verification/CString.thy ===== *)
theory CString
  imports CMemory
begin

text \<open>
  The string functions of \<open>lib/string.c\<close>, on byte-addressed memory. A loop that looks for the
  terminating zero byte is a \<open>partial_function\<close>: in a memory without one it does not return.
  The lemmas say what each function does on a memory that holds C strings (\<open>cstr m p s\<close>), and relate
  it to a function on byte lists, which the theories of the file system use.
\<close>

section \<open>Functions\<close>

partial_function (option) strlen_loop :: "mem \<Rightarrow> addr \<Rightarrow> u32 \<Rightarrow> u32 option" where
  "strlen_loop m p n = (if m p \<noteq> 0 then strlen_loop m (p + 1) (n + 1) else Some n)"

definition strlen :: "mem \<Rightarrow> addr \<Rightarrow> u32 option" where
  "strlen m p = strlen_loop m p 0"

partial_function (option) strcpy_loop :: "mem \<Rightarrow> addr \<Rightarrow> addr \<Rightarrow> mem option" where
  "strcpy_loop m dest src =
     (if m src \<noteq> 0 then strcpy_loop (m(dest := m src)) (dest + 1) (src + 1) else Some (m(dest := 0)))"

definition strcpy :: "mem \<Rightarrow> addr \<Rightarrow> addr \<Rightarrow> (mem \<times> addr) option" where
  "strcpy m dest src = do { m' \<leftarrow> strcpy_loop m dest src; Some (m', dest) }"

fun strncpy_loop :: "mem \<Rightarrow> addr \<Rightarrow> addr \<Rightarrow> nat \<Rightarrow> mem" where
  "strncpy_loop m dest src 0 = m"
| "strncpy_loop m dest src (Suc n) =
     (if m src \<noteq> 0 then strncpy_loop (m(dest := m src)) (dest + 1) (src + 1) n
      else strncpy_loop (m(dest := 0)) (dest + 1) src n)"

definition strncpy :: "mem \<Rightarrow> addr \<Rightarrow> addr \<Rightarrow> u32 \<Rightarrow> mem \<times> addr" where
  "strncpy m dest src n = (strncpy_loop m dest src (unat n), dest)"

partial_function (option) strchr :: "mem \<Rightarrow> addr \<Rightarrow> u8 \<Rightarrow> addr option" where
  "strchr m str ch =
     (if m str = ch then Some str
      else if m str \<noteq> 0 then strchr m (str + 1) ch
      else Some NULL)"

text \<open>\<open>ret\<close> is the address that \<open>mallocn\<close> returned for the copy.\<close>

definition strdup :: "mem \<Rightarrow> addr \<Rightarrow> addr \<Rightarrow> (mem \<times> addr) option" where
  "strdup m ret str = (if ret = NULL then Some (m, NULL) else strcpy m ret str)"

definition strcat :: "mem \<Rightarrow> addr \<Rightarrow> addr \<Rightarrow> (mem \<times> addr) option" where
  "strcat m s1 s2 = do { p \<leftarrow> strchr m s1 0; strcpy m p s2 }"

definition strncat :: "mem \<Rightarrow> addr \<Rightarrow> addr \<Rightarrow> u32 \<Rightarrow> (mem \<times> addr) option" where
  "strncat m s1 s2 n = do { p \<leftarrow> strchr m s1 0; Some (strncpy m p s2 n) }"

text \<open>
  \<open>strsep\<close> gets and returns the value of \<open>*str_ptr\<close>; its result is the memory, the new value of
  \<open>*str_ptr\<close> and the token.
\<close>

definition strsep :: "mem \<Rightarrow> addr \<Rightarrow> addr \<Rightarrow> (mem \<times> addr \<times> addr) option" where
  "strsep m str_ptr delims =
     (if str_ptr = NULL then Some (m, str_ptr, NULL)
      else do { offs \<leftarrow> strchr m str_ptr (m delims);
                if offs = NULL then Some (m, NULL, str_ptr)
                else Some (m(offs := 0), offs + 1, str_ptr) })"

text \<open>A \<open>char\<close> is signed: both operands of the subtraction are sign-extended to \<open>int\<close>.\<close>

partial_function (option) strcmp :: "mem \<Rightarrow> addr \<Rightarrow> addr \<Rightarrow> s32 option" where
  "strcmp m s1 s2 =
     (if m s1 \<noteq> 0 \<and> m s2 \<noteq> 0 \<and> m s1 = m s2 then strcmp m (s1 + 1) (s2 + 1)
      else Some (scast (m s1) - scast (m s2)))"

function strreverse_loop :: "mem \<Rightarrow> addr \<Rightarrow> addr \<Rightarrow> mem" where
  "strreverse_loop m start end =
     (if start < end then strreverse_loop (m(start := m end, end := m start)) (start + 1) (end - 1) else m)"
  by pat_completeness auto
termination by (relation "measure (\<lambda>(m, s, e). e - s)") auto

declare strreverse_loop.simps [simp del]

definition strreverse :: "mem \<Rightarrow> addr \<Rightarrow> (mem \<times> addr) option" where
  "strreverse m str = do { n \<leftarrow> strlen m str; Some (strreverse_loop m str (str + unat n - 1), str) }"

text \<open>The characters are space, tab, carriage return, newline, vertical tab and form feed.\<close>

definition isspace :: "u8 \<Rightarrow> bool" where
  "isspace c \<longleftrightarrow> c = 32 \<or> c = 9 \<or> c = 13 \<or> c = 10 \<or> c = 11 \<or> c = 12"

section \<open>Strings in memory\<close>

primrec cstr :: "mem \<Rightarrow> addr \<Rightarrow> bytes \<Rightarrow> bool" where
  "cstr m p [] \<longleftrightarrow> m p = 0"
| "cstr m p (c # cs) \<longleftrightarrow> c \<noteq> 0 \<and> m p = c \<and> cstr m (p + 1) cs"

lemma cstr_iff:
  "cstr m p s \<longleftrightarrow> get_bytes m p (length s + 1) = s @ [0] \<and> 0 \<notin> set s"
  by (induction s arbitrary: p) (auto simp: get_bytes_Suc)

lemma cstr_nth: "cstr m p s \<Longrightarrow> i < length s \<Longrightarrow> m (p + i) = s ! i \<and> s ! i \<noteq> 0"
proof -
  assume s: "cstr m p s" and i: "i < length s"
  then have "s ! i = get_bytes m p (length s + 1) ! i" "0 \<notin> set s"
    by (simp_all add: cstr_iff nth_append)
  with i show ?thesis by (metis nth_get_bytes nth_mem trans_less_add1)
qed

lemma cstr_end: "cstr m p s \<Longrightarrow> m (p + length s) = 0"
proof -
  assume "cstr m p s"
  then have "get_bytes m p (length s + 1) ! length s = 0" by (simp add: cstr_iff)
  then show ?thesis by simp
qed

lemma cstr_nz: "cstr m p s \<Longrightarrow> 0 \<notin> set s"
  by (simp add: cstr_iff)

lemma cstr_cong: "(\<And>i. i \<le> length s \<Longrightarrow> m (p + i) = m' (p + i)) \<Longrightarrow> cstr m p s = cstr m' p s"
proof -
  assume "\<And>i. i \<le> length s \<Longrightarrow> m (p + i) = m' (p + i)"
  then have "get_bytes m p (length s + 1) = get_bytes m' p (length s + 1)"
    by (intro get_bytes_cong) simp
  then show ?thesis by (simp add: cstr_iff)
qed

lemma cstr_upd_out [simp]: "a < p \<or> p + length s < a \<Longrightarrow> cstr (m(a := v)) p s = cstr m p s"
  by (rule cstr_cong) auto

lemma cstr_put: "0 \<notin> set s \<Longrightarrow> cstr (put_bytes m p (s @ [0])) p s"
  by (simp add: cstr_iff)

lemma cstr_put_out: "p + length s < q \<or> q + length bs \<le> p \<Longrightarrow> cstr (put_bytes m q bs) p s = cstr m p s"
  by (rule cstr_cong) (auto simp: put_bytes_out)

lemma cstr_unique: "cstr m p s \<Longrightarrow> cstr m p t \<Longrightarrow> s = t"
proof (induction s arbitrary: p t)
  case Nil
  then show ?case by (cases t) auto
next
  case (Cons c s)
  then show ?case by (cases t) auto
qed

lemma cstr_append: "cstr m p (s @ t) \<longleftrightarrow> get_bytes m p (length s) = s \<and> 0 \<notin> set s \<and> cstr m (p + length s) t"
  by (induction s arbitrary: p) (auto simp: get_bytes_Suc)

section \<open>What the functions do\<close>

lemma strlen_loop_cstr: "cstr m p s \<Longrightarrow> strlen_loop m p n = Some (n + word_of_nat (length s))"
proof (induction s arbitrary: p n)
  case Nil
  then show ?case by (subst strlen_loop.simps) simp
next
  case (Cons c s)
  then show ?case by (subst strlen_loop.simps) (simp add: add_ac)
qed

lemma strlen_cstr: "cstr m p s \<Longrightarrow> strlen m p = Some (word_of_nat (length s))"
  by (simp add: strlen_def strlen_loop_cstr)

text \<open>The copy loop is right where it does not overwrite what it has still to read.\<close>

lemma strcpy_loop_cstr:
  "cstr m src s \<Longrightarrow> dest \<le> src \<or> src + length s < dest \<Longrightarrow>
   strcpy_loop m dest src = Some (put_bytes m dest (s @ [0]))"
proof (induction s arbitrary: m dest src)
  case Nil
  then show ?case by (subst strcpy_loop.simps) (simp add: put_bytes_Cons)
next
  case (Cons c s)
  from Cons.prems have "cstr (m(dest := c)) (src + 1) s"
    by (subst cstr_upd_out) auto
  moreover from Cons.prems(2) have "dest + 1 \<le> src + 1 \<or> src + 1 + length s < dest + 1" by auto
  ultimately have "strcpy_loop (m(dest := c)) (dest + 1) (src + 1)
      = Some (put_bytes (m(dest := c)) (dest + 1) (s @ [0]))" by (rule Cons.IH)
  then show ?case using Cons.prems by (subst strcpy_loop.simps) (simp add: put_bytes_Cons)
qed

lemma strcpy_cstr:
  "cstr m src s \<Longrightarrow> dest \<le> src \<or> src + length s < dest \<Longrightarrow>
   strcpy m dest src = Some (put_bytes m dest (s @ [0]), dest)"
  by (simp add: strcpy_def strcpy_loop_cstr)

lemma strncpy_loop_zero:
  "m src = 0 \<Longrightarrow> dest + n \<le> src \<or> src < dest \<Longrightarrow> strncpy_loop m dest src n = put_bytes m dest (replicate n 0)"
  by (induction n arbitrary: m dest) (auto simp: put_bytes_Cons)

lemma strncpy_loop_cstr:
  "cstr m src s \<Longrightarrow> dest + n \<le> src \<or> src + length s < dest \<Longrightarrow>
   strncpy_loop m dest src n = put_bytes m dest (take n (s @ replicate n 0))"
proof (induction s arbitrary: m dest src n)
  case Nil
  then show ?case by (simp add: strncpy_loop_zero)
next
  case (Cons c s)
  show ?case
  proof (cases n)
    case 0
    then show ?thesis by simp
  next
    case (Suc k)
    from Cons.prems Suc have "cstr (m(dest := c)) (src + 1) s"
      by (subst cstr_upd_out) auto
    moreover from Cons.prems(2) Suc have "dest + 1 + k \<le> src + 1 \<or> src + 1 + length s < dest + 1" by auto
    ultimately have "strncpy_loop (m(dest := c)) (dest + 1) (src + 1) k
        = put_bytes (m(dest := c)) (dest + 1) (take k (s @ replicate k 0))" by (rule Cons.IH)
    moreover have "take k (s @ replicate (Suc k) 0) = take k (s @ replicate k (0 :: u8))"
      by (simp del: replicate_Suc)
    ultimately show ?thesis using Cons.prems Suc by (simp add: put_bytes_Cons del: replicate_Suc)
  qed
qed

lemma strchr_cstr:
  "cstr m p s \<Longrightarrow> strchr m p ch =
     Some (if ch \<in> set s then p + length (takeWhile (\<lambda>c. c \<noteq> ch) s)
           else if ch = 0 then p + length s else NULL)"
proof (induction s arbitrary: p)
  case Nil
  then show ?case by (subst strchr.simps) simp
next
  case (Cons c s)
  then show ?case by (subst strchr.simps) auto
qed

lemma strchr_end: "cstr m p s \<Longrightarrow> strchr m p 0 = Some (p + length s)"
  by (simp add: strchr_cstr cstr_nz)

lemma cstr_dropWhile:
  assumes "cstr m p s" "d \<in> set s" "n = length (takeWhile (\<lambda>c. c \<noteq> d) s)"
  shows "cstr m (p + (n + 1)) (tl (dropWhile (\<lambda>c. c \<noteq> d) s)) \<and> get_bytes m p n = takeWhile (\<lambda>c. c \<noteq> d) s
    \<and> 0 \<notin> set (takeWhile (\<lambda>c. c \<noteq> d) s)"
  using assms
proof (induction s arbitrary: p n)
  case Nil
  then show ?case by simp
next
  case (Cons c s)
  show ?case
  proof (cases "c = d")
    case True
    with Cons.prems show ?thesis by simp
  next
    case False
    with Cons.prems Cons.IH [of "p + 1" "length (takeWhile (\<lambda>c. c \<noteq> d) s)"]
    show ?thesis by (simp add: get_bytes_Suc)
  qed
qed

text \<open>
  \<open>str_cmp s t\<close> is \<open>strcmp\<close> on byte lists, the form that the theories of the file system use.
\<close>

fun str_cmp :: "bytes \<Rightarrow> bytes \<Rightarrow> s32" where
  "str_cmp (a # s) (b # t) = (if a = b then str_cmp s t else scast a - scast b)"
| "str_cmp [] (b # t) = - scast b"
| "str_cmp (a # s) [] = scast a"
| "str_cmp [] [] = 0"

lemma strcmp_cstr: "cstr m p s \<Longrightarrow> cstr m q t \<Longrightarrow> strcmp m p q = Some (str_cmp s t)"
proof (induction s t arbitrary: p q rule: str_cmp.induct)
  case (1 a s b t)
  then show ?case by (subst strcmp.simps) auto
qed (subst strcmp.simps, auto)+

lemma sint_diff_char:
  fixes a b :: u8
  shows "sint (scast a - scast b :: s32) = sint a - sint b"
proof -
  have "- 128 \<le> sint a" "sint a < 128" "- 128 \<le> sint b" "sint b < 128"
    using sint_greater_eq [of a] sint_less [of a] sint_greater_eq [of b] sint_less [of b] by simp_all
  then have r: "signed_take_bit 31 (sint a - sint b) = sint a - sint b"
    "signed_take_bit 31 (sint a) = sint a" "signed_take_bit 31 (sint b) = sint b"
    by (auto intro!: signed_take_bit_int_eq_self)
  have "sint (scast a - scast b :: s32) = signed_take_bit 31 (sint (scast a :: s32) - sint (scast b :: s32))"
    by (simp add: sint_word_ariths(2))
  also have "\<dots> = sint a - sint b"
    by (simp only: signed_scast_eq, simp add: r)
  finally show ?thesis .
qed

lemma sint_char_eq: "sint (a :: u8) = sint b \<longleftrightarrow> a = b"
  by (auto intro: signed_word_eqI)

lemma str_cmp_first:
  assumes "s \<noteq> t" "0 \<notin> set s" "0 \<notin> set t"
  shows "\<exists>u a b x y. s @ [0] = u @ a # x \<and> t @ [0] = u @ b # y \<and> a \<noteq> b \<and> sint (str_cmp s t) = sint a - sint b"
  using assms
proof (induction s t rule: str_cmp.induct)
  case (1 a s b t)
  show ?case
  proof (cases "a = b")
    case True
    with 1 obtain u c d x y where "s @ [0] = u @ c # x" "t @ [0] = u @ d # y" "c \<noteq> d"
      "sint (str_cmp s t) = sint c - sint d" by auto
    with True show ?thesis by (intro exI [of _ "a # u"]) auto
  next
    case False
    then show ?thesis by (intro exI [of _ "[]"]) (auto simp: sint_diff_char)
  qed
next
  case (2 b t)
  then show ?case using sint_diff_char [of 0 b] by (intro exI [of _ "[]"]) auto
next
  case (3 a s)
  then show ?case using sint_diff_char [of a 0] by (intro exI [of _ "[]"]) auto
qed simp

lemma str_cmp_refl [simp]: "str_cmp s s = 0"
  by (induction s) auto

lemma str_cmp_eq_0: "0 \<notin> set s \<Longrightarrow> 0 \<notin> set t \<Longrightarrow> str_cmp s t = 0 \<longleftrightarrow> s = t"
proof -
  assume z: "0 \<notin> set s" "0 \<notin> set t"
  have "s = t" if "str_cmp s t = 0"
  proof (rule ccontr)
    assume "s \<noteq> t"
    from str_cmp_first [OF this z] obtain a b :: u8 where "a \<noteq> b" "sint (str_cmp s t) = sint a - sint b" by blast
    with that show False by (simp add: sint_char_eq)
  qed
  then show ?thesis by auto
qed

text \<open>One exchange of the end bytes, on lists.\<close>

lemma get_bytes_upd_out: "a < p \<or> p + n \<le> a \<Longrightarrow> get_bytes (m(a := v)) p n = get_bytes m p n"
  by (rule get_bytes_cong) auto

lemma put_bytes_upd_swap: "a < p \<or> p + length bs \<le> a \<Longrightarrow> put_bytes (m(a := v)) p bs = (put_bytes m p bs)(a := v)"
  by (rule ext) (auto simp: put_bytes_def)

lemma strreverse_loop_eq:
  "strreverse_loop m p (p + n - 1) = put_bytes m p (rev (get_bytes m p n))"
proof (induction n arbitrary: m p rule: less_induct)
  case (less n)
  show ?case
  proof (cases "n < 2")
    case True
    then have "n = 0 \<or> n = 1" by auto
    then show ?thesis
      by (auto simp: strreverse_loop.simps [of m p] get_bytes_Suc put_bytes_Cons)
  next
    case False
    then obtain k where n: "n = k + 2" by (metis add.commute le_Suc_ex linorder_not_less)
    let ?m = "m(p := m (p + k + 1), p + k + 1 := m p)" and ?l = "get_bytes m (p + 1) k"
    have "strreverse_loop m p (p + n - 1) = strreverse_loop ?m (p + 1) (p + 1 + k - 1)"
      using n by (subst strreverse_loop.simps) simp
    also have "\<dots> = put_bytes ?m (p + 1) (rev (get_bytes ?m (p + 1) k))"
      using n by (intro less) simp
    also have "get_bytes ?m (p + 1) k = ?l"
      by (simp add: get_bytes_upd_out)
    also have "put_bytes ?m (p + 1) (rev ?l) = put_bytes m p (m (p + k + 1) # rev ?l @ [m p])"
      by (rule ext) (auto simp: put_bytes_def nth_Cons nth_append dest: diff_Suc_eqD split: nat.splits)
    also have "m (p + k + 1) # rev ?l @ [m p] = rev (get_bytes m p n)"
      using n get_bytes_append [of m "p + 1" k 1] by (simp add: get_bytes_Suc)
    finally show ?thesis .
  qed
qed

lemma strreverse_cstr:
  assumes "cstr m p s" "length s < 2 ^ 32"
  shows "strreverse m p = Some (put_bytes m p (rev s), p)"
proof -
  have "get_bytes m p (length s) = s" using cstr_append [of m p s "[]"] assms(1) by simp
  moreover have "unat (word_of_nat (length s) :: u32) = length s" using assms(2) by (simp add: unat_of_nat)
  ultimately show ?thesis
    using strreverse_loop_eq [of m p "length s"] assms(1) by (simp add: strreverse_def strlen_cstr)
qed

section \<open>Properties\<close>

text \<open>
  \<open>strcmp\<close> on two C strings returns, returns 0 exactly for equal strings, and otherwise a
  number whose sign is that of the difference of the first two (signed) characters that differ.
\<close>

theorem strcmp_correct:
  assumes s: "cstr m p s" and t: "cstr m q t"
  shows "\<exists>r. strcmp m p q = Some r \<and> (r = 0 \<longleftrightarrow> s = t) \<and>
    (s = t \<or> (\<exists>u a b x y. s @ [0] = u @ a # x \<and> t @ [0] = u @ b # y \<and> a \<noteq> b \<and> (sint r < 0 \<longleftrightarrow> sint a < sint b)))"
proof -
  have z: "0 \<notin> set s" "0 \<notin> set t" using s t by (simp_all add: cstr_nz)
  have "sint (str_cmp s t) < 0 \<longleftrightarrow> sint a < sint b" if "sint (str_cmp s t) = sint a - sint b" for a b :: u8
    using that by auto
  then have "s = t \<or> (\<exists>u a b x y. s @ [0] = u @ a # x \<and> t @ [0] = u @ b # y \<and> a \<noteq> b \<and>
      (sint (str_cmp s t) < 0 \<longleftrightarrow> sint a < sint b))"
    using str_cmp_first [OF _ z] by meson
  with strcmp_cstr [OF s t] str_cmp_eq_0 [OF z] show ?thesis by blast
qed

theorem strcmp_correct_witness:
  "\<exists>r. strcmp (put_bytes (\<lambda>_. 0) 5 [65, 66, 0, 65, 67]) 5 8 = Some r \<and> (r = 0 \<longleftrightarrow> [65, 66 :: u8] = [65, 67]) \<and>
    ([65, 66 :: u8] = [65, 67] \<or> (\<exists>u a b x y. [65, 66] @ [0 :: u8] = u @ a # x \<and> [65, 67] @ [0] = u @ b # y \<and> a \<noteq> b \<and>
      (sint r < 0 \<longleftrightarrow> sint a < sint b)))"
  by (rule strcmp_correct) (simp_all add: put_bytes_def)

text \<open>
  \<open>strsep\<close> cuts the token off the front of a string: with the first character \<open>d\<close> of \<open>delims\<close>
  in the string, the token (at the old pointer) is what stands before the first \<open>d\<close> and the
  pointer moves to what stands after it; without it the token is the whole string and the pointer
  becomes \<open>NULL\<close>.
\<close>

theorem strsep_splits:
  assumes s: "cstr m p s" and p: "p \<noteq> NULL" and d: "m delims = d" "d \<noteq> 0"
  shows "case strsep m p delims of None \<Rightarrow> False
    | Some (m', p', tok) \<Rightarrow> tok = p \<and> cstr m' tok (takeWhile (\<lambda>c. c \<noteq> d) s) \<and>
        (if d \<in> set s then p' \<noteq> NULL \<and> cstr m' p' (tl (dropWhile (\<lambda>c. c \<noteq> d) s)) else p' = NULL \<and> m' = m)"
proof (cases "d \<in> set s")
  case False
  then have "takeWhile (\<lambda>c. c \<noteq> d) s = s" by (auto simp: takeWhile_eq_all_conv)
  with False s p d show ?thesis by (simp add: strsep_def strchr_cstr del: takeWhile_eq_all_conv)
next
  case True
  let ?t = "takeWhile (\<lambda>c. c \<noteq> d) s" and ?r = "tl (dropWhile (\<lambda>c. c \<noteq> d) s)"
  let ?m = "m(p + length ?t := 0)"
  note c = cstr_dropWhile [OF s True refl]
  then have "cstr ?m (p + (length ?t + 1)) ?r" by simp
  moreover from c have "cstr ?m p ?t"
    using cstr_append [of ?m p ?t "[]"] by (simp add: get_bytes_upd_out)
  ultimately show ?thesis using True s p d by (simp add: strsep_def strchr_cstr)
qed

theorem strsep_splits_witness:
  "case strsep (put_bytes (\<lambda>_. 0) 5 [65, 32, 66, 0, 32]) 5 9 of None \<Rightarrow> False
    | Some (m', p', tok) \<Rightarrow> tok = 5 \<and> cstr m' tok (takeWhile (\<lambda>c. c \<noteq> 32) [65, 32, 66]) \<and>
        (if 32 \<in> set [65, 32, 66 :: u8] then p' \<noteq> NULL \<and> cstr m' p' (tl (dropWhile (\<lambda>c. c \<noteq> 32) [65, 32, 66]))
         else p' = NULL \<and> m' = put_bytes (\<lambda>_. 0) 5 [65, 32, 66, 0, 32])"
  by (rule strsep_splits) (simp_all add: put_bytes_def)

text \<open>
  \<open>strcat\<close> appends the second string to the first in place, terminator included; what it
  returns is the address of the old terminator, not the start of the concatenated string.
\<close>

theorem strcat_appends:
  assumes s: "cstr m p s" and t: "cstr m q t" and apart: "q + length t < p \<or> p + length s + length t < q"
  shows "case strcat m p q of None \<Rightarrow> False
    | Some (m', r) \<Rightarrow> cstr m' p (s @ t) \<and> cstr m' q t \<and> r = p + length s"
proof -
  have "strcpy m (p + length s) q = Some (put_bytes m (p + length s) (t @ [0]), p + length s)"
    using t apart by (intro strcpy_cstr) auto
  moreover have "cstr (put_bytes m (p + length s) (t @ [0])) q t"
    using t apart by (subst cstr_put_out) auto
  moreover have "get_bytes m p (length s) = s" using cstr_append [of m p s "[]"] s by simp
  then have "cstr (put_bytes m (p + length s) (t @ [0])) p (s @ t)"
    using cstr_nz [OF s] cstr_nz [OF t] by (simp add: cstr_append cstr_put get_put_bytes_other)
  ultimately show ?thesis using s by (simp add: strcat_def strchr_end)
qed

theorem strcat_appends_witness:
  "case strcat (put_bytes (\<lambda>_. 0) 5 [65, 66, 0, 0, 0, 67, 0]) 5 10 of None \<Rightarrow> False
    | Some (m', r) \<Rightarrow> cstr m' 5 ([65, 66] @ [67]) \<and> cstr m' 10 [67] \<and> r = 5 + length [65, 66 :: u8]"
  by (rule strcat_appends) (simp_all add: put_bytes_def)

end
