(* ===== verification/Numconv.thy ===== *)
theory Numconv
  imports CString
begin

text \<open>
  The conversions between numbers and strings of \<open>lib/string.c\<close> (\<open>itoa\<close>, \<open>strtol\<close>, \<open>atoi\<close>) and the
  pseudo-random numbers of \<open>lib/stdlib.c\<close>. Numbers are 32-bit words; where the C code compares them
  as \<open>int\<close> the model compares their signed values.
\<close>

section \<open>Functions\<close>

text \<open>\<open>rem\<close> is an \<open>int\<close>. A \<open>base\<close> of 0 divides by zero, a \<open>base\<close> of 1 never ends.\<close>

definition itoa_digit :: "s32 \<Rightarrow> u8" where
  "itoa_digit r = ucast (if sint r < 10 then 48 + r else 55 + r)"

partial_function (option) itoa_loop :: "mem \<Rightarrow> addr \<Rightarrow> u32 \<Rightarrow> u32 \<Rightarrow> (mem \<times> addr) option" where
  "itoa_loop m str num base =
     (if base = 0 then None
      else if num div base \<noteq> 0 then itoa_loop (m(str := itoa_digit (num mod base))) (str + 1) (num div base) base
      else Some (m(str := itoa_digit (num mod base)), str + 1))"

definition itoa :: "mem \<Rightarrow> s32 \<Rightarrow> addr \<Rightarrow> u32 \<Rightarrow> (mem \<times> addr) option" where
  "itoa m n str base =
     (let neg = (base = 10 \<and> sint n < 0);
          m1 = (if neg then m(str := 45) else m);
          start = (if neg then str + 1 else str);
          num = (if neg then - n else n)
      in do {
        (m2, end) \<leftarrow> itoa_loop m1 start num base;
        (m3, _) \<leftarrow> strreverse (m2(end := 0)) start;
        Some (m3, str) })"

partial_function (option) skip_space :: "mem \<Rightarrow> addr \<Rightarrow> addr option" where
  "skip_space m p = (if isspace (m p) then skip_space m (p + 1) else Some p)"

definition digit_value :: "u8 \<Rightarrow> s32" where
  "digit_value c =
     (if 48 \<le> sint c \<and> sint c \<le> 57 then scast c - 48
      else if 65 \<le> sint c \<and> sint c \<le> 90 then scast c - 65 + 10
      else if 97 \<le> sint c \<and> sint c \<le> 122 then scast c - 97 + 10
      else - 1)"

partial_function (option) strtol_loop :: "mem \<Rightarrow> addr \<Rightarrow> s32 \<Rightarrow> s32 \<Rightarrow> (s32 \<times> addr) option" where
  "strtol_loop m p ret base =
     (if m p = 0 then Some (ret, p)
      else if sint (digit_value (m p)) < 0 \<or> sint base \<le> sint (digit_value (m p)) then Some (ret, p)
      else strtol_loop m (p + 1) (ret * base - digit_value (m p)) base)"

text \<open>The second result is what is stored to \<open>*endptr\<close> when \<open>endptr\<close> is not \<open>NULL\<close>.\<close>

definition strtol :: "mem \<Rightarrow> addr \<Rightarrow> s32 \<Rightarrow> (s32 \<times> addr) option" where
  "strtol m nptr base = do {
     p \<leftarrow> skip_space m nptr;
     let (sign, p) = (if m p = 45 then (1, p + 1) else if m p = 43 then (- 1, p + 1) else (- 1, p));
     let (base, p) = (if base \<noteq> 0 then (base, p)
                      else if m p \<noteq> 48 then (10, p)
                      else if m (p + 1) = 88 \<or> m (p + 1) = 120 then (16, p + 2)
                      else (8, p + 1));
     (ret, p) \<leftarrow> strtol_loop m p 0 base;
     Some (ret * sign, p) }"

definition atoi :: "mem \<Rightarrow> addr \<Rightarrow> s32 option" where
  "atoi m str = map_option fst (strtol m str 10)"

text \<open>\<open>_seed\<close> is a \<open>long\<close> of 32 bits; the shift of a negative number is arithmetic.\<close>

definition srand :: "u32 \<Rightarrow> s32" where
  "srand seed = seed"

definition rand :: "s32 \<Rightarrow> s32 \<times> s32" where
  "rand seed = (let seed' = seed * 214013 + 2531011 in (signed_drop_bit 16 seed' AND 0x7fff, seed'))"

section \<open>Digits\<close>

text \<open>The digits of a number, the last one first, as \<open>itoa\<close> writes them.\<close>

fun num_digits :: "nat \<Rightarrow> nat \<Rightarrow> nat list" where
  "num_digits b n = (if b < 2 \<or> n < b then [n] else n mod b # num_digits b (n div b))"

declare num_digits.simps [simp del]

lemma num_digits_less: "2 \<le> b \<Longrightarrow> d \<in> set (num_digits b n) \<Longrightarrow> d < b"
proof (induction b n rule: num_digits.induct)
  case (1 b n)
  then show ?case by (subst (asm) (2) num_digits.simps) (auto split: if_splits)
qed

lemma length_num_digits: "2 \<le> b \<Longrightarrow> n < 2 ^ k \<Longrightarrow> length (num_digits b n) \<le> max 1 k"
proof (induction b n arbitrary: k rule: num_digits.induct)
  case (1 b n)
  show ?case
  proof (cases "n < b")
    case True
    then show ?thesis by (simp add: num_digits.simps)
  next
    case False
    with "1.prems" have "0 < k" by (cases k) auto
    then obtain j where k: "k = Suc j" by (cases k) auto
    have "n div b \<le> n div 2" using "1.prems"(1) by (simp add: div_le_mono2)
    with "1.prems" k have "n div b < 2 ^ j" by (auto simp: less_mult_imp_div_less)
    then have "length (num_digits b (n div b)) \<le> max 1 j"
      using "1.IH" False "1.prems"(1) by auto
    moreover have "j \<noteq> 0"
      using False "1.prems" k by (auto intro: ccontr)
    ultimately show ?thesis using False "1.prems"(1) k by (subst num_digits.simps) auto
  qed
qed

lemma num_digits_nonempty [simp]: "num_digits b n \<noteq> []"
  by (subst num_digits.simps) simp

definition digit_char :: "nat \<Rightarrow> u8" where
  "digit_char d = itoa_digit (word_of_nat d)"

lemma digit_char_facts:
  "\<forall>d \<in> set [0..<36]. digit_char d \<noteq> 0 \<and> digit_char d \<noteq> 45 \<and> digit_char d \<noteq> 43 \<and> \<not> isspace (digit_char d) \<and>
     digit_value (digit_char d) = word_of_nat d \<and> sint (word_of_nat d :: s32) = int d"
  by (simp add: upt_rec digit_char_def itoa_digit_def digit_value_def isspace_def)

lemma digit_char:
  assumes "d < 36"
  shows "digit_char d \<noteq> 0" "digit_char d \<noteq> 45" "digit_char d \<noteq> 43" "\<not> isspace (digit_char d)"
    "digit_value (digit_char d) = word_of_nat d" "sint (word_of_nat d :: s32) = int d"
  using digit_char_facts assms by auto

lemma itoa_loop_eq:
  "base \<noteq> 0 \<Longrightarrow> base \<noteq> 1 \<Longrightarrow>
   itoa_loop m p num base =
     Some (put_bytes m p (map digit_char (num_digits (unat base) (unat num))), p + length (num_digits (unat base) (unat num)))"
proof (induction "unat base" "unat num" arbitrary: m p num rule: num_digits.induct)
  case 1
  have b: "2 \<le> unat base" using "1.prems" by (metis One_nat_def Suc_leI less_2_cases_iff not_less unat_1 unat_eq_zero word_unat_eq_iff)
  have d: "itoa_digit (num mod base) = digit_char (unat num mod unat base)"
    by (simp add: digit_char_def flip: unat_mod)
  show ?case
  proof (cases "unat num < unat base")
    case True
    then have "num div base = 0" by (simp add: word_unat_eq_iff unat_div)
    with True d show ?thesis using "1.prems" b
      by (subst itoa_loop.simps) (simp add: num_digits.simps put_bytes_Cons)
  next
    case False
    with b have "unat (num div base) \<noteq> 0" by (auto simp: unat_div div_eq_0_iff)
    then have "num div base \<noteq> 0" by auto
    with False d b show ?thesis using "1.prems" "1.hyps" [of "num div base"]
      by (subst itoa_loop.simps, subst num_digits.simps, subst num_digits.simps) (simp add: put_bytes_Cons unat_div)
  qed
qed

text \<open>\<open>num_str base num\<close> is the numeral that \<open>itoa\<close> writes for the unsigned number \<open>num\<close>.\<close>

definition num_str :: "u32 \<Rightarrow> u32 \<Rightarrow> bytes" where
  "num_str base num = map digit_char (rev (num_digits (unat base) (unat num)))"

lemma num_str_len: "2 \<le> unat base \<Longrightarrow> length (num_str base num) \<le> 32"
  using length_num_digits [of "unat base" "unat num" 32] unat_u32_lt [of num] by (simp add: num_str_def)

lemma num_str_digit:
  assumes "2 \<le> unat base" "unat base \<le> 36"
  shows "\<forall>c \<in> set (num_str base num). \<exists>d < unat base. c = digit_char d"
  using num_digits_less [of "unat base" _ "unat num"] assms by (auto simp: num_str_def)

lemma num_str_nz: "2 \<le> unat base \<Longrightarrow> unat base \<le> 36 \<Longrightarrow> 0 \<notin> set (num_str base num)"
  using num_str_digit [of base num] digit_char(1) by force

lemma num_str_Cons:
  assumes "2 \<le> unat base" "unat base \<le> 36"
  obtains d cs where "num_str base num = digit_char d # cs" "d < unat base" "d < 36"
proof (cases "num_str base num")
  case Nil
  then show ?thesis by (simp add: num_str_def)
next
  case (Cons c cs)
  with num_str_digit [OF assms, of num] assms that show ?thesis by auto
qed

lemma unat_ge_2: "2 \<le> unat base \<Longrightarrow> base \<noteq> 0 \<and> base \<noteq> 1" for base :: u32
  by auto

definition itoa_str :: "s32 \<Rightarrow> u32 \<Rightarrow> bytes" where
  "itoa_str n base = (if base = 10 \<and> sint n < 0 then 45 # num_str base (- n) else num_str base n)"

lemma itoa_str_nz: "2 \<le> unat base \<Longrightarrow> unat base \<le> 36 \<Longrightarrow> 0 \<notin> set (itoa_str n base)"
  by (simp add: itoa_str_def num_str_nz)

lemma itoa_unsigned:
  assumes b: "2 \<le> unat base" "unat base \<le> 36"
  shows "do { (m2, end) \<leftarrow> itoa_loop m p num base; (m3, _) \<leftarrow> strreverse (m2(end := 0)) p; Some (m3, q) }
    = Some (put_bytes m p (num_str base num @ [0]), q)"
proof -
  let ?ds = "map digit_char (num_digits (unat base) (unat num))"
  let ?m2 = "(put_bytes m p ?ds)(p + length ?ds := 0)"
  have nz: "0 \<notin> set ?ds" using num_str_nz [OF b, of num] by (simp add: num_str_def)
  have m2: "?m2 = put_bytes m p (?ds @ [0])" by (simp only: put_bytes_snoc)
  have "cstr ?m2 p ?ds" unfolding m2 using nz by (rule cstr_put)
  moreover have "length ?ds < 2 ^ 32" using num_str_len [OF b(1), of num] by (simp add: num_str_def)
  ultimately have "strreverse ?m2 p = Some (put_bytes ?m2 p (rev ?ds), p)" by (rule strreverse_cstr)
  moreover have "put_bytes ?m2 p (rev ?ds) = put_bytes m p (rev ?ds @ [0])"
    by (simp add: put_bytes_append put_bytes_Cons put_bytes_upd_swap)
  ultimately show ?thesis
    using itoa_loop_eq [of base m p num] unat_ge_2 [OF b(1)] by (simp add: num_str_def rev_map)
qed

lemma itoa_eq:
  assumes "2 \<le> unat base" "unat base \<le> 36"
  shows "itoa m n p base = Some (put_bytes m p (itoa_str n base @ [0]), p)"
proof (cases "base = 10 \<and> sint n < 0")
  case True
  then have neg: "(base = 10 \<and> sint n < 0) = True" by simp
  show ?thesis
    unfolding itoa_def itoa_str_def neg Let_def if_True
    using itoa_unsigned [OF assms, of "m(p := 45)" "p + 1" "- n" p] by (simp only: append_Cons put_bytes_Cons)
next
  case False
  then have neg: "(base = 10 \<and> sint n < 0) = False" by simp
  show ?thesis
    unfolding itoa_def itoa_str_def neg Let_def if_False by (rule itoa_unsigned [OF assms])
qed

section \<open>Reading a numeral\<close>

lemma strtol_loop_digits:
  "cstr m p (map digit_char ds) \<Longrightarrow> \<forall>d \<in> set ds. int d < sint base \<and> d < 36 \<Longrightarrow>
   strtol_loop m p ret base = Some (foldl (\<lambda>r d. r * base - word_of_nat d) ret ds, p + length ds)"
proof (induction ds arbitrary: p ret)
  case Nil
  then show ?case by (subst strtol_loop.simps) simp
next
  case (Cons d ds)
  then show ?case by (subst strtol_loop.simps) (simp add: digit_char)
qed

lemma foldl_num_digits:
  assumes b: "2 \<le> unat base"
  shows "foldl (\<lambda>r d. r * base - word_of_nat d) 0 (rev (num_digits (unat base) n)) = - (word_of_nat n :: u32)"
proof (induction "unat base" n rule: num_digits.induct)
  case (1 n)
  show ?case
  proof (cases "n < unat base")
    case True
    then show ?thesis using b by (simp add: num_digits.simps)
  next
    case False
    have "(word_of_nat n :: u32) = word_of_nat (n div unat base * unat base + n mod unat base)" by simp
    also have "\<dots> = word_of_nat (n div unat base) * base + word_of_nat (n mod unat base)"
      by (simp only: of_nat_add of_nat_mult) simp
    finally have n: "(word_of_nat n :: u32) = word_of_nat (n div unat base) * base + word_of_nat (n mod unat base)" .
    have "num_digits (unat base) n = n mod unat base # num_digits (unat base) (n div unat base)"
      using False b by (subst num_digits.simps) simp
    then show ?thesis using 1 False b by (simp add: n)
  qed
qed

lemma sint_small: "unat w < 2 ^ 31 \<Longrightarrow> sint w = int (unat w)" for w :: u32
proof -
  assume "unat w < 2 ^ 31"
  then have "int (unat w) < int (2 ^ 31)" by (simp only: of_nat_less_iff)
  then have "uint w < 2 ^ 31" by simp
  moreover have "0 \<le> uint w" by simp
  ultimately have "signed_take_bit 31 (uint w) = uint w" by (intro signed_take_bit_int_eq_self) linarith+
  then show ?thesis by (simp add: sint_uint)
qed

lemma num_digits_bound:
  fixes base :: u32
  assumes b: "2 \<le> unat base" "unat base \<le> 36" and d: "d \<in> set (num_digits (unat base) n)"
  shows "int d < sint base \<and> d < 36"
proof -
  have "d < unat base" by (rule num_digits_less [OF b(1) d])
  moreover have "sint base = int (unat base)" using b by (intro sint_small) simp
  ultimately show ?thesis using b by linarith
qed

lemma strtol_num_str:
  assumes c: "cstr m p (num_str base num)" and b: "2 \<le> unat base" "unat base \<le> 36"
  shows "strtol_loop m p 0 base = Some (- num, p + length (num_str base num))"
proof -
  have "\<forall>d \<in> set (rev (num_digits (unat base) (unat num))). int d < sint base \<and> d < 36"
    using num_digits_bound [OF b] by simp
  with c have "strtol_loop m p 0 base =
      Some (foldl (\<lambda>r d. r * base - word_of_nat d) 0 (rev (num_digits (unat base) (unat num))),
        p + length (rev (num_digits (unat base) (unat num))))"
    unfolding num_str_def by (rule strtol_loop_digits)
  then show ?thesis by (simp add: foldl_num_digits [OF b(1)] num_str_def)
qed

lemma isspace_45: "\<not> isspace 45"
  by (simp add: isspace_def)

lemma strtol_itoa_str:
  assumes c: "cstr m p (itoa_str n base)" and b: "2 \<le> unat base" "unat base \<le> 36"
  shows "strtol m p base = Some (n, p + length (itoa_str n base))"
proof (cases "base = 10 \<and> sint n < 0")
  case True
  with c have "m p = 45" "cstr m (p + 1) (num_str base (- n))" by (simp_all add: itoa_str_def)
  with True strtol_num_str [OF this(2) b] show ?thesis
    by (simp add: strtol_def skip_space.simps [of m p] isspace_45 itoa_str_def)
next
  case False
  then have s: "itoa_str n base = num_str base n" by (auto simp: itoa_str_def)
  from num_str_Cons [OF b, of n] obtain d cs where d: "num_str base n = digit_char d # cs" "d < 36" by metis
  with c s have "m p = digit_char d" by simp
  with d strtol_num_str [OF c [unfolded s] b] unat_ge_2 [OF b(1)] show ?thesis
    by (simp add: strtol_def skip_space.simps [of m p] digit_char s)
qed

section \<open>Properties\<close>



text \<open>
  \<open>rand\<close> returns a number from 0 to 32767, whatever the seed.
\<close>

theorem rand_range: "0 \<le> sint (fst (rand seed)) \<and> sint (fst (rand seed)) < 32768"
proof -
  have "unat (fst (rand seed)) = unat (signed_drop_bit 16 (seed * 214013 + 2531011)) mod 2 ^ 15"
    using take_bit_eq_mask [of 15 "unat (signed_drop_bit 16 (seed * 214013 + 2531011))"]
    by (simp add: rand_def Let_def unsigned_and_eq take_bit_eq_mod mask_eq_exp_minus_1)
  then have "unat (fst (rand seed)) < 32768" by simp
  moreover from this have "sint (fst (rand seed)) = int (unat (fst (rand seed)))" by (intro sint_small) simp
  ultimately show ?thesis by linarith
qed

end
