(* ===== verification/Rtc.thy ===== *)
theory Rtc
  imports Numconv
begin

text \<open>
  The real time clock of \<open>io/io_rtc.c\<close>. The registers of the CMOS clock hold binary coded decimals;
  the memory that is read through the two ports is an argument, a function of the register number.
\<close>

section \<open>State\<close>

record time_t =
  tm_sec :: u8
  tm_min :: u8
  tm_hour :: u8
  tm_weekday :: u8
  tm_day :: u8
  tm_month :: u8
  tm_year :: u8
  tm_century :: u8

type_synonym cmos = "u8 \<Rightarrow> u8"

definition RTC_SEC :: u8 where "RTC_SEC = 0"
definition RTC_MIN :: u8 where "RTC_MIN = 2"
definition RTC_HOUR :: u8 where "RTC_HOUR = 4"
definition RTC_DAY :: u8 where "RTC_DAY = 7"
definition RTC_MONTH :: u8 where "RTC_MONTH = 8"
definition RTC_YEAR :: u8 where "RTC_YEAR = 9"
definition RTC_CENTURY :: u8 where "RTC_CENTURY = 50"

section \<open>Operations\<close>

definition bcd2bin :: "u8 \<Rightarrow> u8" where
  "bcd2bin num = (num div 16) * 10 + num mod 16"

text \<open>The arithmetic is on \<open>int\<close>; the table of months is indexed without a check.\<close>

definition month_table :: "int list" where
  "month_table = [0, 3, 3, 6, 1, 4, 6, 2, 5, 0, 3, 5]"

definition calculate_weekday :: "time_t \<Rightarrow> time_t option" where
  "calculate_weekday ts =
     (let y = uint (bcd2bin (tm_year ts)); mo = uint (bcd2bin (tm_month ts));
          year = y + y div 4;
          century = 2 * (3 - (20 mod 4));
          correction = (if (y mod 4 = 0 \<and> (y mod 100 \<noteq> 0 \<or> y mod 400 = 0)) \<and> mo < 3 then 6 else 0)
      in if mo - 1 < 0 then None
         else do {
           m \<leftarrow> rd_at month_table (nat (mo - 1));
           Some (ts\<lparr>tm_weekday := word_of_int ((century + year + m + uint (bcd2bin (tm_day ts)) + correction) mod 7)\<rparr>) })"

definition rtc_init :: "cmos \<Rightarrow> time_t \<Rightarrow> time_t option" where
  "rtc_init c t = calculate_weekday (t\<lparr>tm_sec := c RTC_SEC, tm_min := c RTC_MIN, tm_hour := c RTC_HOUR,
     tm_day := c RTC_DAY, tm_month := c RTC_MONTH, tm_year := c RTC_YEAR, tm_century := c RTC_CENTURY\<rparr>)"

definition rtc_update :: "cmos \<Rightarrow> time_t \<Rightarrow> time_t option" where
  "rtc_update c t =
     (let t = t\<lparr>tm_sec := c RTC_SEC\<rparr> in
      if tm_sec t = 0 then
        let t = t\<lparr>tm_min := c RTC_MIN\<rparr> in
        if tm_min t = 0 then
          let t = t\<lparr>tm_hour := c RTC_HOUR\<rparr> in
          if tm_hour t = 0 then
            let t = t\<lparr>tm_day := c RTC_DAY\<rparr>;
                t = (if tm_day t = 1 then
                       let t = t\<lparr>tm_month := c RTC_MONTH\<rparr> in
                       if tm_month t = 1 then
                         let t = t\<lparr>tm_year := c RTC_YEAR\<rparr> in
                         if tm_year t = 1 then t\<lparr>tm_century := c RTC_CENTURY\<rparr> else t
                       else t
                     else t)
            in calculate_weekday t
          else Some t
        else Some t
      else Some t)"

text \<open>
  \<open>put_bcd m buf v\<close> writes the two hexadecimal digits of a field, that is, its decimal digits. The
  fields below 10 get a zero in front.
\<close>

definition put_bcd :: "mem \<Rightarrow> addr \<Rightarrow> u8 \<Rightarrow> mem option" where
  "put_bcd m buf v =
     (if v < 10 then map_option fst (itoa (m(buf := 48)) (ucast v) (buf + 1) 16)
      else map_option fst (itoa m (ucast v) buf 16))"

definition weekday_name :: "u8 \<Rightarrow> bytes option" where
  "weekday_name w =
     (if w = 0 then Some [83, 85, 78] else if w = 1 then Some [77, 79, 78] else if w = 2 then Some [84, 85, 69]
      else if w = 3 then Some [87, 69, 78] else if w = 4 then Some [84, 72, 85] else if w = 5 then Some [70, 82, 73]
      else if w = 6 then Some [83, 65, 84] else None)"

text \<open>\<open>date_error\<close> is the address of the literal that is returned for a weekday that does not exist.\<close>

definition time2str :: "mem \<Rightarrow> addr \<Rightarrow> time_t \<Rightarrow> addr \<Rightarrow> (mem \<times> addr) option" where
  "time2str m date_error ts buf =
     (case weekday_name (tm_weekday ts) of
        None \<Rightarrow> Some (m, date_error)
      | Some name \<Rightarrow> do {
          let m = (put_bytes m buf (name @ [0]))(buf + 3 := 32);
          m \<leftarrow> put_bcd m (buf + 4) (tm_day ts);
          m \<leftarrow> put_bcd (m(buf + 6 := 46)) (buf + 7) (tm_month ts);
          m \<leftarrow> put_bcd (m(buf + 9 := 46)) (buf + 10) (tm_century ts);
          m \<leftarrow> put_bcd m (buf + 12) (tm_year ts);
          m \<leftarrow> put_bcd (m(buf + 14 := 32)) (buf + 15) (tm_hour ts);
          m \<leftarrow> put_bcd (m(buf + 17 := 58)) (buf + 18) (tm_min ts);
          m \<leftarrow> put_bcd (m(buf + 20 := 58)) (buf + 21) (tm_sec ts);
          Some (m(buf + 23 := 0), buf) })"

section \<open>The calendar of the years 2000 to 2099\<close>

definition leap :: "nat \<Rightarrow> bool" where
  "leap y \<longleftrightarrow> y mod 4 = 0"

definition month_len :: "nat \<Rightarrow> nat \<Rightarrow> nat" where
  "month_len y m = (if m = 2 then (if leap y then 29 else 28) else if m \<in> {4, 6, 9, 11} then 30 else 31)"

definition days_since_2000 :: "nat \<Rightarrow> nat \<Rightarrow> nat \<Rightarrow> nat" where
  "days_since_2000 y m d =
     sum_list (map (\<lambda>i. if leap i then 366 else 365) [0..<y]) + sum_list (map (month_len y) [1..<m]) + (d - 1)"

definition to_bcd :: "nat \<Rightarrow> u8" where
  "to_bcd n = word_of_nat (16 * (n div 10) + n mod 10)"

lemma bcd2bin_to_bcd: "n < 100 \<Longrightarrow> unat (bcd2bin (to_bcd n)) = n"
proof -
  assume n: "n < 100"
  define q r where "q = n div 10" and "r = n mod 10"
  have qr: "n = 10 * q + r" "q < 10" "r < 10" using n by (simp_all add: q_def r_def div_less_iff_less_mult)
  have "to_bcd n = word_of_nat (16 * q + r)" by (simp only: to_bcd_def q_def r_def)
  then have "unat (to_bcd n) = (16 * q + r) mod 2 ^ LENGTH(8)" by (simp only: unat_of_nat)
  with qr have "unat (to_bcd n) = 16 * q + r" by simp
  moreover have "unat (bcd2bin w) = (unat w div 16 * 10 mod 256 + unat w mod 16) mod 256" for w
    using unat_u8_lt [of w] by (simp add: bcd2bin_def unat_word_ariths unat_div unat_mod)
  ultimately show ?thesis using qr by simp
qed

lemma days_of_years: "sum_list (map (\<lambda>i. if leap i then 366 else 365) [0..<y]) = 365 * y + (y + 3) div 4"
proof (induction y)
  case (Suc y)
  have "(Suc y + 3) div 4 = (y + 3) div 4 + (if leap y then 1 else 0)" unfolding leap_def by presburger
  with Suc show ?case by simp
qed simp

lemma uint_bcd: "n < 100 \<Longrightarrow> uint (bcd2bin (to_bcd n)) = int n"
proof -
  assume "n < 100"
  then have "int (unat (bcd2bin (to_bcd n))) = int n" by (simp only: bcd2bin_to_bcd)
  then show ?thesis by simp
qed

text \<open>The days of the months before \<open>m\<close>, compared with the table of the source.\<close>

lemma days_of_months:
  assumes "1 \<le> m" "m \<le> 12"
  shows "int (sum_list (map (month_len y) [1..<m])) mod 7 =
    (month_table ! (m - 1) + (if \<not> leap y \<or> 3 \<le> m then (if leap y then 1 else 0) else 0)) mod 7"
proof -
  have "m = 1 \<or> m = 2 \<or> m = 3 \<or> m = 4 \<or> m = 5 \<or> m = 6 \<or> m = 7 \<or> m = 8 \<or> m = 9 \<or> m = 10 \<or> m = 11 \<or> m = 12"
    using assms by (auto simp: numeral_eq_Suc le_Suc_eq)
  then show ?thesis
    by (elim disjE) (simp_all add: upt_rec month_len_def month_table_def)
qed

lemma weekday_arith:
  fixes y D T d :: int
  shows "6 + (y + D + (if lp then 0 else 1) + 7 * (52 * y)) + (T + (if \<not> lp \<or> 3 \<le> m then (if lp then 1 else 0) else 0)) + (d - 1) =
    (6 + (y + D) + T + d + (if lp \<and> m < (3 :: nat) then 6 else 0)) + 7 * (52 * y - (if lp \<and> m < 3 then 1 else 0))"
  by (cases lp) auto

lemma weekday_number:
  assumes m: "1 \<le> m" "m \<le> 12" and d: "1 \<le> d"
  shows "(6 + (int y + int y div 4) + month_table ! (m - 1) + int d + (if leap y \<and> m < 3 then 6 else 0)) mod 7 =
    int ((6 + days_since_2000 y m d) mod 7)"
proof -
  let ?M = "int (sum_list (map (month_len y) [1..<m]))" and ?T = "month_table ! (m - 1)"
  have "(y + 3) div 4 = y div 4 + (if leap y then 0 else 1)" unfolding leap_def by presburger
  then have y: "int (365 * y + (y + 3) div 4) = int y + int y div 4 + (if leap y then 0 else 1) + 7 * (52 * int y)"
    by (simp add: zdiv_int)
  have days: "int (days_since_2000 y m d) = int (365 * y + (y + 3) div 4) + ?M + (int d - 1)"
    using d by (simp add: days_since_2000_def days_of_years of_nat_diff)
  have inner: "(A + B + C) mod 7 = (A + B mod 7 + C) mod 7" for A B C :: int
    by (metis mod_add_left_eq mod_add_right_eq)
  have "int ((6 + days_since_2000 y m d) mod 7) = (6 + int (365 * y + (y + 3) div 4) + ?M + (int d - 1)) mod 7"
    by (simp only: zmod_int of_nat_add of_nat_numeral days) (simp only: add.assoc)
  also have "\<dots> = (6 + int (365 * y + (y + 3) div 4) + ?M mod 7 + (int d - 1)) mod 7"
    by (rule inner)
  also have "?M mod 7 = (?T + (if \<not> leap y \<or> 3 \<le> m then (if leap y then 1 else 0) else 0)) mod 7"
    by (rule days_of_months [OF m])
  finally have "int ((6 + days_since_2000 y m d) mod 7) = (6 + int (365 * y + (y + 3) div 4) +
      (?T + (if \<not> leap y \<or> 3 \<le> m then (if leap y then 1 else 0) else 0)) + (int d - 1)) mod 7"
    by (simp only: inner [symmetric])
  moreover have "(6 + int (365 * y + (y + 3) div 4) +
      (?T + (if \<not> leap y \<or> 3 \<le> m then (if leap y then 1 else 0) else 0)) + (int d - 1)) mod 7 =
    (6 + (int y + int y div 4) + ?T + int d + (if leap y \<and> m < 3 then 6 else 0)) mod 7"
  proof -
    have "(A + 7 * B) mod 7 = A mod 7" for A B :: int by simp
    then show ?thesis unfolding y weekday_arith .
  qed
  ultimately show ?thesis by (simp only:)
qed

section \<open>Properties\<close>

text \<open>
  C36. For every date of the years 2000 to 2099 that the clock reports in binary coded decimals,
  \<open>calculate_weekday\<close> sets the day of the week that the calendar has (0 is Sunday; January 1st 2000
  was a Saturday) and changes no other field.
\<close>

theorem calculate_weekday_correct:
  assumes ts: "tm_year ts = to_bcd y" "tm_month ts = to_bcd m" "tm_day ts = to_bcd d"
    and y: "y < 100" and m: "1 \<le> m" "m \<le> 12" and d: "1 \<le> d" "d \<le> month_len y m"
  shows "calculate_weekday ts = Some (ts\<lparr>tm_weekday := word_of_nat ((6 + days_since_2000 y m d) mod 7)\<rparr>)"
proof -
  have b: "month_len y m \<le> 31" by (simp add: month_len_def)
  have u: "uint (bcd2bin (tm_year ts)) = int y" "uint (bcd2bin (tm_month ts)) = int m" "uint (bcd2bin (tm_day ts)) = int d"
    using ts y m d b by (simp_all add: uint_bcd)
  have "int y mod 100 \<noteq> 0 \<or> int y mod 400 = 0" using y by (cases "y = 0") simp_all
  moreover have "int (y mod 4) = int y mod 4" by (simp only: zmod_int) simp
  then have "int y mod 4 = 0 \<longleftrightarrow> leap y" unfolding leap_def by linarith
  ultimately have l: "(int y mod 4 = 0 \<and> (int y mod 100 \<noteq> 0 \<or> int y mod 400 = 0)) \<and> int m < 3 \<longleftrightarrow> leap y \<and> m < 3"
    by simp
  have i: "nat (int m - 1) = m - 1" "m - 1 < length month_table" "\<not> int m - 1 < 0"
    using m by (auto simp: month_table_def)
  let ?w = "(6 + (int y + int y div 4) + month_table ! (m - 1) + int d + (if leap y \<and> m < 3 then 6 else 0)) mod 7"
  have "calculate_weekday ts = Some (ts\<lparr>tm_weekday := word_of_int ?w\<rparr>)"
    unfolding calculate_weekday_def Let_def u l i(1) using i(2,3) by (simp only: rd_at_in if_False) simp
  moreover have "(word_of_int ?w :: u8) = word_of_nat ((6 + days_since_2000 y m d) mod 7)"
    by (simp only: weekday_number [OF m d(1)] of_int_of_nat_eq)
  ultimately show ?thesis by simp
qed

definition time_example :: time_t where
  "time_example = \<lparr>tm_sec = 0, tm_min = 0, tm_hour = 0, tm_weekday = 9, tm_day = 0x29, tm_month = 0x02,
     tm_year = 0x08, tm_century = 0x20\<rparr>"

theorem calculate_weekday_correct_witness:
  "calculate_weekday time_example = Some (time_example\<lparr>tm_weekday := word_of_nat ((6 + days_since_2000 8 2 29) mod 7)\<rparr>)"
  by (rule calculate_weekday_correct) (simp_all add: time_example_def to_bcd_def month_len_def leap_def)

end
