(* ===== verification/FsState.thy ===== *)
theory FsState
  imports Disk Rtc
begin

text \<open>
  The data of the file system: the types of \<open>fs/fs_types.h\<close>, the global variables of its files as
  one record, and the transfer of blocks between disk and caches (\<open>fs/fs_buf.c\<close> and the first
  part of \<open>fs/fs_block_dev.c\<close>). Names are byte lists without the terminator; raw blocks are lists of 512
  bytes. A function that gets a pointer to an inode gets and returns the inode's value.
\<close>

section \<open>Constants\<close>

definition BLOCK_SIZE :: nat where "BLOCK_SIZE = 512"
definition NAME_SIZE :: nat where "NAME_SIZE = 28"
definition NUM_FILES :: nat where "NUM_FILES = 10"
definition NUM_PROC_FILES :: nat where "NUM_PROC_FILES = 20"
definition NUM_INODES :: nat where "NUM_INODES = 10"
definition ADDRS_PER_BLOCK :: nat where "ADDRS_PER_BLOCK = 128"
definition NUM_DIRECT_POINTER :: nat where "NUM_DIRECT_POINTER = 30"
definition SUPER_BLOCK :: u32 where "SUPER_BLOCK = 1"
definition ROOT_INODE_BLOCK :: u32 where "ROOT_INODE_BLOCK = 2"
definition FIRST_BMAP_BLOCK :: u32 where "FIRST_BMAP_BLOCK = 3"
definition DATA_FILE :: u16 where "DATA_FILE = 1"
definition DIRECTORY :: u16 where "DIRECTORY = 2"
definition NOT_FOUND :: u32 where "NOT_FOUND = - 1"
definition MAGIC_NUMBER :: u32 where "MAGIC_NUMBER = 280187"

lemmas fs_consts = BLOCK_SIZE_def NAME_SIZE_def NUM_FILES_def NUM_PROC_FILES_def NUM_INODES_def ADDRS_PER_BLOCK_def
  NUM_DIRECT_POINTER_def SUPER_BLOCK_def ROOT_INODE_BLOCK_def FIRST_BMAP_BLOCK_def

section \<open>Types\<close>

record d_inode =
  di_mode :: u16
  di_size :: u32
  di_create_ts :: time_t
  di_modify_ts :: time_t
  di_direct :: "u32 list"
  di_single :: u32
  di_double :: u32

text \<open>\<open>inode_nr\<close> and \<open>file_nr\<close> are signed 16-bit numbers.\<close>

record m_inode =
  i_num :: "16 word"
  i_adr :: u32
  i_mode :: u16
  i_size :: u32
  i_create_ts :: time_t
  i_modify_ts :: time_t
  i_direct :: "u32 list"
  i_single :: u32
  i_double :: u32

text \<open>
  An open file refers to its inode by the slot in the inode table. \<open>None\<close> is the pointer \<open>NULL\<close>.
\<close>

record gfile =
  f_desc :: "16 word"
  f_inode :: "nat option"
  f_name :: "bytes option"
  f_mode :: u8
  f_count :: u16

record proc_file =
  pf_desc :: "16 word"
  pf_f_desc :: "16 word"
  pf_pos :: u32

record block_cache =
  bc_nr :: u32
  bc_data :: bytes

record super_block =
  s_HD_size :: u32
  s_bmap_blocks :: u16
  s_first_data_block :: u32
  s_max_file_size :: u32
  s_bmap :: u32
  s_iroot :: u32
  s_modify_ts :: time_t
  s_read_only :: u8
  s_dirt :: u16
  s_magic_number :: u32

text \<open>
  The variables. \<open>fs_bmap\<close> is the memory from the pointer \<open>bmap\<close> on, as far as the code uses it:
  \<open>num_bmap_blocks\<close> blocks. Slot 0 of the inode table is the one \<open>root\<close> points to.
\<close>

record fs_state =
  fs_hd :: hd_info
  fs_disk :: sectors
  fs_bmap :: bytes
  num_bmap_blocks :: u32
  first_data_block :: u32
  read_cache :: block_cache
  write_cache :: block_cache
  addr_cache :: "u32 list"
  dir_cache :: bytes
  d_inode_cache :: d_inode
  m_inode_cache :: m_inode
  inode_table :: "m_inode list"
  gft :: "gfile list"
  fs_super :: super_block
  fs_time :: time_t

section \<open>The layout of the structures on disk\<close>

definition enc_time :: "time_t \<Rightarrow> bytes" where
  "enc_time t = [tm_sec t, tm_min t, tm_hour t, tm_weekday t, tm_day t, tm_month t, tm_year t, tm_century t]"

definition dec_time :: "bytes \<Rightarrow> time_t" where
  "dec_time bs = \<lparr>tm_sec = bs ! 0, tm_min = bs ! 1, tm_hour = bs ! 2, tm_weekday = bs ! 3, tm_day = bs ! 4,
     tm_month = bs ! 5, tm_year = bs ! 6, tm_century = bs ! 7\<rparr>"

definition enc_addrs :: "u32 list \<Rightarrow> bytes" where
  "enc_addrs as = concat (map le32 as)"

primrec dec_addrs :: "nat \<Rightarrow> bytes \<Rightarrow> u32 list" where
  "dec_addrs 0 bs = []"
| "dec_addrs (Suc n) bs = un_le32 (take 4 bs) # dec_addrs n (drop 4 bs)"

definition enc_dinode :: "d_inode \<Rightarrow> bytes" where
  "enc_dinode d = le16 (di_mode d) @ le32 (di_size d) @ enc_time (di_create_ts d) @ enc_time (di_modify_ts d) @
     enc_addrs (di_direct d) @ le32 (di_single d) @ le32 (di_double d)"

definition dec_dinode :: "bytes \<Rightarrow> d_inode" where
  "dec_dinode bs = \<lparr>di_mode = un_le16 (sub_bytes 0 2 bs), di_size = un_le32 (sub_bytes 2 4 bs),
     di_create_ts = dec_time (sub_bytes 6 8 bs), di_modify_ts = dec_time (sub_bytes 14 8 bs),
     di_direct = dec_addrs 30 (sub_bytes 22 120 bs), di_single = un_le32 (sub_bytes 142 4 bs),
     di_double = un_le32 (sub_bytes 146 4 bs)\<rparr>"

definition DISK_INODE_SIZE :: nat where "DISK_INODE_SIZE = 150"

lemma length_enc_time [simp]: "length (enc_time t) = 8"
  by (simp add: enc_time_def)

lemma dec_enc_time [simp]: "dec_time (enc_time t) = t"
  by (simp add: dec_time_def enc_time_def)

lemma length_enc_addrs [simp]: "length (enc_addrs as) = 4 * length as"
  by (induction as) (simp_all add: enc_addrs_def)

lemma dec_enc_addrs [simp]: "n = length as \<Longrightarrow> dec_addrs n (enc_addrs as) = as"
  by (induction as arbitrary: n) (simp_all add: enc_addrs_def)

lemma length_dec_addrs [simp]: "length (dec_addrs n bs) = n"
  by (induction n arbitrary: bs) simp_all

lemma length_enc_dinode: "length (di_direct d) = 30 \<Longrightarrow> length (enc_dinode d) = 150"
  by (simp add: enc_dinode_def)

lemma sub_bytes_append: "length xs = off \<Longrightarrow> length ys = n \<Longrightarrow> sub_bytes off n (xs @ ys @ zs) = ys"
  by (simp add: sub_bytes_def)

lemma dec_enc_dinode: "length (di_direct d) = 30 \<Longrightarrow> dec_dinode (enc_dinode d @ rest) = d"
  by (simp add: dec_dinode_def enc_dinode_def sub_bytes_def)

section \<open>Searching a table\<close>

text \<open>The loops over the tables stop at the first entry with the property.\<close>

primrec first_index :: "('a \<Rightarrow> bool) \<Rightarrow> 'a list \<Rightarrow> nat option" where
  "first_index P [] = None"
| "first_index P (x # xs) = (if P x then Some 0 else map_option Suc (first_index P xs))"

lemma first_index_None: "first_index P xs = None \<longleftrightarrow> (\<forall>x \<in> set xs. \<not> P x)"
  by (induction xs) auto

lemma first_index_SomeD: "first_index P xs = Some i \<Longrightarrow> i < length xs \<and> P (xs ! i) \<and> (\<forall>j < i. \<not> P (xs ! j))"
proof (induction xs arbitrary: i)
  case (Cons x xs)
  show ?case
  proof (cases "P x")
    case True
    with Cons.prems show ?thesis by simp
  next
    case False
    with Cons.prems obtain k where k: "i = Suc k" "first_index P xs = Some k" by auto
    from Cons.IH [OF k(2)] k(1) False show ?thesis by (simp add: All_less_Suc2)
  qed
qed simp

lemma first_index_SomeI: "i < length xs \<Longrightarrow> P (xs ! i) \<Longrightarrow> (\<forall>j < i. \<not> P (xs ! j)) \<Longrightarrow> first_index P xs = Some i"
proof (induction xs arbitrary: i)
  case (Cons x xs)
  show ?case
  proof (cases i)
    case 0
    with Cons.prems show ?thesis by simp
  next
    case (Suc k)
    with Cons.prems have "\<not> P x" "first_index P xs = Some k"
      using Cons.IH [of k] by (simp_all add: All_less_Suc2)
    with Suc show ?thesis by simp
  qed
qed simp

lemma first_index_Some: "first_index P xs = Some i \<longleftrightarrow> i < length xs \<and> P (xs ! i) \<and> (\<forall>j < i. \<not> P (xs ! j))"
  using first_index_SomeD first_index_SomeI by metis

lemma first_index_unique:
  "i < length xs \<Longrightarrow> P (xs ! i) \<Longrightarrow> (\<And>j. j < length xs \<Longrightarrow> P (xs ! j) \<Longrightarrow> j = i) \<Longrightarrow> first_index P xs = Some i"
proof (rule first_index_SomeI)
  assume i: "i < length xs" and u: "\<And>j. j < length xs \<Longrightarrow> P (xs ! j) \<Longrightarrow> j = i"
  show "\<forall>j < i. \<not> P (xs ! j)"
  proof (intro allI impI notI)
    fix j assume "j < i" "P (xs ! j)"
    with u [of j] i show False by simp
  qed
qed

section \<open>Caches and blocks\<close>

definition clear_cache :: "block_cache \<Rightarrow> block_cache" where
  "clear_cache c = \<lparr>bc_nr = 0, bc_data = replicate 512 0\<rparr>"

definition clear_buffer :: "bytes \<Rightarrow> bytes" where
  "clear_buffer b = replicate 512 0"

definition cache_block :: "fs_state \<Rightarrow> u32 \<Rightarrow> fs_state option" where
  "cache_block s blk_nr = do {
     let s = s\<lparr>read_cache := clear_cache (read_cache s)\<rparr>;
     data \<leftarrow> hd_read_sector (fs_hd s) (fs_disk s) blk_nr;
     Some (s\<lparr>read_cache := \<lparr>bc_nr = blk_nr, bc_data = data\<rparr>\<rparr>) }"

text \<open>The bytes that \<open>rd_block\<close> copies into its buffer are returned.\<close>

definition rd_block :: "fs_state \<Rightarrow> u32 \<Rightarrow> nat \<Rightarrow> (fs_state \<times> bytes) option" where
  "rd_block s blk_nr num_bytes = do {
     s \<leftarrow> cache_block s blk_nr;
     buf \<leftarrow> rd_run 0 num_bytes (bc_data (read_cache s));
     Some (s, buf) }"

definition wrt_block :: "fs_state \<Rightarrow> u32 \<Rightarrow> bytes \<Rightarrow> fs_state option" where
  "wrt_block s blk_nr buf = do {
     let c = clear_cache (write_cache s);
     data \<leftarrow> wr_run 0 buf (bc_data c);
     let s = s\<lparr>write_cache := \<lparr>bc_nr = blk_nr, bc_data = data\<rparr>\<rparr>;
     d \<leftarrow> hd_write_sector (fs_hd s) (fs_disk s) blk_nr data;
     Some (s\<lparr>fs_disk := d\<rparr>) }"

definition wrt_cache :: "fs_state \<Rightarrow> block_cache \<Rightarrow> nat \<Rightarrow> fs_state option" where
  "wrt_cache s cache num_bytes = do {
     buf \<leftarrow> rd_run 0 num_bytes (bc_data cache);
     wrt_block s (bc_nr cache) buf }"

text \<open>\<open>clear_block\<close> reads into the data of the read cache itself, which does not change it.\<close>

definition clear_block :: "fs_state \<Rightarrow> u32 \<Rightarrow> fs_state option" where
  "clear_block s blk_nr = do {
     (s, buf) \<leftarrow> rd_block s blk_nr BLOCK_SIZE;
     let s = s\<lparr>read_cache := \<lparr>bc_nr = blk_nr, bc_data = buf\<rparr>\<rparr>;
     let s = s\<lparr>read_cache := \<lparr>bc_nr = blk_nr, bc_data = replicate 512 0\<rparr>\<rparr>;
     wrt_cache s (read_cache s) BLOCK_SIZE }"

end
