(* ===== verification/Bmap.thy ===== *)
theory Bmap
  imports FsState
begin

text \<open>
  The block bitmap of \<open>fs/fs_bmap.c\<close>: one bit per block of the disk, the most significant bit of a byte
  first. Every change is written through to the disk at once.
\<close>

section \<open>Operations\<close>

text \<open>
  \<open>mem\<close> is \<open>None\<close> when \<open>mallocn\<close> fails. Otherwise it gives the bytes that follow the allocated ones in
  memory: the block that is allocated has one byte for eight disk blocks, the code later uses whole
  blocks of it.
\<close>

definition malloc_bmap :: "fs_state \<Rightarrow> bytes option \<Rightarrow> fs_state \<times> u32" where
  "malloc_bmap s mem =
     (let sz = get_hdsize (fs_hd s) div 8; nb = sz div 512 + 1;
          s = s\<lparr>num_bmap_blocks := nb, first_data_block := ROOT_INODE_BLOCK + nb + 1\<rparr>
      in case mem of None \<Rightarrow> (s\<lparr>fs_bmap := []\<rparr>, 0)
         | Some tail \<Rightarrow> (s\<lparr>fs_bmap := replicate (unat sz) 0 @ tail\<rparr>, sz))"

text \<open>Rotate left, change the first bit, rotate back.\<close>

definition mark_byte :: "u8 \<Rightarrow> nat \<Rightarrow> bool \<Rightarrow> u8" where
  "mark_byte byte bt flag =
     (let byte = drop_bit (8 - bt) byte OR push_bit bt byte;
          byte = (if flag then byte OR 0x80 else byte AND 0x7F)
      in drop_bit bt byte OR push_bit (8 - bt) byte)"

definition mark_block :: "fs_state \<Rightarrow> u32 \<Rightarrow> bool \<Rightarrow> fs_state option" where
  "mark_block s blk_nr flag = do {
     byte \<leftarrow> rd_at (fs_bmap s) (unat (blk_nr div 8));
     bm \<leftarrow> wr_at (fs_bmap s) (unat (blk_nr div 8)) (mark_byte byte (unat (blk_nr mod 8)) flag);
     let s = s\<lparr>fs_bmap := bm\<rparr>;
     buf \<leftarrow> rd_run (unat (blk_nr div 8 div 512 * 512)) BLOCK_SIZE (fs_bmap s);
     wrt_block s (FIRST_BMAP_BLOCK + blk_nr div 8 div 512) buf }"

definition is_allocated_block :: "fs_state \<Rightarrow> u32 \<Rightarrow> bool option" where
  "is_allocated_block s blk_nr = do {
     byte \<leftarrow> rd_at (fs_bmap s) (unat (blk_nr div 8));
     Some (push_bit (unat (blk_nr mod 8)) byte AND 0x80 \<noteq> 0) }"

function get_free_block :: "fs_state \<Rightarrow> u32 \<Rightarrow> u32 option" where
  "get_free_block s blk =
     (if blk < get_hdsize (fs_hd s) then do {
        a \<leftarrow> is_allocated_block s blk;
        if \<not> a then Some blk else get_free_block s (blk + 1) }
      else Some NOT_FOUND)"
  by pat_completeness auto
termination
proof (relation "measure (\<lambda>(s, blk). unat (get_hdsize (fs_hd s)) - unat blk)")
  fix s :: fs_state and blk :: u32 and a
  assume "blk < get_hdsize (fs_hd s)"
  then have "unat blk < unat (get_hdsize (fs_hd s))" by (simp add: word_less_nat_alt)
  moreover from this have "unat (blk + 1) = unat blk + 1"
    using unat_u32_lt [of "get_hdsize (fs_hd s)"] unat_add_lem [of blk 1] by simp
  ultimately show "((s, blk + 1), s, blk) \<in> measure (\<lambda>(s, blk). unat (get_hdsize (fs_hd s)) - unat blk)" by simp
qed simp

declare get_free_block.simps [simp del]

definition alloc_block :: "fs_state \<Rightarrow> u32 \<Rightarrow> (fs_state \<times> u32) option" where
  "alloc_block s start = do {
     blk_nr \<leftarrow> get_free_block s start;
     s \<leftarrow> mark_block s blk_nr True;
     Some (s, blk_nr) }"

fun mark_blocks :: "fs_state \<Rightarrow> u32 \<Rightarrow> nat \<Rightarrow> fs_state option" where
  "mark_blocks s i 0 = Some s"
| "mark_blocks s i (Suc n) = do { s \<leftarrow> mark_block s i True; mark_blocks s (i + 1) n }"

definition init_bmap :: "fs_state \<Rightarrow> bytes option \<Rightarrow> fs_state option" where
  "init_bmap s mem = (let s = fst (malloc_bmap s mem) in mark_blocks s 0 (unat (first_data_block s)))"

text \<open>\<open>n\<close> blocks are left, \<open>j\<close> is the number of the next one.\<close>

fun load_bmap_loop :: "fs_state \<Rightarrow> nat \<Rightarrow> nat \<Rightarrow> fs_state option" where
  "load_bmap_loop s j 0 = Some s"
| "load_bmap_loop s j (Suc n) = do {
     (s, buf) \<leftarrow> rd_block s (FIRST_BMAP_BLOCK + word_of_nat j) BLOCK_SIZE;
     bm \<leftarrow> wr_run (j * 512) buf (fs_bmap s);
     load_bmap_loop (s\<lparr>fs_bmap := bm\<rparr>) (j + 1) n }"

definition load_bmap :: "fs_state \<Rightarrow> bytes option \<Rightarrow> fs_state option" where
  "load_bmap s mem = (let s = fst (malloc_bmap s mem) in load_bmap_loop s 0 (unat (num_bmap_blocks s)))"

fun write_bmap_loop :: "fs_state \<Rightarrow> nat \<Rightarrow> nat \<Rightarrow> fs_state option" where
  "write_bmap_loop s j 0 = Some s"
| "write_bmap_loop s j (Suc n) = do {
     buf \<leftarrow> rd_run (j * 512) BLOCK_SIZE (fs_bmap s);
     s \<leftarrow> wrt_block s (FIRST_BMAP_BLOCK + word_of_nat j) buf;
     write_bmap_loop s (j + 1) n }"

definition write_bmap :: "fs_state \<Rightarrow> fs_state option" where
  "write_bmap s = write_bmap_loop s 0 (unat (num_bmap_blocks s))"

section \<open>The bitmap as a set of blocks\<close>

definition block_used :: "fs_state \<Rightarrow> nat \<Rightarrow> bool" where
  "block_used s b \<longleftrightarrow> bit (fs_bmap s ! (b div 8)) (7 - b mod 8)"

text \<open>
  The invariant of the bitmap: the window has \<open>num_bmap_blocks\<close> whole blocks, they cover all blocks of
  the disk, and the bitmap's own blocks are on the disk.
\<close>

definition bmap_ok :: "fs_state \<Rightarrow> bool" where
  "bmap_ok s \<longleftrightarrow> length (fs_bmap s) = unat (num_bmap_blocks s) * 512 \<and>
     unat (get_hdsize (fs_hd s)) \<le> length (fs_bmap s) * 8 \<and>
     unat (num_bmap_blocks s) + 3 \<le> unat (get_hdsize (fs_hd s))"

lemma first_bit: "x OR 0x80 = set_bit 7 x" "x AND 0x7F = unset_bit 7 x" "x AND 0x80 \<noteq> 0 \<longleftrightarrow> bit x 7" for x :: u8
proof -
  have m: "(0x7F :: u8) = NOT (push_bit 7 1)" by simp
  show "x AND 0x7F = unset_bit 7 x" by (simp only: m unset_bit_eq_and_not)
qed (simp_all add: set_bit_eq_or bit_iff_and_push_bit_not_eq_0)

lemma mark_byte_bit:
  assumes "k < 8"
  shows "bit (mark_byte b k flag) n \<longleftrightarrow> n < 8 \<and> (if n = 7 - k then flag else bit b n)"
proof -
  define x where "x = drop_bit (8 - k) b OR push_bit k b"
  have x: "bit x i \<longleftrightarrow> i < 8 \<and> (if k \<le> i then bit b (i - k) else bit b (8 - k + i))" for i
    using assms by (auto simp: x_def bit_or_iff bit_drop_bit_eq bit_push_bit_iff dest: bit_imp_le_length)
  define c where "c = (if flag then set_bit 7 x else unset_bit 7 x)"
  have c: "bit c i \<longleftrightarrow> i < 8 \<and> (if i = 7 then flag else bit x i)" for i
    using x [of i] by (cases "i < 8") (auto simp: c_def bit_set_bit_iff bit_unset_bit_iff dest: bit_imp_le_length)
  have m: "mark_byte b k flag = drop_bit k c OR push_bit (8 - k) c"
    by (simp add: mark_byte_def c_def x_def Let_def first_bit)
  show ?thesis
  proof (cases "n < 8 - k")
    case True
    with assms have "bit (mark_byte b k flag) n \<longleftrightarrow> bit c (k + n)"
      by (simp add: m bit_or_iff bit_drop_bit_eq bit_push_bit_iff)
    moreover have "k + n < 8" "k + n = 7 \<longleftrightarrow> n = 7 - k" using True assms by auto
    ultimately show ?thesis using c [of "k + n"] x [of "k + n"] by auto
  next
    case False
    have "\<not> bit c (k + n)" using c [of "k + n"] False by auto
    then have "bit (mark_byte b k flag) n \<longleftrightarrow> n < 8 \<and> bit c (n - (8 - k))"
      using False assms by (auto simp: m bit_or_iff bit_drop_bit_eq bit_push_bit_iff)
    moreover have "8 - k + (n - (8 - k)) = n" "n \<noteq> 7 - k" using False assms by auto
    moreover have "n < 8 \<Longrightarrow> n - (8 - k) < k" using False by auto
    ultimately show ?thesis using assms c [of "n - (8 - k)"] x [of "n - (8 - k)"] by auto
  qed
qed

lemma bmap_index:
  assumes "bmap_ok s" "unat b < unat (get_hdsize (fs_hd s))"
  shows "unat (b div 8) = unat b div 8" "unat (b mod 8) = unat b mod 8" "unat b div 8 < length (fs_bmap s)"
    "unat (b div 8 div 512 * 512) = unat b div 8 div 512 * 512"
    "unat b div 8 div 512 * 512 + 512 \<le> length (fs_bmap s)"
    "unat (FIRST_BMAP_BLOCK + b div 8 div 512) = 3 + unat b div 8 div 512"
    "3 + unat b div 8 div 512 < unat (get_hdsize (fs_hd s))"
proof -
  show 1: "unat (b div 8) = unat b div 8" "unat (b mod 8) = unat b mod 8" by (simp_all add: unat_div unat_mod)
  show l: "unat b div 8 < length (fs_bmap s)" using assms by (auto simp: bmap_ok_def less_mult_imp_div_less)
  have n: "unat b div 8 div 512 < unat (num_bmap_blocks s)"
    using l assms(1) by (simp add: bmap_ok_def less_mult_imp_div_less)
  show "unat b div 8 div 512 * 512 + 512 \<le> length (fs_bmap s)"
    using n assms(1) by (simp add: bmap_ok_def)
  show n3: "3 + unat b div 8 div 512 < unat (get_hdsize (fs_hd s))" using n assms(1) by (simp add: bmap_ok_def)
  have d: "unat (b div 8 div 512) = unat b div 8 div 512" by (simp add: unat_div)
  have "unat b div 8 div 512 * 512 \<le> unat b" by simp
  then show "unat (b div 8 div 512 * 512) = unat b div 8 div 512 * 512"
    using unat_u32_lt [of b] by (subst unat_mult_lem [THEN iffD1]) (simp_all add: d)
  show "unat (FIRST_BMAP_BLOCK + b div 8 div 512) = 3 + unat b div 8 div 512"
    using n3 unat_u32_lt [of "get_hdsize (fs_hd s)"]
    by (subst unat_add_lem [THEN iffD1]) (simp_all add: d FIRST_BMAP_BLOCK_def)
qed

lemma wrt_block_eq:
  "length buf \<le> 512 \<Longrightarrow> unat b \<le> unat (get_hdsize (fs_hd s)) \<Longrightarrow>
   wrt_block s b buf = Some (s\<lparr>write_cache := \<lparr>bc_nr = b, bc_data = blit 0 buf (replicate 512 0)\<rparr>,
     fs_disk := (fs_disk s)(b := blit 0 buf (replicate 512 0))\<rparr>)"
  by (simp add: wrt_block_def clear_cache_def hd_write_sector_def word_less_nat_alt)

text \<open>
  \<open>mark_block\<close> within the disk: the bitmap changes in one bit, and the disk block that holds this
  bit becomes the block of the bitmap.
\<close>

definition marked_bmap :: "fs_state \<Rightarrow> u32 \<Rightarrow> bool \<Rightarrow> bytes" where
  "marked_bmap s b flag = (fs_bmap s)[unat b div 8 := mark_byte (fs_bmap s ! (unat b div 8)) (unat b mod 8) flag]"

definition bmap_blk :: "u32 \<Rightarrow> u32" where
  "bmap_blk b = FIRST_BMAP_BLOCK + b div 8 div 512"

definition marked :: "fs_state \<Rightarrow> u32 \<Rightarrow> bool \<Rightarrow> fs_state" where
  "marked s b flag =
     (let buf = sub_bytes (unat b div 8 div 512 * 512) 512 (marked_bmap s b flag)
      in s\<lparr>fs_bmap := marked_bmap s b flag, write_cache := \<lparr>bc_nr = bmap_blk b, bc_data = buf\<rparr>,
           fs_disk := (fs_disk s)(bmap_blk b := buf)\<rparr>)"

lemma mark_block_eq:
  assumes ok: "bmap_ok s" and b: "unat b < unat (get_hdsize (fs_hd s))"
  shows "mark_block s b flag = Some (marked s b flag)"
proof -
  note i = bmap_index [OF ok b]
  let ?buf = "sub_bytes (unat b div 8 div 512 * 512) 512 (marked_bmap s b flag)"
  have l: "length (marked_bmap s b flag) = length (fs_bmap s)" by (simp add: marked_bmap_def)
  then have "rd_run (unat (b div 8 div 512 * 512)) BLOCK_SIZE (marked_bmap s b flag) = Some ?buf"
    unfolding i(4) using i(5) by (simp add: BLOCK_SIZE_def)
  moreover have "length ?buf = 512" using l i(5) by simp
  moreover have "unat (bmap_blk b) \<le> unat (get_hdsize (fs_hd s))" using i(6,7) by (simp add: bmap_blk_def)
  ultimately show ?thesis
    using i(3) by (simp add: mark_block_def wrt_block_eq i(1,2) marked_def Let_def flip: marked_bmap_def bmap_blk_def)
qed

lemma marked_simps [simp]:
  "fs_hd (marked s b flag) = fs_hd s" "num_bmap_blocks (marked s b flag) = num_bmap_blocks s"
  "first_data_block (marked s b flag) = first_data_block s" "read_cache (marked s b flag) = read_cache s"
  "addr_cache (marked s b flag) = addr_cache s" "dir_cache (marked s b flag) = dir_cache s"
  "inode_table (marked s b flag) = inode_table s" "gft (marked s b flag) = gft s" "fs_time (marked s b flag) = fs_time s"
  "m_inode_cache (marked s b flag) = m_inode_cache s" "fs_bmap (marked s b flag) = marked_bmap s b flag"
  "length (marked_bmap s b flag) = length (fs_bmap s)"
  by (simp_all add: marked_def marked_bmap_def Let_def)

lemma bmap_ok_marked [simp]: "bmap_ok (marked s b flag) = bmap_ok s"
  by (simp add: bmap_ok_def)

lemma marked_disk: "c \<noteq> bmap_blk b \<Longrightarrow> fs_disk (marked s b flag) c = fs_disk s c"
  by (simp add: marked_def Let_def)

lemma block_used_marked:
  assumes "bmap_ok s" "unat b < unat (get_hdsize (fs_hd s))"
  shows "block_used (marked s b flag) c \<longleftrightarrow> (if c = unat b then flag else block_used s c)"
proof (cases "c div 8 = unat b div 8")
  case True
  have l: "unat b div 8 < length (fs_bmap s)" by (rule bmap_index(3) [OF assms])
  have "7 - c mod 8 = 7 - unat b mod 8 \<longleftrightarrow> c mod 8 = unat b mod 8"
    using mod_less_divisor [of 8 c] mod_less_divisor [of 8 "unat b"] by arith
  also have "\<dots> \<longleftrightarrow> c = unat b" using True by (metis div_mod_decomp)
  finally have "7 - c mod 8 = 7 - unat b mod 8 \<longleftrightarrow> c = unat b" .
  moreover have "7 - c mod 8 < 8" by simp
  ultimately show ?thesis using True l
    by (auto simp: block_used_def marked_bmap_def mark_byte_bit)
next
  case False
  then show ?thesis by (auto simp: block_used_def marked_bmap_def)
qed

text \<open>The block of the bitmap on disk that holds the bit of \<open>b\<close> is brought up to date.\<close>

lemma marked_disk_same: "fs_disk (marked s b flag) (bmap_blk b) = sub_bytes (unat b div 8 div 512 * 512) 512 (fs_bmap (marked s b flag))"
  by (simp add: marked_def Let_def)

lemma is_allocated_eq:
  assumes "bmap_ok s" "unat b < unat (get_hdsize (fs_hd s))"
  shows "is_allocated_block s b = Some (block_used s (unat b))"
proof -
  note i = bmap_index [OF assms]
  have "push_bit k c AND 0x80 \<noteq> 0 \<longleftrightarrow> bit c (7 - k)" if "k < 8" for k and c :: u8
    using that by (simp add: first_bit bit_push_bit_iff)
  then show ?thesis using i(1-3) by (simp add: is_allocated_block_def block_used_def)
qed

lemma get_free_block_eq:
  assumes ok: "bmap_ok s"
  shows "\<exists>r. get_free_block s b = Some r \<and>
    (if r = NOT_FOUND then \<forall>c. unat b \<le> c \<and> c < unat (get_hdsize (fs_hd s)) \<longrightarrow> block_used s c
     else unat b \<le> unat r \<and> unat r < unat (get_hdsize (fs_hd s)) \<and> \<not> block_used s (unat r) \<and>
       (\<forall>c. unat b \<le> c \<and> c < unat r \<longrightarrow> block_used s c))"
  using ok
proof (induction s b rule: get_free_block.induct)
  case (1 s b)
  let ?n = "unat (get_hdsize (fs_hd s))"
  show ?case
  proof (cases "unat b < ?n")
    case False
    then have "get_free_block s b = Some NOT_FOUND"
      by (subst get_free_block.simps) (simp add: word_less_nat_alt)
    with False show ?thesis by auto
  next
    case True
    have a: "is_allocated_block s b = Some (block_used s (unat b))" by (rule is_allocated_eq [OF "1.prems" True])
    have lt: "b < get_hdsize (fs_hd s)" using True by (simp add: word_less_nat_alt)
    show ?thesis
    proof (cases "block_used s (unat b)")
      case False
      have "b \<noteq> NOT_FOUND" using True unat_u32_lt [of "get_hdsize (fs_hd s)"]
        by (auto simp: NOT_FOUND_def unsigned_minus_1_eq_mask mask_eq_exp_minus_1)
      with False a lt True show ?thesis by (subst get_free_block.simps) auto
    next
      case used: True
      have p: "unat (b + 1) = unat b + 1"
        using True unat_u32_lt [of "get_hdsize (fs_hd s)"] unat_add_lem [of b 1] by simp
      have g: "get_free_block s b = get_free_block s (b + 1)" using a used lt by (subst get_free_block.simps) simp
      obtain r where r: "get_free_block s (b + 1) = Some r"
        "if r = NOT_FOUND then \<forall>c. unat b + 1 \<le> c \<and> c < ?n \<longrightarrow> block_used s c
         else unat b + 1 \<le> unat r \<and> unat r < ?n \<and> \<not> block_used s (unat r) \<and> (\<forall>c. unat b + 1 \<le> c \<and> c < unat r \<longrightarrow> block_used s c)"
        using "1.IH" [OF lt a] used "1.prems" unfolding p by auto
      have "block_used s c" if "unat b \<le> c" "unat b + 1 \<le> c \<longrightarrow> block_used s c" for c
        using that used by (cases "c = unat b") auto
      with r g show ?thesis by (intro exI [of _ r]) (auto split: if_splits)
    qed
  qed
qed

lemma alloc_block_eq:
  assumes ok: "bmap_ok s" and free: "unat start \<le> c" "c < unat (get_hdsize (fs_hd s))" "\<not> block_used s c"
  shows "\<exists>r. alloc_block s start = Some (marked s r True, r) \<and> unat start \<le> unat r \<and> unat r \<le> c \<and>
    \<not> block_used s (unat r) \<and> (\<forall>d. unat start \<le> d \<and> d < unat r \<longrightarrow> block_used s d)"
proof -
  obtain r where r: "get_free_block s start = Some r"
    "if r = NOT_FOUND then \<forall>c. unat start \<le> c \<and> c < unat (get_hdsize (fs_hd s)) \<longrightarrow> block_used s c
     else unat start \<le> unat r \<and> unat r < unat (get_hdsize (fs_hd s)) \<and> \<not> block_used s (unat r) \<and>
       (\<forall>c. unat start \<le> c \<and> c < unat r \<longrightarrow> block_used s c)"
    using get_free_block_eq [OF ok, of start] by blast
  with free have nf: "r \<noteq> NOT_FOUND" by auto
  with r(2) have r2: "unat start \<le> unat r" "unat r < unat (get_hdsize (fs_hd s))" "\<not> block_used s (unat r)"
    "\<forall>c. unat start \<le> c \<and> c < unat r \<longrightarrow> block_used s c" by auto
  have "mark_block s r True = Some (marked s r True)" by (rule mark_block_eq [OF ok r2(2)])
  moreover have "unat r \<le> c" using r2(4) free by (meson not_le)
  ultimately show ?thesis using r(1) r2 by (intro exI [of _ r]) (simp add: alloc_block_def)
qed

section \<open>Properties\<close>

text \<open>
  \<open>mark_block\<close> on a block of the disk sets exactly this block's bit to the flag, as
  \<open>is_allocated_block\<close> sees it, leaves the bits of all other blocks alone, and writes just the block of
  the bitmap that holds the bit to the disk.
\<close>

theorem mark_block_correct:
  assumes ok: "bmap_ok s" and b: "unat b < unat (get_hdsize (fs_hd s))"
  shows "\<exists>s'. mark_block s b flag = Some s' \<and> bmap_ok s' \<and>
    (\<forall>c. unat c < unat (get_hdsize (fs_hd s)) \<longrightarrow>
       is_allocated_block s' c = (if c = b then Some flag else is_allocated_block s c)) \<and>
    (\<forall>k. fs_disk s' k = (if k = FIRST_BMAP_BLOCK + b div 8 div 512
       then sub_bytes (unat b div 8 div 512 * 512) 512 (fs_bmap s') else fs_disk s k))"
proof (intro exI conjI allI impI)
  show "mark_block s b flag = Some (marked s b flag)" by (rule mark_block_eq [OF ok b])
  show "bmap_ok (marked s b flag)" using ok by simp
  show "is_allocated_block (marked s b flag) c = (if c = b then Some flag else is_allocated_block s c)"
    if "unat c < unat (get_hdsize (fs_hd s))" for c
  proof -
    have "is_allocated_block (marked s b flag) c = Some (block_used (marked s b flag) (unat c))"
      by (rule is_allocated_eq) (simp_all add: ok that)
    moreover have "is_allocated_block s c = Some (block_used s (unat c))" by (rule is_allocated_eq [OF ok that])
    ultimately show ?thesis using block_used_marked [OF ok b, of flag "unat c"] by (simp add: word_unat_eq_iff)
  qed
  show "fs_disk (marked s b flag) k = (if k = FIRST_BMAP_BLOCK + b div 8 div 512
       then sub_bytes (unat b div 8 div 512 * 512) 512 (fs_bmap (marked s b flag)) else fs_disk s k)" for k
    using marked_disk [of k b s flag] marked_disk_same [of s b flag] by (simp only: bmap_blk_def) simp
qed

text \<open>A disk of 16 blocks with an empty bitmap.\<close>

definition inode_example :: m_inode where
  "inode_example = \<lparr>i_num = 0, i_adr = 2, i_mode = 2, i_size = 0, i_create_ts = time_example, i_modify_ts = time_example,
     i_direct = replicate 30 0, i_single = 0, i_double = 0\<rparr>"

definition fs_example :: fs_state where
  "fs_example = \<lparr>fs_hd = \<lparr>apparent_cyl = 1, apparent_head = 1, apparent_spt = 16, capacity_low = 16, capacity_high = 0\<rparr>,
     fs_disk = (\<lambda>_. replicate 512 0), fs_bmap = replicate 512 0, num_bmap_blocks = 1, first_data_block = 4,
     read_cache = \<lparr>bc_nr = 0, bc_data = replicate 512 0\<rparr>, write_cache = \<lparr>bc_nr = 0, bc_data = replicate 512 0\<rparr>,
     addr_cache = replicate 128 0, dir_cache = replicate 512 0,
     d_inode_cache = \<lparr>di_mode = 0, di_size = 0, di_create_ts = time_example, di_modify_ts = time_example,
       di_direct = replicate 30 0, di_single = 0, di_double = 0\<rparr>,
     m_inode_cache = inode_example, inode_table = replicate 10 inode_example, gft = [],
     fs_super = \<lparr>s_HD_size = 16, s_bmap_blocks = 1, s_first_data_block = 4, s_max_file_size = 0, s_bmap = 0, s_iroot = 0,
       s_modify_ts = time_example, s_read_only = 0, s_dirt = 0, s_magic_number = 0\<rparr>,
     fs_time = time_example\<rparr>"

lemma fs_example_hd: "get_hdsize (fs_hd fs_example) = 16"
  by (simp add: fs_example_def get_hdsize_def)

lemma fs_example_ok: "bmap_ok fs_example"
  by (simp add: bmap_ok_def fs_example_hd) (simp add: fs_example_def)

theorem mark_block_correct_witness:
  "\<exists>s'. mark_block fs_example 9 True = Some s' \<and> bmap_ok s' \<and>
    (\<forall>c. unat c < unat (get_hdsize (fs_hd fs_example)) \<longrightarrow>
       is_allocated_block s' c = (if c = 9 then Some True else is_allocated_block fs_example c)) \<and>
    (\<forall>k. fs_disk s' k = (if k = FIRST_BMAP_BLOCK + 9 div 8 div 512
       then sub_bytes (unat (9 :: u32) div 8 div 512 * 512) 512 (fs_bmap s') else fs_disk fs_example k))"
  by (rule mark_block_correct [OF fs_example_ok]) (simp add: fs_example_hd)

text \<open>
  C18. \<open>alloc_block\<close> returns the first block from \<open>start\<close> on that is not in use, when there is one, and
  marks this block and no other as used.
\<close>

theorem alloc_block_first:
  assumes ok: "bmap_ok s" and free: "unat start \<le> c" "c < unat (get_hdsize (fs_hd s))" "\<not> block_used s c"
  shows "\<exists>s' r. alloc_block s start = Some (s', r) \<and> bmap_ok s' \<and> unat start \<le> unat r \<and> unat r \<le> c \<and>
    \<not> block_used s (unat r) \<and> (\<forall>d. unat start \<le> d \<and> d < unat r \<longrightarrow> block_used s d) \<and>
    (\<forall>d. block_used s' d \<longleftrightarrow> d = unat r \<or> block_used s d)"
proof -
  obtain r where r: "alloc_block s start = Some (marked s r True, r)" "unat start \<le> unat r" "unat r \<le> c"
    "\<not> block_used s (unat r)" "\<forall>d. unat start \<le> d \<and> d < unat r \<longrightarrow> block_used s d"
    using alloc_block_eq [OF assms] by blast
  have "unat r < unat (get_hdsize (fs_hd s))" using r(3) free(2) by simp
  then have "block_used (marked s r True) d \<longleftrightarrow> d = unat r \<or> block_used s d" for d
    using block_used_marked [OF ok, of r True d] by auto
  moreover have "bmap_ok (marked s r True)" using ok by simp
  ultimately show ?thesis using r by blast
qed

lemma fs_example_free: "\<not> block_used fs_example c" if "c < 4096" for c
proof -
  have "c div 8 < 512" using that by (simp add: less_mult_imp_div_less)
  then show ?thesis by (simp add: block_used_def fs_example_def)
qed

theorem alloc_block_first_witness:
  "\<exists>s' r. alloc_block fs_example 4 = Some (s', r) \<and> bmap_ok s' \<and> unat (4 :: u32) \<le> unat r \<and> unat r \<le> 7 \<and>
    \<not> block_used fs_example (unat r) \<and> (\<forall>d. unat (4 :: u32) \<le> d \<and> d < unat r \<longrightarrow> block_used fs_example d) \<and>
    (\<forall>d. block_used s' d \<longleftrightarrow> d = unat r \<or> block_used fs_example d)"
  by (rule alloc_block_first [OF fs_example_ok]) (simp_all add: fs_example_hd fs_example_free)

text \<open>
  C37. On a full disk \<open>alloc_block\<close> does not report the failure: it marks block number \<open>0xFFFFFFFF\<close>, that
  is, it accesses the bitmap far outside of its memory.
\<close>

theorem alloc_block_full:
  assumes ok: "bmap_ok s" and full: "\<forall>c. unat start \<le> c \<and> c < unat (get_hdsize (fs_hd s)) \<longrightarrow> block_used s c"
    and len: "length (fs_bmap s) \<le> 0x1FFFFFFF"
  shows "get_free_block s start = Some NOT_FOUND \<and> alloc_block s start = None"
proof -
  have g: "get_free_block s start = Some NOT_FOUND"
    using get_free_block_eq [OF ok, of start] full by (auto split: if_splits)
  have "unat (NOT_FOUND div 8) = 0x1FFFFFFF"
    by (simp add: NOT_FOUND_def unat_div unsigned_minus_1_eq_mask mask_eq_exp_minus_1)
  then have "mark_block s NOT_FOUND True = None" using len by (simp add: mark_block_def bind_eq_None_conv)
  with g show ?thesis by (simp add: alloc_block_def)
qed

theorem alloc_block_full_witness:
  "get_free_block fs_example 16 = Some NOT_FOUND \<and> alloc_block fs_example 16 = None"
proof (rule alloc_block_full [OF fs_example_ok])
  show "\<forall>c. unat (16 :: u32) \<le> c \<and> c < unat (get_hdsize (fs_hd fs_example)) \<longrightarrow> block_used fs_example c"
    by (auto simp: fs_example_hd)
  show "length (fs_bmap fs_example) \<le> 0x1FFFFFFF" by (simp add: fs_example_def)
qed

end
