(* ===== verification/Slots.thy ===== *)
theory Slots
  imports FsState
begin

text \<open>
  The tables of fixed size in which the kernel keeps inodes, open files and the files of a process:
  an entry carries its own number, the number of a free entry is \<open>-1\<close>. The lemmas that the
  tables share are proved once, in the locale \<open>slot_table\<close>; each table interprets it.
\<close>

definition slots_ok :: "('a \<Rightarrow> 16 word) \<Rightarrow> nat \<Rightarrow> 'a list \<Rightarrow> bool" where
  "slots_ok nr cap xs \<longleftrightarrow> length xs = cap \<and> (\<forall>i < cap. nr (xs ! i) = - 1 \<or> nr (xs ! i) = word_of_nat i)"

lemma slot_number: "i < 100 \<Longrightarrow> unat (word_of_nat i :: 16 word) = i"
  by (simp add: unat_of_nat)

lemma slot_not_nil: "i < 100 \<Longrightarrow> (word_of_nat i :: 16 word) \<noteq> - 1"
proof
  assume "i < 100" "(word_of_nat i :: 16 word) = - 1"
  then have "i = unat (- 1 :: 16 word)" using slot_number [of i] by simp
  also have "\<dots> = 65535" by (simp add: unsigned_minus_1_eq_mask mask_eq_exp_minus_1)
  finally show False using \<open>i < 100\<close> by simp
qed

lemma slot_inj: "i < 100 \<Longrightarrow> j < 100 \<Longrightarrow> (word_of_nat i :: 16 word) = word_of_nat j \<Longrightarrow> i = j"
  using slot_number by metis

locale slot_table =
  fixes nr :: "'a \<Rightarrow> 16 word" and cap :: nat
  assumes cap: "cap \<le> 100"
begin

lemma slot_same:
  assumes "slots_ok nr cap xs" "i < cap" "j < cap" "nr (xs ! j) = word_of_nat i"
  shows "j = i"
proof -
  have "nr (xs ! j) = - 1 \<or> nr (xs ! j) = word_of_nat j" using assms(1,3) by (simp add: slots_ok_def)
  moreover have "i < 100" "j < 100" using assms(2,3) cap by simp_all
  ultimately show ?thesis using assms(4) slot_not_nil [of i] slot_inj [of j i] by metis
qed

lemma lookup_slot:
  assumes ok: "slots_ok nr cap xs" and i: "i < cap" "nr (xs ! i) = word_of_nat i"
  shows "first_index (\<lambda>x. nr x = word_of_nat i) xs = Some i"
proof (rule first_index_unique)
  show "i < length xs" using ok i(1) by (simp add: slots_ok_def)
  show "j = i" if "j < length xs" "nr (xs ! j) = word_of_nat i" for j
    using slot_same [OF ok i(1) _ that(2)] that(1) ok by (simp add: slots_ok_def)
qed (rule i(2))

lemma lookup_SomeD:
  assumes ok: "slots_ok nr cap xs" and "first_index (\<lambda>x. nr x = d) xs = Some i"
  shows "i < cap" "nr (xs ! i) = d" "d \<noteq> - 1 \<Longrightarrow> d = word_of_nat i"
proof -
  have "i < length xs \<and> nr (xs ! i) = d" using first_index_SomeD [OF assms(2)] by simp
  then show i: "i < cap" "nr (xs ! i) = d" using ok by (simp_all add: slots_ok_def)
  show "d = word_of_nat i" if "d \<noteq> - 1" using ok i that by (auto simp: slots_ok_def)
qed

lemma slots_ok_upd:
  "slots_ok nr cap xs \<Longrightarrow> nr x = - 1 \<or> nr x = word_of_nat i \<Longrightarrow> slots_ok nr cap (xs[i := x])"
  unfolding slots_ok_def length_list_update by (metis nth_list_update_eq nth_list_update_neq)

lemma no_free: "slots_ok nr cap xs \<Longrightarrow> first_index (\<lambda>x. nr x = - 1) xs = None \<Longrightarrow> i < cap \<Longrightarrow> nr (xs ! i) = word_of_nat i"
proof -
  assume ok: "slots_ok nr cap xs" and n: "first_index (\<lambda>x. nr x = - 1) xs = None" and i: "i < cap"
  have "xs ! i \<in> set xs" using ok i by (simp add: slots_ok_def)
  with n have "nr (xs ! i) \<noteq> - 1" by (simp add: first_index_None)
  with ok i show ?thesis by (auto simp: slots_ok_def)
qed

end

end
