(* ===== verification/Inodes.thy ===== *)
theory Inodes
  imports Bmap Slots
begin

text \<open>
  The inode table of \<open>fs/fs_inode_table.c\<close>: the inodes of the open files in memory, slot 0 being the
  root, and their transfer to and from the disk. A pointer into the table is the number of the slot.
\<close>

section \<open>Operations\<close>

definition NIL_INODE :: "16 word" where "NIL_INODE = - 1"
definition ROOT_INODE :: nat where "ROOT_INODE = 0"

definition init_inode_table :: "fs_state \<Rightarrow> fs_state" where
  "init_inode_table s = s\<lparr>inode_table := map (\<lambda>m. m\<lparr>i_num := NIL_INODE\<rparr>) (inode_table s)\<rparr>"

definition get_inode :: "fs_state \<Rightarrow> 16 word \<Rightarrow> nat option" where
  "get_inode s num = first_index (\<lambda>m. i_num m = num) (inode_table s)"

definition cpy_minode_to_dinode :: "m_inode \<Rightarrow> d_inode" where
  "cpy_minode_to_dinode mi = \<lparr>di_mode = i_mode mi, di_size = i_size mi, di_create_ts = i_create_ts mi,
     di_modify_ts = i_modify_ts mi, di_direct = take NUM_DIRECT_POINTER (i_direct mi), di_single = i_single mi,
     di_double = i_double mi\<rparr>"

definition cpy_dinode_to_minode :: "m_inode \<Rightarrow> d_inode \<Rightarrow> m_inode" where
  "cpy_dinode_to_minode mi di = mi\<lparr>i_mode := di_mode di, i_size := di_size di, i_create_ts := di_create_ts di,
     i_modify_ts := di_modify_ts di, i_direct := take NUM_DIRECT_POINTER (di_direct di), i_single := di_single di,
     i_double := di_double di\<rparr>"

definition read_dinode :: "fs_state \<Rightarrow> u32 \<Rightarrow> (fs_state \<times> d_inode) option" where
  "read_dinode s inode_blk = do {
     (s, buf) \<leftarrow> rd_block s inode_blk DISK_INODE_SIZE;
     Some (s, dec_dinode buf) }"

definition read_minode :: "fs_state \<Rightarrow> m_inode \<Rightarrow> u32 \<Rightarrow> (fs_state \<times> m_inode) option" where
  "read_minode s inode inode_blk = do {
     (s, d) \<leftarrow> read_dinode s inode_blk;
     let s = s\<lparr>d_inode_cache := d\<rparr>;
     Some (s, (cpy_dinode_to_minode inode d)\<lparr>i_adr := inode_blk\<rparr>) }"

definition write_inode :: "fs_state \<Rightarrow> m_inode \<Rightarrow> fs_state option" where
  "write_inode s inode = do {
     let s = s\<lparr>d_inode_cache := cpy_minode_to_dinode inode\<rparr>;
     wrt_block s (i_adr inode) (enc_dinode (d_inode_cache s)) }"

fun write_inodes_loop :: "fs_state \<Rightarrow> m_inode list \<Rightarrow> fs_state option" where
  "write_inodes_loop s [] = Some s"
| "write_inodes_loop s (m # ms) = do { s \<leftarrow> write_inode s m; write_inodes_loop s ms }"

definition write_inodes :: "fs_state \<Rightarrow> fs_state option" where
  "write_inodes s = write_inodes_loop s (inode_table s)"

definition alloc_inode :: "fs_state \<Rightarrow> fs_state \<times> nat option" where
  "alloc_inode s = (case first_index (\<lambda>m. i_num m = NIL_INODE) (inode_table s) of
       None \<Rightarrow> (s, None)
     | Some i \<Rightarrow> (s\<lparr>inode_table := (inode_table s)[i := (inode_table s ! i)\<lparr>i_num := word_of_nat i\<rparr>]\<rparr>, Some i))"

text \<open>A number that is not in the table is a \<open>NULL\<close> pointer that is written through.\<close>

definition free_inode :: "fs_state \<Rightarrow> 16 word \<Rightarrow> fs_state option" where
  "free_inode s num = do {
     i \<leftarrow> get_inode s num;
     Some (s\<lparr>inode_table := (inode_table s)[i := (inode_table s ! i)\<lparr>i_num := NIL_INODE\<rparr>]\<rparr>) }"

definition fresh_inode :: "fs_state \<Rightarrow> 16 word \<Rightarrow> u32 \<Rightarrow> u16 \<Rightarrow> m_inode" where
  "fresh_inode s num adr mode = \<lparr>i_num = num, i_adr = adr, i_mode = mode, i_size = 0, i_create_ts = fs_time s,
     i_modify_ts = fs_time s, i_direct = replicate NUM_DIRECT_POINTER 0, i_single = 0, i_double = 0\<rparr>"

text \<open>
  The result is the new inode, with its slot when it is in the table; \<open>Some (s, None)\<close> is \<open>NULL\<close>
  because \<open>mallocn\<close> failed (\<open>heap_ok\<close> is false). A full table is a \<open>NULL\<close> pointer that is written
  through.
\<close>

definition new_minode :: "fs_state \<Rightarrow> bool \<Rightarrow> u32 \<Rightarrow> u16 \<Rightarrow> bool \<Rightarrow> (fs_state \<times> (nat option \<times> m_inode) option) option" where
  "new_minode s heap_ok adr mode to_inode_table =
     (if \<not> to_inode_table then
        if \<not> heap_ok then Some (s, None)
        else Some (s, Some (None, fresh_inode s NIL_INODE adr mode))
      else case alloc_inode s of
        (s, None) \<Rightarrow> None
      | (s, Some i) \<Rightarrow>
          let mi = fresh_inode s (i_num (inode_table s ! i)) adr mode
          in Some (s\<lparr>inode_table := (inode_table s)[i := mi]\<rparr>, Some (Some i, mi)))"

definition create_root :: "fs_state \<Rightarrow> bool \<Rightarrow> fs_state option" where
  "create_root s heap_ok = do {
     (s, r) \<leftarrow> new_minode s heap_ok ROOT_INODE_BLOCK DIRECTORY False;
     case r of None \<Rightarrow> Some s
     | Some (_, mi) \<Rightarrow> do {
         t \<leftarrow> wr_at (inode_table s) ROOT_INODE (mi\<lparr>i_num := word_of_nat ROOT_INODE\<rparr>);
         Some (s\<lparr>inode_table := t\<rparr>) } }"

definition load_root :: "fs_state \<Rightarrow> fs_state option" where
  "load_root s = do {
     r \<leftarrow> rd_at (inode_table s) ROOT_INODE;
     (s, r) \<leftarrow> read_minode s r ROOT_INODE_BLOCK;
     t \<leftarrow> wr_at (inode_table s) ROOT_INODE (r\<lparr>i_adr := ROOT_INODE_BLOCK, i_num := word_of_nat ROOT_INODE\<rparr>);
     Some (s\<lparr>inode_table := t\<rparr>) }"

text \<open>The temporary disk inode that \<open>write_root\<close> allocates is not used.\<close>

definition write_root :: "fs_state \<Rightarrow> fs_state option" where
  "write_root s = do { r \<leftarrow> rd_at (inode_table s) ROOT_INODE; write_inode s r }"

section \<open>Inodes on disk\<close>

lemma length_cpy [simp]: "length (i_direct mi) = 30 \<Longrightarrow> length (di_direct (cpy_minode_to_dinode mi)) = 30"
  by (simp add: cpy_minode_to_dinode_def NUM_DIRECT_POINTER_def)

lemma cpy_roundtrip:
  "length (i_direct mi) = 30 \<Longrightarrow>
   cpy_dinode_to_minode m0 (cpy_minode_to_dinode mi) = mi\<lparr>i_num := i_num m0, i_adr := i_adr m0\<rparr>"
  by (simp add: cpy_dinode_to_minode_def cpy_minode_to_dinode_def NUM_DIRECT_POINTER_def)

text \<open>The inode that a block of the disk holds.\<close>

definition disk_inode :: "fs_state \<Rightarrow> u32 \<Rightarrow> d_inode" where
  "disk_inode s b = dec_dinode (sub_bytes 0 150 (fs_disk s b))"

lemma blit_0: "length ys \<le> n \<Longrightarrow> blit 0 ys (replicate n 0) = ys @ replicate (n - length ys) 0"
  by (simp add: blit_def)

lemma write_inode_eq:
  assumes "length (i_direct mi) = 30" "unat (i_adr mi) \<le> unat (get_hdsize (fs_hd s))"
  shows "write_inode s mi = Some (s\<lparr>d_inode_cache := cpy_minode_to_dinode mi,
    write_cache := \<lparr>bc_nr = i_adr mi, bc_data = enc_dinode (cpy_minode_to_dinode mi) @ replicate 362 0\<rparr>,
    fs_disk := (fs_disk s)(i_adr mi := enc_dinode (cpy_minode_to_dinode mi) @ replicate 362 0)\<rparr>)"
  using assms length_enc_dinode [of "cpy_minode_to_dinode mi"]
  by (simp add: write_inode_def wrt_block_eq blit_0)

lemma cache_block_eq:
  "unat b \<le> unat (get_hdsize (fs_hd s)) \<Longrightarrow>
   cache_block s b = Some (s\<lparr>read_cache := \<lparr>bc_nr = b, bc_data = fs_disk s b\<rparr>\<rparr>)"
  by (simp add: cache_block_def hd_read_sector_def word_less_nat_alt)

lemma rd_block_eq:
  "unat b \<le> unat (get_hdsize (fs_hd s)) \<Longrightarrow> n \<le> length (fs_disk s b) \<Longrightarrow>
   rd_block s b n = Some (s\<lparr>read_cache := \<lparr>bc_nr = b, bc_data = fs_disk s b\<rparr>\<rparr>, sub_bytes 0 n (fs_disk s b))"
  by (simp add: rd_block_def cache_block_eq)

lemma read_minode_eq:
  assumes "unat b \<le> unat (get_hdsize (fs_hd s))" "length (fs_disk s b) = 512"
  shows "read_minode s m0 b = Some (s\<lparr>read_cache := \<lparr>bc_nr = b, bc_data = fs_disk s b\<rparr>, d_inode_cache := disk_inode s b\<rparr>,
    (cpy_dinode_to_minode m0 (disk_inode s b))\<lparr>i_adr := b\<rparr>)"
  using assms by (simp add: read_minode_def read_dinode_def rd_block_eq DISK_INODE_SIZE_def disk_inode_def)

lemma disk_inode_written:
  assumes "length (i_direct mi) = 30" "fs_disk s b = enc_dinode (cpy_minode_to_dinode mi) @ replicate 362 0"
  shows "disk_inode s b = cpy_minode_to_dinode mi"
proof -
  have "sub_bytes 0 150 (enc_dinode (cpy_minode_to_dinode mi) @ replicate 362 0) = enc_dinode (cpy_minode_to_dinode mi) @ []"
    using length_enc_dinode [of "cpy_minode_to_dinode mi"] assms(1) by (simp add: sub_bytes_def)
  then show ?thesis using assms by (simp only: disk_inode_def dec_enc_dinode length_cpy)
qed

section \<open>The table\<close>

text \<open>Every slot is free or carries its own number.\<close>

definition inode_table_ok :: "fs_state \<Rightarrow> bool" where
  "inode_table_ok s \<longleftrightarrow> slots_ok i_num NUM_INODES (inode_table s)"

interpretation it: slot_table i_num NUM_INODES
  by unfold_locales (simp add: NUM_INODES_def)

lemma get_inode_slot:
  "inode_table_ok s \<Longrightarrow> i < 10 \<Longrightarrow> i_num (inode_table s ! i) = word_of_nat i \<Longrightarrow> get_inode s (word_of_nat i) = Some i"
  unfolding get_inode_def inode_table_ok_def by (rule it.lookup_slot) (simp_all add: NUM_INODES_def)

lemma inode_table_ok_upd:
  "inode_table_ok s \<Longrightarrow> i < 10 \<Longrightarrow> i_num m = NIL_INODE \<or> i_num m = word_of_nat i \<Longrightarrow>
   inode_table_ok (s\<lparr>inode_table := (inode_table s)[i := m]\<rparr>)"
  by (simp add: inode_table_ok_def it.slots_ok_upd NIL_INODE_def)

lemma inode_table_len: "inode_table_ok s \<Longrightarrow> length (inode_table s) = 10"
  by (simp add: inode_table_ok_def slots_ok_def NUM_INODES_def)

lemma alloc_inode_eq:
  assumes ok: "inode_table_ok s"
  shows "case alloc_inode s of
      (s', None) \<Rightarrow> s' = s \<and> (\<forall>i < 10. i_num (inode_table s ! i) \<noteq> NIL_INODE)
    | (s', Some i) \<Rightarrow> i < 10 \<and> i_num (inode_table s ! i) = NIL_INODE \<and> (\<forall>j < i. i_num (inode_table s ! j) \<noteq> NIL_INODE) \<and>
        s' = s\<lparr>inode_table := (inode_table s)[i := (inode_table s ! i)\<lparr>i_num := word_of_nat i\<rparr>]\<rparr> \<and> inode_table_ok s'"
proof (cases "first_index (\<lambda>m. i_num m = NIL_INODE) (inode_table s)")
  case None
  have "i_num (inode_table s ! i) \<noteq> NIL_INODE" if "i < 10" for i
  proof -
    have "inode_table s ! i \<in> set (inode_table s)" using that inode_table_len [OF ok] by simp
    with None show ?thesis by (simp add: first_index_None)
  qed
  moreover have "alloc_inode s = (s, None)" by (simp add: alloc_inode_def None)
  ultimately show ?thesis by simp
next
  case (Some i)
  then have i: "i < 10" "i_num (inode_table s ! i) = NIL_INODE" "\<forall>j < i. i_num (inode_table s ! j) \<noteq> NIL_INODE"
    using inode_table_len [OF ok] by (auto simp: first_index_Some)
  then show ?thesis using Some inode_table_ok_upd [OF ok i(1)] by (simp add: alloc_inode_def)
qed

section \<open>Properties\<close>

text \<open>
  C31. An inode that \<open>write_inode\<close> has written to its block is what \<open>read_minode\<close> reads back from the
  block: all fields except the slot number, which stays that of the memory it is read into. No
  other block of the disk changes.
\<close>

theorem inode_roundtrip:
  assumes len: "length (i_direct mi) = 30" and adr: "unat (i_adr mi) \<le> unat (get_hdsize (fs_hd s))"
  shows "\<exists>s1 s2. write_inode s mi = Some s1 \<and> read_minode s1 m0 (i_adr mi) = Some (s2, mi\<lparr>i_num := i_num m0\<rparr>) \<and>
    (\<forall>b. b \<noteq> i_adr mi \<longrightarrow> fs_disk s1 b = fs_disk s b)"
proof -
  let ?data = "enc_dinode (cpy_minode_to_dinode mi) @ replicate 362 0"
  let ?s1 = "s\<lparr>d_inode_cache := cpy_minode_to_dinode mi, write_cache := \<lparr>bc_nr = i_adr mi, bc_data = ?data\<rparr>,
    fs_disk := (fs_disk s)(i_adr mi := ?data)\<rparr>"
  have w: "write_inode s mi = Some ?s1" by (rule write_inode_eq [OF assms])
  have "length ?data = 512" using length_enc_dinode [of "cpy_minode_to_dinode mi"] len by simp
  then have r: "\<exists>s2. read_minode ?s1 m0 (i_adr mi) = Some (s2, (cpy_dinode_to_minode m0 (disk_inode ?s1 (i_adr mi)))\<lparr>i_adr := i_adr mi\<rparr>)"
    using adr by (subst read_minode_eq) simp_all
  have "disk_inode ?s1 (i_adr mi) = cpy_minode_to_dinode mi" by (rule disk_inode_written [OF len]) simp
  with r cpy_roundtrip [OF len, of m0]
  have "\<exists>s2. read_minode ?s1 m0 (i_adr mi) = Some (s2, mi\<lparr>i_num := i_num m0\<rparr>)" by simp
  with w show ?thesis by auto
qed

theorem inode_roundtrip_witness:
  "\<exists>s1 s2. write_inode fs_example inode_example = Some s1 \<and>
    read_minode s1 (inode_example\<lparr>i_num := 5, i_size := 7\<rparr>) (i_adr inode_example) =
      Some (s2, inode_example\<lparr>i_num := i_num (inode_example\<lparr>i_num := 5, i_size := 7\<rparr>)\<rparr>) \<and>
    (\<forall>b. b \<noteq> i_adr inode_example \<longrightarrow> fs_disk s1 b = fs_disk fs_example b)"
  by (rule inode_roundtrip) (simp_all add: fs_example_hd, simp_all add: inode_example_def)

text \<open>
  \<open>alloc_inode\<close> hands out the first free slot of the inode table, under its own number, so that
  \<open>get_inode\<close> finds it; \<open>free_inode\<close> with that number makes the slot free again and touches no other
  slot. When all slots are in use it returns \<open>NULL\<close> and changes nothing.
\<close>

theorem alloc_free_inode:
  assumes ok: "inode_table_ok s"
  shows "case alloc_inode s of
      (s1, None) \<Rightarrow> s1 = s \<and> (\<forall>i < 10. i_num (inode_table s ! i) \<noteq> NIL_INODE)
    | (s1, Some i) \<Rightarrow> i_num (inode_table s ! i) = NIL_INODE \<and> inode_table_ok s1 \<and>
        get_inode s1 (word_of_nat i) = Some i \<and>
        (\<exists>s2. free_inode s1 (word_of_nat i) = Some s2 \<and> inode_table_ok s2 \<and> inode_table s2 = inode_table s)"
proof -
  note a = alloc_inode_eq [OF ok]
  show ?thesis
  proof (cases "alloc_inode s")
    case (Pair s1 r)
    show ?thesis
    proof (cases r)
      case None
      with a Pair show ?thesis by simp
    next
      case (Some i)
      have i: "i < 10" "i_num (inode_table s ! i) = NIL_INODE"
        "s1 = s\<lparr>inode_table := (inode_table s)[i := (inode_table s ! i)\<lparr>i_num := word_of_nat i\<rparr>]\<rparr>" "inode_table_ok s1"
        using a unfolding Pair Some prod.case option.case by blast+
      have len: "length (inode_table s) = 10" by (rule inode_table_len [OF ok])
      have g: "get_inode s1 (word_of_nat i) = Some i"
        by (rule get_inode_slot [OF i(4,1)]) (use i len in simp)
      let ?s2 = "s1\<lparr>inode_table := (inode_table s1)[i := (inode_table s1 ! i)\<lparr>i_num := NIL_INODE\<rparr>]\<rparr>"
      have "free_inode s1 (word_of_nat i) = Some ?s2" using g by (simp add: free_inode_def)
      moreover have "inode_table_ok ?s2" by (rule inode_table_ok_upd [OF i(4,1)]) simp
      moreover have "(inode_table s ! i)\<lparr>i_num := NIL_INODE\<rparr> = inode_table s ! i" using i(2) by simp
      then have "inode_table ?s2 = inode_table s" using len i(1) unfolding i(3) by simp
      ultimately show ?thesis using Pair Some i g by simp
    qed
  qed
qed

definition fs_example2 :: fs_state where
  "fs_example2 = fs_example\<lparr>inode_table := inode_example # replicate 9 (inode_example\<lparr>i_num := NIL_INODE\<rparr>)\<rparr>"

lemma fs_example2_table: "inode_table_ok fs_example2"
proof -
  have "i_num (inode_table fs_example2 ! i) = NIL_INODE \<or> i_num (inode_table fs_example2 ! i) = word_of_nat i" if "i < 10" for i
    using that by (cases i) (auto simp: fs_example2_def inode_example_def)
  then show ?thesis by (simp add: inode_table_ok_def slots_ok_def NUM_INODES_def NIL_INODE_def fs_example2_def)
qed

theorem alloc_free_inode_witness:
  "case alloc_inode fs_example2 of
      (s1, None) \<Rightarrow> s1 = fs_example2 \<and> (\<forall>i < 10. i_num (inode_table fs_example2 ! i) \<noteq> NIL_INODE)
    | (s1, Some i) \<Rightarrow> i_num (inode_table fs_example2 ! i) = NIL_INODE \<and> inode_table_ok s1 \<and>
        get_inode s1 (word_of_nat i) = Some i \<and>
        (\<exists>s2. free_inode s1 (word_of_nat i) = Some s2 \<and> inode_table_ok s2 \<and> inode_table s2 = inode_table fs_example2)"
  by (rule alloc_free_inode [OF fs_example2_table])

end
