(* ===== verification/FileTables.thy ===== *)
theory FileTables
  imports Inodes
begin

text \<open>
  The tables of open files of \<open>fs/fs_file_table.c\<close>: the global table, whose entries refer to an inode
  of the inode table and count the processes that use the file, and the table that each process
  has. A pointer to an entry is the number of its slot. \<open>mallocn\<close>, which \<open>strdup\<close> calls, expands the
  heap or panics and does not return \<open>NULL\<close>.
\<close>

section \<open>Operations\<close>

definition NIL_FILE :: "16 word" where "NIL_FILE = - 1"
definition NIL_PROC_FILE :: "16 word" where "NIL_PROC_FILE = - 1"

record file_info =
  fi_name :: bytes
  fi_mode :: u16
  fi_size :: u32
  fi_create_ts :: time_t
  fi_modify_ts :: time_t
  fi_num_links :: u16

definition init_file_table :: "fs_state \<Rightarrow> fs_state" where
  "init_file_table s = s\<lparr>gft := map (\<lambda>f. f\<lparr>f_desc := NIL_FILE\<rparr>) (gft s)\<rparr>"

definition init_proc_file_table :: "proc_file list \<Rightarrow> proc_file list" where
  "init_proc_file_table pft = map (\<lambda>p. p\<lparr>pf_desc := NIL_PROC_FILE\<rparr>) pft"

definition get_file :: "fs_state \<Rightarrow> 16 word \<Rightarrow> nat option" where
  "get_file s fd = first_index (\<lambda>f. f_desc f = fd) (gft s)"

definition get_proc_file :: "proc_file list \<Rightarrow> 16 word \<Rightarrow> nat option" where
  "get_proc_file pft fd = first_index (\<lambda>p. pf_desc p = fd) pft"

definition alloc_file :: "fs_state \<Rightarrow> fs_state \<times> nat option" where
  "alloc_file s = (case first_index (\<lambda>f. f_desc f = NIL_FILE) (gft s) of
       None \<Rightarrow> (s, None)
     | Some i \<Rightarrow> (s\<lparr>gft := (gft s)[i := (gft s ! i)\<lparr>f_desc := word_of_nat i, f_count := 0\<rparr>]\<rparr>, Some i))"

definition alloc_proc_file :: "proc_file list \<Rightarrow> proc_file list \<times> nat option" where
  "alloc_proc_file pft = (case first_index (\<lambda>p. pf_desc p = NIL_PROC_FILE) pft of
       None \<Rightarrow> (pft, None)
     | Some i \<Rightarrow> (pft[i := (pft ! i)\<lparr>pf_desc := word_of_nat i\<rparr>], Some i))"

definition name2desc :: "fs_state \<Rightarrow> bytes \<Rightarrow> 16 word" where
  "name2desc s name = (case first_index (\<lambda>f. case f_name f of None \<Rightarrow> False | Some n \<Rightarrow> str_cmp name n = 0) (gft s) of
       None \<Rightarrow> - 1
     | Some i \<Rightarrow> f_desc (gft s ! i))"

text \<open>The loop reads the inode of every entry up to the first match, unused ones too.\<close>

fun inode2desc_loop :: "m_inode list \<Rightarrow> m_inode \<Rightarrow> gfile list \<Rightarrow> (16 word) option" where
  "inode2desc_loop tbl inode [] = Some (- 1)"
| "inode2desc_loop tbl inode (f # fs) = do {
     j \<leftarrow> f_inode f;
     m \<leftarrow> rd_at tbl j;
     if i_num inode = i_num m then Some (f_desc f) else inode2desc_loop tbl inode fs }"

definition inode2desc :: "fs_state \<Rightarrow> m_inode \<Rightarrow> (16 word) option" where
  "inode2desc s inode = inode2desc_loop (inode_table s) inode (gft s)"

definition contains_file :: "fs_state \<Rightarrow> 16 word \<Rightarrow> bool" where
  "contains_file s fd \<longleftrightarrow> get_file s fd \<noteq> None"

definition insert_file :: "fs_state \<Rightarrow> nat \<Rightarrow> bytes \<Rightarrow> u8 \<Rightarrow> fs_state \<times> 16 word" where
  "insert_file s inode name mode =
     (let old = name2desc s name
      in if old \<noteq> - 1 then (s, old)
         else case alloc_file s of
           (s, None) \<Rightarrow> (s, - 1)
         | (s, Some i) \<Rightarrow>
             let f = (gft s ! i)\<lparr>f_inode := Some inode, f_name := Some name, f_mode := mode\<rparr>
             in (s\<lparr>gft := (gft s)[i := f]\<rparr>, f_desc f))"

definition inc_count :: "fs_state \<Rightarrow> 16 word \<Rightarrow> fs_state option" where
  "inc_count s fd = do {
     i \<leftarrow> get_file s fd;
     Some (s\<lparr>gft := (gft s)[i := (gft s ! i)\<lparr>f_count := f_count (gft s ! i) + 1\<rparr>]\<rparr>) }"

definition insert_proc_file ::
  "fs_state \<Rightarrow> proc_file list \<Rightarrow> 16 word \<Rightarrow> (fs_state \<times> proc_file list \<times> 16 word) option" where
  "insert_proc_file s pft glo_fd = (case alloc_proc_file pft of
       (pft, None) \<Rightarrow> Some (s, pft, - 1)
     | (pft, Some i) \<Rightarrow> do {
         let p = (pft ! i)\<lparr>pf_f_desc := glo_fd, pf_pos := 0\<rparr>;
         s \<leftarrow> (if get_file s glo_fd \<noteq> None then inc_count s glo_fd else Some s);
         Some (s, pft[i := p], pf_desc p) })"

text \<open>The memory of the name is given back; without an inode its pointer is read at address 0.\<close>

definition free_file :: "fs_state \<Rightarrow> 16 word \<Rightarrow> fs_state option" where
  "free_file s fd = (case get_file s fd of
       None \<Rightarrow> Some s
     | Some i \<Rightarrow> do {
         let f = gft s ! i;
         let f = (if f_count f > 0 then f\<lparr>f_count := f_count f - 1\<rparr> else f);
         if f_count f = 0 then do {
           let f = f\<lparr>f_desc := NIL_FILE, f_name := None\<rparr>;
           let s = s\<lparr>gft := (gft s)[i := f]\<rparr>;
           j \<leftarrow> f_inode f;
           m \<leftarrow> rd_at (inode_table s) j;
           if i_adr m \<noteq> ROOT_INODE_BLOCK then free_inode s (i_num m) else Some s }
         else Some (s\<lparr>gft := (gft s)[i := f]\<rparr>) })"

definition free_proc_file :: "proc_file list \<Rightarrow> 16 word \<Rightarrow> proc_file list" where
  "free_proc_file pft fd = (case get_proc_file pft fd of
       None \<Rightarrow> pft
     | Some i \<Rightarrow> pft[i := (pft ! i)\<lparr>pf_desc := NIL_PROC_FILE, pf_pos := 0, pf_f_desc := NIL_FILE\<rparr>])"

definition lseek :: "proc_file list \<Rightarrow> 16 word \<Rightarrow> s32 \<Rightarrow> u32 \<Rightarrow> proc_file list \<times> u32" where
  "lseek pft fd offset origin = (case get_proc_file pft fd of
       None \<Rightarrow> (pft, - 1)
     | Some i \<Rightarrow> (pft[i := (pft ! i)\<lparr>pf_pos := origin + offset\<rparr>], origin + offset))"

text \<open>\<open>strncpy\<close> into the 28 bytes of the name.\<close>

definition get_file_info :: "fs_state \<Rightarrow> 16 word \<Rightarrow> file_info option" where
  "get_file_info s fd = do {
     i \<leftarrow> get_file s fd;
     let f = gft s ! i;
     name \<leftarrow> f_name f;
     j \<leftarrow> f_inode f;
     m \<leftarrow> rd_at (inode_table s) j;
     Some \<lparr>fi_name = take NAME_SIZE (name @ replicate NAME_SIZE 0), fi_mode = ucast (f_mode f), fi_size = i_size m,
       fi_create_ts = i_create_ts m, fi_modify_ts = i_modify_ts m, fi_num_links = f_count f\<rparr> }"

section \<open>The invariant of the global table\<close>

interpretation ft: slot_table f_desc NUM_FILES
  by unfold_locales (simp add: NUM_FILES_def)

interpretation pft: slot_table pf_desc NUM_PROC_FILES
  by unfold_locales (simp add: NUM_PROC_FILES_def)

text \<open>
  Every slot is free or carries its own number, the open files and only they have a name and an
  inode of the table, and no two open files have the same name.
\<close>

definition gft_ok :: "fs_state \<Rightarrow> bool" where
  "gft_ok s \<longleftrightarrow> slots_ok f_desc NUM_FILES (gft s) \<and>
     (\<forall>i < NUM_FILES. (f_desc (gft s ! i) = NIL_FILE \<longleftrightarrow> f_name (gft s ! i) = None) \<and>
       (f_desc (gft s ! i) \<noteq> NIL_FILE \<longrightarrow> (\<exists>j < NUM_INODES. f_inode (gft s ! i) = Some j))) \<and>
     (\<forall>i < NUM_FILES. \<forall>j < NUM_FILES. f_name (gft s ! i) = f_name (gft s ! j) \<longrightarrow> f_name (gft s ! i) \<noteq> None \<longrightarrow> i = j) \<and>
     (\<forall>i < NUM_FILES. \<forall>n. f_name (gft s ! i) = Some n \<longrightarrow> 0 \<notin> set n)"

text \<open>The file that is open under a name.\<close>

definition open_as :: "fs_state \<Rightarrow> bytes \<Rightarrow> nat \<Rightarrow> bool" where
  "open_as s name i \<longleftrightarrow> i < NUM_FILES \<and> f_name (gft s ! i) = Some name"

lemma gft_okD:
  assumes "gft_ok s" "i < NUM_FILES"
  shows "length (gft s) = NUM_FILES" "f_desc (gft s ! i) = NIL_FILE \<longleftrightarrow> f_name (gft s ! i) = None"
    "f_desc (gft s ! i) \<noteq> NIL_FILE \<Longrightarrow> f_desc (gft s ! i) = word_of_nat i"
    "f_desc (gft s ! i) \<noteq> NIL_FILE \<Longrightarrow> \<exists>j < NUM_INODES. f_inode (gft s ! i) = Some j"
    "f_name (gft s ! i) = Some n \<Longrightarrow> 0 \<notin> set n"
proof -
  have "length (gft s) = NUM_FILES" "f_desc (gft s ! i) = - 1 \<or> f_desc (gft s ! i) = word_of_nat i"
    "(f_desc (gft s ! i) = NIL_FILE \<longleftrightarrow> f_name (gft s ! i) = None)"
    "(f_desc (gft s ! i) \<noteq> NIL_FILE \<longrightarrow> (\<exists>j < NUM_INODES. f_inode (gft s ! i) = Some j))"
    "f_name (gft s ! i) = Some n \<longrightarrow> 0 \<notin> set n"
    using assms by (simp_all add: gft_ok_def slots_ok_def)
  then show "length (gft s) = NUM_FILES" "f_desc (gft s ! i) = NIL_FILE \<longleftrightarrow> f_name (gft s ! i) = None"
    "f_desc (gft s ! i) \<noteq> NIL_FILE \<Longrightarrow> f_desc (gft s ! i) = word_of_nat i"
    "f_desc (gft s ! i) \<noteq> NIL_FILE \<Longrightarrow> \<exists>j < NUM_INODES. f_inode (gft s ! i) = Some j"
    "f_name (gft s ! i) = Some n \<Longrightarrow> 0 \<notin> set n" by (simp_all add: NIL_FILE_def)
qed

lemma open_as_unique: "gft_ok s \<Longrightarrow> open_as s name i \<Longrightarrow> open_as s name j \<Longrightarrow> i = j"
  by (simp add: gft_ok_def open_as_def)

lemma open_as_desc: "gft_ok s \<Longrightarrow> open_as s name i \<Longrightarrow> f_desc (gft s ! i) = word_of_nat i"
  using gft_okD(2,3) [of s i] by (simp add: open_as_def)

lemma desc_not_nil: "i < NUM_FILES \<Longrightarrow> word_of_nat i \<noteq> NIL_FILE"
  using slot_not_nil [of i] by (simp add: NUM_FILES_def NIL_FILE_def)

lemma name2desc_eq:
  assumes ok: "gft_ok s" and n: "0 \<notin> set name"
  shows "open_as s name i \<Longrightarrow> name2desc s name = word_of_nat i" "\<nexists>i. open_as s name i \<Longrightarrow> name2desc s name = - 1"
proof -
  let ?P = "\<lambda>f. case f_name f of None \<Rightarrow> False | Some m \<Rightarrow> str_cmp name m = 0"
  have len: "length (gft s) = NUM_FILES" using gft_okD(1) [OF ok, of 0] by (simp add: NUM_FILES_def)
  have P: "?P (gft s ! k) \<longleftrightarrow> open_as s name k" if "k < NUM_FILES" for k
    using gft_okD(5) [OF ok that] str_cmp_eq_0 [OF n] that by (auto simp: open_as_def split: option.split)
  show "name2desc s name = word_of_nat i" if i: "open_as s name i"
  proof -
    have "first_index ?P (gft s) = Some i"
      by (rule first_index_unique) (use i P len open_as_unique [OF ok] in \<open>auto simp: open_as_def\<close>)
    then show ?thesis using open_as_desc [OF ok i] by (simp add: name2desc_def)
  qed
  show "name2desc s name = - 1" if "\<nexists>i. open_as s name i"
  proof -
    have "first_index ?P (gft s) = None"
      unfolding first_index_None using P len that by (metis in_set_conv_nth)
    then show ?thesis by (simp add: name2desc_def)
  qed
qed

text \<open>A free slot becomes an open file with a name that is not open, or an open file becomes a free slot.\<close>

lemma gft_ok_upd:
  assumes ok: "gft_ok s" and i: "i < NUM_FILES"
    and f: "f_desc f = NIL_FILE \<and> f_name f = None \<or>
      f_desc f = word_of_nat i \<and> (\<exists>n. f_name f = Some n \<and> 0 \<notin> set n \<and> (\<forall>j. open_as s n j \<longrightarrow> j = i)) \<and>
      (\<exists>j < NUM_INODES. f_inode f = Some j)"
  shows "gft_ok (s\<lparr>gft := (gft s)[i := f]\<rparr>)"
proof -
  have len: "length (gft s) = NUM_FILES" by (rule gft_okD(1) [OF ok i])
  have nil: "word_of_nat i \<noteq> NIL_FILE" by (rule desc_not_nil [OF i])
  have "slots_ok f_desc NUM_FILES ((gft s)[i := f])"
    by (rule ft.slots_ok_upd) (use ok f in \<open>auto simp: gft_ok_def NIL_FILE_def\<close>)
  moreover have "f_name ((gft s)[i := f] ! j) = f_name ((gft s)[i := f] ! k) \<longrightarrow> f_name ((gft s)[i := f] ! j) \<noteq> None \<longrightarrow> j = k"
    if "j < NUM_FILES" "k < NUM_FILES" for j k
    using that ok f len i by (auto simp: nth_list_update open_as_def gft_ok_def)
  moreover have e: "(gft s)[i := f] ! k = (if k = i then f else gft s ! k)" for k using i len by simp
  have "(f_desc ((gft s)[i := f] ! k) = NIL_FILE \<longleftrightarrow> f_name ((gft s)[i := f] ! k) = None) \<and>
      (f_desc ((gft s)[i := f] ! k) \<noteq> NIL_FILE \<longrightarrow> (\<exists>j < NUM_INODES. f_inode ((gft s)[i := f] ! k) = Some j))" if "k < NUM_FILES" for k
    using gft_okD(2,4) [OF ok that] f nil unfolding e by (cases "k = i") auto
  moreover have "f_name ((gft s)[i := f] ! k) = Some n \<longrightarrow> 0 \<notin> set n" if "k < NUM_FILES" for k n
    using gft_okD(5) [OF ok that] f unfolding e by (cases "k = i") auto
  ultimately show ?thesis unfolding gft_ok_def by simp
qed

lemma get_file_slot: "gft_ok s \<Longrightarrow> i < NUM_FILES \<Longrightarrow> f_desc (gft s ! i) = word_of_nat i \<Longrightarrow> get_file s (word_of_nat i) = Some i"
  unfolding get_file_def gft_ok_def using ft.lookup_slot [of "gft s" i] by blast

lemma free_file_eq:
  assumes ok: "gft_ok s" and it: "inode_table_ok s" and g: "get_file s fd = Some i" and fd: "fd \<noteq> NIL_FILE"
    and j: "f_inode (gft s ! i) = Some j" "i_num (inode_table s ! j) = word_of_nat j"
  shows "\<exists>s'. free_file s fd = Some s' \<and> gft_ok s' \<and> inode_table_ok s' \<and> (\<forall>k. k \<noteq> i \<longrightarrow> gft s' ! k = gft s ! k) \<and>
    (if unat (f_count (gft s ! i)) > 1
     then gft s' ! i = (gft s ! i)\<lparr>f_count := f_count (gft s ! i) - 1\<rparr> \<and> inode_table s' = inode_table s
     else f_desc (gft s' ! i) = NIL_FILE \<and> (\<forall>name. \<not> open_as s' name i) \<and> get_file s' fd = None \<and>
       inode_table s' = (if i_adr (inode_table s ! j) = ROOT_INODE_BLOCK then inode_table s
         else (inode_table s)[j := (inode_table s ! j)\<lparr>i_num := NIL_INODE\<rparr>]))"
proof -
  have sl: "slots_ok f_desc NUM_FILES (gft s)" using ok by (simp add: gft_ok_def)
  have i: "i < NUM_FILES" "f_desc (gft s ! i) = fd" "fd = word_of_nat i"
    using ft.lookup_SomeD [OF sl g [unfolded get_file_def]] fd by (simp_all add: NIL_FILE_def)
  have len: "length (gft s) = NUM_FILES" by (rule gft_okD(1) [OF ok i(1)])
  have j10: "j < 10" using gft_okD(4) [OF ok i(1)] i(2) fd j(1) by (simp add: NUM_INODES_def)
  have itl: "length (inode_table s) = 10" by (rule inode_table_len [OF it])
  let ?f = "gft s ! i"
  define f where "f = (if f_count ?f > 0 then ?f\<lparr>f_count := f_count ?f - 1\<rparr> else ?f)"
  have f0: "f_inode f = Some j" "f_desc f = fd" "f_name f = f_name ?f" using j(1) i(2) by (simp_all add: f_def)
  obtain n where n: "f_name ?f = Some n" "0 \<notin> set n" using gft_okD(2,5) [OF ok i(1)] i(2) fd by auto
  show ?thesis
  proof (cases "unat (f_count ?f) > 1")
    case True
    then have c: "f_count ?f > 0" "f_count ?f \<noteq> 1" by (auto simp: word_less_nat_alt)
    then have f': "f = ?f\<lparr>f_count := f_count ?f - 1\<rparr>" by (simp add: f_def)
    let ?s = "s\<lparr>gft := (gft s)[i := f]\<rparr>"
    have "free_file s fd = Some ?s" using g c by (simp add: free_file_def Let_def f')
    moreover have "gft_ok ?s"
    proof (rule gft_ok_upd [OF ok i(1)], rule disjI2, intro conjI)
      show "f_desc f = word_of_nat i" using f0(2) i(3) by simp
      have "open_as s n i" using n(1) i(1) by (simp add: open_as_def)
      then have "\<forall>k. open_as s n k \<longrightarrow> k = i" using open_as_unique [OF ok] by blast
      then show "\<exists>n. f_name f = Some n \<and> 0 \<notin> set n \<and> (\<forall>k. open_as s n k \<longrightarrow> k = i)" using f0(3) n by auto
      show "\<exists>j < NUM_INODES. f_inode f = Some j" using f0(1) j10 by (simp add: NUM_INODES_def)
    qed
    moreover have "gft ?s ! i = ?f\<lparr>f_count := f_count ?f - 1\<rparr>" using c(1) i(1) len by (simp add: f_def)
    moreover have "inode_table_ok ?s" using it by (simp add: inode_table_ok_def)
    ultimately show ?thesis using True by auto
  next
    case False
    then have "f_count ?f = 0 \<or> f_count ?f = 1" by (auto simp: word_unat_eq_iff)
    then have c: "f_count f = 0" by (auto simp: f_def)
    let ?g = "f\<lparr>f_desc := NIL_FILE, f_name := None\<rparr>"
    let ?s1 = "s\<lparr>gft := (gft s)[i := ?g]\<rparr>"
    define t where "t = (if i_adr (inode_table s ! j) = ROOT_INODE_BLOCK then inode_table s
         else (inode_table s)[j := (inode_table s ! j)\<lparr>i_num := NIL_INODE\<rparr>])"
    have gi: "get_inode ?s1 (i_num (inode_table s ! j)) = Some j"
      using get_inode_slot [of ?s1 j] it j10 j(2) by (simp add: inode_table_ok_def)
    have "free_file s fd = Some (?s1\<lparr>inode_table := t\<rparr>)"
      using g c f0 j10 itl gi by (simp add: free_file_def Let_def free_inode_def t_def flip: f_def)
    moreover have ok': "gft_ok ?s1" by (rule gft_ok_upd [OF ok i(1)]) simp
    then have "gft_ok (?s1\<lparr>inode_table := t\<rparr>)" by (simp add: gft_ok_def)
    moreover have "inode_table_ok (?s1\<lparr>inode_table := t\<rparr>)"
      using it inode_table_ok_upd [OF it j10, of "(inode_table s ! j)\<lparr>i_num := NIL_INODE\<rparr>"] by (simp add: inode_table_ok_def t_def)
    moreover have "get_file (?s1\<lparr>inode_table := t\<rparr>) fd = None"
    proof -
      have "k = i" if "k < NUM_FILES" "f_desc (gft s ! k) = fd" for k
        using ft.slot_same [OF sl i(1) that(1)] that(2) i(3) by simp
      then have "f_desc ((gft s)[i := ?g] ! k) \<noteq> fd" if "k < NUM_FILES" for k
        using that fd len by (cases "k = i") auto
      then show ?thesis using len by (simp add: get_file_def first_index_None all_set_conv_all_nth)
    qed
    ultimately show ?thesis using False i(1) len by (auto simp: open_as_def t_def)
  qed
qed

lemma insert_file_eq:
  assumes ok: "gft_ok s" and j: "j < NUM_INODES" and n: "0 \<notin> set name"
  shows "case insert_file s j name mode of (s', d) \<Rightarrow> gft_ok s' \<and>
    (if \<exists>i. open_as s name i then s' = s \<and> (\<exists>i. open_as s name i \<and> d = word_of_nat i)
     else if \<forall>i < NUM_FILES. f_desc (gft s ! i) \<noteq> NIL_FILE then s' = s \<and> d = - 1
     else \<exists>i < NUM_FILES. f_desc (gft s ! i) = NIL_FILE \<and> (\<forall>k < i. f_desc (gft s ! k) \<noteq> NIL_FILE) \<and> d = word_of_nat i \<and>
       get_file s' d = Some i \<and> open_as s' name i \<and> f_inode (gft s' ! i) = Some j \<and> f_mode (gft s' ! i) = mode \<and>
       f_count (gft s' ! i) = 0 \<and> (\<forall>k. k \<noteq> i \<longrightarrow> gft s' ! k = gft s ! k))"
proof (cases "\<exists>i. open_as s name i")
  case True
  then obtain i where i: "open_as s name i" by blast
  then have "i < NUM_FILES" by (simp add: open_as_def)
  then have "insert_file s j name mode = (s, word_of_nat i)"
    using name2desc_eq(1) [OF ok n i] desc_not_nil [of i] by (simp add: insert_file_def NIL_FILE_def)
  with ok True i show ?thesis by auto
next
  case False
  have n2: "name2desc s name = - 1" by (rule name2desc_eq(2) [OF ok n False])
  have len: "length (gft s) = NUM_FILES" using gft_okD(1) [OF ok, of 0] by (simp add: NUM_FILES_def)
  show ?thesis
  proof (cases "first_index (\<lambda>f. f_desc f = NIL_FILE) (gft s)")
    case None
    then have "\<forall>i < NUM_FILES. f_desc (gft s ! i) \<noteq> NIL_FILE" using len by (simp add: first_index_None all_set_conv_all_nth)
    then show ?thesis using False ok n2 None by (simp add: insert_file_def alloc_file_def)
  next
    case (Some i)
    then have i: "i < NUM_FILES" "f_desc (gft s ! i) = NIL_FILE" "\<forall>k < i. f_desc (gft s ! k) \<noteq> NIL_FILE"
      using len by (auto simp: first_index_Some)
    define f where "f = (gft s ! i)\<lparr>f_desc := word_of_nat i, f_count := 0, f_inode := Some j, f_name := Some name, f_mode := mode\<rparr>"
    let ?s = "s\<lparr>gft := (gft s)[i := f]\<rparr>"
    have ins: "insert_file s j name mode = (?s, word_of_nat i)"
      using n2 Some i len by (simp add: insert_file_def alloc_file_def Let_def f_def)
    have ok': "gft_ok ?s" by (rule gft_ok_upd [OF ok i(1)]) (use False n j in \<open>simp add: f_def\<close>)
    have fi: "gft ?s ! i = f" using i len by simp
    have g: "get_file ?s (word_of_nat i) = Some i" by (rule get_file_slot [OF ok' i(1)]) (use fi in \<open>simp add: f_def\<close>)
    have "open_as ?s name i" using fi i(1) by (simp add: open_as_def f_def)
    moreover have "f_inode f = Some j" "f_mode f = mode" "f_count f = 0" by (simp_all add: f_def)
    moreover have "\<forall>k. k \<noteq> i \<longrightarrow> gft ?s ! k = gft s ! k" by simp
    moreover have "\<not> (\<forall>i < NUM_FILES. f_desc (gft s ! i) \<noteq> NIL_FILE)" using i by blast
    ultimately show ?thesis unfolding ins prod.case using False ok' g i fi by auto
  qed
qed

section \<open>Properties\<close>

text \<open>
  C20. \<open>insert_file\<close> keeps the invariant of the global file table. A name that is open already gets the number it has
  and nothing changes; otherwise the first free slot becomes an open file of this name and inode that no
  process uses yet, all other files stay, and \<open>get_file\<close> finds it under the number that is returned; a full
  table gives \<open>-1\<close> and does not change.
\<close>

theorem insert_file_correct:
  assumes ok: "gft_ok s" and j: "j < NUM_INODES" and n: "0 \<notin> set name"
  shows "case insert_file s j name mode of (s', d) \<Rightarrow> gft_ok s' \<and>
    (if \<exists>i. open_as s name i then s' = s \<and> (\<exists>i. open_as s name i \<and> d = word_of_nat i)
     else if \<forall>i < NUM_FILES. f_desc (gft s ! i) \<noteq> NIL_FILE then s' = s \<and> d = - 1
     else \<exists>i < NUM_FILES. f_desc (gft s ! i) = NIL_FILE \<and> (\<forall>k < i. f_desc (gft s ! k) \<noteq> NIL_FILE) \<and> d = word_of_nat i \<and>
       get_file s' d = Some i \<and> open_as s' name i \<and> f_inode (gft s' ! i) = Some j \<and> f_mode (gft s' ! i) = mode \<and>
       f_count (gft s' ! i) = 0 \<and> (\<forall>k. k \<noteq> i \<longrightarrow> gft s' ! k = gft s ! k))"
  by (rule insert_file_eq [OF assms])

definition gft_example :: fs_state where
  "gft_example = fs_example2\<lparr>gft := \<lparr>f_desc = 0, f_inode = Some 0, f_name = Some [47], f_mode = 0, f_count = 1\<rparr> #
     replicate 9 \<lparr>f_desc = NIL_FILE, f_inode = None, f_name = None, f_mode = 0, f_count = 0\<rparr>\<rparr>"

lemma gft_example_nth: "i < 10 \<Longrightarrow> gft gft_example ! i = (if i = 0
   then \<lparr>f_desc = 0, f_inode = Some 0, f_name = Some [47], f_mode = 0, f_count = 1\<rparr>
   else \<lparr>f_desc = NIL_FILE, f_inode = None, f_name = None, f_mode = 0, f_count = 0\<rparr>)"
  by (cases i) (auto simp: gft_example_def)

lemma gft_example_ok: "gft_ok gft_example"
proof -
  have "length (gft gft_example) = 10" by (simp add: gft_example_def)
  then show ?thesis by (auto simp: gft_ok_def slots_ok_def gft_example_nth NUM_FILES_def NUM_INODES_def NIL_FILE_def)
qed

theorem insert_file_correct_witness:
  "case insert_file gft_example 3 [97] 2 of (s', d) \<Rightarrow> gft_ok s' \<and>
    (if \<exists>i. open_as gft_example [97] i then s' = gft_example \<and> (\<exists>i. open_as gft_example [97] i \<and> d = word_of_nat i)
     else if \<forall>i < NUM_FILES. f_desc (gft gft_example ! i) \<noteq> NIL_FILE then s' = gft_example \<and> d = - 1
     else \<exists>i < NUM_FILES. f_desc (gft gft_example ! i) = NIL_FILE \<and> (\<forall>k < i. f_desc (gft gft_example ! k) \<noteq> NIL_FILE) \<and> d = word_of_nat i \<and>
       get_file s' d = Some i \<and> open_as s' [97] i \<and> f_inode (gft s' ! i) = Some 3 \<and> f_mode (gft s' ! i) = 2 \<and>
       f_count (gft s' ! i) = 0 \<and> (\<forall>k. k \<noteq> i \<longrightarrow> gft s' ! k = gft gft_example ! k))"
  by (rule insert_file_correct [OF gft_example_ok]) (simp_all add: NUM_INODES_def)

text \<open>
  C21. \<open>free_file\<close> for an open file: while other processes use it only the count goes down; with the last one the slot
  becomes free, the number and the name are gone, no other file changes, and the inode is released, unless it is
  the root. The invariants of both tables hold afterwards.
\<close>

theorem free_file_correct:
  assumes ok: "gft_ok s" and it: "inode_table_ok s" and g: "get_file s fd = Some i" and fd: "fd \<noteq> NIL_FILE"
    and j: "f_inode (gft s ! i) = Some j" "i_num (inode_table s ! j) = word_of_nat j"
  shows "\<exists>s'. free_file s fd = Some s' \<and> gft_ok s' \<and> inode_table_ok s' \<and> (\<forall>k. k \<noteq> i \<longrightarrow> gft s' ! k = gft s ! k) \<and>
    (if unat (f_count (gft s ! i)) > 1
     then gft s' ! i = (gft s ! i)\<lparr>f_count := f_count (gft s ! i) - 1\<rparr> \<and> inode_table s' = inode_table s
     else f_desc (gft s' ! i) = NIL_FILE \<and> (\<forall>name. \<not> open_as s' name i) \<and> get_file s' fd = None \<and>
       inode_table s' = (if i_adr (inode_table s ! j) = ROOT_INODE_BLOCK then inode_table s
         else (inode_table s)[j := (inode_table s ! j)\<lparr>i_num := NIL_INODE\<rparr>]))"
  by (rule free_file_eq [OF assms])

theorem free_file_correct_witness:
  "\<exists>s'. free_file gft_example 0 = Some s' \<and> gft_ok s' \<and> inode_table_ok s' \<and> (\<forall>k. k \<noteq> 0 \<longrightarrow> gft s' ! k = gft gft_example ! k) \<and>
    (if unat (f_count (gft gft_example ! 0)) > 1
     then gft s' ! 0 = (gft gft_example ! 0)\<lparr>f_count := f_count (gft gft_example ! 0) - 1\<rparr> \<and> inode_table s' = inode_table gft_example
     else f_desc (gft s' ! 0) = NIL_FILE \<and> (\<forall>name. \<not> open_as s' name 0) \<and> get_file s' 0 = None \<and>
       inode_table s' = (if i_adr (inode_table gft_example ! 0) = ROOT_INODE_BLOCK then inode_table gft_example
         else (inode_table gft_example)[0 := (inode_table gft_example ! 0)\<lparr>i_num := NIL_INODE\<rparr>]))"
proof (rule free_file_correct [OF gft_example_ok])
  show "inode_table_ok gft_example" using fs_example2_table by (simp add: inode_table_ok_def gft_example_def)
  show "i_num (inode_table gft_example ! 0) = word_of_nat 0" by (simp add: gft_example_def fs_example2_def inode_example_def)
qed (simp_all add: get_file_def gft_example_def NIL_FILE_def)

end
