(* ===== verification/Procs.thy ===== *)
theory Procs
  imports VMonitor Ringbuffer FileTables
begin

text \<open>
  Processes and their virtual monitors: \<open>pm/pm_main.c\<close>, \<open>pm/pm_input.c\<close>, \<open>io/io_virtual_monitors.c\<close> and
  \<open>free_virt_monitor\<close> of \<open>io/io_virtual.c\<close>. The process structures form a circular list in memory:
  \<open>p_store\<close> has the structures that are allocated, by address; address 0 is \<open>NULL\<close>. Reading a structure
  that has been freed has no result. A \<open>virt_monitor *\<close> is a position in the array \<open>vmonitors\<close>.
\<close>

section \<open>Data\<close>

definition PSTATE_ALIVE :: u8 where "PSTATE_ALIVE = 0"
definition PSTATE_DEAD :: u8 where "PSTATE_DEAD = 1"
definition PSTATE_STDINSLEEP :: u8 where "PSTATE_STDINSLEEP = 2"

definition STDIN_QUEUE_SIZE :: u32 where "STDIN_QUEUE_SIZE = 512"

text \<open>\<open>p_stack\<close> are the words on the stack, from \<open>p_context\<close> up.\<close>

record process =
  p_name :: bytes
  p_pid :: u32
  p_state :: u8
  p_context :: u32
  p_stack_start :: u32
  p_stack :: "u32 list"
  p_stdin :: "ring_fifo option"
  p_pft :: "proc_file list"
  p_vmonitor :: nat
  p_next :: u32
  p_priority :: u32
  p_remaining :: u32

record pm_state =
  p_store :: "u32 \<Rightarrow> process option"
  procs_head :: u32
  active_proc :: u32
  focus_proc :: u32
  kernel_proc :: u32
  next_pid :: u32
  vmonitors :: "vmonitor list"
  maxvmonitor :: u16
  active_monitor :: u16

definition upd_proc :: "pm_state \<Rightarrow> u32 \<Rightarrow> (process \<Rightarrow> process) \<Rightarrow> pm_state option" where
  "upd_proc s a f = do { p \<leftarrow> p_store s a; Some (s\<lparr>p_store := (p_store s)(a \<mapsto> f p)\<rparr>) }"

section \<open>Looking up processes\<close>

definition getpid :: "pm_state \<Rightarrow> u32 option" where
  "getpid s = (if active_proc s = 0 then None else map_option p_pid (p_store s (active_proc s)))"

text \<open>The \<open>do\<close> loop of \<open>pm_get_proc\<close>, which ends when it is back at the head of the list.\<close>

partial_function (option) get_proc_loop :: "pm_state \<Rightarrow> u32 \<Rightarrow> u32 \<Rightarrow> u32 option" where
  "get_proc_loop s pid p = do {
     q \<leftarrow> p_store s p;
     if p_pid q = pid then Some p
     else if p_next q \<noteq> procs_head s then get_proc_loop s pid (p_next q)
     else Some 0 }"

definition pm_get_proc :: "pm_state \<Rightarrow> u32 \<Rightarrow> u32 option" where
  "pm_get_proc s pid = get_proc_loop s pid (procs_head s)"

definition pm_set_focus_proc :: "pm_state \<Rightarrow> u32 \<Rightarrow> pm_state option" where
  "pm_set_focus_proc s pid = do { p \<leftarrow> pm_get_proc s pid; Some (s\<lparr>focus_proc := p\<rparr>) }"

definition pm_set_thread_priority :: "pm_state \<Rightarrow> u32 \<Rightarrow> u32 \<Rightarrow> pm_state option" where
  "pm_set_thread_priority s pid prio = do {
     p \<leftarrow> pm_get_proc s pid;
     if p = 0 then Some s else upd_proc s p (\<lambda>q. q\<lparr>p_priority := prio\<rparr>) }"

definition pm_kill_proc :: "pm_state \<Rightarrow> u32 \<Rightarrow> pm_state option" where
  "pm_kill_proc s pid = do {
     p \<leftarrow> pm_get_proc s pid;
     if p \<noteq> 0 then upd_proc s p (\<lambda>q. q\<lparr>p_state := PSTATE_DEAD\<rparr>) else Some s }"

section \<open>The array of virtual monitors\<close>

definition zero_vmonitor :: vmonitor where
  "zero_vmonitor = \<lparr>vm_mem = [], vm_name = [], vm_size = 0, vis_begin = 0, vm_offset = 0, scrolldown_limit = 0,
     scrollup_limit = 0, disable_refresh = False, vm_pid = 0\<rparr>"

definition focus_active :: "pm_state \<Rightarrow> pm_state option" where
  "focus_active s = do {
     vm \<leftarrow> rd_at (vmonitors s) (unat (active_monitor s));
     pm_set_focus_proc s (vm_pid vm) }"

definition switch_monitor_up :: "pm_state \<Rightarrow> pm_state option" where
  "switch_monitor_up s = focus_active
     (if active_monitor s < maxvmonitor s then s\<lparr>active_monitor := active_monitor s + 1\<rparr>
      else if active_monitor s = maxvmonitor s then s\<lparr>active_monitor := 0\<rparr> else s)"

definition switch_monitor_down :: "pm_state \<Rightarrow> pm_state option" where
  "switch_monitor_down s = focus_active
     (if active_monitor s > 0 then s\<lparr>active_monitor := active_monitor s - 1\<rparr>
      else s\<lparr>active_monitor := maxvmonitor s\<rparr>)"

text \<open>\<open>mon\<close> and \<open>nm\<close> are the memory for the cells and the name (81 bytes).\<close>

definition start_vmonitor :: "pm_state \<Rightarrow> u16 list \<Rightarrow> bytes \<Rightarrow> bytes \<Rightarrow> u32 \<Rightarrow> (pm_state \<times> nat) option" where
  "start_vmonitor s mon nm name pid = do {
     let s = s\<lparr>maxvmonitor := maxvmonitor s + 1\<rparr>;
     let i = unat (maxvmonitor s);
     vm \<leftarrow> new_virt_monitor mon nm pid;
     let s = s\<lparr>active_monitor := maxvmonitor s\<rparr>;
     n \<leftarrow> wr_run 0 (replicate 80 61) (vm_name vm);
     n \<leftarrow> wr_run 2 name n;
     n \<leftarrow> wr_at n 1 32;
     n \<leftarrow> wr_at n (1 + length name + 1) 32;
     n \<leftarrow> wr_at n 54 32;
     n \<leftarrow> wr_at n 78 32;
     v \<leftarrow> wr_at (vmonitors s) i (vm\<lparr>vm_name := n\<rparr>);
     Some (s\<lparr>vmonitors := v\<rparr>, i) }"

text \<open>\<open>vmonitors\<close> is zeroed memory for 1000 monitors.\<close>

definition init_vmonitors :: "pm_state \<Rightarrow> u16 list \<Rightarrow> bytes \<Rightarrow> pm_state option" where
  "init_vmonitors s mon nm = do {
     let s = s\<lparr>vmonitors := replicate 1000 zero_vmonitor\<rparr>;
     (s, i) \<leftarrow> start_vmonitor s mon nm [68, 69, 66, 85, 71, 32, 77, 79, 78, 73, 84, 79, 82] 0;
     Some s }"

definition get_active_virt_monitor :: "pm_state \<Rightarrow> nat" where
  "get_active_virt_monitor s = unat (active_monitor s)"

text \<open>\<open>time_str\<close>: the 23 characters that \<open>time2str\<close> makes of the time.\<close>

definition get_active_virt_monitor_name :: "pm_state \<Rightarrow> bytes \<Rightarrow> (pm_state \<times> bytes) option" where
  "get_active_virt_monitor_name s time_str = do {
     vm \<leftarrow> rd_at (vmonitors s) (unat (active_monitor s));
     run \<leftarrow> rd_run 0 23 time_str;
     n \<leftarrow> wr_run 55 run (vm_name vm);
     v \<leftarrow> wr_at (vmonitors s) (unat (active_monitor s)) (vm\<lparr>vm_name := n\<rparr>);
     Some (s\<lparr>vmonitors := v\<rparr>, n) }"

text \<open>\<open>free_virt_monitor\<close> fills the hole with the last monitor of the array.\<close>

definition free_virt_monitor :: "pm_state \<Rightarrow> nat \<Rightarrow> pm_state option" where
  "free_virt_monitor s v = do {
     let mx = unat (maxvmonitor s);
     s \<leftarrow>
       (if v = mx then
          if active_monitor s = maxvmonitor s then focus_active (s\<lparr>active_monitor := active_monitor s - 1\<rparr>)
          else Some s
        else do {
          let active_deleted = (active_monitor s \<noteq> maxvmonitor s \<and> unat (active_monitor s) = v);
          let s = (if active_monitor s = maxvmonitor s then s\<lparr>active_monitor := word_of_nat v\<rparr> else s);
          last \<leftarrow> rd_at (vmonitors s) mx;
          vs \<leftarrow> wr_at (vmonitors s) v last;
          let s = s\<lparr>vmonitors := vs\<rparr>;
          p \<leftarrow> pm_get_proc s (vm_pid last);
          s \<leftarrow> upd_proc s p (\<lambda>q. q\<lparr>p_vmonitor := v\<rparr>);
          if active_deleted then pm_set_focus_proc s (vm_pid last) else Some s });
     vs \<leftarrow> wr_at (vmonitors s) mx zero_vmonitor;
     Some (s\<lparr>vmonitors := vs, maxvmonitor := maxvmonitor s - 1\<rparr>) }"

section \<open>Creating and destroying\<close>

text \<open>The part of \<open>pm_init\<close> that makes the kernel process; its structure at \<open>addr\<close> is zeroed first.\<close>

definition pm_init_proc ::
  "pm_state \<Rightarrow> u32 \<Rightarrow> bytes \<Rightarrow> pm_state option" where
  "pm_init_proc s addr fifo_mem = do {
     _ \<leftarrow> (if addr = 0 then None else Some ());
     let p = \<lparr>p_name = [107, 101, 114, 110, 101, 108], p_pid = next_pid s, p_state = PSTATE_ALIVE, p_context = 0,
       p_stack_start = 0, p_stack = [], p_stdin = rf_alloc True (Some fifo_mem) STDIN_QUEUE_SIZE,
       p_pft = init_proc_file_table (replicate NUM_PROC_FILES \<lparr>pf_desc = 0, pf_f_desc = 0, pf_pos = 0\<rparr>),
       p_vmonitor = get_active_virt_monitor s, p_next = addr, p_priority = 1, p_remaining = 1\<rparr>;
     Some (s\<lparr>p_store := (p_store s)(addr \<mapsto> p), procs_head := addr, active_proc := addr, kernel_proc := addr,
             next_pid := next_pid s + 1\<rparr>) }"

text \<open>The words pushed to the stack of a new thread, the last one first.\<close>

definition initial_stack :: "u32 \<Rightarrow> u32 list" where
  "initial_stack entry = [0x10, 0x10, 0x10, 0x10, 0, 0, 0, 0, 0, 0, 0, 0, 0, 0, entry, 0x08, 0x202]"

text \<open>
  The memory that the calls of \<open>mallocn\<close> return: the address of the structure with the old contents of
  its file table, the address of the stack, the data of the input queue, the cells and the name of
  the monitor.
\<close>

record thread_mem =
  tm_addr :: u32
  tm_pft :: "proc_file list"
  tm_stack :: u32
  tm_fifo :: bytes
  tm_mon :: "u16 list"
  tm_name :: bytes

definition pm_create_thread :: "pm_state \<Rightarrow> thread_mem \<Rightarrow> bytes option \<Rightarrow> u32 \<Rightarrow> u32 \<Rightarrow> (pm_state \<times> u32) option" where
  "pm_create_thread s mem name entry stacksize = do {
     _ \<leftarrow> (if active_proc s = 0 \<or> name = None \<or> entry = 0 \<or> tm_addr mem = 0 \<or> tm_stack mem = 0 then None else Some ());
     nm \<leftarrow> name;
     h \<leftarrow> p_store s (procs_head s);
     let p = \<lparr>p_name = nm, p_pid = next_pid s, p_state = PSTATE_ALIVE, p_context = tm_stack mem + stacksize - 68,
       p_stack_start = tm_stack mem, p_stack = initial_stack entry,
       p_stdin = rf_alloc True (Some (tm_fifo mem)) STDIN_QUEUE_SIZE, p_pft = init_proc_file_table (tm_pft mem),
       p_vmonitor = 0, p_next = p_next h, p_priority = 1, p_remaining = 1\<rparr>;
     let s = s\<lparr>next_pid := next_pid s + 1, p_store := (p_store s)(tm_addr mem \<mapsto> p)\<rparr>;
     s \<leftarrow> upd_proc s (procs_head s) (\<lambda>q. q\<lparr>p_next := tm_addr mem\<rparr>);
     let s = s\<lparr>focus_proc := tm_addr mem\<rparr>;
     (s, v) \<leftarrow> start_vmonitor s (tm_mon mem) (tm_name mem) nm (p_pid p);
     s \<leftarrow> upd_proc s (tm_addr mem) (\<lambda>q. q\<lparr>p_vmonitor := v\<rparr>);
     Some (s, p_pid p) }"

definition pm_destroy_thread :: "pm_state \<Rightarrow> u32 \<Rightarrow> pm_state option" where
  "pm_destroy_thread s proc = do {
     p \<leftarrow> p_store s proc;
     s \<leftarrow> free_virt_monitor s (p_vmonitor p);
     Some (s\<lparr>p_store := (p_store s)(proc := None)\<rparr>) }"

section \<open>The scheduler\<close>

definition next_proc :: "pm_state \<Rightarrow> (u32 \<times> process) option" where
  "next_proc s = do { a \<leftarrow> p_store s (active_proc s); n \<leftarrow> p_store s (p_next a); Some (p_next a, n) }"

text \<open>The two inner loops and the outer loop of \<open>pm_schedule\<close>.\<close>

partial_function (option) destroy_dead :: "pm_state \<Rightarrow> pm_state option" where
  "destroy_dead s = do {
     (n, p) \<leftarrow> next_proc s;
     if p_state p = PSTATE_DEAD then do {
       s \<leftarrow> pm_destroy_thread s n;
       s \<leftarrow> upd_proc s (active_proc s) (\<lambda>q. q\<lparr>p_next := p_next p\<rparr>);
       destroy_dead s }
     else Some s }"

partial_function (option) skip_sleeping :: "pm_state \<Rightarrow> pm_state option" where
  "skip_sleeping s = do {
     (n, p) \<leftarrow> next_proc s;
     if p_state p = PSTATE_STDINSLEEP then skip_sleeping (s\<lparr>active_proc := n\<rparr>) else Some s }"

partial_function (option) find_alive :: "pm_state \<Rightarrow> pm_state option" where
  "find_alive s = do {
     (n, p) \<leftarrow> next_proc s;
     if p_state p \<noteq> PSTATE_ALIVE then do {
       s \<leftarrow> destroy_dead s;
       s \<leftarrow> skip_sleeping s;
       find_alive s }
     else Some s }"

definition pm_schedule :: "pm_state \<Rightarrow> u32 \<Rightarrow> (pm_state \<times> u32) option" where
  "pm_schedule s context =
     (if active_proc s = 0 then Some (s, context)
      else do {
        a \<leftarrow> p_store s (active_proc s);
        if p_remaining a > 1 then do {
          s \<leftarrow> upd_proc s (active_proc s) (\<lambda>q. q\<lparr>p_remaining := p_remaining q - 1\<rparr>);
          Some (s, context) }
        else do {
          s \<leftarrow> upd_proc s (active_proc s) (\<lambda>q. q\<lparr>p_context := context\<rparr>);
          s \<leftarrow> find_alive s;
          (n, p) \<leftarrow> next_proc s;
          s \<leftarrow> upd_proc (s\<lparr>active_proc := n\<rparr>) n (\<lambda>q. q\<lparr>p_remaining := p_priority q\<rparr>);
          Some (s, p_context p) } })"

section \<open>Input\<close>

definition pm_handle_input :: "pm_state \<Rightarrow> u8 \<Rightarrow> pm_state option" where
  "pm_handle_input s c =
     (if focus_proc s = 0 then Some s
      else do {
        p \<leftarrow> p_store s (focus_proc s);
        let p = (if p_state p = PSTATE_STDINSLEEP then p\<lparr>p_state := PSTATE_ALIVE\<rparr> else p);
        (f, n) \<leftarrow> rf_write (p_stdin p) (Some [c]) 1;
        Some (s\<lparr>p_store := (p_store s)(focus_proc s \<mapsto> p\<lparr>p_stdin := f\<rparr>)\<rparr>) })"

end
