(* ===== verification/ReadWrite.thy ===== *)
theory ReadWrite
  imports Inodes
begin

text \<open>
  The map from positions in a file to blocks of the disk (\<open>get_data_block\<close> and \<open>enlarge_file\<close> of
  \<open>fs/fs_block_dev.c\<close>) and the transfer of file contents (\<open>fs/fs_read_write.c\<close>). The functions get the
  value of the inode and return its new value.
\<close>

section \<open>Blocks of a file\<close>

definition BYTES_DIRECT :: u32 where "BYTES_DIRECT = 15360"
definition BYTES_SINGLE_INDIRECT :: u32 where "BYTES_SINGLE_INDIRECT = 65536"
definition BYTES_DOUBLE_INDIRECT :: u32 where "BYTES_DOUBLE_INDIRECT = 8388608"

text \<open>The new block is the second result; the caller stores it where \<open>blk_ptr\<close> points to.\<close>

definition enlarge_file :: "fs_state \<Rightarrow> u32 \<Rightarrow> (fs_state \<times> u32) option" where
  "enlarge_file s alloc_start = do {
     (s, data_blk) \<leftarrow> alloc_block s alloc_start;
     s \<leftarrow> clear_block s data_blk;
     Some (s, data_blk) }"

text \<open>\<open>rd_block\<close> into \<open>addr_cache\<close>, and \<open>wrt_block\<close> from it.\<close>

definition rd_addrs :: "fs_state \<Rightarrow> u32 \<Rightarrow> fs_state option" where
  "rd_addrs s blk = do { (s, buf) \<leftarrow> rd_block s blk 512; Some (s\<lparr>addr_cache := dec_addrs 128 buf\<rparr>) }"

definition wrt_addrs :: "fs_state \<Rightarrow> u32 \<Rightarrow> fs_state option" where
  "wrt_addrs s blk = wrt_block s blk (enc_addrs (addr_cache s))"

text \<open>
  The code that the branches of \<open>get_data_block\<close> repeat: a pointer in the inode or in \<open>addr_cache\<close>
  that is \<open>NULL\<close> is filled by \<open>enlarge_file\<close>; \<open>Some (s, None)\<close> is the return of \<open>NOT_EXISTENT\<close>. A pointer in
  \<open>addr_cache\<close> is written back to the block \<open>home\<close> it was read from.
\<close>

definition get_pointer :: "fs_state \<Rightarrow> u32 \<Rightarrow> u32 \<Rightarrow> bool \<Rightarrow> (fs_state \<times> u32 option) option" where
  "get_pointer s ptr start allow =
     (if ptr = 0 then
        if \<not> allow then Some (s, None)
        else do { (s, b) \<leftarrow> enlarge_file s start; Some (s, Some b) }
      else Some (s, Some ptr))"

definition get_cached_pointer :: "fs_state \<Rightarrow> nat \<Rightarrow> u32 \<Rightarrow> u32 \<Rightarrow> bool \<Rightarrow> (fs_state \<times> u32 option) option" where
  "get_cached_pointer s i home start allow = do {
     ptr \<leftarrow> rd_at (addr_cache s) i;
     if ptr = 0 then
       if \<not> allow then Some (s, None)
       else do {
         (s, b) \<leftarrow> enlarge_file s start;
         a \<leftarrow> wr_at (addr_cache s) i b;
         s \<leftarrow> wrt_addrs (s\<lparr>addr_cache := a\<rparr>) home;
         Some (s, Some b) }
     else Some (s, Some ptr) }"

definition get_data_block ::
  "fs_state \<Rightarrow> m_inode \<Rightarrow> u32 \<Rightarrow> bool \<Rightarrow> (fs_state \<times> m_inode \<times> u32) option" where
  "get_data_block s inode pos allow =
     (if pos < BYTES_DIRECT then do {
        let blk_nr = unat (pos div 512);
        ptr \<leftarrow> rd_at (i_direct inode) blk_nr;
        (s, r) \<leftarrow> get_pointer s ptr (i_adr inode) allow;
        case r of None \<Rightarrow> Some (s, inode, NOT_FOUND)
        | Some data_blk \<Rightarrow> do {
            d \<leftarrow> wr_at (i_direct inode) blk_nr data_blk;
            let inode = inode\<lparr>i_direct := d\<rparr>;
            s \<leftarrow> write_inode s inode;
            Some (s, inode, data_blk) } }
      else if pos < BYTES_DIRECT + BYTES_SINGLE_INDIRECT then do {
        (s, r) \<leftarrow> get_pointer s (i_single inode) (i_adr inode) allow;
        case r of None \<Rightarrow> Some (s, inode, NOT_FOUND)
        | Some sip \<Rightarrow> do {
            let inode = inode\<lparr>i_single := sip\<rparr>;
            s \<leftarrow> rd_addrs s sip;
            (s, r) \<leftarrow> get_cached_pointer s (unat ((pos - BYTES_DIRECT) div 512)) sip sip allow;
            case r of None \<Rightarrow> Some (s, inode, NOT_FOUND)
            | Some data_blk \<Rightarrow> do {
                s \<leftarrow> write_inode s inode;
                Some (s, inode, data_blk) } } }
      else if pos < BYTES_DIRECT + BYTES_SINGLE_INDIRECT + BYTES_DOUBLE_INDIRECT then do {
        (s, r) \<leftarrow> get_pointer s (i_double inode) (i_adr inode) allow;
        case r of None \<Rightarrow> Some (s, inode, NOT_FOUND)
        | Some dip \<Rightarrow> do {
            let inode = inode\<lparr>i_double := dip\<rparr>;
            s \<leftarrow> rd_addrs s dip;
            let blk_nr = (pos - BYTES_DIRECT - BYTES_SINGLE_INDIRECT) div 512;
            (s, r) \<leftarrow> get_cached_pointer s (unat (blk_nr div 128)) dip dip allow;
            case r of None \<Rightarrow> Some (s, inode, NOT_FOUND)
            | Some sip \<Rightarrow> do {
                s \<leftarrow> rd_addrs s sip;
                (s, r) \<leftarrow> get_cached_pointer s (unat (blk_nr mod 128)) sip dip allow;
                case r of None \<Rightarrow> Some (s, inode, NOT_FOUND)
                | Some data_blk \<Rightarrow> do {
                    s \<leftarrow> write_inode s inode;
                    Some (s, inode, data_blk) } } } }
      else Some (s, inode, NOT_FOUND))"

section \<open>Reading and writing\<close>

text \<open>
  The result has the bytes that are put into the buffer and the number that is returned. \<open>offset +
  num_bytes\<close> is computed in 32 bits, as in the code.
\<close>

lemma over_edge:
  fixes pos n :: u32
  assumes "\<not> pos mod 512 + n \<le> 512"
  shows "unat (n - (512 - pos mod 512)) < unat n"
proof -
  have m: "unat (pos mod 512) = unat pos mod 512" by (simp add: unat_mod)
  then have "unat (pos mod 512) < 512" by simp
  then have o: "unat (512 - pos mod 512) = 512 - unat (pos mod 512)" by (simp add: unat_sub_if' word_le_nat_alt)
  have "unat (512 - pos mod 512) \<le> unat n"
  proof (rule ccontr)
    assume "\<not> ?thesis"
    then have "unat (pos mod 512) + unat n < 512" using o by simp
    then have "unat (pos mod 512 + n) < 512" by (simp add: unat_word_ariths)
    with assms show False by (simp add: word_le_nat_alt)
  qed
  then have "unat (n - (512 - pos mod 512)) = unat n - unat (512 - pos mod 512)" by (simp add: unat_sub_if')
  also have "\<dots> < unat n" using o \<open>unat (512 - pos mod 512) \<le> unat n\<close> \<open>unat (pos mod 512) < 512\<close> by linarith
  finally show ?thesis .
qed

function fs_read :: "fs_state \<Rightarrow> m_inode \<Rightarrow> u32 \<Rightarrow> u32 \<Rightarrow> bool \<Rightarrow> (fs_state \<times> m_inode \<times> bytes \<times> u32) option" where
  "fs_read s inode num_bytes pos allow =
     (if (pos > i_size inode \<and> \<not> allow) \<or> num_bytes = 0 then Some (s, inode, [], 0)
      else do {
        (s, inode, data_blk) \<leftarrow> get_data_block s inode pos allow;
        if data_blk = NOT_FOUND then Some (s, inode, [], 0)
        else do {
          s \<leftarrow> cache_block s data_blk;
          let offset = pos mod 512;
          if offset + num_bytes \<le> 512 then do {
            data \<leftarrow> rd_run (unat offset) (unat num_bytes) (bc_data (read_cache s));
            Some (s, inode, data, ucast (ucast num_bytes :: u16)) }
          else do {
            let num_readable_bytes = 512 - offset;
            data \<leftarrow> rd_run (unat offset) (unat num_readable_bytes) (bc_data (read_cache s));
            (s, inode, data', n) \<leftarrow> fs_read s inode (num_bytes - num_readable_bytes) (pos + num_readable_bytes) allow;
            Some (s, inode, data @ data', num_readable_bytes + n) } } })"
  by pat_completeness auto
termination by (relation "measure (\<lambda>(s, inode, n, pos, allow). unat n)") (simp, simp only: in_measure prod.case, rule over_edge)

text \<open>\<open>buf\<close> is the memory from the source pointer on.\<close>

definition put_cache :: "fs_state \<Rightarrow> u32 \<Rightarrow> u32 \<Rightarrow> bytes \<Rightarrow> u32 \<Rightarrow> fs_state option" where
  "put_cache s dest_blk offset buf num = do {
     s \<leftarrow> cache_block s dest_blk;
     run \<leftarrow> rd_run 0 (unat num) buf;
     data \<leftarrow> wr_run (unat offset) run (bc_data (read_cache s));
     let s = s\<lparr>read_cache := (read_cache s)\<lparr>bc_data := data\<rparr>\<rparr>;
     wrt_cache s (read_cache s) BLOCK_SIZE }"

function fs_write :: "fs_state \<Rightarrow> m_inode \<Rightarrow> bytes \<Rightarrow> u32 \<Rightarrow> u32 \<Rightarrow> bool \<Rightarrow> (fs_state \<times> m_inode \<times> u32) option" where
  "fs_write s inode buf num_bytes pos allow =
     (if (pos > i_size inode \<and> \<not> allow) \<or> num_bytes = 0 then Some (s, inode, 0)
      else do {
        (s, inode, dest_blk) \<leftarrow> get_data_block s inode pos allow;
        if dest_blk = NOT_FOUND then Some (s, inode, 0)
        else do {
          let offset = pos mod 512;
          if offset + num_bytes \<le> 512 then do {
            s \<leftarrow> put_cache s dest_blk offset buf num_bytes;
            let inode = (if i_size inode < pos + num_bytes then inode\<lparr>i_size := pos + num_bytes\<rparr> else inode);
            let inode = inode\<lparr>i_modify_ts := fs_time s\<rparr>;
            s \<leftarrow> write_inode s inode;
            Some (s, inode, ucast (ucast num_bytes :: u16)) }
          else do {
            let num_writeable_bytes = 512 - offset;
            s \<leftarrow> put_cache s dest_blk offset buf num_writeable_bytes;
            (s, inode, n) \<leftarrow> fs_write s inode (drop (unat num_writeable_bytes) buf) (num_bytes - num_writeable_bytes)
                               (pos + num_writeable_bytes) allow;
            Some (s, inode, num_writeable_bytes + n) } } })"
  by pat_completeness auto
termination by (relation "measure (\<lambda>(s, inode, buf, n, pos, allow). unat n)") (simp, simp only: in_measure prod.case, rule over_edge)

declare fs_read.simps [simp del] fs_write.simps [simp del]

lemma get_data_block_limit:
  "get_data_block s inode pos allow = Some (s', inode', b) \<Longrightarrow> b \<noteq> NOT_FOUND \<Longrightarrow> unat pos < 8469504"
  by (rule ccontr) (simp add: get_data_block_def word_less_nat_alt BYTES_DIRECT_def BYTES_SINGLE_INDIRECT_def
      BYTES_DOUBLE_INDIRECT_def)

lemma fs_read_limit: "fs_read s inode n pos allow = Some (s', inode', data, k) \<Longrightarrow> k \<noteq> 0 \<Longrightarrow> unat pos < 8469504"
  using get_data_block_limit [of s inode pos allow] by (subst (asm) fs_read.simps) (force split: if_splits bind_splits)

end
