(* ===== verification/Dir.thy ===== *)
theory Dir
  imports ReadWrite CString
begin

text \<open>
  Directories (\<open>fs/fs_dir.c\<close>): a block of a directory is an array of 16 entries of 32 bytes, the block
  number of the file's inode and the name in 28 bytes. The arrays are always the variable
  \<open>dir_cache\<close>. A path is a byte list without the terminator.
\<close>

section \<open>Entries\<close>

definition DIR_ENTRIES_PER_BLOCK :: nat where "DIR_ENTRIES_PER_BLOCK = 16"

definition entry_inode :: "bytes \<Rightarrow> nat \<Rightarrow> u32" where
  "entry_inode buf i = un_le32 (sub_bytes (32 * i) 4 buf)"

text \<open>
  \<open>strcmp (p, name) == 0\<close> where \<open>p\<close> points into the array and \<open>name\<close> is a string: \<open>None\<close> when it reads
  behind the array.
\<close>

fun name_eq :: "bytes \<Rightarrow> bytes \<Rightarrow> bool option" where
  "name_eq [] name = None"
| "name_eq (c # cs) [] = Some (c = 0)"
| "name_eq (c # cs) (d # ds) = (if c = d then name_eq cs ds else Some False)"

definition entry_is :: "bytes \<Rightarrow> nat \<Rightarrow> bytes \<Rightarrow> bool option" where
  "entry_is buf i name = name_eq (drop (32 * i + 4) buf) name"

text \<open>The first entry with the name; \<open>n\<close> entries are left.\<close>

fun find_entry :: "bytes \<Rightarrow> bytes \<Rightarrow> nat \<Rightarrow> nat \<Rightarrow> nat option option" where
  "find_entry buf name i 0 = Some None"
| "find_entry buf name i (Suc n) = do {
     e \<leftarrow> entry_is buf i name;
     if e then Some (Some i) else find_entry buf name (i + 1) n }"

definition find_filename :: "bytes \<Rightarrow> bytes \<Rightarrow> u32 option" where
  "find_filename buf name = do {
     r \<leftarrow> find_entry buf name 0 DIR_ENTRIES_PER_BLOCK;
     Some (case r of None \<Rightarrow> NOT_FOUND | Some i \<Rightarrow> entry_inode buf i) }"

definition contains_filename :: "bytes \<Rightarrow> bytes \<Rightarrow> bool option" where
  "contains_filename buf name = do { r \<leftarrow> find_filename buf name; Some (r \<noteq> NOT_FOUND) }"

text \<open>\<open>name\<close> is the memory from the pointer on: 28 bytes of it are copied, whatever its length.\<close>

definition create_entry :: "bytes \<Rightarrow> u32 \<Rightarrow> bytes \<Rightarrow> (bytes \<times> u32) option" where
  "create_entry buf blk_nr name = do {
     r \<leftarrow> find_entry buf [] 0 DIR_ENTRIES_PER_BLOCK;
     case r of None \<Rightarrow> Some (buf, NOT_FOUND)
     | Some i \<Rightarrow> do {
         buf \<leftarrow> wr_run (32 * i) (le32 blk_nr) buf;
         run \<leftarrow> rd_run 0 NAME_SIZE name;
         buf \<leftarrow> wr_run (32 * i + 4) run buf;
         Some (buf, word_of_nat (32 * i)) } }"

definition delete_entry :: "fs_state \<Rightarrow> bytes \<Rightarrow> (fs_state \<times> u32) option" where
  "delete_entry s name = do {
     r \<leftarrow> find_entry (dir_cache s) name 0 DIR_ENTRIES_PER_BLOCK;
     case r of None \<Rightarrow> Some (s, - 1)
     | Some i \<Rightarrow> do {
         c \<leftarrow> wr_run (32 * i + 4) (replicate NAME_SIZE 0) (dir_cache s);
         s \<leftarrow> mark_block (s\<lparr>dir_cache := c\<rparr>) (entry_inode (dir_cache s) i) False;
         c \<leftarrow> wr_run (32 * i) (le32 0) (dir_cache s);
         Some (s\<lparr>dir_cache := c\<rparr>, word_of_nat (32 * i)) } }"

section \<open>Files of a directory\<close>

text \<open>
  \<open>fs_read\<close> into \<open>dir_cache\<close>.
\<close>

definition read_dir :: "fs_state \<Rightarrow> m_inode \<Rightarrow> u32 \<Rightarrow> bool \<Rightarrow> (fs_state \<times> m_inode \<times> u32) option" where
  "read_dir s dir pos allow = do {
     (s, dir, data, n) \<leftarrow> fs_read s dir 512 pos allow;
     c \<leftarrow> wr_run 0 data (dir_cache s);
     Some (s\<lparr>dir_cache := c\<rparr>, dir, n) }"

lemma read_dir_limit: "read_dir s dir pos allow = Some (s', dir', n) \<Longrightarrow> n \<noteq> 0 \<Longrightarrow> unat pos < 8469504"
  using fs_read_limit [of s dir 512 pos allow] by (auto simp: read_dir_def split: bind_splits)

lemma read_dir_limit':
  "read_dir s dir pos allow = Some a \<Longrightarrow> (x, y) = a \<Longrightarrow> (x', n) = y \<Longrightarrow> n \<noteq> 0 \<Longrightarrow> unat pos < 8469504"
  using read_dir_limit by blast

lemma next_pos: "unat pos < 8469504 \<Longrightarrow> 8470016 - unat (pos + 512 :: u32) < 8470016 - unat pos"
  by (subst unat_add_lem [THEN iffD1]) simp_all

text \<open>
  The loop of \<open>insert_file_into_dir\<close>: \<open>Some (s, dir, None)\<close> is a return of \<open>NOT_POSSIBLE\<close>, otherwise the
  third result has the block of the entry, the new block and the position.
\<close>

function insert_loop ::
  "fs_state \<Rightarrow> m_inode \<Rightarrow> u32 \<Rightarrow> bytes \<Rightarrow> (fs_state \<times> m_inode \<times> (u32 \<times> u32 \<times> u32) option) option" where
  "insert_loop s dir pos name = do {
     (s, dir, dir_entry_blk) \<leftarrow> get_data_block s dir pos True;
     if dir_entry_blk = NOT_FOUND then Some (s, dir, None)
     else do {
       (s, dir, n) \<leftarrow> read_dir s dir pos True;
       if n = 0 then Some (s, dir, None)
       else do {
         c \<leftarrow> contains_filename (dir_cache s) (takeWhile (\<lambda>c. c \<noteq> 0) name);
         if c then Some (s, dir, None)
         else do {
           (s, new_blk) \<leftarrow> alloc_block s dir_entry_blk;
           (c, insert_pos) \<leftarrow> create_entry (dir_cache s) new_blk name;
           let s = s\<lparr>dir_cache := c\<rparr>;
           if insert_pos = NOT_FOUND then do {
             s \<leftarrow> mark_block s new_blk False;
             insert_loop s dir (pos + 512) name }
           else Some (s, dir, Some (dir_entry_blk, new_blk, pos)) } } } }"
  by pat_completeness auto
termination
  by (relation "measure (\<lambda>(s, dir, pos, name). 8470016 - unat pos)")
    (simp, simp only: in_measure prod.case, rule next_pos, erule (3) read_dir_limit')

declare insert_loop.simps [simp del]

text \<open>
  Memory for an inode from \<open>mallocn\<close>. \<open>read_minode\<close> fills all fields but \<open>i_num\<close>, which is not looked at.
\<close>

definition heap_inode :: m_inode where
  "heap_inode = \<lparr>i_num = 0, i_adr = 0, i_mode = 0, i_size = 0, i_create_ts = dec_time (replicate 8 0),
     i_modify_ts = dec_time (replicate 8 0), i_direct = replicate 30 0, i_single = 0, i_double = 0\<rparr>"

text \<open>The directory: \<open>root\<close>, or read to the heap. The flag says that it is one.\<close>

definition load_dir :: "fs_state \<Rightarrow> u32 \<Rightarrow> (fs_state \<times> m_inode \<times> bool) option" where
  "load_dir s dir_inode_blk =
     (if dir_inode_blk = ROOT_INODE_BLOCK then do { r \<leftarrow> rd_at (inode_table s) ROOT_INODE; Some (s, r, True) }
      else do { (s, dir) \<leftarrow> read_minode s heap_inode dir_inode_blk; Some (s, dir, i_mode dir = DIRECTORY) })"

definition store_dir :: "fs_state \<Rightarrow> u32 \<Rightarrow> m_inode \<Rightarrow> fs_state option" where
  "store_dir s dir_inode_blk dir =
     (if dir_inode_blk = ROOT_INODE_BLOCK
      then do { t \<leftarrow> wr_at (inode_table s) ROOT_INODE dir; Some (s\<lparr>inode_table := t\<rparr>) }
      else Some s)"

definition insert_file_into_dir :: "fs_state \<Rightarrow> u32 \<Rightarrow> bytes \<Rightarrow> (fs_state \<times> u32) option" where
  "insert_file_into_dir s dir_inode_blk name = do {
     (s, dir, ok) \<leftarrow> load_dir s dir_inode_blk;
     if \<not> ok then Some (s, - 1)
     else do {
       (s, dir, r) \<leftarrow> insert_loop s dir 0 name;
       case r of
         None \<Rightarrow> do { s \<leftarrow> store_dir s dir_inode_blk dir; Some (s, - 1) }
       | Some (dir_entry_blk, new_blk, pos) \<Rightarrow> do {
           let dir = dir\<lparr>i_size := max (i_size dir) (pos + 512), i_modify_ts := fs_time s\<rparr>;
           s \<leftarrow> store_dir s dir_inode_blk dir;
           s \<leftarrow> write_inode s dir;
           s \<leftarrow> wrt_block s dir_entry_blk (dir_cache s);
           s \<leftarrow> clear_block s new_blk;
           Some (s, new_blk) } } }"

function delete_loop ::
  "fs_state \<Rightarrow> m_inode \<Rightarrow> u32 \<Rightarrow> bytes \<Rightarrow> (fs_state \<times> m_inode \<times> (u32 \<times> u32) option) option" where
  "delete_loop s dir pos name = do {
     (s, dir, dir_entry_blk) \<leftarrow> get_data_block s dir pos False;
     if dir_entry_blk = NOT_FOUND then Some (s, dir, None)
     else do {
       (s, dir, n) \<leftarrow> read_dir s dir pos False;
       if n = 0 then Some (s, dir, None)
       else do {
         c \<leftarrow> contains_filename (dir_cache s) name;
         (s, delete_pos) \<leftarrow> (if c then delete_entry s name else Some (s, NOT_FOUND));
         if delete_pos = NOT_FOUND then delete_loop s dir (pos + 512) name
         else Some (s, dir, Some (dir_entry_blk, delete_pos)) } } }"
  by pat_completeness auto
termination
  by (relation "measure (\<lambda>(s, dir, pos, name). 8470016 - unat pos)")
    (simp, simp only: in_measure prod.case, rule next_pos, erule (3) read_dir_limit')

declare delete_loop.simps [simp del]

definition delete_file_from_dir :: "fs_state \<Rightarrow> u32 \<Rightarrow> bytes \<Rightarrow> (fs_state \<times> u32) option" where
  "delete_file_from_dir s dir_inode_blk name = do {
     (s, dir, ok) \<leftarrow> load_dir s dir_inode_blk;
     if \<not> ok then Some (s, - 1)
     else do {
       (s, dir, r) \<leftarrow> delete_loop s dir 0 name;
       case r of
         None \<Rightarrow> do { s \<leftarrow> store_dir s dir_inode_blk dir; Some (s, - 1) }
       | Some (dir_entry_blk, delete_pos) \<Rightarrow> do {
           s \<leftarrow> wrt_block s dir_entry_blk (dir_cache s);
           let dir = dir\<lparr>i_modify_ts := fs_time s\<rparr>;
           s \<leftarrow> store_dir s dir_inode_blk dir;
           s \<leftarrow> write_inode s dir;
           Some (s, delete_pos) } } }"

section \<open>Paths\<close>

text \<open>
  \<open>strsep (&path, "/")\<close> on byte lists (\<open>None\<close> is \<open>NULL\<close>): the rest and the token.
\<close>

fun sep_slash :: "bytes option \<Rightarrow> bytes option \<times> bytes option" where
  "sep_slash None = (None, None)"
| "sep_slash (Some p) =
     (if 47 \<in> set p then (Some (tl (dropWhile (\<lambda>c. c \<noteq> 47) p)), Some (takeWhile (\<lambda>c. c \<noteq> 47) p))
      else (None, Some p))"

text \<open>The loop of \<open>rfsearch\<close>; a token that is \<open>NULL\<close> is read at address 0.\<close>

function rf_loop :: "fs_state \<Rightarrow> m_inode \<Rightarrow> u32 \<Rightarrow> bytes option \<Rightarrow> (fs_state \<times> m_inode \<times> u32) option" where
  "rf_loop s dir pos tok = do {
     (s, dir, bytes_read) \<leftarrow> read_dir s dir pos False;
     if bytes_read \<noteq> 0 then do {
       t \<leftarrow> tok;
       file_blk \<leftarrow> find_filename (dir_cache s) t;
       if file_blk = NOT_FOUND then rf_loop s dir (pos + 512) tok else Some (s, dir, file_blk) }
     else Some (s, dir, NOT_FOUND) }"
  by pat_completeness auto
termination
  by (relation "measure (\<lambda>(s, dir, pos, tok). 8470016 - unat pos)")
    (simp, simp only: in_measure prod.case, rule next_pos, erule (3) read_dir_limit')

declare rf_loop.simps [simp del]

text \<open>One call of \<open>rfsearch\<close> up to the end of its loop.\<close>

definition rf_dir :: "fs_state \<Rightarrow> u32 \<Rightarrow> bytes option \<Rightarrow> (fs_state \<times> u32) option" where
  "rf_dir s crt_dir tok = do {
     root \<leftarrow> rd_at (inode_table s) ROOT_INODE;
     if crt_dir = i_adr root then do {
       (s, root, b) \<leftarrow> rf_loop s root 0 tok;
       t \<leftarrow> wr_at (inode_table s) ROOT_INODE root;
       Some (s\<lparr>inode_table := t\<rparr>, b) }
     else do {
       (s, dir) \<leftarrow> read_minode s (m_inode_cache s) crt_dir;
       (s, dir, b) \<leftarrow> rf_loop s dir 0 tok;
       Some (s\<lparr>m_inode_cache := dir\<rparr>, b) } }"

lemma sep_slash_shorter:
  "(r, t') = sep_slash p \<Longrightarrow> t' = Some t \<Longrightarrow> (case r of None \<Rightarrow> 0 | Some q \<Rightarrow> Suc (length q)) < (case p of None \<Rightarrow> 0 | Some q \<Rightarrow> Suc (length q))"
proof (induction p rule: sep_slash.induct)
  case (2 p)
  have "length (dropWhile (\<lambda>c. c \<noteq> 47) p) \<le> length p" by (rule length_dropWhile_le)
  moreover have "47 \<in> set p \<Longrightarrow> p \<noteq> []" by auto
  then have "47 \<in> set p \<Longrightarrow> 0 < length p" by simp
  ultimately show ?case using 2 by (auto split: if_splits)
qed simp

function rfsearch :: "fs_state \<Rightarrow> u32 \<Rightarrow> bytes option \<Rightarrow> bytes option \<Rightarrow> (fs_state \<times> u32) option" where
  "rfsearch s crt_dir path tok = do {
     (s, file_blk) \<leftarrow> rf_dir s crt_dir tok;
     if file_blk = NOT_FOUND then Some (s, NOT_FOUND)
     else case sep_slash path of
       (path, None) \<Rightarrow> Some (s, file_blk)
     | (path, Some tok) \<Rightarrow> rfsearch s file_blk path (Some tok) }"
  by pat_completeness auto
termination
proof (relation "measure (\<lambda>(s, d, path, tok). case path of None \<Rightarrow> 0 | Some q \<Rightarrow> Suc (length q))", goal_cases)
  case (2 s crt_dir path tok a x y xa ya x2)
  from sep_slash_shorter [OF 2(4,5)] show ?case by (simp only: in_measure prod.case)
qed simp

declare rfsearch.simps [simp del]

text \<open>
  The two arguments \<open>work_copy\<close> and \<open>strsep (&work_copy, delim)\<close> of the call of \<open>rfsearch\<close> are evaluated from
  right to left, as the compilers for this machine do.
\<close>

definition search_file :: "fs_state \<Rightarrow> bytes \<Rightarrow> (fs_state \<times> u32) option" where
  "search_file s path =
     (case sep_slash (Some path) of
        (work_copy, tok) \<Rightarrow>
          if tok \<noteq> Some [] then Some (s, - 1)
          else case sep_slash work_copy of
            (work_copy, tok) \<Rightarrow> do {
              root \<leftarrow> rd_at (inode_table s) ROOT_INODE;
              rfsearch s (i_adr root) work_copy tok })"

text \<open>\<open>while (abs_path[--i] != '/');\<close> from \<open>i\<close> on; without a slash it reads before the path.\<close>

fun find_slash :: "bytes \<Rightarrow> nat \<Rightarrow> nat option" where
  "find_slash p 0 = None"
| "find_slash p (Suc i) = (if p ! i = 47 then Some i else find_slash p i)"

text \<open>The results are the buffers of \<open>strlen (abs_path)\<close> bytes.\<close>

definition get_filename :: "bytes \<Rightarrow> bytes option" where
  "get_filename abs_path = do {
     let path = replicate (length abs_path) 0;
     i \<leftarrow> find_slash abs_path (length abs_path);
     run \<leftarrow> rd_run (i + 1) (length abs_path - i) (abs_path @ [0]);
     wr_run 0 run path }"

definition get_path :: "bytes \<Rightarrow> bytes option" where
  "get_path abs_path = do {
     let path = replicate (length abs_path) 0;
     i \<leftarrow> find_slash abs_path (length abs_path);
     let i = (if i = 0 then i + 1 else i);
     run \<leftarrow> rd_run 0 i abs_path;
     wr_run 0 run path }"

text \<open>The string at the start of a buffer; \<open>None\<close> when it has no terminator.\<close>

definition buf_str :: "bytes \<Rightarrow> bytes option" where
  "buf_str buf = (if 0 \<in> set buf then Some (takeWhile (\<lambda>c. c \<noteq> 0) buf) else None)"

end
