(* ===== verification/FsOps.thy ===== *)
theory FsOps
  imports Dir FileTables
begin

text \<open>
  The operations of the file system on paths and descriptors: opening and closing
  (\<open>fs/fs_open_close.c\<close>), creating, deleting and truncating (\<open>fs/fs_create_delete.c\<close>), the super block
  (\<open>fs/fs_super.c\<close>), and the start and the interface of the file system (\<open>fs/fs_main.c\<close>).
\<close>

section \<open>Opening and closing\<close>

definition fs_open :: "fs_state \<Rightarrow> bytes \<Rightarrow> (fs_state \<times> 16 word) option" where
  "fs_open s abs_path = do {
     (s, r) \<leftarrow>
       (if str_cmp abs_path [47] \<noteq> 0 then
          let fd = name2desc s abs_path
          in if fd \<noteq> - 1 then Some (s, Inl fd)
             else do {
               (s, block) \<leftarrow> search_file s abs_path;
               if block = NOT_FOUND then Some (s, Inl (- 1))
               else case alloc_inode s of
                 (s, None) \<Rightarrow> Some (s, Inl (- 1))
               | (s, Some i) \<Rightarrow> do {
                   m \<leftarrow> rd_at (inode_table s) i;
                   (s, m) \<leftarrow> read_minode s m block;
                   t \<leftarrow> wr_at (inode_table s) i m;
                   Some (s\<lparr>inode_table := t\<rparr>, Inr i) } }
        else Some (s, Inr ROOT_INODE));
     case r of
       Inl fd \<Rightarrow> Some (s, fd)
     | Inr i \<Rightarrow> do {
         m \<leftarrow> rd_at (inode_table s) i;
         Some (insert_file s i abs_path (ucast (i_mode m))) } }"

definition fs_close :: "fs_state \<Rightarrow> 16 word \<Rightarrow> (fs_state \<times> bool) option" where
  "fs_close s fd = (case get_file s fd of
       None \<Rightarrow> Some (s, False)
     | Some i \<Rightarrow>
         if f_desc (gft s ! i) = NIL_FILE then Some (s, False)
         else do {
           j \<leftarrow> f_inode (gft s ! i);
           m \<leftarrow> rd_at (inode_table s) j;
           s \<leftarrow> write_inode s m;
           s \<leftarrow> free_file s fd;
           Some (s, True) })"

section \<open>Truncating\<close>

text \<open>
  \<open>shrink_file\<close> gets and returns the value of \<open>*block\<close>; the loop frees the entries from \<open>i\<close> on, \<open>n\<close> are
  left.
\<close>

fun shrink_loop :: "fs_state \<Rightarrow> u32 list \<Rightarrow> nat \<Rightarrow> nat \<Rightarrow> (fs_state \<times> u32 list) option" where
  "shrink_loop s as i 0 = Some (s, as)"
| "shrink_loop s as i (Suc n) = do {
     a \<leftarrow> rd_at as i;
     if a \<noteq> 0 then do { s \<leftarrow> mark_block s a False; shrink_loop s (as[i := 0]) (i + 1) n }
     else shrink_loop s as (i + 1) n }"

definition shrink_file :: "fs_state \<Rightarrow> u32 \<Rightarrow> nat \<Rightarrow> (fs_state \<times> u32) option" where
  "shrink_file s block start =
     (if start \<ge> ADDRS_PER_BLOCK then Some (s, block)
      else do {
        (s, buf) \<leftarrow> rd_block s block 512;
        (s, as) \<leftarrow> shrink_loop s (dec_addrs 128 buf) start (ADDRS_PER_BLOCK - start);
        if start \<noteq> 0 then do { s \<leftarrow> wrt_block s block (enc_addrs as); Some (s, block) }
        else do { s \<leftarrow> mark_block s block False; Some (s, 0) } })"

text \<open>The loop over the double indirect block; \<open>int\<close> for the signed differences.\<close>

fun shrink_double :: "fs_state \<Rightarrow> int \<Rightarrow> nat \<Rightarrow> nat \<Rightarrow> fs_state option" where
  "shrink_double s start i 0 = Some s"
| "shrink_double s start i (Suc n) = do {
     a \<leftarrow> rd_at (addr_cache s) i;
     if a = 0 then Some s
     else do {
       (s, b) \<leftarrow> shrink_file s a (nat (max 0 (start - 30 - (int i + 1) * 128)));
       c \<leftarrow> wr_at (addr_cache s) i b;
       shrink_double (s\<lparr>addr_cache := c\<rparr>) start (i + 1) n } }"

text \<open>The part of \<open>fs_truncate\<close> for a smaller size.\<close>

definition truncate_inode :: "fs_state \<Rightarrow> m_inode \<Rightarrow> u32 \<Rightarrow> (fs_state \<times> m_inode) option" where
  "truncate_inode s inode new_size = do {
     let start = uint ((new_size + 512 - 1) div 512);
     (s, d) \<leftarrow> shrink_loop s (i_direct inode) (nat start) (NUM_DIRECT_POINTER - nat start);
     let inode = inode\<lparr>i_direct := d\<rparr>;
     (s, inode) \<leftarrow>
       (if i_single inode \<noteq> 0 \<and> start < 158 then do {
          (s, b) \<leftarrow> shrink_file s (i_single inode) (nat (max 0 (start - 30)));
          Some (s, inode\<lparr>i_single := b\<rparr>) }
        else Some (s, inode));
     if i_double inode \<noteq> 0 then do {
       s \<leftarrow> rd_addrs s (i_double inode);
       let i = nat (max 0 ((start - 158) div 128));
       s \<leftarrow> shrink_double s start i (ADDRS_PER_BLOCK - i);
       if start < 158 then do { s \<leftarrow> mark_block s (i_double inode) False; Some (s, inode\<lparr>i_double := 0\<rparr>) }
       else do { s \<leftarrow> wrt_addrs s (i_double inode); Some (s, inode) } }
     else Some (s, inode) }"

definition fs_truncate :: "fs_state \<Rightarrow> bytes \<Rightarrow> u32 \<Rightarrow> (fs_state \<times> bool) option" where
  "fs_truncate s abs_path new_size = do {
     (s, fd) \<leftarrow> fs_open s abs_path;
     if fd <s 0 then Some (s, False)
     else do {
       i \<leftarrow> get_file s fd;
       j \<leftarrow> f_inode (gft s ! i);
       inode \<leftarrow> rd_at (inode_table s) j;
       (s, inode) \<leftarrow>
         (if new_size < i_size inode then truncate_inode s inode new_size
          else if new_size > i_size inode then do {
            (s, inode, b) \<leftarrow> get_data_block s inode new_size True; Some (s, inode) }
          else Some (s, inode));
       let inode = inode\<lparr>i_size := new_size\<rparr>;
       t \<leftarrow> wr_at (inode_table s) j inode;
       s \<leftarrow> write_inode (s\<lparr>inode_table := t\<rparr>) inode;
       (s, b) \<leftarrow> fs_close s fd;
       Some (s, True) } }"

section \<open>Creating and deleting\<close>

datatype cd_mode = CREATE | DELETE

text \<open>
  \<open>mem\<close> is what follows the buffer of the file name in memory. A result \<open>NULL\<close> of \<open>mallocn\<close> does not
  occur.
\<close>

definition fs_create_delete :: "fs_state \<Rightarrow> bytes \<Rightarrow> cd_mode \<Rightarrow> u16 \<Rightarrow> bytes \<Rightarrow> (fs_state \<times> bool) option" where
  "fs_create_delete s abs_path mode data_type mem = do {
     (s, b) \<leftarrow> search_file s abs_path;
     if mode = CREATE \<and> b \<noteq> NOT_FOUND then Some (s, False)
     else if mode = DELETE \<and> b = NOT_FOUND then Some (s, False)
     else do {
       path_buf \<leftarrow> get_path abs_path;
       path \<leftarrow> buf_str path_buf;
       (s, dir_inode_block) \<leftarrow> (if str_cmp path [47] = 0 then Some (s, ROOT_INODE_BLOCK) else search_file s path);
       if dir_inode_block = NOT_FOUND then Some (s, False)
       else do {
         name_buf \<leftarrow> get_filename abs_path;
         name \<leftarrow> buf_str name_buf;
         (s, file_block) \<leftarrow> (case mode of
             CREATE \<Rightarrow> insert_file_into_dir s dir_inode_block (name_buf @ mem)
           | DELETE \<Rightarrow> do { (s, r) \<leftarrow> fs_truncate s abs_path 0; delete_file_from_dir s dir_inode_block name });
         if file_block = - 1 then Some (s, False)
         else case mode of
           CREATE \<Rightarrow> do {
             s \<leftarrow> write_inode s (fresh_inode s NIL_INODE file_block data_type);
             Some (s, True) }
         | DELETE \<Rightarrow> Some (s, True) } } }"

definition fs_create :: "fs_state \<Rightarrow> bytes \<Rightarrow> u16 \<Rightarrow> bytes \<Rightarrow> (fs_state \<times> bool) option" where
  "fs_create s abs_path data_type mem = fs_create_delete s abs_path CREATE data_type mem"

definition fs_delete :: "fs_state \<Rightarrow> bytes \<Rightarrow> bytes \<Rightarrow> (fs_state \<times> bool) option" where
  "fs_delete s abs_path mem = fs_create_delete s abs_path DELETE 0 mem"

section \<open>The super block\<close>

definition SUPER_SIZE :: nat where "SUPER_SIZE = 37"

definition enc_super :: "super_block \<Rightarrow> bytes" where
  "enc_super b = le32 (s_HD_size b) @ le16 (s_bmap_blocks b) @ le32 (s_first_data_block b) @ le32 (s_max_file_size b) @
     le32 (s_bmap b) @ le32 (s_iroot b) @ enc_time (s_modify_ts b) @ [s_read_only b] @ le16 (s_dirt b) @
     le32 (s_magic_number b)"

definition dec_super :: "bytes \<Rightarrow> super_block" where
  "dec_super bs = \<lparr>s_HD_size = un_le32 (sub_bytes 0 4 bs), s_bmap_blocks = un_le16 (sub_bytes 4 2 bs),
     s_first_data_block = un_le32 (sub_bytes 6 4 bs), s_max_file_size = un_le32 (sub_bytes 10 4 bs),
     s_bmap = un_le32 (sub_bytes 14 4 bs), s_iroot = un_le32 (sub_bytes 18 4 bs),
     s_modify_ts = dec_time (sub_bytes 22 8 bs), s_read_only = bs ! 30, s_dirt = un_le16 (sub_bytes 31 2 bs),
     s_magic_number = un_le32 (sub_bytes 33 4 bs)\<rparr>"

text \<open>The addresses of the bitmap and of the root inode in memory are arguments.\<close>

definition init_super_block :: "fs_state \<Rightarrow> u32 \<Rightarrow> u32 \<Rightarrow> fs_state" where
  "init_super_block s bmap root = s\<lparr>fs_super := \<lparr>s_HD_size = get_hdsize (fs_hd s),
     s_bmap_blocks = ucast (num_bmap_blocks s), s_first_data_block = first_data_block s,
     s_max_file_size = (30 + 128 + 128 * 128) * 512, s_bmap = bmap, s_iroot = root, s_modify_ts = fs_time s,
     s_read_only = 0, s_dirt = 0, s_magic_number = MAGIC_NUMBER\<rparr>\<rparr>"

definition load_super_block :: "fs_state \<Rightarrow> fs_state option" where
  "load_super_block s = do {
     (s, buf) \<leftarrow> rd_block s SUPER_BLOCK SUPER_SIZE;
     Some (s\<lparr>fs_super := dec_super buf\<rparr>) }"

definition write_super_block :: "fs_state \<Rightarrow> fs_state option" where
  "write_super_block s = wrt_block s SUPER_BLOCK (enc_super (fs_super s))"

section \<open>Start and shutdown\<close>

definition load_fs :: "fs_state \<Rightarrow> bytes option \<Rightarrow> (fs_state \<times> bool) option" where
  "load_fs s mem = do {
     s \<leftarrow> load_bmap s mem;
     let s = init_file_table (init_inode_table s);
     s \<leftarrow> load_root s;
     s \<leftarrow> load_super_block s;
     Some (s, s_magic_number (fs_super s) = MAGIC_NUMBER) }"

definition create_fs :: "fs_state \<Rightarrow> bytes option \<Rightarrow> bool \<Rightarrow> u32 \<Rightarrow> u32 \<Rightarrow> (fs_state \<times> bool) option" where
  "create_fs s mem heap_ok bmap root = do {
     s \<leftarrow> init_bmap s mem;
     let s = init_file_table (init_inode_table s);
     s \<leftarrow> create_root s heap_ok;
     s \<leftarrow> write_super_block (init_super_block s bmap root);
     Some (s, True) }"

text \<open>\<open>mem\<close> and \<open>mem2\<close>: the memory for the bitmap of the attempt to load and of the new file system.\<close>

definition fs_init :: "fs_state \<Rightarrow> bytes option \<Rightarrow> bytes option \<Rightarrow> bool \<Rightarrow> u32 \<Rightarrow> u32 \<Rightarrow> fs_state option" where
  "fs_init s mem mem2 heap_ok bmap root = do {
     (s, ok) \<leftarrow> load_fs s mem;
     if \<not> ok then do {
       (s, ok) \<leftarrow> create_fs s mem2 heap_ok bmap root;
       if \<not> ok then None else Some s }
     else Some s }"

fun close_files :: "fs_state \<Rightarrow> nat \<Rightarrow> nat \<Rightarrow> fs_state option" where
  "close_files s i 0 = Some s"
| "close_files s i (Suc n) = do {
     f \<leftarrow> rd_at (gft s) i;
     (s, r) \<leftarrow> fs_close s (f_desc f);
     close_files s (i + 1) n }"

definition fs_shutdown :: "fs_state \<Rightarrow> fs_state option" where
  "fs_shutdown s = do {
     s \<leftarrow> write_root s;
     s \<leftarrow> close_files s 0 NUM_FILES;
     s \<leftarrow> write_bmap s;
     write_super_block s }"

section \<open>The interface for the system calls\<close>

text \<open>\<open>get_file (fd)->f_inode\<close>.\<close>

definition inode_of :: "fs_state \<Rightarrow> 16 word \<Rightarrow> nat option" where
  "inode_of s fd = do { i \<leftarrow> get_file s fd; f_inode (gft s ! i) }"

definition do_read :: "fs_state \<Rightarrow> 16 word \<Rightarrow> u32 \<Rightarrow> u32 \<Rightarrow> (fs_state \<times> bytes \<times> u32) option" where
  "do_read s fd count pos = do {
     info \<leftarrow> get_file_info s fd;
     let to_read = (if fi_mode info = DIRECTORY then 512
                    else if count > fi_size info - pos then fi_size info - pos else count);
     j \<leftarrow> inode_of s fd;
     m \<leftarrow> rd_at (inode_table s) j;
     (s, m, data, n) \<leftarrow> fs_read s m to_read pos False;
     t \<leftarrow> wr_at (inode_table s) j m;
     Some (s\<lparr>inode_table := t\<rparr>, data, n) }"

definition do_write :: "fs_state \<Rightarrow> 16 word \<Rightarrow> bytes \<Rightarrow> u32 \<Rightarrow> u32 \<Rightarrow> (fs_state \<times> u32) option" where
  "do_write s fd buf count pos = do {
     j \<leftarrow> inode_of s fd;
     m \<leftarrow> rd_at (inode_table s) j;
     (s, m, n) \<leftarrow> fs_write s m buf count pos True;
     t \<leftarrow> wr_at (inode_table s) j m;
     Some (s\<lparr>inode_table := t\<rparr>, n) }"

definition do_create :: "fs_state \<Rightarrow> bytes \<Rightarrow> u8 \<Rightarrow> bytes \<Rightarrow> (fs_state \<times> bool) option" where
  "do_create s abs_path mode mem = fs_create s abs_path (ucast mode) mem"

definition do_mkdir :: "fs_state \<Rightarrow> bytes \<Rightarrow> bytes \<Rightarrow> (fs_state \<times> bool) option" where
  "do_mkdir s abs_path mem = fs_create s abs_path DIRECTORY mem"

definition do_mkfile :: "fs_state \<Rightarrow> bytes \<Rightarrow> bytes \<Rightarrow> (fs_state \<times> bool) option" where
  "do_mkfile s abs_path mem = do_create s abs_path (ucast DATA_FILE) mem"

definition do_remove :: "fs_state \<Rightarrow> bytes \<Rightarrow> bytes \<Rightarrow> (fs_state \<times> s32) option" where
  "do_remove s abs_path mem = do { (s, ok) \<leftarrow> fs_delete s abs_path mem; Some (s, if ok then 0 else - 1) }"

definition do_open :: "fs_state \<Rightarrow> bytes \<Rightarrow> (fs_state \<times> 16 word) option" where
  "do_open s abs_path = fs_open s abs_path"

definition do_close :: "fs_state \<Rightarrow> 16 word \<Rightarrow> (fs_state \<times> s32) option" where
  "do_close s fd = do { (s, ok) \<leftarrow> fs_close s fd; Some (s, if ok then 0 else - 1) }"

definition do_close_pf :: "fs_state \<Rightarrow> proc_file list \<Rightarrow> 16 word \<Rightarrow> (fs_state \<times> proc_file list \<times> s32) option" where
  "do_close_pf s pft pfd = do {
     i \<leftarrow> get_proc_file pft pfd;
     (s, r) \<leftarrow> do_close s (pf_f_desc (pft ! i));
     if r = 0 then Some (s, free_proc_file pft pfd, 0) else Some (s, pft, - 1) }"

definition do_lseek :: "proc_file list \<Rightarrow> 16 word \<Rightarrow> s32 \<Rightarrow> u32 \<Rightarrow> proc_file list \<times> u32" where
  "do_lseek pft fd offset origin = lseek pft fd offset origin"

definition do_file_exists :: "fs_state \<Rightarrow> bytes \<Rightarrow> (fs_state \<times> bool) option" where
  "do_file_exists s path = do { (s, b) \<leftarrow> search_file s path; Some (s, b \<noteq> NOT_FOUND) }"

end
