(* ===== verification/Brainfuck.thy ===== *)
theory Brainfuck
  imports Prelude
begin

text \<open>
  The Brainfuck interpreter (\<open>apps/brainfuck_interpreter.c\<close>), which is fed one character at a time: its
  variables, and one call of \<open>interpret_bf\<close>. The pointer is an offset into the cells; what is read is taken
  from \<open>bf_in\<close>, what is written is appended to \<open>bf_out\<close>. Waiting for input that does not come has no result,
  nor has a loop that does not end.
\<close>

section \<open>State\<close>

record bf_state =
  maxlength :: int
  bf_start :: bytes
  bf_ptr :: int
  bf_buffer :: "bytes option"
  bf_buf_offset :: nat
  bf_buf_position :: int
  loop_marks :: "(int \<times> int) list"
  jumpover :: bool
  store_lock :: bool
  loopdepth :: int
  temploopdepth :: int
  store_lock_level :: int
  bf_in :: bytes
  bf_out :: bytes

text \<open>What \<open>init_bf\<close> sets up, and \<open>reset_bf\<close>; both clear the new cells. \<open>reset_bf\<close> leaves \<open>loop_marks\<close> as they are.\<close>

definition init_bf :: "bytes \<Rightarrow> bf_state" where
  "init_bf input = \<lparr>maxlength = 10000, bf_start = replicate 10000 0, bf_ptr = 0, bf_buffer = None, bf_buf_offset = 0,
     bf_buf_position = - 1, loop_marks = replicate 50 (0, 0), jumpover = False, store_lock = False, loopdepth = 0,
     temploopdepth = 0, store_lock_level = 0, bf_in = input, bf_out = []\<rparr>"

definition reset_bf :: "bf_state \<Rightarrow> bf_state" where
  "reset_bf s = s\<lparr>maxlength := 10000, bf_buffer := None, bf_buf_offset := 0, bf_buf_position := - 1, loopdepth := 0,
     temploopdepth := 0, store_lock_level := 0, store_lock := False, bf_start := replicate 10000 0, bf_ptr := 0,
     jumpover := False\<rparr>"

section \<open>The parts of \<open>interpret_bf\<close>\<close>

definition bf_cell :: "bf_state \<Rightarrow> u8 option" where
  "bf_cell s = (if bf_ptr s < 0 then None else rd_at (bf_start s) (nat (bf_ptr s)))"

definition set_cell :: "bf_state \<Rightarrow> u8 \<Rightarrow> bf_state option" where
  "set_cell s c = (if bf_ptr s < 0 then None
     else do { m \<leftarrow> wr_at (bf_start s) (nat (bf_ptr s)) c; Some (s\<lparr>bf_start := m\<rparr>) })"

text \<open>Inside of a loop that is read for the first time the character is stored.\<close>

definition bf_record :: "bf_state \<Rightarrow> u8 \<Rightarrow> bf_state option" where
  "bf_record s ch =
     (case bf_buffer s of
        None \<Rightarrow> Some s
      | Some b \<Rightarrow>
          if store_lock s then Some s
          else do {
            b \<leftarrow> wr_at b (bf_buf_offset s) ch;
            Some (s\<lparr>bf_buffer := Some b, bf_buf_offset := bf_buf_offset s + 1, bf_buf_position := bf_buf_position s + 1\<rparr>) })"

definition bf_jump :: "bf_state \<Rightarrow> u8 \<Rightarrow> bf_state" where
  "bf_jump s ch =
     (if ch = 93 \<and> loopdepth s = temploopdepth s
      then s\<lparr>jumpover := False, loopdepth := loopdepth s - 1, temploopdepth := 0\<rparr>
      else if ch = 91 then s\<lparr>loopdepth := loopdepth s + 1\<rparr>
      else if ch = 93 then s\<lparr>loopdepth := loopdepth s - 1\<rparr>
      else s)"

definition get_mark :: "bf_state \<Rightarrow> (int \<times> int) option" where
  "get_mark s = (if loopdepth s < 0 then None else rd_at (loop_marks s) (nat (loopdepth s)))"

definition set_mark :: "bf_state \<Rightarrow> int \<times> int \<Rightarrow> bf_state option" where
  "set_mark s m = (if loopdepth s < 0 then None
     else do { l \<leftarrow> wr_at (loop_marks s) (nat (loopdepth s)) m; Some (s\<lparr>loop_marks := l\<rparr>) })"

text \<open>The cases of the \<open>switch\<close> but the closing bracket. \<open>mem n\<close> is what a new block of \<open>n\<close> bytes holds.\<close>

definition bf_symbol :: "(nat \<Rightarrow> bytes) \<Rightarrow> bf_state \<Rightarrow> u8 \<Rightarrow> bf_state option" where
  "bf_symbol mem s ch =
     (if ch = 43 then do { c \<leftarrow> bf_cell s; set_cell s (c + 1) }
      else if ch = 45 then do { c \<leftarrow> bf_cell s; set_cell s (c - 1) }
      else if ch = 60 then Some (s\<lparr>bf_ptr := bf_ptr s - 1\<rparr>)
      else if ch = 62 then Some (s\<lparr>bf_ptr := bf_ptr s + 1\<rparr>)
      else if ch = 46 then do { c \<leftarrow> bf_cell s; Some (s\<lparr>bf_out := bf_out s @ [c]\<rparr>) }
      else if ch = 44 then (case bf_in s of [] \<Rightarrow> None | c # cs \<Rightarrow> set_cell (s\<lparr>bf_in := cs\<rparr>) c)
      else if ch = 91 then do {
        let s = s\<lparr>loopdepth := loopdepth s + 1\<rparr>;
        c \<leftarrow> bf_cell s;
        if c = 0 then Some (s\<lparr>jumpover := True, temploopdepth := loopdepth s\<rparr>)
        else if bf_buffer s = None then Some (s\<lparr>bf_buffer := Some (mem (nat (maxlength s)))\<rparr>)
        else do { m \<leftarrow> get_mark s; set_mark s (bf_buf_position s + 1, snd m) } }
      else Some s)"

text \<open>The closing bracket: before the loop, at the start of a round, and after the loop.\<close>

definition bf_close_start :: "bf_state \<Rightarrow> bf_state option" where
  "bf_close_start s = do { m \<leftarrow> get_mark s; set_mark s (fst m, bf_buf_position s) }"

definition bf_round_start :: "bf_state \<Rightarrow> (bf_state \<times> int \<times> int) option" where
  "bf_round_start s = do {
     let s = s\<lparr>store_lock := True,
       store_lock_level := (if store_lock_level s = 0 then loopdepth s else store_lock_level s)\<rparr>;
     m \<leftarrow> get_mark s;
     Some (s\<lparr>bf_buf_position := fst m\<rparr>, fst m, snd m) }"

definition bf_close_end :: "bf_state \<Rightarrow> bf_state" where
  "bf_close_end s =
     (let s = (if loopdepth s = store_lock_level s then s\<lparr>store_lock := False, store_lock_level := 0\<rparr> else s);
          s = s\<lparr>loopdepth := loopdepth s - 1\<rparr>
      in if loopdepth s = 0 \<and> bf_buffer s \<noteq> None
         then s\<lparr>bf_buffer := None, bf_buf_offset := 0, bf_buf_position := - 1\<rparr>
         else s)"

definition lower_msg :: bytes where
  "lower_msg = [76, 79, 87, 69, 82, 32, 66, 79, 85, 78, 68, 32, 69, 82, 82, 79, 82, 9, 82, 69, 80, 65, 73, 82, 73, 78, 71, 10, 0]"
definition upper_msg :: bytes where
  "upper_msg = [85, 80, 80, 69, 82, 32, 66, 79, 85, 78, 68, 32, 69, 82, 82, 79, 82, 9, 82, 69, 80, 65, 73, 82, 73, 78, 71, 10, 0]"

text \<open>A pointer that has left the cells gets twice as many of them.\<close>

definition bf_repair :: "(nat \<Rightarrow> bytes) \<Rightarrow> bf_state \<Rightarrow> bf_state option" where
  "bf_repair mem s =
     (if bf_ptr s < 0 then do {
        let mx = maxlength s * 2;
        run \<leftarrow> rd_run 0 (nat (mx div 2)) (bf_start s);
        temp \<leftarrow> wr_run (nat (mx div 2)) run (mem (nat mx));
        Some (s\<lparr>bf_out := bf_out s @ lower_msg, maxlength := mx, bf_start := temp, bf_ptr := mx div 2 - 1\<rparr>) }
      else if bf_ptr s > maxlength s - 1 then do {
        let mx = maxlength s * 2;
        run \<leftarrow> rd_run 0 (nat (mx div 2)) (bf_start s);
        temp \<leftarrow> wr_run 0 run (mem (nat mx));
        Some (s\<lparr>bf_out := bf_out s @ upper_msg, maxlength := mx, bf_start := temp, bf_ptr := mx div 2\<rparr>) }
      else Some s)"

section \<open>The interpreter\<close>

text \<open>
  \<open>interpret_bf\<close> calls itself from inside of two nested loops: \<open>Symbol\<close> is a call, \<open>Loop\<close> the outer and \<open>Body\<close> the
  inner \<open>while\<close> loop of the closing bracket.
\<close>

datatype bf_task = Symbol u8 | Loop | Body int int

partial_function (option) bf_run :: "(nat \<Rightarrow> bytes) \<Rightarrow> bf_task \<Rightarrow> bf_state \<Rightarrow> bf_state option" where
  "bf_run mem t s = (case t of
     Symbol ch \<Rightarrow> do {
       s \<leftarrow> bf_record s ch;
       if jumpover s then Some (bf_jump s ch)
       else if ch = 93 then do {
         s \<leftarrow> bf_close_start s;
         s \<leftarrow> bf_run mem Loop s;
         bf_repair mem (bf_close_end s) }
       else do { s \<leftarrow> bf_symbol mem s ch; bf_repair mem s } }
   | Loop \<Rightarrow> do {
       c \<leftarrow> bf_cell s;
       if c = 0 then Some s
       else do {
         (s, start, end) \<leftarrow> bf_round_start s;
         s \<leftarrow> bf_run mem (Body start end) s;
         bf_run mem Loop s } }
   | Body start end \<Rightarrow>
       if start < end then do {
         b \<leftarrow> bf_buffer s;
         ch \<leftarrow> (if start < 0 then None else rd_at b (nat start));
         s \<leftarrow> bf_run mem (Symbol ch) s;
         bf_run mem (Body (start + 1) end) (s\<lparr>bf_buf_position := start + 1\<rparr>) }
       else Some s)"

definition interpret_bf :: "(nat \<Rightarrow> bytes) \<Rightarrow> bf_state \<Rightarrow> u8 \<Rightarrow> bf_state option" where
  "interpret_bf mem s ch = bf_run mem (Symbol ch) s"

fun interpret_all :: "(nat \<Rightarrow> bytes) \<Rightarrow> bf_state \<Rightarrow> bytes \<Rightarrow> bf_state option" where
  "interpret_all mem s [] = Some s"
| "interpret_all mem s (c # cs) = do { s \<leftarrow> interpret_bf mem s c; interpret_all mem s cs }"

end
