(* ===== verification/Frames.thy ===== *)
theory Frames
  imports Prelude
begin

text \<open>
  Physical frames and page tables: the bitmap of \<open>mm/mm_bitmap.c\<close> and \<open>kmalloc\<close> and \<open>get_page\<close> of
  \<open>mm/mm_main.c\<close>, with the structures of \<open>mm/mm_paging.h\<close>. All callers pass \<open>kernel_dir\<close>, so the
  model has this one directory; a pointer to a page is its pair of indices in the directory. A
  page table is created in memory that \<open>kmalloc\<close> reserves, zeroed.
\<close>

section \<open>State\<close>

record page =
  pg_present :: "1 word"
  pg_rw :: "1 word"
  pg_user :: "1 word"
  pg_res :: "2 word"
  pg_accessed :: "1 word"
  pg_dirty :: "1 word"
  pg_res2 :: "2 word"
  pg_avail :: "3 word"
  pg_frame :: "20 word"

definition zero_page :: page where
  "zero_page = \<lparr>pg_present = 0, pg_rw = 0, pg_user = 0, pg_res = 0, pg_accessed = 0, pg_dirty = 0,
     pg_res2 = 0, pg_avail = 0, pg_frame = 0\<rparr>"

type_synonym page_table = "page list"

record page_directory =
  pd_tables :: "page_table option list"
  pd_phys :: "u32 list"

record mm_state =
  placement_addr :: u32
  nframes :: u32
  frames :: "u32 list"
  kernel_dir :: page_directory

type_synonym page_ref = "nat \<times> nat"

section \<open>Operations on the bitmap\<close>

definition set_frame :: "mm_state \<Rightarrow> u32 \<Rightarrow> mm_state option" where
  "set_frame s frame_addr = (let frame = frame_addr div 0x1000; i = unat (frame div 32) in do {
     w \<leftarrow> rd_at (frames s) i;
     fs \<leftarrow> wr_at (frames s) i (w OR push_bit (unat (frame mod 32)) 1);
     Some (s\<lparr>frames := fs\<rparr>) })"

definition clear_frame :: "mm_state \<Rightarrow> u32 \<Rightarrow> mm_state option" where
  "clear_frame s frame_addr = (let frame = frame_addr div 0x1000; i = unat (frame div 32) in do {
     w \<leftarrow> rd_at (frames s) i;
     fs \<leftarrow> wr_at (frames s) i (w AND NOT (push_bit (unat (frame mod 32)) 1));
     Some (s\<lparr>frames := fs\<rparr>) })"

definition test_frame :: "mm_state \<Rightarrow> u32 \<Rightarrow> bool option" where
  "test_frame s frame_addr = (let frame = frame_addr div 0x1000 in do {
     w \<leftarrow> rd_at (frames s) (unat (frame div 32));
     Some (w AND push_bit (unat (frame mod 32)) 1 \<noteq> 0) })"

text \<open>The inner loop has \<open>k\<close> rounds left, the outer one \<open>n\<close>.\<close>

fun fff_bits :: "u32 \<Rightarrow> nat \<Rightarrow> nat \<Rightarrow> nat option" where
  "fff_bits w j 0 = None"
| "fff_bits w j (Suc k) = (if w AND push_bit j 1 = 0 then Some j else fff_bits w (j + 1) k)"

fun fff_words :: "u32 list \<Rightarrow> nat \<Rightarrow> nat \<Rightarrow> u32 option" where
  "fff_words fs i 0 = Some (- 1)"
| "fff_words fs i (Suc n) = do {
     w \<leftarrow> rd_at fs i;
     if w \<noteq> 0xFFFFFFFF
     then (case fff_bits w 0 32 of Some j \<Rightarrow> Some (word_of_nat i * 32 + word_of_nat j)
           | None \<Rightarrow> fff_words fs (i + 1) n)
     else fff_words fs (i + 1) n }"

definition first_free_frame :: "mm_state \<Rightarrow> u32 option" where
  "first_free_frame s = fff_words (frames s) 0 (unat (nframes s div 32))"

section \<open>Page tables\<close>

text \<open>The second result stands for the returned address and for \<open>*phys\<close>, which are equal.\<close>

definition kmalloc :: "mm_state \<Rightarrow> u32 \<Rightarrow> s32 \<Rightarrow> mm_state \<times> u32" where
  "kmalloc s sz page_aligned =
     (let a = placement_addr s;
          a = (if page_aligned = 1 \<and> a AND 0xFFFFF000 \<noteq> a then (a AND 0xFFFFF000) + 0x1000 else a)
      in (s\<lparr>placement_addr := a + sz\<rparr>, a))"

definition get_page :: "mm_state \<Rightarrow> u32 \<Rightarrow> s32 \<Rightarrow> (mm_state \<times> page_ref option) option" where
  "get_page s address mk =
     (let address = address div 0x1000; ti = unat (address div 1024); pi = unat (address mod 1024) in do {
       t \<leftarrow> rd_at (pd_tables (kernel_dir s)) ti;
       if t \<noteq> None then Some (s, Some (ti, pi))
       else if mk \<noteq> 0 then do {
         let (s, tmp) = kmalloc s 0x1000 1;
         ts \<leftarrow> wr_at (pd_tables (kernel_dir s)) ti (Some (replicate 1024 zero_page));
         ps \<leftarrow> wr_at (pd_phys (kernel_dir s)) ti (tmp OR 0x7);
         Some (s\<lparr>kernel_dir := \<lparr>pd_tables = ts, pd_phys = ps\<rparr>\<rparr>, Some (ti, pi)) }
       else Some (s, None) })"

definition read_page :: "mm_state \<Rightarrow> page_ref \<Rightarrow> page option" where
  "read_page s r = do {
     t \<leftarrow> rd_at (pd_tables (kernel_dir s)) (fst r);
     ps \<leftarrow> t;
     rd_at ps (snd r) }"

definition write_page :: "mm_state \<Rightarrow> page_ref \<Rightarrow> page \<Rightarrow> mm_state option" where
  "write_page s r p = do {
     t \<leftarrow> rd_at (pd_tables (kernel_dir s)) (fst r);
     ps \<leftarrow> t;
     ps' \<leftarrow> wr_at ps (snd r) p;
     Some (s\<lparr>kernel_dir := (kernel_dir s)\<lparr>pd_tables := (pd_tables (kernel_dir s))[fst r := Some ps']\<rparr>\<rparr>) }"

text \<open>\<open>None\<close> is the panic of a memory without free frames.\<close>

definition alloc_frame :: "mm_state \<Rightarrow> page_ref \<Rightarrow> bool \<Rightarrow> bool \<Rightarrow> mm_state option" where
  "alloc_frame s r kern writeable = do {
     p \<leftarrow> read_page s r;
     if pg_frame p \<noteq> 0 then Some s
     else do {
       first \<leftarrow> first_free_frame s;
       if first = - 1 then None
       else do {
         s \<leftarrow> set_frame s (first * 0x1000);
         write_page s r (p\<lparr>pg_present := 1, pg_rw := (if writeable then 1 else 0),
           pg_user := (if kern then 0 else 1), pg_frame := ucast first\<rparr>) } } }"

text \<open>A \<open>NULL\<close> page is dereferenced.\<close>

definition free_frame :: "mm_state \<Rightarrow> page_ref option \<Rightarrow> mm_state option" where
  "free_frame s page = do {
     r \<leftarrow> page;
     p \<leftarrow> read_page s r;
     if pg_frame p = 0 then Some s
     else do {
       s \<leftarrow> clear_frame s (ucast (pg_frame p));
       write_page s r (p\<lparr>pg_frame := 0\<rparr>) } }"

section \<open>The bitmap as a set of frames\<close>

definition frame_used :: "mm_state \<Rightarrow> nat \<Rightarrow> bool" where
  "frame_used s f \<longleftrightarrow> bit (frames s ! (f div 32)) (f mod 32)"

lemma and_exp: "w AND 2 ^ j \<noteq> 0 \<longleftrightarrow> bit w j" for w :: "'a::len word"
  by (simp add: bit_iff_and_push_bit_not_eq_0)

lemma unat_div_mod_32: "unat (w div 32) = unat w div 32" "unat (w mod 32) = unat w mod 32" for w :: u32
  by (simp_all add: unat_div unat_mod)

lemma frame_number: "unat (a div 0x1000) = unat a div 4096" for a :: u32
  by (simp add: unat_div)

lemma set_frame_eq:
  "unat a div 4096 div 32 < length (frames s) \<Longrightarrow>
   set_frame s a = Some (s\<lparr>frames := (frames s)[unat a div 4096 div 32 :=
     set_bit (unat a div 4096 mod 32) (frames s ! (unat a div 4096 div 32))]\<rparr>)"
  by (simp add: set_frame_def Let_def unat_div_mod_32 frame_number set_bit_eq_or)

lemma clear_frame_eq:
  "unat a div 4096 div 32 < length (frames s) \<Longrightarrow>
   clear_frame s a = Some (s\<lparr>frames := (frames s)[unat a div 4096 div 32 :=
     unset_bit (unat a div 4096 mod 32) (frames s ! (unat a div 4096 div 32))]\<rparr>)"
  by (simp add: clear_frame_def Let_def unat_div_mod_32 frame_number unset_bit_eq_and_not)

lemma test_frame_eq:
  "unat a div 4096 div 32 < length (frames s) \<Longrightarrow> test_frame s a = Some (frame_used s (unat a div 4096))"
  by (simp add: test_frame_def Let_def unat_div_mod_32 frame_number frame_used_def and_exp)

lemma frame_index_eq: "f div 32 = g div 32 \<and> f mod 32 = g mod 32 \<longleftrightarrow> f = g" for f g :: nat
  by (metis div_mod_decomp)

lemma frame_used_set:
  assumes "f div 32 < length (frames s)"
  shows "frame_used (s\<lparr>frames := (frames s)[f div 32 := set_bit (f mod 32) (frames s ! (f div 32))]\<rparr>) g
    \<longleftrightarrow> g = f \<or> frame_used s g"
  using assms frame_index_eq [of f g]
  by (cases "g div 32 = f div 32") (auto simp: frame_used_def bit_set_bit_iff)

lemma frame_used_clear:
  assumes "f div 32 < length (frames s)"
  shows "frame_used (s\<lparr>frames := (frames s)[f div 32 := unset_bit (f mod 32) (frames s ! (f div 32))]\<rparr>) g
    \<longleftrightarrow> g \<noteq> f \<and> frame_used s g"
  using assms frame_index_eq [of f g]
  by (cases "g div 32 = f div 32") (auto simp: frame_used_def bit_unset_bit_iff)

lemma fff_bits_None: "fff_bits w j k = None \<longleftrightarrow> (\<forall>i < k. bit w (j + i))"
proof (induction k arbitrary: j)
  case (Suc k)
  from Suc [of "j + 1"] and_exp [of w j] show ?case by (auto simp: All_less_Suc2)
qed simp

lemma fff_bits_Some:
  "fff_bits w j k = Some r \<Longrightarrow> \<exists>i < k. r = j + i \<and> \<not> bit w r \<and> (\<forall>l < i. bit w (j + l))"
proof (induction k arbitrary: j)
  case (Suc k)
  show ?case
  proof (cases "bit w j")
    case True
    with Suc.prems and_exp [of w j] have "fff_bits w (j + 1) k = Some r" by (auto split: if_splits)
    then obtain i where "i < k" "r = j + 1 + i" "\<not> bit w r" "\<forall>l < i. bit w (j + 1 + l)"
      using Suc.IH by blast
    with True show ?thesis by (intro exI [of _ "Suc i"]) (simp add: All_less_Suc2)
  next
    case False
    with Suc.prems and_exp [of w j] have "r = j" by (auto split: if_splits)
    with False show ?thesis by (intro exI [of _ 0]) simp
  qed
qed simp

lemma all_bits: "w = 0xFFFFFFFF \<longleftrightarrow> (\<forall>i < 32. bit w i)" for w :: u32
proof -
  have "(0xFFFFFFFF :: u32) = - 1" by simp
  then show ?thesis by (auto simp: bit_eq_iff bit_simps)
qed

definition words_full :: "u32 list \<Rightarrow> nat \<Rightarrow> nat \<Rightarrow> bool" where
  "words_full fs i j \<longleftrightarrow> (\<forall>f. i * 32 \<le> f \<and> f < j \<longrightarrow> bit (fs ! (f div 32)) (f mod 32))"

lemma words_full_word: "words_full fs i (i * 32 + j) \<longleftrightarrow> (\<forall>k < j. bit (fs ! i) k)" if "j \<le> 32"
proof
  assume full: "words_full fs i (i * 32 + j)"
  have "bit (fs ! i) k" if "k < j" for k
    using full [unfolded words_full_def, rule_format, of "i * 32 + k"] that \<open>j \<le> 32\<close> by simp
  then show "\<forall>k < j. bit (fs ! i) k" by simp
next
  assume "\<forall>k < j. bit (fs ! i) k"
  moreover have "f div 32 = i \<and> f mod 32 < j" if "i * 32 \<le> f" "f < i * 32 + j" for f
  proof -
    from that(1) obtain k where "f = i * 32 + k" by (metis le_Suc_ex)
    with that(2) \<open>j \<le> 32\<close> show ?thesis by simp
  qed
  ultimately show "words_full fs i (i * 32 + j)" by (auto simp: words_full_def)
qed

lemma words_full_Suc: "words_full fs i n \<longleftrightarrow> words_full fs i (i * 32 + 32) \<and> words_full fs (i + 1) n"
  if "i * 32 + 32 \<le> n"
proof -
  have "(i * 32 \<le> f \<and> f < n) \<longleftrightarrow> (i * 32 \<le> f \<and> f < i * 32 + 32) \<or> ((i + 1) * 32 \<le> f \<and> f < n)" for f
    using that by auto
  then show ?thesis unfolding words_full_def by blast
qed

lemma words_full_empty [simp]: "words_full fs i (i * 32)"
  unfolding words_full_def by (meson not_le)

lemma fff_words_eq:
  assumes "i + n \<le> length fs" "(i + n) * 32 < 2 ^ 32"
  shows "\<exists>r. fff_words fs i n = Some r \<and>
    (if r = - 1 then words_full fs i ((i + n) * 32)
     else unat r < (i + n) * 32 \<and> i * 32 \<le> unat r \<and> \<not> bit (fs ! (unat r div 32)) (unat r mod 32) \<and> words_full fs i (unat r))"
  using assms
proof (induction n arbitrary: i)
  case 0
  then show ?case by simp
next
  case (Suc n)
  let ?w = "fs ! i"
  have i: "i < length fs" using Suc.prems by simp
  show ?case
  proof (cases "?w = 0xFFFFFFFF")
    case True
    then have "fff_words fs i (Suc n) = fff_words fs (i + 1) n" using i by simp
    moreover have "words_full fs i (i * 32 + 32)" using True all_bits [of ?w] by (simp add: words_full_word)
    then have "words_full fs i m \<longleftrightarrow> words_full fs (i + 1) m" if "i * 32 + 32 \<le> m" for m
      using words_full_Suc [OF that, of fs] by simp
    moreover obtain r where "fff_words fs (i + 1) n = Some r"
      "if r = - 1 then words_full fs (i + 1) ((i + 1 + n) * 32)
       else unat r < (i + 1 + n) * 32 \<and> (i + 1) * 32 \<le> unat r \<and> \<not> bit (fs ! (unat r div 32)) (unat r mod 32) \<and>
         words_full fs (i + 1) (unat r)"
      using Suc.IH [of "i + 1"] Suc.prems by auto
    ultimately show ?thesis by (intro exI [of _ r]) (auto split: if_splits)
  next
    case False
    then obtain k where k: "k < 32" "\<not> bit ?w k" by (auto simp: all_bits)
    then have "fff_bits ?w 0 32 \<noteq> None" by (auto simp: fff_bits_None)
    then obtain j where j: "fff_bits ?w 0 32 = Some j" by auto
    from fff_bits_Some [OF j] have jj: "j < 32" "\<not> bit ?w j" "\<forall>k < j. bit ?w k" by simp_all
    let ?r = "word_of_nat i * 32 + word_of_nat j :: u32"
    have "?r = word_of_nat (i * 32 + j)" by simp
    moreover have "i * 32 + j < 2 ^ 32 - 1 \<or> i * 32 + j < 2 ^ 32" using Suc.prems jj by auto
    ultimately have r: "unat ?r = i * 32 + j"
      using Suc.prems jj by (simp add: unat_of_nat del: of_nat_add of_nat_mult)
    have "?r \<noteq> - 1"
    proof
      assume "?r = - 1"
      moreover have "unat (- 1 :: u32) = 2 ^ 32 - 1" by (simp add: unsigned_minus_1_eq_mask mask_eq_exp_minus_1)
      ultimately have "i * 32 + j = 2 ^ 32 - 1" using r by metis
      moreover have "i + Suc n < 2 ^ 27" using Suc.prems(2) by simp
      ultimately show False using jj(1) by simp
    qed
    moreover have "words_full fs i (unat ?r)" using jj r by (simp add: words_full_word)
    moreover have "unat ?r div 32 = i" "unat ?r mod 32 = j" using r jj by simp_all
    ultimately show ?thesis using i j jj r False Suc.prems by (intro exI [of _ ?r]) simp
  qed
qed

text \<open>The frames that the scan looks at: those of the words that are full of frames.\<close>

definition scanned :: "mm_state \<Rightarrow> nat" where
  "scanned s = unat (nframes s) div 32 * 32"

lemma first_free_frame_eq:
  assumes "unat (nframes s) div 32 \<le> length (frames s)"
  shows "\<exists>r. first_free_frame s = Some r \<and>
    (if r = - 1 then \<forall>f < scanned s. frame_used s f
     else unat r < scanned s \<and> \<not> frame_used s (unat r) \<and> (\<forall>f < unat r. frame_used s f))"
proof -
  have "unat (nframes s) div 32 * 32 < 2 ^ 32" using unat_u32_lt [of "nframes s"] by simp
  then obtain r where r: "fff_words (frames s) 0 (unat (nframes s) div 32) = Some r"
    "if r = - 1 then words_full (frames s) 0 ((0 + unat (nframes s) div 32) * 32)
     else unat r < (0 + unat (nframes s) div 32) * 32 \<and> 0 * 32 \<le> unat r \<and>
       \<not> bit (frames s ! (unat r div 32)) (unat r mod 32) \<and> words_full (frames s) 0 (unat r)"
    using fff_words_eq [of 0 "unat (nframes s) div 32" "frames s"] assms by auto
  then show ?thesis
    by (intro exI [of _ r])
      (auto simp: first_free_frame_def unat_div words_full_def frame_used_def scanned_def split: if_splits)
qed

section \<open>Page references\<close>

lemma read_page_upd_frames [simp]: "read_page (s\<lparr>frames := fs\<rparr>) r = read_page s r"
  by (simp add: read_page_def)

lemma frame_used_upd_dir [simp]: "frame_used (s\<lparr>kernel_dir := d\<rparr>) f = frame_used s f"
  by (simp add: frame_used_def)

lemma write_page_eq:
  assumes "read_page s r = Some p"
  shows "\<exists>d. write_page s r q = Some (s\<lparr>kernel_dir := d\<rparr>) \<and>
    (\<forall>r'. read_page (s\<lparr>kernel_dir := d\<rparr>) r' = (if r' = r then Some q else read_page s r'))"
proof -
  obtain t i where r: "r = (t, i)" by (cases r)
  from assms r obtain ps where ps: "t < length (pd_tables (kernel_dir s))" "pd_tables (kernel_dir s) ! t = Some ps"
    "i < length ps" by (auto simp: read_page_def bind_eq_Some_conv)
  let ?d = "(kernel_dir s)\<lparr>pd_tables := (pd_tables (kernel_dir s))[t := Some (ps[i := q])]\<rparr>"
  have "read_page (s\<lparr>kernel_dir := ?d\<rparr>) r' = (if r' = r then Some q else read_page s r')" for r'
  proof (cases "fst r' = t")
    case True
    then obtain j where r': "r' = (t, j)" by (cases r') auto
    show ?thesis using ps r r' by (cases "j < length ps") (auto simp: read_page_def rd_at_def)
  next
    case False
    then show ?thesis using r by (auto simp: read_page_def rd_at_def)
  qed
  with ps r show ?thesis by (intro exI [of _ ?d]) (simp add: write_page_def)
qed

lemma unat_20_lt: "unat (f :: 20 word) < 4294967296"
proof -
  have "unat f < 2 ^ LENGTH(20)" by (rule unsigned_less)
  then show ?thesis by simp
qed

lemma page_addr: "unat (ucast (f :: 20 word) :: u32) = unat f"
  by (simp add: unsigned_ucast_eq take_bit_nat_eq_self unat_20_lt)

text \<open>
  The invariant of paging: the bitmap is long enough for the scan, every page that has a frame
  has one that is marked, and no two pages share a frame.
\<close>

definition mm_inv :: "mm_state \<Rightarrow> bool" where
  "mm_inv s \<longleftrightarrow> unat (nframes s) \<le> 2 ^ 20 \<and> unat (nframes s) div 32 \<le> length (frames s) \<and>
     (\<forall>r p. read_page s r = Some p \<and> pg_frame p \<noteq> 0 \<longrightarrow> frame_used s (unat (pg_frame p))) \<and>
     (\<forall>r r' p p'. read_page s r = Some p \<and> read_page s r' = Some p' \<and> r \<noteq> r' \<and> pg_frame p \<noteq> 0 \<longrightarrow>
        pg_frame p \<noteq> pg_frame p')"

lemma mm_inv_frame_used:
  "mm_inv s \<Longrightarrow> read_page s r = Some p \<Longrightarrow> pg_frame p \<noteq> 0 \<Longrightarrow> frame_used s (unat (pg_frame p))"
  unfolding mm_inv_def by blast

lemma mm_inv_distinct:
  "mm_inv s \<Longrightarrow> read_page s r = Some p \<Longrightarrow> read_page s r' = Some p' \<Longrightarrow> r \<noteq> r' \<Longrightarrow> pg_frame p \<noteq> 0 \<Longrightarrow>
   pg_frame p \<noteq> pg_frame p'"
  unfolding mm_inv_def by blast

lemma mm_inv_alloc:
  assumes inv: "mm_inv s" and free: "\<not> frame_used s (unat (pg_frame q))"
    and same: "nframes s' = nframes s" "length (frames s') = length (frames s)"
    and used: "\<And>g. frame_used s' g \<longleftrightarrow> g = unat (pg_frame q) \<or> frame_used s g"
    and pages: "\<And>r'. read_page s' r' = (if r' = r then Some q else read_page s r')"
  shows "mm_inv s'"
proof -
  have other: "pg_frame p \<noteq> pg_frame q \<or> pg_frame p = 0" if "read_page s r1 = Some p" for r1 p
    using mm_inv_frame_used [OF inv that] free by metis
  have "frame_used s' (unat (pg_frame p))" if "read_page s' r1 = Some p" "pg_frame p \<noteq> 0" for r1 p
    using that mm_inv_frame_used [OF inv, of r1 p] by (auto simp: pages used split: if_splits)
  moreover have "pg_frame p \<noteq> pg_frame p'"
    if "read_page s' r1 = Some p" "read_page s' r2 = Some p'" "r1 \<noteq> r2" "pg_frame p \<noteq> 0" for r1 r2 p p'
    using that mm_inv_distinct [OF inv, of r1 p r2 p'] other [of r1 p] other [of r2 p']
    by (auto simp: pages split: if_splits)
  ultimately show ?thesis using inv same unfolding mm_inv_def by metis
qed

text \<open>What \<open>alloc_frame\<close> does with a page that gets the frame \<open>x\<close>.\<close>

lemma alloc_frame_at:
  assumes p: "read_page s r = Some p" "pg_frame p = 0"
    and n: "unat (nframes s) \<le> 2 ^ 20" "unat (nframes s) div 32 \<le> length (frames s)"
    and x: "first_free_frame s = Some x" "x \<noteq> - 1" "unat x < scanned s"
  shows "\<exists>s'. alloc_frame s r k w = Some s' \<and> nframes s' = nframes s \<and> length (frames s') = length (frames s) \<and>
    (\<forall>g. frame_used s' g \<longleftrightarrow> g = unat x \<or> frame_used s g) \<and> unat (ucast x :: 20 word) = unat x \<and>
    (\<forall>r'. read_page s' r' = (if r' = r then Some (p\<lparr>pg_present := 1, pg_rw := (if w then 1 else 0),
       pg_user := (if k then 0 else 1), pg_frame := ucast x\<rparr>) else read_page s r'))"
proof -
  let ?i = "unat x div 32"
  let ?s1 = "s\<lparr>frames := (frames s)[?i := set_bit (unat x mod 32) (frames s ! ?i)]\<rparr>"
  let ?q = "p\<lparr>pg_present := 1, pg_rw := (if w then 1 else 0), pg_user := (if k then 0 else 1), pg_frame := ucast x\<rparr>"
  from n x(3) have lt: "unat x < 2 ^ 20" "?i < length (frames s)" by (auto simp: scanned_def)
  then have f: "unat (ucast x :: 20 word) = unat x" by (simp add: unsigned_ucast_eq take_bit_nat_eq_self)
  have addr: "unat (x * 0x1000) div 4096 = unat x" using lt(1) by (simp add: unat_word_ariths)
  have 1: "set_frame s (x * 0x1000) = Some ?s1" using set_frame_eq [of "x * 0x1000" s] addr lt(2) by simp
  obtain d where d: "write_page ?s1 r ?q = Some (?s1\<lparr>kernel_dir := d\<rparr>)"
    "\<forall>r'. read_page (?s1\<lparr>kernel_dir := d\<rparr>) r' = (if r' = r then Some ?q else read_page s r')"
    using write_page_eq [of ?s1 r p ?q] p by auto
  have "alloc_frame s r k w = Some (?s1\<lparr>kernel_dir := d\<rparr>)" using p x 1 d by (simp add: alloc_frame_def)
  with d(2) f show ?thesis using frame_used_set [OF lt(2)] by (intro exI [of _ "?s1\<lparr>kernel_dir := d\<rparr>"]) simp
qed

section \<open>Properties\<close>

text \<open>
  \<open>first_free_frame\<close> returns the lowest frame whose bit is clear, or -1 exactly when every frame
  it looks at is occupied. It looks at the frames below \<open>nframes\<close> rounded down to a multiple of 32.
\<close>

theorem first_free_frame_least:
  assumes "unat (nframes s) div 32 \<le> length (frames s)"
  shows "\<exists>r. first_free_frame s = Some r \<and>
    (if r = - 1 then \<forall>f < unat (nframes s) div 32 * 32. frame_used s f
     else unat r < unat (nframes s) div 32 * 32 \<and> \<not> frame_used s (unat r) \<and> (\<forall>f < unat r. frame_used s f))"
  using first_free_frame_eq [OF assms] by (simp only: scanned_def)

definition mm_example :: mm_state where
  "mm_example = \<lparr>placement_addr = 0x2000, nframes = 64, frames = [0xFFFFFFFF, 5],
     kernel_dir = \<lparr>pd_tables = [Some [zero_page, zero_page\<lparr>pg_frame := 34\<rparr>]], pd_phys = [0]\<rparr>\<rparr>"

theorem first_free_frame_least_witness:
  "\<exists>r. first_free_frame mm_example = Some r \<and>
    (if r = - 1 then \<forall>f < unat (nframes mm_example) div 32 * 32. frame_used mm_example f
     else unat r < unat (nframes mm_example) div 32 * 32 \<and> \<not> frame_used mm_example (unat r) \<and>
       (\<forall>f < unat r. frame_used mm_example f))"
  by (rule first_free_frame_least) (simp add: mm_example_def)

text \<open>
  C19. \<open>alloc_frame\<close> on a page without a frame gives it a frame that was free, marks just this frame,
  sets the page's flags and keeps the invariant that no two pages share a frame; it panics exactly
  when all frames are occupied.
\<close>

theorem alloc_frame_correct:
  assumes inv: "mm_inv s" and p: "read_page s r = Some p" "pg_frame p = 0"
  shows "case alloc_frame s r k w of
      None \<Rightarrow> \<forall>f < unat (nframes s) div 32 * 32. frame_used s f
    | Some s' \<Rightarrow> mm_inv s' \<and> (\<exists>f. \<not> frame_used s (unat f) \<and>
        (\<forall>g. frame_used s' g \<longleftrightarrow> g = unat f \<or> frame_used s g) \<and>
        (\<forall>r'. read_page s' r' = (if r' = r then Some (p\<lparr>pg_present := 1, pg_rw := (if w then 1 else 0),
           pg_user := (if k then 0 else 1), pg_frame := f\<rparr>) else read_page s r')))"
proof -
  have n: "unat (nframes s) \<le> 2 ^ 20" "unat (nframes s) div 32 \<le> length (frames s)"
    using inv by (auto simp: mm_inv_def)
  obtain x where x: "first_free_frame s = Some x"
    "if x = - 1 then \<forall>f < scanned s. frame_used s f
     else unat x < scanned s \<and> \<not> frame_used s (unat x) \<and> (\<forall>f < unat x. frame_used s f)"
    using first_free_frame_eq [OF n(2)] by auto
  show ?thesis
  proof (cases "x = - 1")
    case True
    with x p show ?thesis by (simp add: alloc_frame_def scanned_def)
  next
    case False
    let ?f = "ucast x :: 20 word"
    from False x(2) have xf: "unat x < scanned s" "\<not> frame_used s (unat x)" by auto
    obtain s' where s': "alloc_frame s r k w = Some s'" "nframes s' = nframes s" "length (frames s') = length (frames s)"
      "\<forall>g. frame_used s' g \<longleftrightarrow> g = unat x \<or> frame_used s g" "unat ?f = unat x"
      "\<forall>r'. read_page s' r' = (if r' = r then Some (p\<lparr>pg_present := 1, pg_rw := (if w then 1 else 0),
         pg_user := (if k then 0 else 1), pg_frame := ?f\<rparr>) else read_page s r')"
      using alloc_frame_at [OF p n x(1) False xf(1)] by blast
    have "mm_inv s'"
    proof (rule mm_inv_alloc [OF inv _ s'(2,3) _ s'(6) [rule_format]])
    qed (use xf s'(4,5) in simp_all)
    moreover have "\<not> frame_used s (unat ?f)" "\<forall>g. frame_used s' g \<longleftrightarrow> g = unat ?f \<or> frame_used s g"
      using xf s'(4,5) by simp_all
    ultimately show ?thesis unfolding s'(1) option.case using s'(6) by blast
  qed
qed

lemma two_list_nth: "i < length [a, b] \<Longrightarrow> [a, b] ! i = c \<Longrightarrow> (i = 0 \<and> c = a) \<or> (i = 1 \<and> c = b)"
  by (cases i) auto

lemma mm_example_pages:
  "read_page mm_example r = Some p \<longleftrightarrow> (r = (0, 0) \<and> p = zero_page) \<or> (r = (0, 1) \<and> p = zero_page\<lparr>pg_frame := 34\<rparr>)"
  by (cases r) (auto simp: mm_example_def read_page_def bind_eq_Some_conv less_Suc_eq)

lemma mm_example_inv: "mm_inv mm_example"
proof -
  have "frame_used mm_example 34" by (simp add: mm_example_def frame_used_def bit_iff_odd)
  then show ?thesis
    by (simp add: mm_inv_def mm_example_pages) (auto simp: mm_example_def zero_page_def)
qed

theorem alloc_frame_correct_witness:
  "case alloc_frame mm_example (0, 0) True False of
      None \<Rightarrow> \<forall>f < unat (nframes mm_example) div 32 * 32. frame_used mm_example f
    | Some s' \<Rightarrow> mm_inv s' \<and> (\<exists>f. \<not> frame_used mm_example (unat f) \<and>
        (\<forall>g. frame_used s' g \<longleftrightarrow> g = unat f \<or> frame_used mm_example g) \<and>
        (\<forall>r'. read_page s' r' = (if r' = (0, 0) then Some (zero_page\<lparr>pg_present := 1, pg_rw := (if False then 1 else 0),
           pg_user := (if True then 0 else 1), pg_frame := f\<rparr>) else read_page mm_example r')))"
  by (rule alloc_frame_correct) (simp_all add: mm_example_inv mm_example_pages, simp add: zero_page_def)

text \<open>
  \<open>free_frame\<close> takes the frame away from its page but does not give it back: it clears the bit
  of frame number \<open>f div 4096\<close>, because it passes the frame number where an address is expected.
  The page's own frame \<open>f\<close> stays marked.
\<close>

theorem free_frame_leaks:
  assumes p: "read_page s r = Some p" "pg_frame p \<noteq> 0" and len: "8 \<le> length (frames s)"
  shows "\<exists>s'. free_frame s (Some r) = Some s' \<and> read_page s' r = Some (p\<lparr>pg_frame := 0\<rparr>) \<and>
    (\<forall>g. frame_used s' g \<longleftrightarrow> g \<noteq> unat (pg_frame p) div 4096 \<and> frame_used s g) \<and>
    unat (pg_frame p) div 4096 \<noteq> unat (pg_frame p)"
proof -
  let ?f = "unat (pg_frame p)" and ?i = "unat (pg_frame p) div 4096 div 32"
  let ?s1 = "s\<lparr>frames := (frames s)[?i := unset_bit (?f div 4096 mod 32) (frames s ! ?i)]\<rparr>"
  have "?f < 2 ^ 20" using unsigned_less [of "pg_frame p"] by simp
  then have lt: "?i < length (frames s)" using len by simp
  then have 1: "clear_frame s (ucast (pg_frame p)) = Some ?s1" using clear_frame_eq [of "ucast (pg_frame p)" s] by (simp add: page_addr)
  obtain d where d: "write_page ?s1 r (p\<lparr>pg_frame := 0\<rparr>) = Some (?s1\<lparr>kernel_dir := d\<rparr>)"
    "\<forall>r'. read_page (?s1\<lparr>kernel_dir := d\<rparr>) r' = (if r' = r then Some (p\<lparr>pg_frame := 0\<rparr>) else read_page s r')"
    using write_page_eq [of ?s1 r p "p\<lparr>pg_frame := 0\<rparr>"] p by auto
  define s' where "s' = ?s1\<lparr>kernel_dir := d\<rparr>"
  have "free_frame s (Some r) = Some s'" using p 1 d by (simp add: free_frame_def s'_def)
  moreover have "read_page s' r = Some (p\<lparr>pg_frame := 0\<rparr>)" using d(2) unfolding s'_def by presburger
  moreover have "frame_used s' g \<longleftrightarrow> g \<noteq> ?f div 4096 \<and> frame_used s g" for g
    using frame_used_clear [OF lt, of g] by (simp add: s'_def)
  moreover have "?f \<noteq> 0" using p(2) by (simp add: unat_eq_zero)
  then have "?f div 4096 \<noteq> ?f" by simp
  ultimately show ?thesis by blast
qed

definition mm_example2 :: mm_state where
  "mm_example2 = mm_example\<lparr>frames := replicate 8 0xFFFFFFFF\<rparr>"

theorem free_frame_leaks_witness:
  "\<exists>s'. free_frame mm_example2 (Some (0, 1)) = Some s' \<and>
    read_page s' (0, 1) = Some (zero_page\<lparr>pg_frame := 34, pg_frame := 0\<rparr>) \<and>
    (\<forall>g. frame_used s' g \<longleftrightarrow> g \<noteq> unat (pg_frame (zero_page\<lparr>pg_frame := 34\<rparr>)) div 4096 \<and> frame_used mm_example2 g) \<and>
    unat (pg_frame (zero_page\<lparr>pg_frame := 34\<rparr>)) div 4096 \<noteq> unat (pg_frame (zero_page\<lparr>pg_frame := 34\<rparr>))"
  by (rule free_frame_leaks) (simp_all add: mm_example2_def mm_example_pages)

text \<open>The directory has 1024 entries, and every table in it has 1024 pages.\<close>

definition dir_ok :: "page_directory \<Rightarrow> bool" where
  "dir_ok d \<longleftrightarrow> length (pd_tables d) = 1024 \<and> length (pd_phys d) = 1024 \<and>
     (\<forall>t \<in> set (pd_tables d). case t of None \<Rightarrow> True | Some ps \<Rightarrow> length ps = 1024)"

text \<open>The slot of an address in the directory.\<close>

definition page_slot :: "u32 \<Rightarrow> page_ref" where
  "page_slot a = (unat a div 4096 div 1024, unat a div 4096 mod 1024)"

lemma page_slot_bounds: "fst (page_slot a) < 1024" "snd (page_slot a) < 1024"
  using unat_u32_lt [of a] by (auto simp: page_slot_def)

lemma page_slot_eq_iff: "page_slot a = page_slot b \<longleftrightarrow> unat a div 4096 = unat b div 4096"
  unfolding page_slot_def by (metis div_mod_decomp fst_conv snd_conv)

lemma get_page_unfold:
  "get_page s a mk = do {
     t \<leftarrow> rd_at (pd_tables (kernel_dir s)) (fst (page_slot a));
     if t \<noteq> None then Some (s, Some (page_slot a))
     else if mk \<noteq> 0 then do {
       let (s, tmp) = kmalloc s 0x1000 1;
       ts \<leftarrow> wr_at (pd_tables (kernel_dir s)) (fst (page_slot a)) (Some (replicate 1024 zero_page));
       ps \<leftarrow> wr_at (pd_phys (kernel_dir s)) (fst (page_slot a)) (tmp OR 0x7);
       Some (s\<lparr>kernel_dir := \<lparr>pd_tables = ts, pd_phys = ps\<rparr>\<rparr>, Some (page_slot a)) }
     else Some (s, None) }"
proof -
  have "unat (a div 0x1000 div 1024) = fst (page_slot a)" "unat (a div 0x1000 mod 1024) = snd (page_slot a)"
    by (simp_all add: page_slot_def unat_div unat_mod)
  then show ?thesis by (simp only: get_page_def Let_def prod.collapse)
qed

lemma dir_ok_nth: "dir_ok d \<Longrightarrow> t < 1024 \<Longrightarrow> pd_tables d ! t = Some ps \<Longrightarrow> length ps = 1024"
proof -
  assume d: "dir_ok d" and t: "t < 1024" "pd_tables d ! t = Some ps"
  then have "pd_tables d ! t \<in> set (pd_tables d)" by (intro nth_mem) (simp add: dir_ok_def)
  with t(2) have "Some ps \<in> set (pd_tables d)" by simp
  with d show "length ps = 1024" unfolding dir_ok_def by fastforce
qed

text \<open>
  \<open>get_page\<close> with \<open>make\<close> returns a page of the directory for every address, creating its table
  when it is missing: it keeps all pages that were there, a second lookup finds the same page and
  changes nothing, and two addresses get the same page exactly when they lie in the same 4 KB.
\<close>

theorem get_page_correct:
  assumes ok: "dir_ok (kernel_dir s)"
  shows "\<exists>s' r. get_page s a 1 = Some (s', Some r) \<and> dir_ok (kernel_dir s') \<and> read_page s' r \<noteq> None \<and>
    (\<forall>r' p. read_page s r' = Some p \<longrightarrow> read_page s' r' = Some p) \<and>
    (\<forall>mk. get_page s' a mk = Some (s', Some r)) \<and>
    (\<forall>b mk s'' r''. get_page s' b mk = Some (s'', Some r'') \<longrightarrow> (r'' = r \<longleftrightarrow> unat b div 4096 = unat a div 4096))"
proof -
  let ?r = "page_slot a" and ?t = "fst (page_slot a)"
  note b = page_slot_bounds [of a]
  have len: "length (pd_tables (kernel_dir s)) = 1024" "length (pd_phys (kernel_dir s)) = 1024"
    using ok by (simp_all add: dir_ok_def)
  have slot: "r'' = page_slot c" if "get_page u c mk = Some (v, Some r'')" for u v c mk r''
    using that unfolding get_page_unfold by (auto simp: bind_eq_Some_conv split: if_splits prod.splits)
  show ?thesis
  proof (cases "pd_tables (kernel_dir s) ! ?t")
    case (Some ps)
    with ok b have "length ps = 1024" by (intro dir_ok_nth)
    moreover have g: "get_page s a mk = Some (s, Some ?r)" for mk using Some b len by (simp add: get_page_unfold)
    ultimately show ?thesis using ok Some b len slot
      by (intro exI [of _ s] exI [of _ ?r]) (auto simp: read_page_def page_slot_eq_iff dest!: slot)
  next
    case None
    obtain k tmp where k: "kmalloc s 0x1000 1 = (k, tmp)" by (cases "kmalloc s 0x1000 1")
    then have kd: "kernel_dir k = kernel_dir s" by (auto simp: kmalloc_def Let_def)
    define s' where "s' = k\<lparr>kernel_dir := \<lparr>pd_tables = (pd_tables (kernel_dir s))[?t := Some (replicate 1024 zero_page)],
      pd_phys = (pd_phys (kernel_dir s))[?t := tmp OR 0x7]\<rparr>\<rparr>"
    have "get_page s a 1 = Some (s', Some ?r)" using None b len k kd by (simp add: get_page_unfold s'_def)
    moreover have "dir_ok (kernel_dir s')"
      using ok set_update_subset_insert [of "pd_tables (kernel_dir s)" ?t "Some (replicate 1024 zero_page)"]
      by (auto simp: s'_def dir_ok_def)
    moreover have "read_page s' ?r \<noteq> None" using b len by (simp add: read_page_def s'_def)
    moreover have "read_page s' r' = Some p" if "read_page s r' = Some p" for r' p
      using that None by (cases "fst r' = ?t") (auto simp: read_page_def s'_def bind_eq_Some_conv)
    moreover have "get_page s' a mk = Some (s', Some ?r)" for mk using b len by (simp add: get_page_unfold s'_def)
    moreover have "r'' = ?r \<longleftrightarrow> unat c div 4096 = unat a div 4096" if "get_page s' c mk = Some (v, Some r'')" for c mk v r''
      using slot [OF that] page_slot_eq_iff by simp
    ultimately show ?thesis by blast
  qed
qed

definition mm_example3 :: mm_state where
  "mm_example3 = mm_example\<lparr>kernel_dir := \<lparr>pd_tables = replicate 1024 None, pd_phys = replicate 1024 0\<rparr>\<rparr>"

theorem get_page_correct_witness:
  "\<exists>s' r. get_page mm_example3 0xC0001234 1 = Some (s', Some r) \<and> dir_ok (kernel_dir s') \<and> read_page s' r \<noteq> None \<and>
    (\<forall>r' p. read_page mm_example3 r' = Some p \<longrightarrow> read_page s' r' = Some p) \<and>
    (\<forall>mk. get_page s' 0xC0001234 mk = Some (s', Some r)) \<and>
    (\<forall>b mk s'' r''. get_page s' b mk = Some (s'', Some r'') \<longrightarrow>
       (r'' = r \<longleftrightarrow> unat b div 4096 = unat (0xC0001234 :: u32) div 4096))"
  by (rule get_page_correct) (simp add: mm_example3_def dir_ok_def)

end
