(* ===== verification/Heap.thy ===== *)
theory Heap
  imports Frames
begin

text \<open>
  The kernel heap of \<open>mm/mm_heap.c\<close>: a circular doubly linked list of block headers that lie in the
  heap themselves, each in front of its block, with the worst-fit search that is the active one of
  the three. The heap's memory is modelled as the headers in it, by address; the bytes of the blocks
  belong to the clients. A header keeps its place in memory when its block is freed. The array
  \<open>name\<close> is represented by the C string it holds.
\<close>

section \<open>State\<close>

record mm_header =
  hd_prev :: u32
  hd_next :: u32
  hd_name :: bytes
  hd_size :: u32

type_synonym hstore = "u32 \<Rightarrow> mm_header option"

record heap =
  hp_store :: hstore
  hp_start :: u32
  hp_end :: u32
  hp_max :: u32
  hp_supervisor :: u8
  hp_readonly :: u8

text \<open>\<open>sizeof(mm_header)\<close>: two pointers, 32 bytes of name and the size.\<close>

abbreviation HDR :: u32 where
  "HDR \<equiv> 44"

definition HEAP_MIN_SIZE :: u32 where "HEAP_MIN_SIZE = 0x70000"
definition HEAP_EXPAND_STEP_SIZE :: u32 where "HEAP_EXPAND_STEP_SIZE = 1048576"

definition name_start :: bytes where "name_start = [115, 116, 97, 114, 116]"
definition name_end :: bytes where "name_end = [101, 110, 100]"

text \<open>Field updates through a pointer; \<open>None\<close> when there is no header at the address.\<close>

definition upd_hdr :: "u32 \<Rightarrow> (mm_header \<Rightarrow> mm_header) \<Rightarrow> hstore \<Rightarrow> hstore option" where
  "upd_hdr a f s = (case s a of None \<Rightarrow> None | Some h \<Rightarrow> Some (s(a := Some (f h))))"

section \<open>Operations\<close>

text \<open>
  \<open>x & 0xFFFFF000 != 0\<close> is \<open>x & (0xFFFFF000 != 0)\<close> in C, that is, the lowest bit of \<open>x\<close>.
\<close>

definition round_page :: "u32 \<Rightarrow> u32" where
  "round_page x = (if x AND 1 \<noteq> 0 then (x AND 0xFFFFF000) + 0x1000 else x)"

definition create_heap :: "hstore \<Rightarrow> u32 \<Rightarrow> u32 \<Rightarrow> u32 \<Rightarrow> u8 \<Rightarrow> u8 \<Rightarrow> heap" where
  "create_heap s start_addr end_addr max_addr supervisor readonly =
     (let start = round_page start_addr; end = end_addr - HDR;
          s1 = s(start := Some \<lparr>hd_prev = end, hd_next = end, hd_name = name_start, hd_size = 0\<rparr>);
          s2 = s1(end := Some \<lparr>hd_prev = start, hd_next = start, hd_name = name_end, hd_size = 0\<rparr>)
      in \<lparr>hp_store = s2, hp_start = start, hp_end = end, hp_max = max_addr,
          hp_supervisor = supervisor, hp_readonly = readonly\<rparr>)"

definition heap_get_size :: "heap \<Rightarrow> u32" where
  "heap_get_size hp = hp_end hp + HDR - hp_start hp + 1"

partial_function (option) expand_frames :: "mm_state \<Rightarrow> heap \<Rightarrow> u32 \<Rightarrow> u32 \<Rightarrow> mm_state option" where
  "expand_frames mm hp i new_size =
     (if i \<le> new_size then do {
        (mm, pg) \<leftarrow> get_page mm (hp_start hp + i) 1;
        r \<leftarrow> pg;
        mm \<leftarrow> alloc_frame mm r (hp_supervisor hp \<noteq> 0) (hp_readonly hp = 0);
        expand_frames mm hp (i + 0x1000) new_size }
      else Some mm)"

text \<open>The assertions of \<open>heap_expand\<close> only print.\<close>

definition heap_expand :: "mm_state \<Rightarrow> u32 \<Rightarrow> heap \<Rightarrow> (mm_state \<times> heap) option" where
  "heap_expand mm new_size hp =
     (let old_size = heap_get_size hp; new_size = round_page new_size; start = hp_start hp in do {
        mm \<leftarrow> expand_frames mm hp old_size new_size;
        let end_header = start + new_size - HDR;
        e \<leftarrow> hp_store hp (hp_end hp);
        let tmp = hd_prev e;
        s \<leftarrow> upd_hdr tmp (hd_next_update (\<lambda>_. end_header)) (hp_store hp);
        let s = s(end_header := Some \<lparr>hd_prev = tmp, hd_next = start, hd_name = name_end, hd_size = 0\<rparr>);
        s \<leftarrow> upd_hdr start (\<lambda>h. h\<lparr>hd_prev := end_header, hd_size := 0\<rparr>) s;
        Some (mm, hp\<lparr>hp_store := s, hp_end := end_header\<rparr>) })"

partial_function (option) contract_frames :: "mm_state \<Rightarrow> heap \<Rightarrow> u32 \<Rightarrow> u32 \<Rightarrow> mm_state option" where
  "contract_frames mm hp i new_size =
     (if new_size < i then do {
        (mm, pg) \<leftarrow> get_page mm (hp_start hp + i) 0;
        mm \<leftarrow> free_frame mm pg;
        contract_frames mm hp (i - 0x1000) new_size }
      else Some mm)"

definition heap_contract :: "mm_state \<Rightarrow> u32 \<Rightarrow> heap \<Rightarrow> (mm_state \<times> heap \<times> u32) option" where
  "heap_contract mm new_size hp =
     (let old_size = heap_get_size hp; start = hp_start hp;
          new_size = (if new_size AND 0x1000 \<noteq> 0 then (new_size AND 0x1000) + 0x1000 else new_size);
          new_size = (if new_size < HEAP_MIN_SIZE then HEAP_MIN_SIZE else new_size) in do {
        mm \<leftarrow> contract_frames mm hp (old_size - 0x1000) new_size;
        let end_header = start + new_size - HDR;
        let s = (hp_store hp)(end_header := Some \<lparr>hd_prev = start, hd_next = start, hd_name = name_end, hd_size = 0\<rparr>);
        s \<leftarrow> upd_hdr start (\<lambda>h. h\<lparr>hd_next := end_header, hd_prev := end_header, hd_size := 0\<rparr>) s;
        Some (mm, hp\<lparr>hp_store := s, hp_end := end_header\<rparr>, new_size) })"

definition heap_setup_block :: "hstore \<Rightarrow> u32 \<Rightarrow> u32 \<Rightarrow> u32 \<Rightarrow> bytes \<Rightarrow> (hstore \<times> u32) option" where
  "heap_setup_block s next_block position sz name = do {
     nb \<leftarrow> s next_block;
     let s = s(position := Some \<lparr>hd_prev = hd_prev nb, hd_next = next_block, hd_name = take 31 name, hd_size = sz\<rparr>);
     nb \<leftarrow> s next_block;
     s \<leftarrow> upd_hdr (hd_prev nb) (hd_next_update (\<lambda>_. position)) s;
     s \<leftarrow> upd_hdr next_block (hd_prev_update (\<lambda>_. position)) s;
     Some (s, position) }"

text \<open>The worst-fit loop: \<open>tmp\<close> is \<open>tmp_header\<close> and \<open>big\<close> is \<open>biggest_hole_size\<close>.\<close>

partial_function (option) find_hole :: "hstore \<Rightarrow> u32 \<Rightarrow> u32 \<Rightarrow> u32 \<Rightarrow> u32 \<Rightarrow> u32 \<Rightarrow> (u32 \<times> u32) option" where
  "find_hole s stop cur sz tmp big =
     (if cur = stop then Some (tmp, big)
      else do {
        c \<leftarrow> s cur;
        p \<leftarrow> s (hd_prev c);
        let position = hd_prev c + HDR + hd_size p;
        if sz + HDR \<le> cur - position \<and> big < cur - position
        then find_hole s stop (hd_next c) sz cur (cur - position)
        else find_hole s stop (hd_next c) sz tmp big })"

partial_function (option) heap_mallocn :: "mm_state \<Rightarrow> heap \<Rightarrow> u32 \<Rightarrow> bytes \<Rightarrow> (mm_state \<times> heap \<times> u32) option" where
  "heap_mallocn mm hp sz name = do {
     st \<leftarrow> hp_store hp (hp_start hp);
     en \<leftarrow> hp_store hp (hp_end hp);
     (tmp, big) \<leftarrow> find_hole (hp_store hp) (hd_next en) (hd_next st) sz 0 0;
     if tmp \<noteq> 0 then do {
       t \<leftarrow> hp_store hp tmp;
       p \<leftarrow> hp_store hp (hd_prev t);
       let position = hd_prev t + HDR + hd_size p;
       (s, new_header) \<leftarrow> heap_setup_block (hp_store hp) tmp position sz name;
       Some (mm, hp\<lparr>hp_store := s\<rparr>, new_header + HDR) }
     else do {
       let old_size = heap_get_size hp;
       (mm, hp) \<leftarrow> heap_expand mm (old_size + (sz div HEAP_EXPAND_STEP_SIZE + 1) * HEAP_EXPAND_STEP_SIZE) hp;
       if heap_get_size hp < old_size + sz then Some (mm, hp, 0)
       else heap_mallocn mm hp sz name } }"

text \<open>A wrong pointer only prints an error message.\<close>

definition heap_free :: "u32 \<Rightarrow> heap \<Rightarrow> heap option" where
  "heap_free start hp = (let this = start - HDR; s = hp_store hp in do {
     h \<leftarrow> s this;
     p \<leftarrow> s (hd_prev h);
     if hd_next p = this then do {
       s \<leftarrow> upd_hdr (hd_prev h) (hd_next_update (\<lambda>_. hd_next h)) s;
       h \<leftarrow> s this;
       s \<leftarrow> upd_hdr (hd_next h) (hd_prev_update (\<lambda>_. hd_prev h)) s;
       Some (hp\<lparr>hp_store := s\<rparr>) }
     else Some hp })"

section \<open>The invariant\<close>

definition hsize :: "hstore \<Rightarrow> u32 \<Rightarrow> nat" where
  "hsize s a = (case s a of None \<Rightarrow> 0 | Some h \<Rightarrow> unat (hd_size h))"

text \<open>\<open>adj s x y\<close>: the headers \<open>x\<close> and \<open>y\<close> point to each other; \<open>before s x y\<close>: \<open>y\<close> lies behind the block of \<open>x\<close>.\<close>

definition adj :: "hstore \<Rightarrow> u32 \<Rightarrow> u32 \<Rightarrow> bool" where
  "adj s x y \<longleftrightarrow> (\<exists>hx hy. s x = Some hx \<and> s y = Some hy \<and> hd_next hx = y \<and> hd_prev hy = x)"

definition before :: "hstore \<Rightarrow> u32 \<Rightarrow> u32 \<Rightarrow> bool" where
  "before s x y \<longleftrightarrow> unat x + 44 + hsize s x \<le> unat y"

text \<open>
  \<open>heap_inv hp bs\<close>: the headers from the start header over those of the allocated blocks \<open>bs\<close> to the end
  header form a circular doubly linked list, in the order of their addresses, and no block reaches
  into the header behind it.
\<close>

definition heap_inv :: "heap \<Rightarrow> u32 list \<Rightarrow> bool" where
  "heap_inv hp bs \<longleftrightarrow>
     successively (adj (hp_store hp)) (hp_start hp # bs @ [hp_end hp, hp_start hp]) \<and>
     sorted_wrt (before (hp_store hp)) (hp_start hp # bs @ [hp_end hp]) \<and>
     unat (hp_end hp) + 44 \<le> 2 ^ 32"

lemma before_irrefl: "\<not> before s x x"
  by (simp add: before_def)

lemma before_distinct: "sorted_wrt (before s) xs \<Longrightarrow> distinct xs"
  by (induction xs) (auto simp: before_irrefl)

lemma before_trans: "before s x y \<Longrightarrow> before s y z \<Longrightarrow> before s x z"
  by (simp add: before_def)

section \<open>Linking a block in and out\<close>

lemma hsize_Some: "s a = Some h \<Longrightarrow> hsize s a = unat (hd_size h)"
  by (simp add: hsize_def)

lemma before_cong: "hsize s' x = hsize s x \<Longrightarrow> before s' x y = before s x y"
  by (simp add: before_def)

lemma sorted_before_cong:
  "(\<And>x. x \<in> set xs \<Longrightarrow> hsize s' x = hsize s x) \<Longrightarrow> sorted_wrt (before s) xs \<Longrightarrow> sorted_wrt (before s') xs"
  by (rule sorted_wrt_mono_rel) (auto simp: before_def)

lemma adj_mono:
  assumes "successively (adj s) zs"
    and "\<And>u v. u \<in> set (butlast zs) \<Longrightarrow> v \<in> set (tl zs) \<Longrightarrow> adj s u v \<Longrightarrow> adj s' u v"
  shows "successively (adj s') zs"
  using assms
proof (induction zs rule: induct_list012)
  case (3 x y zs)
  have "successively (adj s') (y # zs)"
    by (rule "3.IH"(2)) (use 3 in \<open>auto split: if_splits\<close>)
  moreover have "adj s' x y" using 3 by simp
  ultimately show ?case by simp
qed simp_all

text \<open>The store after \<open>n\<close> has been linked in between \<open>x\<close> and \<open>y\<close>, and after what stands between them has been linked out.\<close>

definition link_in :: "hstore \<Rightarrow> u32 \<Rightarrow> u32 \<Rightarrow> u32 \<Rightarrow> mm_header \<Rightarrow> hstore \<Rightarrow> bool" where
  "link_in s x n y h s' \<longleftrightarrow> (\<exists>hx hy. s x = Some hx \<and> s y = Some hy \<and>
     s' = s(n := Some h, x := Some (hx\<lparr>hd_next := n\<rparr>), y := Some (hy\<lparr>hd_prev := n\<rparr>)))"

lemma link_in_adj:
  "link_in s x n y h s' \<Longrightarrow> adj s u v \<Longrightarrow> u \<noteq> x \<Longrightarrow> v \<noteq> y \<Longrightarrow> u \<noteq> n \<Longrightarrow> v \<noteq> n \<Longrightarrow> x \<noteq> y \<Longrightarrow> adj s' u v"
  by (auto simp: link_in_def adj_def)

lemma link_in_new:
  "link_in s x n y h s' \<Longrightarrow> x \<noteq> y \<Longrightarrow> n \<noteq> x \<Longrightarrow> n \<noteq> y \<Longrightarrow> hd_prev h = x \<Longrightarrow> hd_next h = y \<Longrightarrow> adj s' x n \<and> adj s' n y"
  by (auto simp: link_in_def adj_def)

lemma link_in_size:
  "link_in s x n y h s' \<Longrightarrow> x \<noteq> y \<Longrightarrow> n \<noteq> x \<Longrightarrow> n \<noteq> y \<Longrightarrow> hsize s' a = (if a = n then unat (hd_size h) else hsize s a)"
  by (auto simp: link_in_def hsize_def)

lemma setup_block_link:
  assumes "adj s x y" "x \<noteq> y" "n \<noteq> x" "n \<noteq> y"
  shows "\<exists>s'. heap_setup_block s y n sz name = Some (s', n) \<and>
    link_in s x n y \<lparr>hd_prev = x, hd_next = y, hd_name = take 31 name, hd_size = sz\<rparr> s'"
  using assms by (auto simp: adj_def heap_setup_block_def upd_hdr_def link_in_def)

lemma successively_split:
  "successively P (us @ x # y # vs) \<longleftrightarrow> successively P (us @ [x]) \<and> P x y \<and> successively P (y # vs)"
  by (auto simp: successively_append_iff)

lemma link_in_ring:
  assumes ring: "successively (adj s) (us @ x # y # vs)" and vs: "vs \<noteq> []" "last vs = hd (us @ [x])"
    and d: "distinct (us @ x # butlast (y # vs))" and n: "n \<notin> set (us @ x # y # vs)"
    and l: "link_in s x n y h s'" "hd_prev h = x" "hd_next h = y"
  shows "successively (adj s') (us @ x # n # y # vs)"
proof -
  have b: "butlast (y # vs) = y # butlast vs" using vs by simp
  with d have xy: "x \<noteq> y" "y \<notin> set us" "x \<notin> set us" "x \<notin> set (butlast (y # vs))" "y \<notin> set (butlast vs)" by auto
  have "last vs \<noteq> y" using vs(2) xy by (cases us) auto
  with xy(5) vs(1) have yv: "y \<notin> set vs" by (metis append_butlast_last_id Un_iff list.set(1) list.set(2) set_append empty_iff insert_iff)
  from ring have r: "successively (adj s) (us @ [x])" "successively (adj s) (y # vs)" by (simp_all add: successively_split)
  have tl: "set (tl (us @ [x])) \<subseteq> insert x (set us)" by (cases us) auto
  have "successively (adj s') (us @ [x])"
    by (rule adj_mono [OF r(1)], rule link_in_adj [OF l(1)]) (use xy n tl in auto)
  moreover have "successively (adj s') (y # vs)"
    by (rule adj_mono [OF r(2)], rule link_in_adj [OF l(1)]) (use xy yv n in \<open>auto dest: in_set_butlastD split: if_splits\<close>)
  moreover have "adj s' x n \<and> adj s' n y"
    by (rule link_in_new [OF l(1)]) (use xy n l in auto)
  ultimately show ?thesis using successively_split [of "adj s'" us x n "y # vs"] by simp
qed

lemma link_in_sorted:
  assumes "sorted_wrt (before s) (us @ x # y # vs)" and l: "link_in s x n y h s'" "x \<noteq> y" "n \<noteq> x" "n \<noteq> y"
    and n: "unat n = unat x + 44 + hsize s x" "unat n + 44 + unat (hd_size h) \<le> unat y"
  shows "sorted_wrt (before s') (us @ x # n # y # vs)"
proof -
  have h: "hsize s' a = (if a = n then unat (hd_size h) else hsize s a)" for a by (rule link_in_size [OF l])
  have s: "sorted_wrt (before s) (us @ [x])" "sorted_wrt (before s) (y # vs)"
    "\<And>u v. u \<in> set us \<union> {x} \<Longrightarrow> v \<in> set (y # vs) \<Longrightarrow> before s u v"
    using assms(1) by (auto simp: sorted_wrt_append)
  have u: "unat u < unat n" "before s u n" if "u \<in> set us \<union> {x}" for u
    using that s(1) n(1) by (auto simp: sorted_wrt_append before_def)
  have v: "unat n + 44 + unat (hd_size h) \<le> unat v" if "v \<in> set (y # vs)" for v
    using that s(2) n(2) by (auto simp: before_def)
  have "n \<notin> set (us @ [x])" "n \<notin> set (y # vs)" using u v by fastforce+
  then have hx: "hsize s' a = hsize s a" if "a \<in> set (us @ [x]) \<union> set (y # vs)" for a
    using that by (auto simp: h)
  have "sorted_wrt (before s') (us @ [x])"
    by (rule sorted_before_cong [OF _ s(1)]) (rule hx, auto)
  moreover have "sorted_wrt (before s') (y # vs)"
    by (rule sorted_before_cong [OF _ s(2)]) (rule hx, auto)
  moreover have "before s' u n" if "u \<in> set us \<union> {x}" for u
    using u [OF that] by (auto simp: before_def h)
  moreover have "before s' n v" if "v \<in> set (y # vs)" for v
    using v [OF that] by (auto simp: before_def h)
  moreover have "before s' u v" if "u \<in> set us \<union> {x}" "v \<in> set (y # vs)" for u v
    using s(3) [OF that] u [OF that(1)] by (auto simp: before_def h)
  ultimately show ?thesis by (auto simp: sorted_wrt_append)
qed

section \<open>The search for a hole\<close>

text \<open>The hole between two neighbouring headers.\<close>

definition gap :: "hstore \<Rightarrow> u32 \<Rightarrow> u32 \<Rightarrow> nat" where
  "gap s x y = unat y - (unat x + 44 + hsize s x)"

definition pairs :: "'a list \<Rightarrow> ('a \<times> 'a) list" where
  "pairs xs = zip xs (tl xs)"

lemma pairs_Cons [simp]: "pairs (x # y # ys) = (x, y) # pairs (y # ys)" "pairs [x] = []" "pairs [] = []"
  by (simp_all add: pairs_def)

lemma pairs_split: "(x, y) \<in> set (pairs zs) \<Longrightarrow> \<exists>us vs. zs = us @ x # y # vs"
proof (induction zs rule: induct_list012)
  case (3 a b zs)
  show ?case
  proof (cases "x = a \<and> y = b")
    case True
    then show ?thesis by (metis append_Nil)
  next
    case False
    with 3 obtain us vs where "b # zs = us @ x # y # vs" by auto
    then show ?thesis by (metis append_Cons)
  qed
qed simp_all

lemma pairs_mem: "(x, y) \<in> set (pairs (us @ x # y # vs))"
  by (induction us rule: induct_list012) (simp_all add: pairs_def)

lemma before_gap:
  assumes "before s x y" "s x = Some hx"
  shows "unat (y - (x + HDR + hd_size hx)) = gap s x y" "unat (x + HDR + hd_size hx) = unat x + 44 + hsize s x"
proof -
  have h: "hsize s x = unat (hd_size hx)" using assms(2) by (rule hsize_Some)
  have le: "unat x + 44 + unat (hd_size hx) \<le> unat y" using assms(1) h by (simp add: before_def)
  then have lt: "unat x + 44 + unat (hd_size hx) < 2 ^ 32" using unat_u32_lt [of y] by simp
  then have "unat (x + HDR) = unat x + 44" by (subst unat_add_lem [THEN iffD1]) simp_all
  with lt have p: "unat (x + HDR + hd_size hx) = unat x + 44 + unat (hd_size hx)"
    by (subst unat_add_lem [THEN iffD1]) simp_all
  with h show "unat (x + HDR + hd_size hx) = unat x + 44 + hsize s x" by simp
  have "x + HDR + hd_size hx \<le> y" using p le by (simp add: word_le_nat_alt)
  with p h show "unat (y - (x + HDR + hd_size hx)) = gap s x y" by (simp add: unat_sub gap_def)
qed

lemma find_hole_correct:
  assumes "successively (adj s) (p # cs @ [stop])" "sorted_wrt (before s) (p # cs)" "stop \<notin> set cs"
    and "unat sz + 44 < 2 ^ 32"
  shows "\<exists>t b. find_hole s stop (hd (cs @ [stop])) sz tmp big = Some (t, b) \<and>
    (t = tmp \<and> b = big \<or> (\<exists>x. (x, t) \<in> set (pairs (p # cs)) \<and> unat b = gap s x t \<and> unat sz + 44 \<le> gap s x t)) \<and>
    (\<forall>(x, y) \<in> set (pairs (p # cs)). unat sz + 44 \<le> gap s x y \<longrightarrow> gap s x y \<le> unat b) \<and> big \<le> b"
  using assms(1-3)
proof (induction cs arbitrary: p tmp big)
  case Nil
  then show ?case by (subst find_hole.simps) simp
next
  case (Cons c cs)
  from Cons.prems(1) have ad: "adj s p c" "successively (adj s) (c # cs @ [stop])" by simp_all
  then obtain hp hc where h: "s p = Some hp" "s c = Some hc" "hd_prev hc = p" "hd_next hp = c"
    by (auto simp: adj_def)
  from Cons.prems(2) have bf: "before s p c" "sorted_wrt (before s) (c # cs)" by simp_all
  have nx: "hd_next hc = hd (cs @ [stop])" using ad(2) h(2) by (cases cs) (auto simp: adj_def)
  let ?g = "c - (p + HDR + hd_size hp)"
  have g: "unat ?g = gap s p c" using before_gap(1) [OF bf(1) h(1)] .
  have need: "sz + HDR \<le> w \<longleftrightarrow> unat sz + 44 \<le> unat w" for w
    using assms(4) by (simp add: word_le_nat_alt unat_add_lem [THEN iffD1])
  have step: "find_hole s stop c sz tmp big =
    (if sz + HDR \<le> ?g \<and> big < ?g then find_hole s stop (hd (cs @ [stop])) sz c ?g
     else find_hole s stop (hd (cs @ [stop])) sz tmp big)"
    using Cons.prems(3) h nx by (subst find_hole.simps) (auto simp: Let_def)
  note IH = Cons.IH [OF ad(2) bf(2)]
  show ?case
  proof (cases "sz + HDR \<le> ?g \<and> big < ?g")
    case True
    then have nb: "unat sz + 44 \<le> gap s p c" "big \<le> ?g" using need [of ?g] g by auto
    obtain t b where tb: "find_hole s stop (hd (cs @ [stop])) sz c ?g = Some (t, b)"
      "t = c \<and> b = ?g \<or> (\<exists>x. (x, t) \<in> set (pairs (c # cs)) \<and> unat b = gap s x t \<and> unat sz + 44 \<le> gap s x t)"
      "\<forall>(x, y) \<in> set (pairs (c # cs)). unat sz + 44 \<le> gap s x y \<longrightarrow> gap s x y \<le> unat b" "?g \<le> b"
      using IH [of c ?g] Cons.prems(3) by auto
    have "gap s p c \<le> unat b" using tb(4) g by (simp add: word_le_nat_alt)
    moreover have "big \<le> b" using nb(2) tb(4) by simp
    moreover have "\<exists>x. (x, t) \<in> set (pairs (p # c # cs)) \<and> unat b = gap s x t \<and> unat sz + 44 \<le> gap s x t"
      using tb(2) nb(1) g by auto
    ultimately show ?thesis using step True tb by auto
  next
    case False
    then have nb: "gap s p c \<le> unat big" if "unat sz + 44 \<le> gap s p c"
      using need [of ?g] g that by (auto simp: word_le_nat_alt not_less)
    obtain t b where tb: "find_hole s stop (hd (cs @ [stop])) sz tmp big = Some (t, b)"
      "t = tmp \<and> b = big \<or> (\<exists>x. (x, t) \<in> set (pairs (c # cs)) \<and> unat b = gap s x t \<and> unat sz + 44 \<le> gap s x t)"
      "\<forall>(x, y) \<in> set (pairs (c # cs)). unat sz + 44 \<le> gap s x y \<longrightarrow> gap s x y \<le> unat b" "big \<le> b"
      using IH [of tmp big] Cons.prems(3) by auto
    have "unat sz + 44 \<le> gap s p c \<longrightarrow> gap s p c \<le> unat b" using nb tb(4) by (auto simp: word_le_nat_alt)
    then show ?thesis using step False tb by auto
  qed
qed

section \<open>Allocation\<close>

definition heads :: "heap \<Rightarrow> u32 list \<Rightarrow> u32 list" where
  "heads hp bs = hp_start hp # bs @ [hp_end hp]"

lemma heads_upd [simp]: "heads (hp\<lparr>hp_store := s\<rparr>) bs = heads hp bs"
  by (simp add: heads_def)

lemma heap_inv_heads:
  "heap_inv hp bs \<longleftrightarrow> successively (adj (hp_store hp)) (heads hp bs @ [hp_start hp]) \<and>
     sorted_wrt (before (hp_store hp)) (heads hp bs) \<and> unat (hp_end hp) + 44 \<le> 2 ^ 32"
  by (simp add: heap_inv_def heads_def)

lemma heap_invD:
  assumes "heap_inv hp bs"
  shows "successively (adj (hp_store hp)) (heads hp bs @ [hp_start hp])" "sorted_wrt (before (hp_store hp)) (heads hp bs)"
    "unat (hp_end hp) + 44 \<le> 2 ^ 32" "distinct (heads hp bs)"
  using assms before_distinct [of "hp_store hp" "heads hp bs"] by (auto simp: heap_inv_def heads_def)

lemma find_hole_heap:
  assumes inv: "heap_inv hp bs" and sz: "unat sz + 44 < 2 ^ 32"
  obtains st en t b where "hp_store hp (hp_start hp) = Some st" "hp_store hp (hp_end hp) = Some en"
    "find_hole (hp_store hp) (hd_next en) (hd_next st) sz 0 0 = Some (t, b)"
    "t = 0 \<and> b = 0 \<or> (\<exists>x. (x, t) \<in> set (pairs (heads hp bs)) \<and> unat b = gap (hp_store hp) x t \<and>
       unat sz + 44 \<le> gap (hp_store hp) x t)"
    "\<forall>(x, y) \<in> set (pairs (heads hp bs)). unat sz + 44 \<le> gap (hp_store hp) x y \<longrightarrow> gap (hp_store hp) x y \<le> unat b"
proof -
  let ?s = "hp_store hp"
  note inv' = heap_invD [OF inv]
  have ring: "successively (adj ?s) (hp_start hp # (bs @ [hp_end hp]) @ [hp_start hp])"
    using inv'(1) by (simp add: heads_def)
  have "adj ?s (hp_end hp) (hp_start hp)"
    using ring by (simp add: successively_append_iff successively_Cons split: if_splits)
  then obtain en st where en: "?s (hp_end hp) = Some en" "?s (hp_start hp) = Some st" "hd_next en = hp_start hp"
    by (auto simp: adj_def)
  have "adj ?s (hp_start hp) (hd (bs @ [hp_end hp]))" using ring by (cases bs) auto
  then have st: "hd_next st = hd ((bs @ [hp_end hp]) @ [hp_start hp])"
    using en by (cases bs) (auto simp: adj_def)
  have "hp_start hp \<notin> set (bs @ [hp_end hp])" using inv'(4) by (auto simp: heads_def)
  moreover have "sorted_wrt (before ?s) (hp_start hp # bs @ [hp_end hp])" using inv'(2) by (simp add: heads_def)
  ultimately obtain t b where tb:
    "find_hole ?s (hp_start hp) (hd ((bs @ [hp_end hp]) @ [hp_start hp])) sz 0 0 = Some (t, b)"
    "t = 0 \<and> b = 0 \<or> (\<exists>x. (x, t) \<in> set (pairs (heads hp bs)) \<and> unat b = gap ?s x t \<and> unat sz + 44 \<le> gap ?s x t)"
    "\<forall>(x, y) \<in> set (pairs (heads hp bs)). unat sz + 44 \<le> gap ?s x y \<longrightarrow> gap ?s x y \<le> unat b"
    using find_hole_correct [OF ring _ _ sz, of 0 0] unfolding heads_def by blast
  show ?thesis
    by (rule that [OF en(2) en(1) _ tb(2,3)]) (simp only: en(3) st tb(1))
qed

lemma pairs_before: "sorted_wrt (before s) xs \<Longrightarrow> (x, y) \<in> set (pairs xs) \<Longrightarrow> before s x y"
  by (auto dest!: pairs_split simp: sorted_wrt_append)

lemma heap_split:
  assumes "heads hp bs = us @ x # y # vs"
  shows "hp_start hp = hd (us @ [x])" "hp_end hp = last (y # vs)" "bs = tl (us @ [x]) @ butlast (y # vs)"
    "us @ x # n # y # vs = heads hp (tl (us @ [x]) @ n # butlast (y # vs))"
proof -
  have h: "heads hp bs = (us @ [x]) @ (y # vs)" using assms by simp
  then show 1: "hp_start hp = hd (us @ [x])" by (cases us) (auto simp: heads_def)
  have "hp_end hp = last (heads hp bs)" by (simp add: heads_def)
  with h show 2: "hp_end hp = last (y # vs)" by (metis last_appendR list.distinct(1))
  have "bs = butlast (tl (heads hp bs))" by (simp add: heads_def)
  also have "\<dots> = tl (us @ [x]) @ butlast (y # vs)" unfolding h by (cases us) (auto simp: butlast_append)
  finally show "bs = tl (us @ [x]) @ butlast (y # vs)" .
  show "us @ x # n # y # vs = heads hp (tl (us @ [x]) @ n # butlast (y # vs))"
    unfolding heads_def 1 2 by (cases us) (auto simp del: butlast.simps last.simps)
qed

text \<open>A block of \<open>sz\<close> bytes is linked in at the start of the hole between \<open>x\<close> and \<open>y\<close>.\<close>

lemma setup_block_inv:
  assumes inv: "heap_inv hp bs" and split: "heads hp bs = us @ x # y # vs"
    and n: "unat n = unat x + 44 + hsize (hp_store hp) x" "unat sz + 44 \<le> gap (hp_store hp) x y"
  shows "\<exists>s'. heap_setup_block (hp_store hp) y n sz name = Some (s', n) \<and>
    heap_inv (hp\<lparr>hp_store := s'\<rparr>) (tl (us @ [x]) @ n # butlast (y # vs)) \<and>
    hsize s' n = unat sz \<and> (\<forall>a. a \<noteq> n \<longrightarrow> hsize s' a = hsize (hp_store hp) a) \<and> n \<notin> set bs"
proof -
  let ?s = "hp_store hp"
  note inv' = heap_invD [OF inv]
  from inv'(2) split have xy: "before ?s x y" by (simp add: sorted_wrt_append)
  have nl: "unat n + 44 + unat sz \<le> unat y" using n xy by (simp add: gap_def before_def)
  have sorted: "sorted_wrt (before ?s) (us @ x # y # vs)" using inv'(2) split by simp
  then have "\<forall>u \<in> set us \<union> {x}. unat u < unat n" "\<forall>v \<in> set (y # vs). unat n < unat v"
    using n(1) nl by (auto simp: sorted_wrt_append before_def)
  then have nn: "n \<notin> set (us @ x # y # vs)" by auto
  have ring: "successively (adj ?s) (us @ x # y # (vs @ [hp_start hp]))" using inv'(1) split by simp
  then have "adj ?s x y" by (simp add: successively_split)
  moreover have ne: "x \<noteq> y" "n \<noteq> x" "n \<noteq> y" using nn xy before_irrefl by auto
  ultimately obtain s' where s': "heap_setup_block ?s y n sz name = Some (s', n)"
    "link_in ?s x n y \<lparr>hd_prev = x, hd_next = y, hd_name = take 31 name, hd_size = sz\<rparr> s'"
    using setup_block_link by blast
  have hs: "hsize s' a = (if a = n then unat sz else hsize ?s a)" for a
    using link_in_size [OF s'(2) ne] by simp
  have "successively (adj s') (us @ x # n # y # (vs @ [hp_start hp]))"
  proof (rule link_in_ring [OF ring _ _ _ _ s'(2)])
    show "distinct (us @ x # butlast (y # vs @ [hp_start hp]))" using inv'(4) split by simp
    show "n \<notin> set (us @ x # y # vs @ [hp_start hp])" using nn heap_split(1) [OF split] by (cases us) auto
  qed (use heap_split(1) [OF split] in simp_all)
  moreover have "sorted_wrt (before s') (us @ x # n # y # vs)"
    by (rule link_in_sorted [OF sorted s'(2) ne n(1)]) (use nl in simp)
  ultimately have "heap_inv (hp\<lparr>hp_store := s'\<rparr>) (tl (us @ [x]) @ n # butlast (y # vs))"
    unfolding heap_inv_heads heads_upd heap_split(4) [OF split, of n, symmetric] using inv'(3) by simp
  moreover have "set bs \<subseteq> set (heads hp bs)" by (auto simp: heads_def)
  then have "n \<notin> set bs" using nn unfolding split by blast
  ultimately show ?thesis using s'(1) hs by (intro exI [of _ s']) simp
qed

section \<open>Release\<close>

lemma heap_free_link:
  assumes inv: "heap_inv hp (b1 @ q # b2)"
  obtains us x y vs hx hq hy where "heads hp (b1 @ q # b2) = us @ x # q # y # vs" "us @ x # y # vs = heads hp (b1 @ b2)"
    "hp_store hp x = Some hx" "hp_store hp q = Some hq" "hp_store hp y = Some hy"
    "hd_next hx = q" "hd_prev hq = x" "hd_next hq = y" "hd_prev hy = q"
proof -
  obtain us x where 1: "hp_start hp # b1 = us @ [x]" by (cases "hp_start hp # b1" rule: rev_cases) auto
  obtain y vs where 2: "b2 @ [hp_end hp] = y # vs" by (cases "b2 @ [hp_end hp]") auto
  have "heads hp (b1 @ q # b2) = (hp_start hp # b1) @ q # (b2 @ [hp_end hp])" by (simp add: heads_def)
  then have h: "heads hp (b1 @ q # b2) = us @ x # q # y # vs" unfolding 1 2 by simp
  have "heads hp (b1 @ b2) = (hp_start hp # b1) @ (b2 @ [hp_end hp])" by (simp add: heads_def)
  then have h2: "us @ x # y # vs = heads hp (b1 @ b2)" unfolding 1 2 by simp
  have a: "adj (hp_store hp) x q" "adj (hp_store hp) q y"
    using heap_invD(1) [OF inv] unfolding h by (simp_all add: successively_append_iff)
  from a(1) obtain hx hq where 3: "hp_store hp x = Some hx" "hp_store hp q = Some hq" "hd_next hx = q" "hd_prev hq = x"
    unfolding adj_def by blast
  from a(2) obtain hq' hy where 4: "hp_store hp q = Some hq'" "hp_store hp y = Some hy" "hd_next hq' = y" "hd_prev hy = q"
    unfolding adj_def by blast
  from 3(2) 4(1) have "hq' = hq" by simp
  then show ?thesis using 4 by (intro that [OF h h2 3(1,2) 4(2) 3(3,4)]) simp_all
qed

lemma heap_free_inv:
  assumes inv: "heap_inv hp (b1 @ q # b2)"
  shows "\<exists>s'. heap_free (q + HDR) hp = Some (hp\<lparr>hp_store := s'\<rparr>) \<and> heap_inv (hp\<lparr>hp_store := s'\<rparr>) (b1 @ b2) \<and>
    (\<forall>a. hsize s' a = hsize (hp_store hp) a) \<and>
    heap_free (q + HDR) (hp\<lparr>hp_store := s'\<rparr>) = Some (hp\<lparr>hp_store := s'\<rparr>)"
proof -
  let ?s = "hp_store hp"
  from heap_free_link [OF inv] obtain us x y vs hx hq hy where
    h: "heads hp (b1 @ q # b2) = us @ x # q # y # vs" "us @ x # y # vs = heads hp (b1 @ b2)"
    and s: "?s x = Some hx" "?s q = Some hq" "?s y = Some hy"
      "hd_next hx = q" "hd_prev hq = x" "hd_next hq = y" "hd_prev hy = q" .
  note inv' = heap_invD [OF inv]
  from inv'(4) h(1) have d: "distinct (us @ x # q # y # vs)" by simp
  have start: "hp_start hp \<in> set (us @ [x])" using h(2) by (cases us) (auto simp: heads_def)
  define s' where "s' = ?s(x := Some (hx\<lparr>hd_next := y\<rparr>), y := Some (hy\<lparr>hd_prev := x\<rparr>))"
  have f: "heap_free (q + HDR) hp = Some (hp\<lparr>hp_store := s'\<rparr>)"
    using s d by (auto simp: heap_free_def upd_hdr_def s'_def Let_def)
  have f2: "heap_free (q + HDR) (hp\<lparr>hp_store := s'\<rparr>) = Some (hp\<lparr>hp_store := s'\<rparr>)"
    using s d by (auto simp: heap_free_def upd_hdr_def s'_def Let_def)
  have hs: "hsize s' a = hsize ?s a" for a using s d by (auto simp: s'_def hsize_def)
  have keep: "adj s' u v" if "adj ?s u v" "u \<noteq> x" "v \<noteq> y" for u v
    using that s d by (auto simp: adj_def s'_def)
  have ring: "successively (adj ?s) (us @ [x])" "successively (adj ?s) (y # (vs @ [hp_start hp]))"
    using inv'(1) unfolding h(1) by (auto simp: successively_append_iff)
  have tl: "set (tl (us @ [x])) \<subseteq> insert x (set us)" by (cases us) auto
  have "successively (adj s') (us @ [x])"
    by (rule adj_mono [OF ring(1)], rule keep) (use d tl in auto)
  moreover have "successively (adj s') (y # (vs @ [hp_start hp]))"
    by (rule adj_mono [OF ring(2)], rule keep) (use d start in \<open>auto simp: butlast_append\<close>)
  moreover have "adj s' x y" using d by (auto simp: s'_def adj_def)
  ultimately have "successively (adj s') ((us @ x # y # vs) @ [hp_start hp])"
    using successively_split [of "adj s'" us x y "vs @ [hp_start hp]"] by simp
  moreover have "sorted_wrt (before s') (us @ x # y # vs)"
    by (rule sorted_before_cong [of _ s' ?s]) (use inv'(2) h(1) hs in \<open>auto simp: sorted_wrt_append\<close>)
  ultimately have "heap_inv (hp\<lparr>hp_store := s'\<rparr>) (b1 @ b2)"
    unfolding heap_inv_heads heads_upd h(2) using inv'(3) by simp
  with f f2 hs show ?thesis by blast
qed

section \<open>The ends of the heap\<close>

lemma create_heap_inv:
  assumes "unat (round_page start_addr) + 44 \<le> unat (end_addr - HDR)" "HDR \<le> end_addr"
  shows "heap_inv (create_heap s start_addr end_addr m su ro) []"
proof -
  have e: "unat (end_addr - HDR) + 44 \<le> 2 ^ 32"
    using assms(2) unat_u32_lt [of end_addr] by (simp add: unat_sub word_le_nat_alt)
  have "round_page start_addr \<noteq> end_addr - HDR" using assms(1) by auto
  with assms(1) e show ?thesis
    by (simp add: heap_inv_def create_heap_def Let_def adj_def before_def hsize_def)
qed

lemma unat_end_header:
  assumes "44 \<le> unat a + unat b" "unat a + unat b \<le> 2 ^ 32"
  shows "unat (a + b - HDR) + 44 = unat a + unat b"
proof -
  have "a + b - HDR = word_of_nat (unat a + unat b - 44)" using assms(1) by (simp add: of_nat_diff)
  then have "unat (a + b - HDR) = (unat a + unat b - 44) mod 2 ^ 32" by (simp only: unat_of_nat) simp
  with assms show ?thesis by simp
qed

lemma heap_expand_inv:
  assumes inv: "heap_inv hp bs" and e: "heap_expand mm n hp = Some (mm', hp')"
    and n: "unat (hp_end hp) + 44 \<le> unat (hp_start hp) + unat (round_page n)" "unat (hp_start hp) + unat (round_page n) \<le> 2 ^ 32"
  shows "heap_inv hp' bs \<and> hp_start hp' = hp_start hp \<and> unat (hp_end hp') + 44 = unat (hp_start hp) + unat (round_page n) \<and>
    (\<forall>a \<in> set bs. hsize (hp_store hp') a = hsize (hp_store hp) a)"
proof -
  let ?s = "hp_store hp" and ?st = "hp_start hp" and ?e = "hp_end hp"
  let ?E = "hp_start hp + round_page n - HDR"
  note inv' = heap_invD [OF inv]
  obtain us x where 1: "?st # bs = us @ [x]" by (cases "hp_start hp # bs" rule: rev_cases) auto
  have h: "heads hp cs = ?st # cs @ [?e]" for cs by (simp add: heads_def)
  then have hd: "heads hp bs = us @ [x, ?e]" using 1 by simp
  have ring: "successively (adj ?s) (us @ [x])" "adj ?s x ?e"
    using inv'(1) unfolding hd by (auto simp: successively_append_iff)
  then obtain hx he where hx: "?s x = Some hx" "?s ?e = Some he" "hd_prev he = x" by (auto simp: adj_def)
  have srt: "sorted_wrt (before ?s) (us @ [x])" "\<forall>u \<in> set (us @ [x]). before ?s u ?e"
    using inv'(2) unfolding hd by (auto simp: sorted_wrt_append)
  have ste: "unat ?st + 44 \<le> unat ?e" using inv'(2) by (auto simp: h before_def)
  then have E: "unat ?E + 44 = unat ?st + unat (round_page n)"
    using n by (intro unat_end_header) auto
  with n(1) have eE: "unat ?e \<le> unat ?E" by simp
  have lt: "unat u < unat ?E" if "u \<in> set (us @ [x])" for u
    using srt(2) that eE by (auto simp: before_def)
  have st: "?st \<in> set (us @ [x])" using 1 by (metis list.set_intros(1))
  then have ne: "?E \<noteq> x" "?E \<noteq> ?st" "?E \<notin> set (us @ [x])" using lt by fastforce+
  have d: "distinct (us @ [x])" using inv'(4) unfolding hd by simp
  obtain hst where hst: "?s ?st = Some hst"
    using inv'(1) by (cases bs) (auto simp: heads_def adj_def)
  define s3 where "s3 = (let s = ?s(x := Some (hx\<lparr>hd_next := ?E\<rparr>));
      s = s(?E := Some \<lparr>hd_prev = x, hd_next = ?st, hd_name = name_end, hd_size = 0\<rparr>)
    in s(?st := Some ((the (s ?st))\<lparr>hd_prev := ?E, hd_size := 0\<rparr>)))"
  have hp': "hp' = hp\<lparr>hp_store := s3, hp_end := ?E\<rparr>"
    using e hx hst ne unfolding heap_expand_def upd_hdr_def s3_def Let_def
    by (auto simp: bind_eq_Some_conv)
  have sz: "hsize s3 u = (if u = ?st then 0 else hsize ?s u)" if "u \<noteq> ?E" for u
    using that hx hst by (auto simp: s3_def Let_def hsize_def)
  have keep: "adj s3 u v" if "adj ?s u v" "u \<noteq> x" "v \<noteq> ?st" "u \<noteq> ?E" "v \<noteq> ?E" for u v
    using that hx hst by (auto simp: adj_def s3_def Let_def)
  have sz_le: "hsize s3 u \<le> hsize ?s u" if "u \<in> set (us @ [x])" for u
    using that sz [of u] ne(3) by (cases "u = ?E") auto
  have sts: "?st \<notin> set (tl (us @ [x]))" using d 1 by (metis distinct.simps(2) list.sel(3))
  have tl: "set (tl (us @ [x])) \<subseteq> insert x (set us)" by (cases us) auto
  have "successively (adj s3) (us @ [x])"
    by (rule adj_mono [OF ring(1)], rule keep) (use d ne sts tl in auto)
  moreover have "adj s3 x ?E" "adj s3 ?E ?st" using ne hx hst by (auto simp: adj_def s3_def Let_def)
  ultimately have "successively (adj s3) ((us @ [x, ?E]) @ [?st])"
    by (auto simp: successively_append_iff)
  moreover have "sorted_wrt (before s3) (us @ [x])"
    by (rule sorted_wrt_mono_rel [OF _ srt(1)]) (use sz_le in \<open>fastforce simp: before_def\<close>)
  moreover have "before s3 u ?E" if "u \<in> set (us @ [x])" for u
    using srt(2) that sz_le [of u] eE by (fastforce simp: before_def)
  moreover have "heads hp' bs = (?st # bs) @ [?E]" by (simp add: heads_def hp')
  then have hd': "heads hp' bs = us @ [x, ?E]" unfolding 1 by simp
  ultimately have "heap_inv hp' bs"
    using E n(2) unfolding heap_inv_heads hd' by (simp add: hp' sorted_wrt_append)
  moreover have "hsize s3 a = hsize ?s a" if "a \<in> set bs" for a
    using that sz [of a] ne d 1 sts by (metis Un_iff list.sel(3) list.set_intros(2) set_append)
  ultimately show ?thesis using E by (simp add: hp')
qed

text \<open>When no hole is big enough the heap is expanded and the search starts again.\<close>

lemma heap_mallocn_expands:
  assumes inv: "heap_inv hp bs" and sz: "unat sz + 44 < 2 ^ 32"
    and none: "\<forall>(x, y) \<in> set (pairs (heads hp bs)). gap (hp_store hp) x y < unat sz + 44"
  shows "heap_mallocn mm hp sz name =
    (case heap_expand mm (heap_get_size hp + (sz div HEAP_EXPAND_STEP_SIZE + 1) * HEAP_EXPAND_STEP_SIZE) hp of
       None \<Rightarrow> None
     | Some (mm', hp') \<Rightarrow> if heap_get_size hp' < heap_get_size hp + sz then Some (mm', hp', 0)
                         else heap_mallocn mm' hp' sz name)"
proof -
  obtain st en t b where f: "hp_store hp (hp_start hp) = Some st" "hp_store hp (hp_end hp) = Some en"
    "find_hole (hp_store hp) (hd_next en) (hd_next st) sz 0 0 = Some (t, b)"
    and tb: "t = 0 \<and> b = 0 \<or> (\<exists>x. (x, t) \<in> set (pairs (heads hp bs)) \<and> unat b = gap (hp_store hp) x t \<and>
       unat sz + 44 \<le> gap (hp_store hp) x t)"
    by (rule find_hole_heap [OF inv sz])
  have "t = 0"
  proof (rule ccontr)
    assume "t \<noteq> 0"
    with tb obtain x where "(x, t) \<in> set (pairs (heads hp bs))" "unat sz + 44 \<le> gap (hp_store hp) x t" by blast
    with bspec [OF none] show False by fastforce
  qed
  with f show ?thesis by (subst heap_mallocn.simps) (simp split: option.splits)
qed

section \<open>Properties\<close>

lemma heap_mallocn_fit:
  assumes inv: "heap_inv hp bs" and sz: "unat sz + 44 < 2 ^ 32"
    and fit: "(u, v) \<in> set (pairs (heads hp bs))" "unat sz + 44 \<le> gap (hp_store hp) u v"
  shows "\<exists>hp' b1 b2 q x y. heap_mallocn mm hp sz name = Some (mm, hp', q + HDR) \<and>
    bs = b1 @ b2 \<and> heap_inv hp' (b1 @ q # b2) \<and> hsize (hp_store hp') q = unat sz \<and>
    (\<forall>a \<in> set bs. hsize (hp_store hp') a = hsize (hp_store hp) a) \<and>
    (x, y) \<in> set (pairs (heads hp bs)) \<and> unat q = unat x + 44 + hsize (hp_store hp) x \<and>
    (\<forall>(x', y') \<in> set (pairs (heads hp bs)). gap (hp_store hp) x' y' \<le> gap (hp_store hp) x y) \<and>
    (q, y) \<in> set (pairs (heads hp' (b1 @ q # b2))) \<and> hp_end hp' = hp_end hp \<and> hp_start hp' = hp_start hp"
proof -
  let ?s = "hp_store hp"
  obtain st en t b where f: "?s (hp_start hp) = Some st"
    "?s (hp_end hp) = Some en" "find_hole ?s (hd_next en) (hd_next st) sz 0 0 = Some (t, b)"
    and tb: "t = 0 \<and> b = 0 \<or> (\<exists>x. (x, t) \<in> set (pairs (heads hp bs)) \<and> unat b = gap ?s x t \<and> unat sz + 44 \<le> gap ?s x t)"
    "\<forall>(x, y) \<in> set (pairs (heads hp bs)). unat sz + 44 \<le> gap ?s x y \<longrightarrow> gap ?s x y \<le> unat b"
    by (rule find_hole_heap [OF inv sz])
  have big: "gap ?s x' y' \<le> unat b" if "(x', y') \<in> set (pairs (heads hp bs))" "unat sz + 44 \<le> gap ?s x' y'" for x' y'
    using bspec [OF tb(2) that(1)] that(2) by simp
  from big [OF fit] fit(2) have "0 < unat b" by linarith
  then have "b \<noteq> 0" by auto
  with tb(1) obtain x where x: "(x, t) \<in> set (pairs (heads hp bs))" "unat b = gap ?s x t" "unat sz + 44 \<le> gap ?s x t"
    by blast
  from pairs_split [OF x(1)] obtain us vs where split: "heads hp bs = us @ x # t # vs" by blast
  note inv' = heap_invD [OF inv]
  have bf: "before ?s x t" by (rule pairs_before [OF inv'(2) x(1)])
  then have t0: "t \<noteq> 0" by (auto simp: before_def)
  have "adj ?s x t" using inv'(1) split by (simp add: successively_append_iff)
  then obtain hx ht where h: "?s x = Some hx" "?s t = Some ht" "hd_prev ht = x" by (auto simp: adj_def)
  let ?n = "x + HDR + hd_size hx"
  have n: "unat ?n = unat x + 44 + hsize ?s x" by (rule before_gap(2) [OF bf h(1)])
  obtain s' where s': "heap_setup_block ?s t ?n sz name = Some (s', ?n)"
    "heap_inv (hp\<lparr>hp_store := s'\<rparr>) (tl (us @ [x]) @ ?n # butlast (t # vs))"
    "hsize s' ?n = unat sz" "\<forall>a. a \<noteq> ?n \<longrightarrow> hsize s' a = hsize ?s a" "?n \<notin> set bs"
    using setup_block_inv [OF inv split n x(3)] by blast
  define hp' where "hp' = hp\<lparr>hp_store := s'\<rparr>"
  have st: "hp_store hp' = s'" by (simp add: hp'_def)
  have "heap_mallocn mm hp sz name = Some (mm, hp', ?n + HDR)"
    unfolding hp'_def using f t0 h s'(1) by (subst heap_mallocn.simps) simp
  moreover have "heap_inv hp' (tl (us @ [x]) @ ?n # butlast (t # vs))" unfolding hp'_def by (rule s'(2))
  moreover have "hsize (hp_store hp') ?n = unat sz" unfolding st by (rule s'(3))
  moreover have "\<forall>a \<in> set bs. hsize (hp_store hp') a = hsize ?s a"
    unfolding st using s'(4,5) by (intro ballI) (metis (no_types))
  moreover have "\<forall>(x', y') \<in> set (pairs (heads hp bs)). gap ?s x' y' \<le> gap ?s x t"
  proof (intro ballI, clarify)
    fix x' y' assume p: "(x', y') \<in> set (pairs (heads hp bs))"
    show "gap ?s x' y' \<le> gap ?s x t"
      using big [OF p] x(2,3) by (cases "unat sz + 44 \<le> gap ?s x' y'") linarith+
  qed
  moreover have "(?n, t) \<in> set (pairs (heads hp' (tl (us @ [x]) @ ?n # butlast (t # vs))))"
    unfolding hp'_def heads_upd heap_split(4) [OF split, symmetric] using pairs_mem [of ?n t "us @ [x]" vs] by simp
  moreover have "hp_end hp' = hp_end hp" "hp_start hp' = hp_start hp" by (simp_all add: hp'_def)
  ultimately show ?thesis using heap_split(3) [OF split] n x(1) by blast
qed


text \<open>A heap of 64 KB with two blocks, made by the operations themselves.\<close>

definition heap_example :: heap where
  "heap_example = create_heap (\<lambda>_. None) 0x10000 0x20000 0x80000 0 0"

lemma heap_example_inv: "heap_inv heap_example []"
  unfolding heap_example_def by (rule create_heap_inv) (simp_all add: round_page_def)

lemma heap_example_hole:
  "(0x10000, 0x1FFD4) \<in> set (pairs (heads heap_example []))" "gap (hp_store heap_example) 0x10000 0x1FFD4 = 0xFFA8"
  by (simp_all add: heap_example_def create_heap_def round_page_def Let_def heads_def gap_def hsize_def)


definition heap_example2 :: heap where
  "heap_example2 = heap_example\<lparr>hp_store := (\<lambda>_. None)
     (0x10000 := Some \<lparr>hd_prev = 0x1FFD4, hd_next = 0x1002C, hd_name = name_start, hd_size = 0\<rparr>,
      0x1002C := Some \<lparr>hd_prev = 0x10000, hd_next = 0x10100, hd_name = [97], hd_size = 100\<rparr>,
      0x10100 := Some \<lparr>hd_prev = 0x1002C, hd_next = 0x1FFD4, hd_name = [98], hd_size = 8\<rparr>,
      0x1FFD4 := Some \<lparr>hd_prev = 0x10100, hd_next = 0x10000, hd_name = name_end, hd_size = 0\<rparr>)\<rparr>"

lemma heap_example2_inv: "heap_inv heap_example2 [0x1002C, 0x10100]"
  by (simp add: heap_inv_def heap_example2_def heap_example_def create_heap_def round_page_def Let_def adj_def before_def hsize_def)

lemma block_bounds:
  assumes "heap_inv hp bs" "a \<in> set bs"
  shows "unat (hp_start hp) + 44 \<le> unat a" "unat a + 44 + hsize (hp_store hp) a \<le> unat (hp_end hp)" "unat (a + HDR) = unat a + 44"
proof -
  have "sorted_wrt (before (hp_store hp)) (hp_start hp # bs @ [hp_end hp])" using assms(1) by (simp add: heap_inv_def)
  with assms(2) show 1: "unat (hp_start hp) + 44 \<le> unat a" "unat a + 44 + hsize (hp_store hp) a \<le> unat (hp_end hp)"
    by (auto simp: sorted_wrt_append before_def)
  then have "unat a + 44 < 2 ^ 32" using unat_u32_lt [of "hp_end hp"] by simp
  then show "unat (a + HDR) = unat a + 44" by (simp add: unat_word_ariths)
qed

lemma blocks_disjoint:
  assumes inv: "heap_inv hp bs" and ab: "a \<in> set bs" "b \<in> set bs" "a \<noteq> b"
  shows "{unat a ..< unat a + 44 + hsize (hp_store hp) a} \<inter> {unat b ..< unat b + 44 + hsize (hp_store hp) b} = {} \<and>
    unat (hp_start hp) + 44 \<le> unat a \<and> unat a + 44 + hsize (hp_store hp) a \<le> unat (hp_end hp)"
proof -
  note srt = heap_invD(2) [OF inv]
  have "sorted_wrt (before (hp_store hp)) bs" using srt by (auto simp: heads_def sorted_wrt_append)
  with ab have "before (hp_store hp) a b \<or> before (hp_store hp) b a"
    by (induction bs) auto
  moreover have "before (hp_store hp) (hp_start hp) a" "before (hp_store hp) a (hp_end hp)"
    using srt ab(1) by (auto simp: heads_def sorted_wrt_append)
  ultimately show ?thesis by (auto simp: before_def)
qed



text \<open>
  C11. \<open>heap_free\<close> on an allocated block unlinks just that block and keeps the heap well formed and
  all sizes as they were; freeing the same block a second time changes nothing (it only prints).
\<close>

theorem heap_free_correct:
  assumes "heap_inv hp (b1 @ q # b2)"
  shows "\<exists>hp'. heap_free (q + HDR) hp = Some hp' \<and> heap_inv hp' (b1 @ b2) \<and>
    (\<forall>a. hsize (hp_store hp') a = hsize (hp_store hp) a) \<and> heap_free (q + HDR) hp' = Some hp'"
proof -
  obtain s' where "heap_free (q + HDR) hp = Some (hp\<lparr>hp_store := s'\<rparr>)" "heap_inv (hp\<lparr>hp_store := s'\<rparr>) (b1 @ b2)"
    "\<forall>a. hsize s' a = hsize (hp_store hp) a" "heap_free (q + HDR) (hp\<lparr>hp_store := s'\<rparr>) = Some (hp\<lparr>hp_store := s'\<rparr>)"
    using heap_free_inv [OF assms] by blast
  then show ?thesis by (intro exI [of _ "hp\<lparr>hp_store := s'\<rparr>"]) simp
qed

theorem heap_free_correct_witness:
  "\<exists>hp'. heap_free (0x10100 + HDR) heap_example2 = Some hp' \<and> heap_inv hp' ([0x1002C] @ []) \<and>
    (\<forall>a. hsize (hp_store hp') a = hsize (hp_store heap_example2) a) \<and> heap_free (0x10100 + HDR) hp' = Some hp'"
  by (rule heap_free_correct) (simp add: heap_example2_inv)

text \<open>
  Expanding the heap moves its end header up to the new end and keeps every block: the heap
  stays well formed with the same blocks of the same sizes, provided the new end is not below the
  old one and not beyond the address space.
\<close>

theorem heap_expand_correct:
  assumes "heap_inv hp bs" "heap_expand mm n hp = Some (mm', hp')"
    "unat (hp_end hp) + 44 \<le> unat (hp_start hp) + unat (round_page n)" "unat (hp_start hp) + unat (round_page n) \<le> 2 ^ 32"
  shows "heap_inv hp' bs \<and> unat (hp_end hp') + 44 = unat (hp_start hp) + unat (round_page n) \<and>
    (\<forall>a \<in> set bs. hsize (hp_store hp') a = hsize (hp_store hp) a)"
  using heap_expand_inv [OF assms] by blast

definition mm_example4 :: mm_state where
  "mm_example4 = mm_example\<lparr>kernel_dir := \<lparr>pd_tables = [Some (replicate 33 zero_page)], pd_phys = [0]\<rparr>\<rparr>"

lemma expand_example:
  "\<exists>mm'. expand_frames mm_example4 heap_example2 0x10001 0x10002 = Some mm'"
proof -
  have "fff_bits 5 0 32 = Some 1"
    using fff_bits.simps(2) [of 5 0 31] fff_bits.simps(2) [of 5 1 30] by simp
  then have "fff_words [0xFFFFFFFF, 5] 0 (Suc (Suc 0)) = Some 33" by (simp del: fff_bits.simps)
  then have "fff_words [0xFFFFFFFF, 5] 0 2 = Some 33" by (simp only: numeral_2_eq_2)
  then have "first_free_frame mm_example4 = Some 33"
    by (simp add: first_free_frame_def mm_example4_def mm_example_def del: fff_bits.simps fff_words.simps)
  then have "\<exists>mm'. alloc_frame mm_example4 (0, 32) False True = Some mm'"
    by (simp add: alloc_frame_def read_page_def write_page_def set_frame_def mm_example4_def mm_example_def zero_page_def Let_def)
  then obtain mm' where "alloc_frame mm_example4 (0, 32) False True = Some mm'" by blast
  then show ?thesis
    by (subst expand_frames.simps, subst expand_frames.simps)
      (simp add: get_page_def Let_def mm_example4_def heap_example2_def heap_example_def create_heap_def round_page_def)
qed

theorem heap_expand_correct_witness:
  "\<exists>mm' hp'. heap_expand mm_example4 0x10002 heap_example2 = Some (mm', hp') \<and>
    heap_inv hp' [0x1002C, 0x10100] \<and> unat (hp_end hp') + 44 = unat (hp_start heap_example2) + unat (round_page 0x10002) \<and>
    (\<forall>a \<in> set [0x1002C, 0x10100]. hsize (hp_store hp') a = hsize (hp_store heap_example2) a)"
proof -
  obtain mm' where "expand_frames mm_example4 heap_example2 0x10001 0x10002 = Some mm'" using expand_example by blast
  then have "\<exists>hp'. heap_expand mm_example4 0x10002 heap_example2 = Some (mm', hp')"
    by (simp add: heap_expand_def heap_get_size_def heap_example2_def heap_example_def create_heap_def round_page_def upd_hdr_def Let_def)
  then obtain hp' where e: "heap_expand mm_example4 0x10002 heap_example2 = Some (mm', hp')" by blast
  from heap_expand_correct [OF heap_example2_inv e] e show ?thesis
    by (simp add: heap_example2_def heap_example_def create_heap_def round_page_def Let_def)
qed

end
