(* ===== verification/Syscalls.thy ===== *)
theory Syscalls
  imports Procs FsOps Brainfuck Heap
begin

text \<open>
  Devices (\<open>pm/pm_devices.c\<close> and \<open>pm/dev_*.c\<close>) and system calls (\<open>pm/pm_syscalls.c\<close>) on the state of the whole
  kernel. A device's function pointers are its \<open>dev_kind\<close>. A system call gets the fields of its argument
  structure that it reads, and returns the field it sets. Memory of the caller is a byte list; what is
  written to it is returned.
\<close>

section \<open>The state of the kernel\<close>

datatype dev_kind = DevNull | DevStdout | DevStdin | DevFramebuffer | DevKeyboard | DevBrainfuck | DevClock

record device =
  dev_name :: bytes
  dev_fd :: s32
  dev_fn :: dev_kind

text \<open>\<open>devices\<close> is the linked list from \<open>devices_head\<close>; \<open>k_vga\<close> are the 2000 cells of the video memory.\<close>

record kernel =
  k_pm :: pm_state
  k_fs :: fs_state
  devices :: "device list"
  k_bf :: bf_state
  k_mm :: mm_state
  k_heap :: heap
  keyboard_state :: bytes
  k_vga :: "u16 list"

text \<open>The device structures that are declared in the files \<open>dev_*.c\<close>.\<close>

definition dev_null :: device where
  "dev_null = \<lparr>dev_name = [47, 100, 101, 118, 47, 110, 117, 108, 108], dev_fd = 0, dev_fn = DevNull\<rparr>"
definition dev_stdout :: device where
  "dev_stdout = \<lparr>dev_name = [47, 100, 101, 118, 47, 115, 116, 100, 111, 117, 116], dev_fd = 1, dev_fn = DevStdout\<rparr>"
definition dev_stdin :: device where
  "dev_stdin = \<lparr>dev_name = [47, 100, 101, 118, 47, 115, 116, 100, 105, 110], dev_fd = 2, dev_fn = DevStdin\<rparr>"
definition dev_framebuffer :: device where
  "dev_framebuffer = \<lparr>dev_name = [47, 100, 101, 118, 47, 102, 114, 97, 109, 101, 98, 117, 102, 102, 101, 114], dev_fd = 3,
     dev_fn = DevFramebuffer\<rparr>"
definition dev_keyboard :: device where
  "dev_keyboard = \<lparr>dev_name = [47, 100, 101, 118, 47, 107, 101, 121, 98, 111, 97, 114, 100], dev_fd = 4, dev_fn = DevKeyboard\<rparr>"
definition dev_brainfuck :: device where
  "dev_brainfuck = \<lparr>dev_name = [47, 100, 101, 118, 47, 98, 114, 97, 105, 110, 102, 117, 99, 107], dev_fd = 5,
     dev_fn = DevBrainfuck\<rparr>"
definition dev_clock :: device where
  "dev_clock = \<lparr>dev_name = [47, 100, 101, 118, 47, 99, 108, 111, 99, 107], dev_fd = 6, dev_fn = DevClock\<rparr>"

section \<open>The list of devices\<close>

fun find_device :: "(device \<Rightarrow> bool) \<Rightarrow> device list \<Rightarrow> device option" where
  "find_device P [] = None"
| "find_device P (d # ds) = (if P d then Some d else find_device P ds)"

definition pm_name2device :: "kernel \<Rightarrow> bytes \<Rightarrow> device option" where
  "pm_name2device k name = find_device (\<lambda>d. str_cmp (dev_name d) name = 0) (devices k)"

definition pm_fd2device :: "kernel \<Rightarrow> s32 \<Rightarrow> device option" where
  "pm_fd2device k fd = find_device (\<lambda>d. dev_fd d = fd) (devices k)"

text \<open>\<open>mem\<close> is what \<open>do_create\<close> needs, the memory behind the buffer of the file name.\<close>

definition pm_register_device :: "kernel \<Rightarrow> device \<Rightarrow> bytes \<Rightarrow> kernel option" where
  "pm_register_device k d mem =
     (if pm_name2device k (dev_name d) \<noteq> None then Some k
      else if pm_fd2device k (dev_fd d) \<noteq> None then Some k
      else do {
        let k = k\<lparr>devices := d # devices k\<rparr>;
        (fs, ex) \<leftarrow> do_file_exists (k_fs k) (dev_name d);
        fs \<leftarrow> (if \<not> ex then map_option fst (do_create fs (dev_name d) 0 mem) else Some fs);
        Some (k\<lparr>k_fs := fs\<rparr>) })"

fun register_devices :: "kernel \<Rightarrow> device list \<Rightarrow> bytes \<Rightarrow> kernel option" where
  "register_devices k [] mem = Some k"
| "register_devices k (d # ds) mem = do { k \<leftarrow> pm_register_device k d mem; register_devices k ds mem }"

text \<open>\<open>pm_init\<close>; the programs that \<open>init_bf\<close> writes to the disk are left out.\<close>

definition pm_init :: "kernel \<Rightarrow> u32 \<Rightarrow> bytes \<Rightarrow> bytes \<Rightarrow> kernel option" where
  "pm_init k addr fifo_mem mem = do {
     pm \<leftarrow> pm_init_proc (k_pm k) addr fifo_mem;
     (fs, ex) \<leftarrow> do_file_exists (k_fs k) [47, 100, 101, 118];
     fs \<leftarrow> (if \<not> ex then map_option fst (do_mkdir fs [47, 100, 101, 118] mem) else Some fs);
     k \<leftarrow> register_devices (k\<lparr>k_pm := pm, k_fs := fs\<rparr>)
            [dev_null, dev_stdout, dev_stdin, dev_framebuffer, dev_keyboard] mem;
     register_devices (k\<lparr>k_bf := init_bf []\<rparr>) [dev_brainfuck, dev_clock] mem }"

section \<open>The functions of the devices\<close>

definition upd_monitor :: "pm_state \<Rightarrow> nat \<Rightarrow> (vmonitor \<Rightarrow> vmonitor option) \<Rightarrow> pm_state option" where
  "upd_monitor s i f = do {
     vm \<leftarrow> rd_at (vmonitors s) i;
     vm \<leftarrow> f vm;
     v \<leftarrow> wr_at (vmonitors s) i vm;
     Some (s\<lparr>vmonitors := v\<rparr>) }"

definition dev_open :: "kernel \<Rightarrow> device \<Rightarrow> (kernel \<times> s32) option" where
  "dev_open k d =
     (if dev_fn d = DevFramebuffer then do {
        pm \<leftarrow> upd_monitor (k_pm k) (get_active_virt_monitor (k_pm k)) (\<lambda>vm. Some (vm\<lparr>disable_refresh := True\<rparr>));
        Some (k\<lparr>k_pm := pm\<rparr>, dev_fd d) }
      else Some (k, dev_fd d))"

definition dev_close :: "kernel \<Rightarrow> device \<Rightarrow> (kernel \<times> s32) option" where
  "dev_close k d =
     (if dev_fn d = DevFramebuffer then do {
        pm \<leftarrow> upd_monitor (k_pm k) (get_active_virt_monitor (k_pm k)) (\<lambda>vm. Some (vm\<lparr>disable_refresh := False\<rparr>));
        Some (k\<lparr>k_pm := pm\<rparr>, 0) }
      else Some (k, 0))"

text \<open>
  One test of the loop in \<open>dev_stdin_read\<close>, and the read when the loop ends. \<open>Inl\<close>: the process sleeps until the
  next interrupt and will test again.
\<close>

definition dev_stdin_read :: "pm_state \<Rightarrow> u32 \<Rightarrow> (pm_state \<times> (unit + bytes \<times> s32)) option" where
  "dev_stdin_read s sz = do {
     p \<leftarrow> p_store s (active_proc s);
     f \<leftarrow> p_stdin p;
     if sz > rf_getlength f \<and> active_proc s \<noteq> focus_proc s then do {
       s \<leftarrow> upd_proc s (active_proc s) (\<lambda>q. q\<lparr>p_state := PSTATE_STDINSLEEP\<rparr>);
       Some (s, Inl ()) }
     else do {
       (f, out, n) \<leftarrow> rf_read (Some f) True sz;
       s \<leftarrow> upd_proc s (active_proc s) (\<lambda>q. q\<lparr>p_stdin := f\<rparr>);
       Some (s, Inr (out, n)) } }"

text \<open>
  \<open>buf\<close> is the memory of the caller from the pointer on. \<open>clock_str\<close> is the string that \<open>time2str\<close> makes of the
  time, and the new contents of the buffer are what is returned; \<open>mem\<close> is the memory for the Brainfuck
  interpreter.
\<close>

definition dev_read ::
  "(nat \<Rightarrow> bytes) \<Rightarrow> bytes \<Rightarrow> kernel \<Rightarrow> device \<Rightarrow> bytes \<Rightarrow> s32 \<Rightarrow> (kernel \<times> (unit + bytes \<times> s32)) option" where
  "dev_read mem clock_str k d buf sz = (case dev_fn d of
       DevNull \<Rightarrow> do { b \<leftarrow> wr_run 0 (replicate (unat sz) 0) buf; Some (k, Inr (b, sz)) }
     | DevStdout \<Rightarrow> Some (k, Inr (buf, 0))
     | DevStdin \<Rightarrow> do {
         (pm, r) \<leftarrow> dev_stdin_read (k_pm k) sz;
         case r of
           Inl u \<Rightarrow> Some (k\<lparr>k_pm := pm\<rparr>, Inl u)
         | Inr (out, n) \<Rightarrow> do { b \<leftarrow> wr_run 0 out buf; Some (k\<lparr>k_pm := pm\<rparr>, Inr (b, n)) } }
     | DevFramebuffer \<Rightarrow> Some (k, Inr (buf, - 1))
     | DevKeyboard \<Rightarrow>
         if sz = 0 then Some (k, Inr (buf, - 1))
         else do {
           let to_copy = (if sint sz < 256 then sz else 256);
           run \<leftarrow> rd_run 0 (unat to_copy) (keyboard_state k);
           b \<leftarrow> wr_run 0 run buf;
           Some (k, Inr (b, to_copy)) }
     | DevBrainfuck \<Rightarrow> do {
         run \<leftarrow> rd_run 0 (nat (sint sz)) buf;
         s \<leftarrow> interpret_all mem (k_bf k) run;
         Some (k\<lparr>k_bf := s\<rparr>, Inr (buf, 0)) }
     | DevClock \<Rightarrow> do {
         b \<leftarrow> wr_run 0 (take (unat sz) (clock_str @ replicate (unat sz - length clock_str) 0)) buf;
         str \<leftarrow> buf_str b;
         Some (k, Inr (b, word_of_nat (length str))) })"

definition is_bf_char :: "u8 \<Rightarrow> bool" where
  "is_bf_char c \<longleftrightarrow> c = 46 \<or> c = 44 \<or> c = 43 \<or> c = 45 \<or> c = 60 \<or> c = 62 \<or> c = 91 \<or> c = 93"

text \<open>A colour of the frame buffer as a cell of the video memory: a space with that background.\<close>

definition fb_cell :: "u8 \<Rightarrow> u16" where
  "fb_cell c = ucast c * 0x1000 + 32"

definition dev_write :: "(nat \<Rightarrow> bytes) \<Rightarrow> kernel \<Rightarrow> device \<Rightarrow> bytes \<Rightarrow> s32 \<Rightarrow> (kernel \<times> s32) option" where
  "dev_write mem k d buf sz = (case dev_fn d of
       DevNull \<Rightarrow> Some (k, sz)
     | DevStdout \<Rightarrow> do {
         run \<leftarrow> rd_run 0 (unat sz) buf;
         p \<leftarrow> p_store (k_pm k) (active_proc (k_pm k));
         pm \<leftarrow> upd_monitor (k_pm k) (p_vmonitor p)
                 (\<lambda>vm. map_option fst (virt_monitor_puts vm (takeWhile (\<lambda>c. c \<noteq> 0) run)));
         Some (k\<lparr>k_pm := pm\<rparr>, sz) }
     | DevStdin \<Rightarrow> do {
         p \<leftarrow> p_store (k_pm k) (active_proc (k_pm k));
         (f, n) \<leftarrow> rf_write (p_stdin p) (Some buf) sz;
         pm \<leftarrow> upd_proc (k_pm k) (active_proc (k_pm k)) (\<lambda>q. q\<lparr>p_stdin := f\<rparr>);
         Some (k\<lparr>k_pm := pm\<rparr>, n) }
     | DevFramebuffer \<Rightarrow> do {
         let sz = (if sint sz > 2000 then 2000 else sz);
         run \<leftarrow> rd_run 0 (nat (sint sz)) buf;
         v \<leftarrow> wr_run 0 (map fb_cell run) (k_vga k);
         Some (k\<lparr>k_vga := v\<rparr>, sz) }
     | DevKeyboard \<Rightarrow> Some (k, - 1)
     | DevBrainfuck \<Rightarrow> do {
         run \<leftarrow> rd_run 0 (nat (sint sz)) buf;
         s \<leftarrow> interpret_all mem (k_bf k) (filter is_bf_char run);
         Some (k\<lparr>k_bf := s\<rparr>, sz) }
     | DevClock \<Rightarrow> Some (k, - 1))"

definition dev_seek :: "device \<Rightarrow> s32" where
  "dev_seek d = - 1"

section \<open>System calls on files\<close>

definition MAX_DEVICES :: s32 where "MAX_DEVICES = 100"
definition O_CREAT :: s32 where "O_CREAT = 1"

text \<open>The file table of the active process.\<close>

definition active_pft :: "kernel \<Rightarrow> proc_file list option" where
  "active_pft k = map_option p_pft (p_store (k_pm k) (active_proc (k_pm k)))"

definition set_active_pft :: "kernel \<Rightarrow> proc_file list \<Rightarrow> kernel option" where
  "set_active_pft k pft = do {
     pm \<leftarrow> upd_proc (k_pm k) (active_proc (k_pm k)) (\<lambda>q. q\<lparr>p_pft := pft\<rparr>);
     Some (k\<lparr>k_pm := pm\<rparr>) }"

text \<open>The path that is made for a missing file, and whether it is a directory; an empty path is read before its start.\<close>

definition sys_open :: "kernel \<Rightarrow> bytes \<Rightarrow> s32 \<Rightarrow> bytes \<Rightarrow> (kernel \<times> s32) option" where
  "sys_open k path oflag mem = (case pm_name2device k path of
       Some d \<Rightarrow> dev_open k d
     | None \<Rightarrow> do {
         (fs, fd) \<leftarrow> do_open (k_fs k) path;
         (fs, fd) \<leftarrow>
           (if fd = - 1 \<and> oflag = O_CREAT then
              if path = [] then None
              else if last path = 47 then do {
                (fs, r) \<leftarrow> do_mkdir fs (butlast path) mem;
                do_open fs (butlast path) }
              else do {
                (fs, r) \<leftarrow> do_mkfile fs path mem;
                do_open fs path }
            else Some (fs, fd));
         if fd = - 1 then Some (k\<lparr>k_fs := fs\<rparr>, - 1)
         else do {
           pft \<leftarrow> active_pft k;
           (fs, pft, pfd) \<leftarrow> insert_proc_file fs pft fd;
           k \<leftarrow> set_active_pft (k\<lparr>k_fs := fs\<rparr>) pft;
           Some (k, scast pfd + MAX_DEVICES) } })"

definition sys_close :: "kernel \<Rightarrow> s32 \<Rightarrow> (kernel \<times> s32) option" where
  "sys_close k fd =
     (if fd <s 0 then Some (k, - 1)
      else if fd <s MAX_DEVICES then
        (case pm_fd2device k fd of None \<Rightarrow> Some (k, - 1) | Some d \<Rightarrow> dev_close k d)
      else do {
        pft \<leftarrow> active_pft k;
        (fs, pft, r) \<leftarrow> do_close_pf (k_fs k) pft (ucast (fd - MAX_DEVICES));
        k \<leftarrow> set_active_pft (k\<lparr>k_fs := fs\<rparr>) pft;
        Some (k, if r = - 1 then - 1 else 0) })"

text \<open>\<open>pft_entry\<close> is not tested for \<open>NULL\<close>.\<close>

definition sys_read ::
  "(nat \<Rightarrow> bytes) \<Rightarrow> bytes \<Rightarrow> kernel \<Rightarrow> s32 \<Rightarrow> bytes \<Rightarrow> s32 \<Rightarrow> (kernel \<times> (unit + bytes \<times> s32)) option" where
  "sys_read mem clock_str k fd buf sz =
     (if fd <s MAX_DEVICES then
        (case pm_fd2device k fd of None \<Rightarrow> Some (k, Inr (buf, - 1)) | Some d \<Rightarrow> dev_read mem clock_str k d buf sz)
      else do {
        pft \<leftarrow> active_pft k;
        i \<leftarrow> get_proc_file pft (ucast (fd - MAX_DEVICES));
        (fs, data, n) \<leftarrow> do_read (k_fs k) (pf_f_desc (pft ! i)) sz (pf_pos (pft ! i));
        b \<leftarrow> wr_run 0 data buf;
        k \<leftarrow> set_active_pft (k\<lparr>k_fs := fs\<rparr>) (pft[i := (pft ! i)\<lparr>pf_pos := pf_pos (pft ! i) + n\<rparr>]);
        Some (k, Inr (b, n)) })"

definition sys_write :: "(nat \<Rightarrow> bytes) \<Rightarrow> kernel \<Rightarrow> s32 \<Rightarrow> bytes \<Rightarrow> s32 \<Rightarrow> (kernel \<times> s32) option" where
  "sys_write mem k fd buf sz =
     (if fd <s MAX_DEVICES then
        (case pm_fd2device k fd of None \<Rightarrow> Some (k, - 1) | Some d \<Rightarrow> dev_write mem k d buf sz)
      else do {
        pft \<leftarrow> active_pft k;
        i \<leftarrow> get_proc_file pft (ucast (fd - MAX_DEVICES));
        info \<leftarrow> get_file_info (k_fs k) (pf_f_desc (pft ! i));
        if fi_mode info = DIRECTORY then Some (k, - 1)
        else do {
          (fs, n) \<leftarrow> do_write (k_fs k) (pf_f_desc (pft ! i)) buf sz (pf_pos (pft ! i));
          k \<leftarrow> set_active_pft (k\<lparr>k_fs := fs\<rparr>) (pft[i := (pft ! i)\<lparr>pf_pos := pf_pos (pft ! i) + n\<rparr>]);
          Some (k, n) } })"

definition sys_seek :: "kernel \<Rightarrow> s32 \<Rightarrow> s32 \<Rightarrow> s32 \<Rightarrow> (kernel \<times> s32) option" where
  "sys_seek k fd offset whence =
     (if fd <s MAX_DEVICES then
        (case pm_fd2device k fd of None \<Rightarrow> Some (k, - 1) | Some d \<Rightarrow> Some (k, dev_seek d))
      else do {
        pft \<leftarrow> active_pft k;
        i \<leftarrow> get_proc_file pft (ucast (fd - MAX_DEVICES));
        pos \<leftarrow> (if whence = 0 then Some offset
                else if whence = 1 then Some (pf_pos (pft ! i) + offset)
                else if whence = 2 then do {
                  j \<leftarrow> inode_of (k_fs k) (pf_f_desc (pft ! i));
                  m \<leftarrow> rd_at (inode_table (k_fs k)) j;
                  Some (i_size m + offset) }
                else Some (pf_pos (pft ! i)));
        k \<leftarrow> set_active_pft k (pft[i := (pft ! i)\<lparr>pf_pos := pos\<rparr>]);
        Some (k, pos) })"

definition sys_unlink :: "kernel \<Rightarrow> bytes \<Rightarrow> bytes \<Rightarrow> (kernel \<times> s32) option" where
  "sys_unlink k path mem = do {
     (fs, fd) \<leftarrow> do_open (k_fs k) path;
     if fd = - 1 then Some (k\<lparr>k_fs := fs\<rparr>, - 1)
     else do {
       i \<leftarrow> get_file fs fd;
       if f_count (gft fs ! i) > 0 then do { (fs, r) \<leftarrow> do_close fs fd; Some (k\<lparr>k_fs := fs\<rparr>, - 1) }
       else do {
         info \<leftarrow> get_file_info fs fd;
         if fi_mode info = DIRECTORY \<and> fi_size info > 0 then do { (fs, r) \<leftarrow> do_close fs fd; Some (k\<lparr>k_fs := fs\<rparr>, - 1) }
         else do {
           (fs, r) \<leftarrow> do_close fs fd;
           (fs, r) \<leftarrow> do_remove fs path mem;
           Some (k\<lparr>k_fs := fs\<rparr>, r) } } } }"

text \<open>The information goes to the buffer of the caller; it is returned.\<close>

definition sys_stat :: "kernel \<Rightarrow> bytes \<Rightarrow> (kernel \<times> file_info option \<times> s32) option" where
  "sys_stat k path = do {
     (fs, fd) \<leftarrow> do_open (k_fs k) path;
     if fd = - 1 then Some (k\<lparr>k_fs := fs\<rparr>, None, - 1)
     else do {
       pft \<leftarrow> active_pft k;
       (fs, pft, pfd) \<leftarrow> insert_proc_file fs pft fd;
       info \<leftarrow> get_file_info fs fd;
       (fs, pft, r) \<leftarrow> do_close_pf fs pft pfd;
       k \<leftarrow> set_active_pft (k\<lparr>k_fs := fs\<rparr>) pft;
       Some (k, Some info, 0) } }"

section \<open>System calls on processes\<close>

text \<open>\<open>exit\<close> of the kernel process is a panic.\<close>

definition sys_exit :: "kernel \<Rightarrow> kernel option" where
  "sys_exit k = do {
     pid \<leftarrow> getpid (k_pm k);
     if pid = 0 then None
     else do {
       pm \<leftarrow> upd_proc (k_pm k) (active_proc (k_pm k)) (\<lambda>q. q\<lparr>p_state := PSTATE_DEAD\<rparr>);
       Some (k\<lparr>k_pm := pm\<rparr>) } }"

definition sys_getpid :: "kernel \<Rightarrow> u32 option" where
  "sys_getpid k = getpid (k_pm k)"

definition sys_kill :: "kernel \<Rightarrow> u32 \<Rightarrow> kernel option" where
  "sys_kill k pid = do { pm \<leftarrow> pm_kill_proc (k_pm k) pid; Some (k\<lparr>k_pm := pm\<rparr>) }"

text \<open>\<open>puts\<close> writes to the monitor of the kernel process, to the active one before that process exists.\<close>

definition select_vmonitor :: "pm_state \<Rightarrow> nat option" where
  "select_vmonitor s = (if kernel_proc s = 0 then Some (get_active_virt_monitor s)
     else map_option p_vmonitor (p_store s (kernel_proc s)))"

definition sys_log :: "kernel \<Rightarrow> bytes \<Rightarrow> kernel option" where
  "sys_log k str = do {
     v \<leftarrow> select_vmonitor (k_pm k);
     pm \<leftarrow> upd_monitor (k_pm k) v (\<lambda>vm. map_option fst (virt_monitor_cputs vm str WHITE BLACK 0));
     Some (k\<lparr>k_pm := pm\<rparr>) }"

definition sys_malloc :: "kernel \<Rightarrow> u32 \<Rightarrow> (kernel \<times> u32) option" where
  "sys_malloc k sz = do {
     p \<leftarrow> p_store (k_pm k) (active_proc (k_pm k));
     (mm, hp, a) \<leftarrow> heap_mallocn (k_mm k) (k_heap k) sz (p_name p);
     Some (k\<lparr>k_mm := mm, k_heap := hp\<rparr>, a) }"

definition sys_free :: "kernel \<Rightarrow> u32 \<Rightarrow> kernel option" where
  "sys_free k a = do { hp \<leftarrow> heap_free a (k_heap k); Some (k\<lparr>k_heap := hp\<rparr>) }"

section \<open>Dispatch\<close>

text \<open>
  What the pointer \<open>data\<close> refers to, as the client sets it up for its call, and what comes back. A
  structure of the wrong kind has no result.
\<close>

datatype sys_args = ArgStr bytes | ArgNone | ArgOpen bytes s32 | ArgFd s32 | ArgBuf s32 bytes s32 | ArgSeek s32 s32 s32
  | ArgWord u32

datatype sys_result = RNone | RInt s32 | RBuf bytes s32 | RWait | RStat "file_info option" s32

definition MAX_SYSCALL :: u32 where "MAX_SYSCALL = 12"

text \<open>The environment of the calls: memory for the interpreter, the time as a string, and memory behind names.\<close>

record sys_env =
  env_bf :: "nat \<Rightarrow> bytes"
  env_clock :: bytes
  env_mem :: bytes

text \<open>The handlers in the order of \<open>syscall_table\<close>.\<close>

definition syscall_table :: "sys_env \<Rightarrow> kernel \<Rightarrow> nat \<Rightarrow> sys_args \<Rightarrow> (kernel \<times> sys_result) option" where
  "syscall_table e k n args =
     (if n = 0 then (case args of ArgStr str \<Rightarrow> do { k \<leftarrow> sys_log k str; Some (k, RNone) } | _ \<Rightarrow> None)
      else if n = 1 then (case args of ArgNone \<Rightarrow> do { k \<leftarrow> sys_exit k; Some (k, RNone) } | _ \<Rightarrow> None)
      else if n = 2 then (case args of ArgNone \<Rightarrow> do { pid \<leftarrow> sys_getpid k; Some (k, RInt pid) } | _ \<Rightarrow> None)
      else if n = 3 then (case args of
          ArgOpen path oflag \<Rightarrow> do { (k, fd) \<leftarrow> sys_open k path oflag (env_mem e); Some (k, RInt fd) } | _ \<Rightarrow> None)
      else if n = 4 then (case args of
          ArgFd fd \<Rightarrow> do { (k, r) \<leftarrow> sys_close k fd; Some (k, RInt r) } | _ \<Rightarrow> None)
      else if n = 5 then (case args of
          ArgBuf fd buf sz \<Rightarrow> do {
            (k, r) \<leftarrow> sys_read (env_bf e) (env_clock e) k fd buf sz;
            Some (k, case r of Inl u \<Rightarrow> RWait | Inr (b, n) \<Rightarrow> RBuf b n) } | _ \<Rightarrow> None)
      else if n = 6 then (case args of
          ArgBuf fd buf sz \<Rightarrow> do { (k, r) \<leftarrow> sys_write (env_bf e) k fd buf sz; Some (k, RInt r) } | _ \<Rightarrow> None)
      else if n = 7 then (case args of
          ArgSeek fd offset whence \<Rightarrow> do { (k, r) \<leftarrow> sys_seek k fd offset whence; Some (k, RInt r) } | _ \<Rightarrow> None)
      else if n = 8 then (case args of ArgWord sz \<Rightarrow> do { (k, a) \<leftarrow> sys_malloc k sz; Some (k, RInt a) } | _ \<Rightarrow> None)
      else if n = 9 then (case args of ArgWord a \<Rightarrow> do { k \<leftarrow> sys_free k a; Some (k, RNone) } | _ \<Rightarrow> None)
      else if n = 10 then (case args of
          ArgStr path \<Rightarrow> do { (k, r) \<leftarrow> sys_unlink k path (env_mem e); Some (k, RInt r) } | _ \<Rightarrow> None)
      else if n = 11 then (case args of
          ArgStr path \<Rightarrow> do { (k, info, r) \<leftarrow> sys_stat k path; Some (k, RStat info r) } | _ \<Rightarrow> None)
      else if n = 12 then (case args of ArgWord pid \<Rightarrow> do { k \<leftarrow> sys_kill k pid; Some (k, RNone) } | _ \<Rightarrow> None)
      else None)"

definition pm_syscall :: "sys_env \<Rightarrow> kernel \<Rightarrow> u32 \<Rightarrow> sys_args \<Rightarrow> (kernel \<times> sys_result) option" where
  "pm_syscall e k nr args = (if nr > MAX_SYSCALL then None else syscall_table e k (unat nr) args)"

end
