(* ===== verification/Keyboard.thy ===== *)
theory Keyboard
  imports Syscalls "HOL-Library.Signed_Division"
begin

text \<open>
  The keyboard interrupt (\<open>io/io_keyboard.c\<close>, with the key maps of \<open>io/io_keyboard.h\<close>) and the timer interrupt
  (\<open>io/io_timer.c\<close>). A function of a shortcut is a number, and the one that is to be called is a result.
\<close>

section \<open>Key maps\<close>

definition kb_map :: bytes where
  "kb_map = [
    0, 7, 49, 50, 51, 52, 53, 54, 55, 56, 57, 48, 225, 0, 8, 9, 113, 119, 101, 114, 116, 122, 117, 105, 111,
    112, 129, 43, 10, 0, 97, 115, 100, 102, 103, 104, 106, 107, 108, 148, 132, 0, 0, 35, 121, 120, 99, 118,
    98, 110, 109, 44, 46, 45, 0, 0, 0, 32, 0, 0, 0, 0, 0, 0, 0, 0, 0, 0, 0, 0, 0, 0, 0, 0, 0, 0, 0, 0, 0, 0,
    0, 0, 0, 0, 0, 0, 60, 0, 0, 0, 0, 0, 0, 0, 0, 0, 0, 0, 0, 0, 0, 0, 0, 0, 0, 0, 0, 0, 0, 0, 0, 0, 0, 0, 0,
    0, 0, 0, 0, 0, 0, 0, 0, 0, 0, 0, 0, 0]"

definition kb_shift_map :: bytes where
  "kb_shift_map = [
    0, 0, 33, 34, 245, 36, 37, 38, 47, 40, 41, 61, 63, 0, 8, 9, 81, 87, 69, 82, 84, 90, 85, 73, 79, 80, 154,
    42, 10, 0, 65, 83, 68, 70, 71, 72, 74, 75, 76, 153, 142, 0, 0, 39, 89, 88, 67, 86, 66, 78, 77, 59, 58,
    95, 0, 0, 0, 32, 0, 0, 0, 0, 0, 0, 0, 0, 0, 0, 0, 0, 0, 0, 0, 0, 0, 0, 0, 0, 0, 0, 0, 0, 0, 0, 0, 0, 62,
    0, 0, 0, 0, 0, 0, 0, 0, 0, 0, 0, 0, 0, 0, 0, 0, 0, 0, 0, 0, 0, 0, 0, 0, 0, 0, 0, 0, 0, 0, 0, 0, 0, 0, 0,
    0, 0, 0, 0, 0, 0]"

definition kb_alt_map :: bytes where
  "kb_alt_map = [
    0, 0, 251, 253, 252, 172, 171, 170, 123, 91, 93, 125, 92, 0, 8, 9, 64, 0, 0, 244, 0, 0, 0, 0, 155, 232,
    0, 126, 10, 0, 145, 149, 0, 0, 0, 0, 0, 0, 0, 0, 0, 0, 0, 0, 174, 175, 189, 0, 0, 0, 0, 0, 0, 0, 0, 0, 0,
    32, 0, 0, 0, 0, 0, 0, 0, 0, 0, 0, 0, 0, 0, 0, 0, 0, 0, 0, 0, 0, 0, 0, 0, 0, 0, 0, 0, 0, 0, 0, 0, 0, 0, 0,
    0, 0, 0, 0, 0, 0, 0, 0, 0, 0, 0, 0, 0, 0, 0, 0, 0, 0, 0, 0, 0, 0, 0, 0, 0, 0, 0, 0, 0, 0, 0, 0, 0, 0, 0, 0]"

definition LSHIFT :: u8 where "LSHIFT = 0x2A"
definition RSHIFT :: u8 where "RSHIFT = 0x36"
definition ALT :: u8 where "ALT = 0x38"
definition SCROLL_UP :: u8 where "SCROLL_UP = 0x49"
definition SCROLL_DOWN :: u8 where "SCROLL_DOWN = 0x51"
definition CURSOR_UP :: u8 where "CURSOR_UP = 0x48"
definition CURSOR_DOWN :: u8 where "CURSOR_DOWN = 0x50"
definition CURSOR_LEFT :: u8 where "CURSOR_LEFT = 0x4B"
definition CURSOR_RIGHT :: u8 where "CURSOR_RIGHT = 0x4D"
definition CTRL :: u8 where "CTRL = 0x1D"
definition SUPER :: u8 where "SUPER = 0x5B"
definition ESCAPE :: u8 where "ESCAPE = 0x01"

section \<open>Shortcuts\<close>

record shortcut =
  sc_func :: nat
  sc_control :: bool
  sc_super :: bool
  sc_ch :: u8

record kbd =
  kb_shift :: bool
  kb_alt :: bool
  kb_super :: bool
  kb_ctrl :: bool
  kb_echo :: bool
  shortcuts :: "shortcut list"
  shcut_num :: u8

text \<open>\<open>shcut_num\<close> has 8 bits, so that the test never fails and the number wraps around.\<close>

definition add_shortcut :: "kbd \<Rightarrow> bool \<Rightarrow> bool \<Rightarrow> u8 \<Rightarrow> nat \<Rightarrow> kbd option" where
  "add_shortcut b control_flag super_flag character func = do {
     l \<leftarrow> wr_at (shortcuts b) (unat (shcut_num b))
            \<lparr>sc_func = func, sc_control = control_flag, sc_super = super_flag, sc_ch = character\<rparr>;
     Some (b\<lparr>shortcuts := l,
       shcut_num := (if unat (shcut_num b) + 1 < 300 then shcut_num b + 1 else shcut_num b)\<rparr>) }"

text \<open>The first of the registered shortcuts, and of the free entry behind them, that matches.\<close>

definition find_shortcut :: "kbd \<Rightarrow> bool \<Rightarrow> bool \<Rightarrow> u8 \<Rightarrow> nat option" where
  "find_shortcut b control super ch =
     map_option (\<lambda>i. sc_func (shortcuts b ! i))
       (first_index (\<lambda>c. sc_control c = control \<and> sc_super c = super \<and> sc_ch c = ch)
          (take (unat (shcut_num b) + 1) (shortcuts b)))"

section \<open>The interrupt handler\<close>

text \<open>A character: echoed on the active monitor, or given to the process in focus.\<close>

definition kb_char :: "kbd \<Rightarrow> kernel \<Rightarrow> u8 \<Rightarrow> kernel option" where
  "kb_char b k c =
     (if c = 0 then Some k
      else do {
        pm \<leftarrow> (if kb_echo b then upd_monitor (k_pm k) (get_active_virt_monitor (k_pm k)) (\<lambda>vm. virt_monitor_putc vm c)
               else pm_handle_input (k_pm k) c);
        Some (k\<lparr>k_pm := pm\<rparr>) })"

definition kb_monitor :: "kernel \<Rightarrow> (vmonitor \<Rightarrow> vmonitor option) \<Rightarrow> kernel option" where
  "kb_monitor k f = do {
     pm \<leftarrow> upd_monitor (k_pm k) (get_active_virt_monitor (k_pm k)) f;
     Some (k\<lparr>k_pm := pm\<rparr>) }"

definition set_key :: "kernel \<Rightarrow> u8 \<Rightarrow> u8 \<Rightarrow> kernel option" where
  "set_key k scancode v = do {
     s \<leftarrow> wr_at (keyboard_state k) (unat scancode) v;
     Some (k\<lparr>keyboard_state := s\<rparr>) }"

definition kb_released :: "kbd \<Rightarrow> kernel \<Rightarrow> u8 \<Rightarrow> (kbd \<times> kernel) option" where
  "kb_released b k key = do {
     k \<leftarrow> set_key k key 0;
     Some (if key = LSHIFT \<or> key = RSHIFT then b\<lparr>kb_shift := False\<rparr>
           else if key = ALT then b\<lparr>kb_alt := False\<rparr>
           else if key = CTRL then b\<lparr>kb_ctrl := False\<rparr>
           else if key = SUPER then b\<lparr>kb_super := False\<rparr>
           else b, k) }"

text \<open>A key without a modifier: the last branch with its \<open>switch\<close>.\<close>

definition kb_plain :: "kbd \<Rightarrow> kernel \<Rightarrow> u8 \<Rightarrow> (kbd \<times> kernel) option" where
  "kb_plain b k scancode = do {
     k \<leftarrow> set_key k scancode 1;
     if scancode = CTRL then Some (b\<lparr>kb_ctrl := True\<rparr>, k)
     else if scancode = SUPER then Some (b\<lparr>kb_super := True\<rparr>, k)
     else if scancode = CURSOR_UP then do { k \<leftarrow> kb_monitor k (\<lambda>vm. Some (fst (virt_cursor_move vm 0))); Some (b, k) }
     else if scancode = CURSOR_DOWN then do { k \<leftarrow> kb_monitor k (\<lambda>vm. Some (fst (virt_cursor_move vm 1))); Some (b, k) }
     else if scancode = CURSOR_LEFT then do { k \<leftarrow> kb_monitor k (\<lambda>vm. Some (fst (virt_cursor_move vm 2))); Some (b, k) }
     else if scancode = CURSOR_RIGHT then do { k \<leftarrow> kb_monitor k (\<lambda>vm. Some (fst (virt_cursor_move vm 3))); Some (b, k) }
     else if scancode = LSHIFT \<or> scancode = RSHIFT then Some (b\<lparr>kb_shift := True\<rparr>, k)
     else if scancode = ALT then Some (b\<lparr>kb_alt := True\<rparr>, k)
     else if scancode = SCROLL_UP then do { k \<leftarrow> kb_monitor k (\<lambda>vm. Some (virt_monitor_scrollup vm)); Some (b, k) }
     else if scancode = SCROLL_DOWN then do { k \<leftarrow> kb_monitor k (\<lambda>vm. Some (virt_monitor_scrolldown vm)); Some (b, k) }
     else do {
       c \<leftarrow> rd_at kb_map (unat scancode);
       k \<leftarrow> kb_char b k c;
       Some (b, k) } }"

text \<open>The last result is the function of the shortcut that is called.\<close>

definition kb_handler :: "kbd \<Rightarrow> kernel \<Rightarrow> u8 \<Rightarrow> (kbd \<times> kernel \<times> nat option) option" where
  "kb_handler b k scancode =
     (if scancode AND 0x80 \<noteq> 0 then do { (b, k) \<leftarrow> kb_released b k (scancode AND 0x7F); Some (b, k, None) }
      else if kb_shift b then do {
        c \<leftarrow> rd_at kb_shift_map (unat scancode);
        k \<leftarrow> kb_char b k c;
        Some (b, k, None) }
      else if kb_alt b then do {
        k \<leftarrow> (if scancode = ESCAPE then kb_monitor k virt_monitor_invert else Some k);
        c \<leftarrow> rd_at kb_alt_map (unat scancode);
        k \<leftarrow> kb_char b k c;
        Some (b, k, None) }
      else if kb_ctrl b \<and> kb_super b then do { c \<leftarrow> rd_at kb_map (unat scancode); Some (b, k, find_shortcut b True True c) }
      else if kb_ctrl b \<and> scancode \<noteq> SUPER then do {
        c \<leftarrow> rd_at kb_map (unat scancode);
        Some (b, k, find_shortcut b True False c) }
      else if kb_super b \<and> scancode \<noteq> CTRL then do {
        c \<leftarrow> rd_at kb_map (unat scancode);
        Some (b, k, find_shortcut b False True c) }
      else do { (b, k) \<leftarrow> kb_plain b k scancode; Some (b, k, None) })"

section \<open>The timer\<close>

definition SINT32_MAX :: s32 where "SINT32_MAX = 0x7FFFFFFF"

text \<open>
  \<open>rtc\<close> is the time that \<open>rtc_update\<close> reads. The screen that \<open>update_virt_monitor\<close> copies is the second
  result, the context to switch to the third.
\<close>

definition timer_handler :: "s32 \<Rightarrow> kernel \<Rightarrow> (time_t \<Rightarrow> time_t) \<Rightarrow> u32 \<Rightarrow> (s32 \<times> kernel \<times> bytes option \<times> u32) option" where
  "timer_handler ticks k rtc context = do {
     let ticks = ticks + 1;
     let ticks = (if ticks = SINT32_MAX then 0 else ticks);
     let k = k\<lparr>k_fs := (k_fs k)\<lparr>fs_time := rtc (fs_time (k_fs k))\<rparr>\<rparr>;
     vm \<leftarrow> rd_at (vmonitors (k_pm k)) (get_active_virt_monitor (k_pm k));
     screen \<leftarrow> update_virt_monitor vm;
     (pm, ctx) \<leftarrow> pm_schedule (k_pm k) context;
     Some (ticks, k\<lparr>k_pm := pm\<rparr>, screen, ctx) }"

text \<open>The two bytes of the divisor that \<open>timer_init\<close> sends to the timer, the low one first.\<close>

definition timer_init :: "s32 \<Rightarrow> (u8 \<times> u8) option" where
  "timer_init freq =
     (if freq = 0 then None
      else let counter = 1193180 sdiv sint freq
           in Some (word_of_int (counter smod 0x100), word_of_int (counter sdiv 0x100)))"

text \<open>The frequency divisor for the speaker: taken modulo and divided by 255, not by 256.\<close>

definition start_beep :: "u32 \<Rightarrow> (u8 \<times> u8) option" where
  "start_beep freq =
     (if freq = 0 then None
      else let note = ucast (1193180 div freq) :: u16 in Some (ucast (note mod 0xFF), ucast (note div 0xFF)))"

end
