(* ===== verification/Stdio.thy ===== *)
theory Stdio
  imports Numconv
begin

text \<open>
  Formatted output (\<open>vsnprintf\<close> of \<open>lib/stdio.c\<close>). Format and result are byte lists; the result has the
  bytes that are stored through \<open>s\<close>, the terminator included, and the return value. Whether they fit is a
  question to the result: the function is given the size \<open>n\<close> of the buffer. The numerals are
  \<open>itoa_str\<close>, which \<open>itoa\<close> writes into the local buffer of 40 bytes.
\<close>

section \<open>Formatting\<close>

text \<open>The arguments, as \<open>va_arg\<close> takes them: integers and characters, and strings (\<open>None\<close> is \<open>NULL\<close>).\<close>

datatype fmt_arg = IntArg s32 | StrArg "bytes option"

text \<open>\<open>while (*buf_ptr && written++ < n-1)\<close>: what is stored, and \<open>written\<close>.\<close>

fun put_num :: "bytes \<Rightarrow> int \<Rightarrow> int \<Rightarrow> bytes \<times> int" where
  "put_num [] written n = ([], written)"
| "put_num (c # cs) written n =
     (if written < n - 1 then case put_num cs (written + 1) n of (out, w) \<Rightarrow> (c # out, w)
      else ([], written + 1))"

text \<open>
  The characters d, i, u, o, b, x and p select a base, c is a character and s a string. An argument
  of another type, or none, has no result; nor has a format that ends with the percent sign, where
  the loop reads on behind the terminator.
\<close>

definition fmt_base :: "u8 \<Rightarrow> u32 option" where
  "fmt_base c =
     (if c = 105 \<or> c = 100 \<or> c = 117 then Some 10 else if c = 111 then Some 8 else if c = 98 then Some 2
      else if c = 120 \<or> c = 112 then Some 16 else None)"

definition null_msg :: bytes where "null_msg = [40, 110, 117, 108, 108, 41]"

text \<open>One conversion: what it stores, the new \<open>written\<close> and the arguments left.\<close>

definition fmt_conv :: "u8 \<Rightarrow> int \<Rightarrow> int \<Rightarrow> fmt_arg list \<Rightarrow> (bytes \<times> int \<times> fmt_arg list) option" where
  "fmt_conv ch written n args =
     (if ch = 37 then Some ([ch], written, args)
      else case fmt_base ch of
        Some base \<Rightarrow> (case args of
            IntArg v # args \<Rightarrow> (case put_num (itoa_str v base) written n of (out, w) \<Rightarrow> Some (out, w, args))
          | _ \<Rightarrow> None)
      | None \<Rightarrow>
          if ch = 99 then (case args of IntArg v # args \<Rightarrow> Some ([ucast v], written, args) | _ \<Rightarrow> None)
          else if ch = 115 then (case args of
              StrArg str # args \<Rightarrow>
                let str = (case str of Some str \<Rightarrow> str | None \<Rightarrow> null_msg)
                in Some (if written < n - 1 then str else [], written, args)
            | _ \<Rightarrow> None)
          else Some ([], written, args))"

fun vsnprintf_loop :: "bytes \<Rightarrow> int \<Rightarrow> int \<Rightarrow> fmt_arg list \<Rightarrow> (bytes \<times> int) option" where
  "vsnprintf_loop [] written n args = Some ([], written)"
| "vsnprintf_loop (ch # fmt) written n args =
     (if \<not> written < n - 1 then Some ([], written + 1)
      else if ch = 37 then (case fmt of
          [] \<Rightarrow> None
        | ch # fmt \<Rightarrow> do {
            (out, w, args) \<leftarrow> fmt_conv ch (written + 1) n args;
            (rest, w) \<leftarrow> vsnprintf_loop fmt w n args;
            Some (out @ rest, w) })
      else do {
        (rest, w) \<leftarrow> vsnprintf_loop fmt (written + 1) n args;
        Some (ch # rest, w) })"

definition vsnprintf :: "int \<Rightarrow> bytes option \<Rightarrow> fmt_arg list \<Rightarrow> (bytes \<times> int) option" where
  "vsnprintf n format args =
     (case format of
        None \<Rightarrow> Some ([], 0)
      | Some fmt \<Rightarrow> do {
          (out, written) \<leftarrow> vsnprintf_loop fmt 0 n args;
          Some (out @ [0], written + 1) })"

text \<open>\<open>snprintf\<close> and \<open>printf\<close>: the bytes that are stored must fit in the buffer.\<close>

definition snprintf :: "bytes \<Rightarrow> int \<Rightarrow> bytes option \<Rightarrow> fmt_arg list \<Rightarrow> bytes option" where
  "snprintf buf n format args = do {
     (out, r) \<leftarrow> vsnprintf n format args;
     wr_run 0 out buf }"

section \<open>The size of the output\<close>

lemma put_num_length: "put_num cs w n = (out, w') \<Longrightarrow> w \<le> n - 1 \<Longrightarrow> w + int (length out) \<le> w' \<and> int (length out) \<le> n - 1 - w"
proof (induction cs w n arbitrary: out w' rule: put_num.induct)
  case (2 c cs w n)
  show ?case
  proof (cases "w < n - 1")
    case True
    obtain o1 w1 where p: "put_num cs (w + 1) n = (o1, w1)" by (cases "put_num cs (w + 1) n")
    with "2.IH" [OF True this] True "2.prems" show ?thesis by auto
  qed (use "2.prems" in auto)
qed simp

text \<open>A format whose conversions are no strings.\<close>

fun no_strings :: "bytes \<Rightarrow> bool" where
  "no_strings [] \<longleftrightarrow> True"
| "no_strings (ch # fmt) \<longleftrightarrow> (if ch = 37 then (case fmt of [] \<Rightarrow> True | ch # fmt \<Rightarrow> ch \<noteq> 115 \<and> no_strings fmt) else no_strings fmt)"

lemma fmt_conv_length:
  assumes "fmt_conv ch (w + 1) n args = Some (out, w', args')" "ch \<noteq> 115" "w < n - 1"
  shows "w + int (length out) \<le> w' \<and> int (length out) \<le> n - 1 - w"
proof (cases "fmt_base ch")
  case None
  then show ?thesis using assms by (auto simp: fmt_conv_def split: if_splits list.splits fmt_arg.splits)
next
  case (Some base)
  then have "ch \<noteq> 37" by (auto simp: fmt_base_def)
  with Some assms(1) obtain v where "put_num (itoa_str v base) (w + 1) n = (out, w')"
    by (auto simp: fmt_conv_def split: list.splits fmt_arg.splits prod.splits)
  from put_num_length [OF this] assms(3) show ?thesis by auto
qed

lemma vsnprintf_loop_length:
  "vsnprintf_loop fmt w n args = Some (out, w') \<Longrightarrow> no_strings fmt \<Longrightarrow> int (length out) \<le> max 0 (n - 1 - w)"
proof (induction fmt arbitrary: w args out w' rule: length_induct)
  case (1 fmt)
  show ?case
  proof (cases fmt)
    case Nil
    with "1.prems" show ?thesis by simp
  next
    case (Cons ch fmt1)
    show ?thesis
    proof (cases "w < n - 1")
      case False
      with "1.prems" Cons show ?thesis by simp
    next
      case w: True
      show ?thesis
      proof (cases "ch = 37")
        case False
        with "1.prems" Cons w obtain o1 where o1: "vsnprintf_loop fmt1 (w + 1) n args = Some (o1, w')" "out = ch # o1"
          by (auto split: bind_splits)
        have "length fmt1 < length fmt" "no_strings fmt1" using Cons False "1.prems"(2) by simp_all
        with "1.IH" o1(1) have "int (length o1) \<le> max 0 (n - 1 - (w + 1))" by blast
        with o1(2) w show ?thesis by simp
      next
        case True
        with "1.prems"(1) Cons w obtain c fmt2 where f: "fmt1 = c # fmt2" by (cases fmt1) auto
        with "1.prems"(1) Cons w True obtain o1 w1 args1 o2 where
          c: "fmt_conv c (w + 1) n args = Some (o1, w1, args1)" and
          r: "vsnprintf_loop fmt2 w1 n args1 = Some (o2, w')" "out = o1 @ o2" by (auto split: bind_splits)
        have "length fmt2 < length fmt" "no_strings fmt2" "c \<noteq> 115" using Cons f True "1.prems"(2) by simp_all
        with "1.IH" r(1) have "int (length o2) \<le> max 0 (n - 1 - w1)" by blast
        moreover note fmt_conv_length [OF c \<open>c \<noteq> 115\<close> w]
        ultimately show ?thesis using r(2) w by auto
      qed
    qed
  qed
qed

section \<open>Properties\<close>

text \<open>
  C38. A format without string conversions never makes \<open>vsnprintf\<close> store more bytes than the buffer
  has: whatever the arguments, \<open>snprintf\<close> into a buffer of \<open>n\<close> bytes stays inside of it, and the
  output ends with a terminator.
\<close>

theorem vsnprintf_fits:
  assumes ns: "no_strings fmt" and n: "1 \<le> n" and r: "vsnprintf n (Some fmt) args = Some (out, r)"
    and buf: "int (length buf) = n"
  shows "int (length out) \<le> n \<and> last out = 0 \<and> (\<exists>buf'. snprintf buf n (Some fmt) args = Some buf' \<and> length buf' = length buf)"
proof -
  from r obtain o1 w where o: "vsnprintf_loop fmt 0 n args = Some (o1, w)" "out = o1 @ [0]"
    by (auto simp: vsnprintf_def split: bind_splits)
  from vsnprintf_loop_length [OF o(1) ns] o(2) n have len: "int (length out) \<le> n" by simp
  with buf have "snprintf buf n (Some fmt) args = Some (blit 0 out buf)" by (simp add: snprintf_def r)
  moreover have "length (blit 0 out buf) = length buf" using len buf by simp
  ultimately show ?thesis using len o(2) by simp
qed

theorem vsnprintf_fits_witness:
  "int (length [120, 61, 45, 49, 50, 0 :: u8]) \<le> 9 \<and> last [120, 61, 45, 49, 50, 0 :: u8] = 0 \<and>
   (\<exists>buf'. snprintf (replicate 9 1) 9 (Some [120, 61, 37, 100]) [IntArg (- 12)] = Some buf' \<and> length buf' = length (replicate 9 (1 :: u8)))"
proof (rule vsnprintf_fits)
  show "vsnprintf 9 (Some [120, 61, 37, 100]) [IntArg (- 12)] = Some ([120, 61, 45, 49, 50, 0], 7)"
    by (simp add: vsnprintf_def fmt_conv_def fmt_base_def itoa_str_def num_str_def digit_char_def itoa_digit_def num_digits.simps)
qed simp_all

text \<open>
  C39. A string conversion is not limited by the size of the buffer: \<open>snprintf\<close> with the format
  \<open>%s\<close> and a string that does not fit writes behind the buffer.
\<close>

theorem snprintf_overflow:
  assumes "3 \<le> n" "int (length buf) = n" "n \<le> int (length str)"
  shows "vsnprintf n (Some [37, 115]) [StrArg (Some str)] = Some (str @ [0], 2) \<and>
    snprintf buf n (Some [37, 115]) [StrArg (Some str)] = None"
  using assms by (auto simp: vsnprintf_def snprintf_def fmt_conv_def fmt_base_def wr_run_def)

theorem snprintf_overflow_witness:
  "vsnprintf 3 (Some [37, 115]) [StrArg (Some [65, 66, 67])] = Some ([65, 66, 67] @ [0], 2) \<and>
    snprintf [0, 0, 0] 3 (Some [37, 115]) [StrArg (Some [65, 66, 67])] = None"
  by (rule snprintf_overflow) simp_all

end
