(* ===== verification/Pong.thy ===== *)
theory Pong
  imports Prelude
begin

text \<open>
  The game of Pong (\<open>apps/pong.c\<close>): the state of the main loop, one round of the loop, and the screen it
  draws, a buffer of 25 lines of 80 bytes (\<open>games.h\<close>). The numbers are the \<open>int\<close>s of the code. Positions of
  the ball are in hundredths of a cell.
\<close>

section \<open>State\<close>

record pong =
  ball_x :: int
  ball_y :: int
  ball_vel_x :: int
  ball_vel_y :: int
  l_paddle_y :: int
  r_paddle_y :: int
  player_score :: int
  cpu_score :: int
  frame :: int
  pong_endbeep :: bool

definition pong_start :: pong where
  "pong_start = \<lparr>ball_x = 4000, ball_y = 1200, ball_vel_x = 50, ball_vel_y = 0, l_paddle_y = 10, r_paddle_y = 10,
     player_score = 0, cpu_score = 0, frame = 0, pong_endbeep = False\<rparr>"

definition font :: "nat list list" where
  "font = [
     [1, 1, 1, 1, 1, 0, 0, 1, 1, 0, 0, 1, 1, 0, 0, 1, 1, 1, 1, 1],
     [0, 0, 1, 0, 0, 0, 1, 0, 0, 0, 1, 0, 0, 0, 1, 0, 0, 0, 1, 0],
     [1, 1, 1, 1, 0, 0, 0, 1, 1, 1, 1, 1, 1, 0, 0, 0, 1, 1, 1, 1],
     [1, 1, 1, 1, 0, 0, 0, 1, 1, 1, 1, 1, 0, 0, 0, 1, 1, 1, 1, 1],
     [1, 0, 0, 1, 1, 0, 0, 1, 1, 1, 1, 1, 0, 0, 0, 1, 0, 0, 0, 1],
     [1, 1, 1, 1, 1, 0, 0, 0, 1, 1, 1, 1, 0, 0, 0, 1, 1, 1, 1, 1],
     [1, 1, 1, 1, 1, 0, 0, 0, 1, 1, 1, 1, 1, 0, 0, 1, 1, 1, 1, 1],
     [1, 1, 1, 1, 0, 0, 0, 1, 0, 0, 0, 1, 0, 0, 0, 1, 0, 0, 0, 1],
     [1, 1, 1, 1, 1, 0, 0, 1, 1, 1, 1, 1, 1, 0, 0, 1, 1, 1, 1, 1],
     [1, 1, 1, 1, 1, 0, 0, 1, 1, 1, 1, 1, 0, 0, 0, 1, 1, 1, 1, 1]]"

text \<open>\<open>LIMIT\<close>: two tests in a row.\<close>

definition LIMIT :: "int \<Rightarrow> int \<Rightarrow> int \<Rightarrow> int" where
  "LIMIT x mn mx = (let x = (if x < mn then mn else x) in if x > mx then mx else x)"

definition HIT_PADDLE :: "int \<Rightarrow> int \<Rightarrow> bool" where
  "HIT_PADDLE paddley y \<longleftrightarrow> paddley \<le> y \<and> paddley + 5 \<ge> y"

definition PADDLE_DEFLECTION :: "int \<Rightarrow> int \<Rightarrow> int" where
  "PADDLE_DEFLECTION paddley hit = (paddley - hit) * 10"

section \<open>One round\<close>

text \<open>\<open>keys\<close> is the state of the keyboard, by key code.\<close>

definition pong_player :: "bool \<Rightarrow> (nat \<Rightarrow> bool) \<Rightarrow> pong \<Rightarrow> pong" where
  "pong_player multiplayer keys g =
     (let up = (if multiplayer then 0x1E else 0x48); down = (if multiplayer then 0x1F else 0x50);
          y = l_paddle_y g;
          y = (if keys up then y - 1 else y);
          y = (if keys down then y + 1 else y)
      in g\<lparr>l_paddle_y := LIMIT y 0 20\<rparr>)"

definition pong_opponent :: "bool \<Rightarrow> (nat \<Rightarrow> bool) \<Rightarrow> pong \<Rightarrow> pong" where
  "pong_opponent multiplayer keys g =
     (let y = r_paddle_y g;
          y = (if \<not> multiplayer then
                 let fskip = LIMIT (cpu_score g - player_score g) 2 9
                 in if ball_x g > 7500 then
                      (if ball_y g div 100 < y + 2 then y - 1
                       else if ball_y g div 100 > y + 2 then y + 1 else y)
                    else if frame g mod fskip = 0 then y + LIMIT (ball_vel_y g) (- 1) 1
                    else y
               else
                 let y = (if keys 0x25 then y - 1 else y)
                 in if keys 0x26 then y + 1 else y)
      in g\<lparr>r_paddle_y := LIMIT y 0 20\<rparr>)"

definition pong_move :: "pong \<Rightarrow> pong" where
  "pong_move g = g\<lparr>ball_x := LIMIT (ball_x g + ball_vel_x g) 0 7900, ball_y := LIMIT (ball_y g + ball_vel_y g) 0 2400\<rparr>"

definition pong_walls :: "pong \<Rightarrow> pong" where
  "pong_walls g = (if ball_y g = 0 \<or> ball_y g = 2400 then g\<lparr>ball_vel_y := - ball_vel_y g, pong_endbeep := True\<rparr> else g)"

definition pong_paddles :: "pong \<Rightarrow> pong" where
  "pong_paddles g =
     (let y = ball_y g div 100 in
      if ball_x g \<le> 0 then
        if HIT_PADDLE (l_paddle_y g) y then
          g\<lparr>ball_vel_x := - ball_vel_x g, ball_vel_y := - ball_vel_y g + PADDLE_DEFLECTION (l_paddle_y g) y,
            ball_x := ball_x g + 100, pong_endbeep := True\<rparr>
        else g\<lparr>cpu_score := cpu_score g + 1, ball_x := 4000, ball_y := 1200, ball_vel_x := 50, ball_vel_y := 0\<rparr>
      else if ball_x g \<ge> 7900 then
        if HIT_PADDLE (r_paddle_y g) y then
          g\<lparr>ball_vel_x := - ball_vel_x g, ball_vel_y := - ball_vel_y g - PADDLE_DEFLECTION (r_paddle_y g) y,
            ball_x := ball_x g - 100, pong_endbeep := True\<rparr>
        else g\<lparr>player_score := player_score g + 1, ball_x := 4000, ball_y := 1200, ball_vel_x := - 50, ball_vel_y := 0\<rparr>
      else g)"

section \<open>Drawing\<close>

text \<open>A pixel or glyph outside of its array has no result.\<close>

definition SET_PIXEL :: "int \<Rightarrow> int \<Rightarrow> u8 \<Rightarrow> bytes \<Rightarrow> bytes option" where
  "SET_PIXEL x y cl bbuf = (let i = y * 80 + x in if i < 0 then None else wr_at bbuf (nat i) cl)"

fun set_pixels :: "(int \<times> int \<times> u8) list \<Rightarrow> bytes \<Rightarrow> bytes option" where
  "set_pixels [] bbuf = Some bbuf"
| "set_pixels ((x, y, cl) # ps) bbuf = do { bbuf \<leftarrow> SET_PIXEL x y cl bbuf; set_pixels ps bbuf }"

definition DRAW_GLYPH :: "int \<Rightarrow> int \<Rightarrow> int \<Rightarrow> u8 \<Rightarrow> bytes \<Rightarrow> bytes option" where
  "DRAW_GLYPH x y idx cl bbuf = do {
     glyph \<leftarrow> (if idx < 0 then None else rd_at font (nat idx));
     set_pixels (map (\<lambda>px. (x + int px mod 4, y + int px div 4, if glyph ! px \<noteq> 0 then cl else 0)) [0..<20]) bbuf }"

definition DRAW_PADDLE :: "int \<Rightarrow> int \<Rightarrow> u8 \<Rightarrow> bytes \<Rightarrow> bytes option" where
  "DRAW_PADDLE x y cl bbuf = set_pixels [(x, y, cl), (x, y + 1, cl), (x, y + 2, cl), (x, y + 3, cl), (x, y + 4, cl)] bbuf"

definition pong_draw :: "pong \<Rightarrow> bytes option" where
  "pong_draw g = do {
     let bbuf = replicate 2000 0;
     bbuf \<leftarrow> DRAW_GLYPH 34 0 (player_score g) 1 bbuf;
     bbuf \<leftarrow> DRAW_GLYPH 41 0 (cpu_score g) 4 bbuf;
     bbuf \<leftarrow> set_pixels (map (\<lambda>k. (39, 2 * int k, 0xF)) [0..<13]) bbuf;
     bbuf \<leftarrow> SET_PIXEL (ball_x g div 100) (ball_y g div 100) 0xE bbuf;
     bbuf \<leftarrow> DRAW_PADDLE 0 (l_paddle_y g) 1 bbuf;
     DRAW_PADDLE 79 (r_paddle_y g) 4 bbuf }"

text \<open>
  One round of the loop after the test for the escape key: \<open>Some None\<close> says that the game is over,
  otherwise the next state and the screen.
\<close>

definition pong_update :: "bool \<Rightarrow> (nat \<Rightarrow> bool) \<Rightarrow> pong \<Rightarrow> pong" where
  "pong_update multiplayer keys g =
     pong_paddles (pong_walls (pong_move (pong_opponent multiplayer keys (pong_player multiplayer keys (g\<lparr>pong_endbeep := False\<rparr>)))))"

definition pong_round :: "bool \<Rightarrow> (nat \<Rightarrow> bool) \<Rightarrow> pong \<Rightarrow> (pong \<times> bytes) option option" where
  "pong_round multiplayer keys g =
     (if player_score g > 9 \<or> cpu_score g > 9 then Some None
      else do {
        let g = pong_update multiplayer keys g;
        bbuf \<leftarrow> pong_draw g;
        Some (Some (g\<lparr>frame := frame g + 1\<rparr>, bbuf)) })"

section \<open>The invariant\<close>

text \<open>Between two rounds: the ball and the paddles are on the screen, the scores are digits.\<close>

definition pong_on_screen :: "pong \<Rightarrow> bool" where
  "pong_on_screen g \<longleftrightarrow> 0 \<le> ball_x g \<and> ball_x g \<le> 7900 \<and> 0 \<le> ball_y g \<and> ball_y g \<le> 2400 \<and>
     0 \<le> l_paddle_y g \<and> l_paddle_y g \<le> 20 \<and> 0 \<le> r_paddle_y g \<and> r_paddle_y g \<le> 20 \<and>
     0 \<le> player_score g \<and> 0 \<le> cpu_score g"

lemma LIMIT_bounds: "mn \<le> mx \<Longrightarrow> mn \<le> LIMIT x mn mx \<and> LIMIT x mn mx \<le> mx"
  by (simp add: LIMIT_def Let_def)

lemma pong_update_on_screen:
  assumes "pong_on_screen g"
  shows "pong_on_screen (pong_update multiplayer keys g)"
    "player_score (pong_update multiplayer keys g) + cpu_score (pong_update multiplayer keys g) \<le> player_score g + cpu_score g + 1"
proof -
  define g1 where "g1 = pong_player multiplayer keys (g\<lparr>pong_endbeep := False\<rparr>)"
  define g2 where "g2 = pong_opponent multiplayer keys g1"
  define g3 where "g3 = pong_walls (pong_move g2)"
  have 1: "pong_on_screen g1" "player_score g1 = player_score g" "cpu_score g1 = cpu_score g"
    using assms LIMIT_bounds [of 0 20] by (simp_all add: g1_def pong_player_def pong_on_screen_def Let_def)
  have 2: "pong_on_screen g2" "player_score g2 = player_score g" "cpu_score g2 = cpu_score g"
    using 1 LIMIT_bounds [of 0 20] by (simp_all add: g2_def pong_opponent_def pong_on_screen_def Let_def)
  have 3: "pong_on_screen g3" "player_score g3 = player_score g" "cpu_score g3 = cpu_score g"
    using 2 LIMIT_bounds [of 0 7900] LIMIT_bounds [of 0 2400]
    by (simp_all add: g3_def pong_walls_def pong_move_def pong_on_screen_def)
  have u: "pong_update multiplayer keys g = pong_paddles g3" by (simp add: pong_update_def g1_def g2_def g3_def)
  show "pong_on_screen (pong_update multiplayer keys g)"
    using 3 by (simp add: u pong_paddles_def pong_on_screen_def Let_def)
  show "player_score (pong_update multiplayer keys g) + cpu_score (pong_update multiplayer keys g) \<le> player_score g + cpu_score g + 1"
    using 3 by (simp add: u pong_paddles_def Let_def)
qed

section \<open>The screen\<close>

definition on_screen :: "int \<times> int \<times> u8 \<Rightarrow> bool" where
  "on_screen p \<longleftrightarrow> (case p of (x, y, cl) \<Rightarrow> 0 \<le> x \<and> x < 80 \<and> 0 \<le> y \<and> y < 25)"

lemma SET_PIXEL_ok:
  "on_screen (x, y, cl) \<Longrightarrow> length bbuf = 2000 \<Longrightarrow> \<exists>b. SET_PIXEL x y cl bbuf = Some b \<and> length b = 2000"
  by (auto simp: on_screen_def SET_PIXEL_def Let_def nat_less_iff)

lemma set_pixels_ok:
  "\<forall>p \<in> set ps. on_screen p \<Longrightarrow> length bbuf = 2000 \<Longrightarrow> \<exists>b. set_pixels ps bbuf = Some b \<and> length b = 2000"
proof (induction ps arbitrary: bbuf)
  case (Cons p ps)
  obtain x y cl where p: "p = (x, y, cl)" by (cases p)
  obtain b where "SET_PIXEL x y cl bbuf = Some b" "length b = 2000"
    using SET_PIXEL_ok [of x y cl bbuf] Cons.prems p by auto
  with Cons.IH [of b] Cons.prems p show ?case by simp
qed simp

lemma DRAW_GLYPH_ok:
  assumes "0 \<le> x" "x \<le> 76" "0 \<le> y" "y \<le> 20" "0 \<le> idx" "idx \<le> 9" "length bbuf = 2000"
  shows "\<exists>b. DRAW_GLYPH x y idx cl bbuf = Some b \<and> length b = 2000"
proof -
  have "length font = 10" by (simp add: font_def)
  then have g: "rd_at font (nat idx) = Some (font ! nat idx)" using assms by simp
  have "int k div 4 < 5" if "k < 20" for k using that by simp
  then have "\<forall>p \<in> set (map (\<lambda>px. (x + int px mod 4, y + int px div 4, if font ! nat idx ! px \<noteq> 0 then cl else 0)) [0..<20]). on_screen p"
    using assms(1-4) by (fastforce simp: on_screen_def)
  from set_pixels_ok [OF this assms(7)] show ?thesis using assms(5) by (simp add: DRAW_GLYPH_def g)
qed

lemma DRAW_PADDLE_ok:
  "0 \<le> x \<Longrightarrow> x < 80 \<Longrightarrow> 0 \<le> y \<Longrightarrow> y \<le> 20 \<Longrightarrow> length bbuf = 2000 \<Longrightarrow> \<exists>b. DRAW_PADDLE x y cl bbuf = Some b \<and> length b = 2000"
  unfolding DRAW_PADDLE_def by (rule set_pixels_ok) (auto simp: on_screen_def)

lemma pong_draw_ok:
  assumes "pong_on_screen g" "player_score g \<le> 9" "cpu_score g \<le> 9"
  shows "\<exists>b. pong_draw g = Some b \<and> length b = 2000"
proof -
  note g = assms(1) [unfolded pong_on_screen_def]
  obtain b1 where 1: "DRAW_GLYPH 34 0 (player_score g) 1 (replicate 2000 0) = Some b1" "length b1 = 2000"
    using DRAW_GLYPH_ok [of 34 0 "player_score g" "replicate 2000 0" 1] g assms(2) by auto
  obtain b2 where 2: "DRAW_GLYPH 41 0 (cpu_score g) 4 b1 = Some b2" "length b2 = 2000"
    using DRAW_GLYPH_ok [of 41 0 "cpu_score g" b1 4] g assms(3) 1(2) by auto
  obtain b3 where 3: "set_pixels (map (\<lambda>k. (39, 2 * int k, 0xF)) [0..<13]) b2 = Some b3" "length b3 = 2000"
    using set_pixels_ok [of "map (\<lambda>k. (39, 2 * int k, 0xF)) [0..<13]" b2] 2(2) by (auto simp: on_screen_def)
  have "on_screen (ball_x g div 100, ball_y g div 100, 0xE)" using g by (auto simp: on_screen_def)
  then obtain b4 where 4: "SET_PIXEL (ball_x g div 100) (ball_y g div 100) 0xE b3 = Some b4" "length b4 = 2000"
    using SET_PIXEL_ok 3(2) by blast
  obtain b5 where 5: "DRAW_PADDLE 0 (l_paddle_y g) 1 b4 = Some b5" "length b5 = 2000"
    using DRAW_PADDLE_ok [of 0 "l_paddle_y g" b4 1] g 4(2) by auto
  obtain b6 where 6: "DRAW_PADDLE 79 (r_paddle_y g) 4 b5 = Some b6" "length b6 = 2000"
    using DRAW_PADDLE_ok [of 79 "r_paddle_y g" b5 4] g 5(2) by auto
  show ?thesis using 1(1) 2(1) 3(1) 4(1) 5(1) 6 by (simp add: pong_draw_def)
qed

text \<open>
  C34. A round of Pong in which nobody scores the tenth point keeps the ball and the paddles on the
  screen and draws without leaving the screen buffer or the font; the round after the tenth point
  ends the game.
\<close>

theorem pong_round_safe:
  assumes on: "pong_on_screen g"
    and low: "player_score (pong_update multiplayer keys g) \<le> 9" "cpu_score (pong_update multiplayer keys g) \<le> 9"
  shows "case pong_round multiplayer keys g of
      None \<Rightarrow> False
    | Some None \<Rightarrow> player_score g > 9 \<or> cpu_score g > 9
    | Some (Some (g', bbuf)) \<Rightarrow> player_score g \<le> 9 \<and> cpu_score g \<le> 9 \<and> pong_on_screen g' \<and> length bbuf = 2000"
proof (cases "player_score g > 9 \<or> cpu_score g > 9")
  case True
  then show ?thesis by (simp add: pong_round_def)
next
  case False
  let ?g = "pong_update multiplayer keys g"
  note u = pong_update_on_screen(1) [OF on, of multiplayer keys]
  obtain b where b: "pong_draw ?g = Some b" "length b = 2000" using pong_draw_ok [OF u low] by blast
  have "pong_on_screen (?g\<lparr>frame := frame ?g + 1\<rparr>)" using u by (simp add: pong_on_screen_def)
  with False b show ?thesis by (simp add: pong_round_def Let_def)
qed

lemma pong_start_on_screen: "pong_on_screen pong_start"
  by (simp add: pong_on_screen_def pong_start_def)

lemma pong_first_round:
  "pong_update False (\<lambda>_. False) pong_start = pong_start\<lparr>ball_x := 4050\<rparr>"
  by (simp add: pong_update_def pong_start_def pong_player_def pong_opponent_def pong_move_def pong_walls_def
      pong_paddles_def LIMIT_def Let_def)

theorem pong_round_safe_witness:
  "case pong_round False (\<lambda>_. False) pong_start of
      None \<Rightarrow> False
    | Some None \<Rightarrow> player_score pong_start > 9 \<or> cpu_score pong_start > 9
    | Some (Some (g', bbuf)) \<Rightarrow> player_score pong_start \<le> 9 \<and> cpu_score pong_start \<le> 9 \<and> pong_on_screen g' \<and> length bbuf = 2000"
  by (rule pong_round_safe [OF pong_start_on_screen]) (simp_all add: pong_first_round, simp_all add: pong_start_def)

text \<open>
  The round in which the tenth point is scored reads a glyph behind the end of the font: the
  score is drawn before it is tested.
\<close>

theorem pong_tenth_point:
  assumes "player_score g \<le> 9" "cpu_score g \<le> 9"
    and "player_score (pong_update multiplayer keys g) = 10"
  shows "pong_round multiplayer keys g = None"
proof -
  have "length font = 10" by (simp add: font_def)
  then have "pong_draw (pong_update multiplayer keys g) = None"
    using assms(3) by (simp add: pong_draw_def DRAW_GLYPH_def bind_eq_None_conv)
  with assms(1,2) show ?thesis by (simp add: pong_round_def Let_def)
qed

definition pong_example :: pong where
  "pong_example = pong_start\<lparr>ball_x := 7880, r_paddle_y := 20, player_score := 9, ball_y := 300\<rparr>"

theorem pong_tenth_point_witness: "pong_round True (\<lambda>_. False) pong_example = None"
  by (rule pong_tenth_point)
    (simp_all add: pong_example_def pong_update_def pong_start_def pong_player_def pong_opponent_def pong_move_def
      pong_walls_def pong_paddles_def LIMIT_def HIT_PADDLE_def Let_def)

end
