(* ===== verification/Scheduler.thy ===== *)
theory Scheduler
  imports Procs
begin

text \<open>
  What the scheduler promises. The process list is seen through \<open>view\<close>, the links, states and
  priorities of the processes; scheduling changes neither of them as long as no process is dead.
\<close>

section \<open>The ring of processes\<close>

definition pview :: "process \<Rightarrow> u32 \<times> u8 \<times> u32" where
  "pview p = (p_next p, p_state p, p_priority p)"

definition view :: "pm_state \<Rightarrow> u32 \<Rightarrow> (u32 \<times> u8 \<times> u32) option" where
  "view s x = map_option pview (p_store s x)"

definition has_state :: "pm_state \<Rightarrow> u8 \<Rightarrow> u32 \<Rightarrow> bool" where
  "has_state s st x \<longleftrightarrow> (\<exists>n prio. view s x = Some (n, st, prio))"

text \<open>\<open>chain s a xs\<close>: the links lead from \<open>a\<close> to the processes \<open>xs\<close>, in this order.\<close>

primrec chain :: "pm_state \<Rightarrow> u32 \<Rightarrow> u32 list \<Rightarrow> bool" where
  "chain s a [] \<longleftrightarrow> view s a \<noteq> None"
| "chain s a (x # xs) \<longleftrightarrow> (\<exists>st prio. view s a = Some (x, st, prio)) \<and> chain s x xs"

lemma chain_head: "chain s a xs \<Longrightarrow> view s a \<noteq> None"
  by (cases xs) auto

lemma chain_append: "chain s a (xs @ x # ys) \<longleftrightarrow> chain s a (xs @ [x]) \<and> chain s x ys"
proof (induction xs arbitrary: a)
  case Nil
  show ?case using chain_head [of s x ys] by auto
qed auto

lemma chain_view: "view s' = view s \<Longrightarrow> chain s' a xs = chain s a xs"
  by (induction xs arbitrary: a) simp_all

lemma has_state_view: "view s' = view s \<Longrightarrow> has_state s' st x = has_state s st x"
  by (simp add: has_state_def)

lemma view_active [simp]: "view (s\<lparr>active_proc := n\<rparr>) = view s"
  by (simp add: view_def fun_eq_iff)

lemma upd_proc_view:
  assumes "view s a \<noteq> None" "\<And>p. pview (f p) = pview p"
  shows "\<exists>s' p. upd_proc s a f = Some s' \<and> view s' = view s \<and> active_proc s' = active_proc s \<and> p_store s a = Some p \<and>
    p_store s' = (p_store s)(a \<mapsto> f p)"
  using assms by (auto simp: view_def upd_proc_def fun_eq_iff)

lemma next_proc_view:
  assumes "chain s (active_proc s) (x # xs)"
  shows "\<exists>p. next_proc s = Some (x, p) \<and> p_store s x = Some p"
proof -
  have "view s x \<noteq> None" using assms chain_head by auto
  with assms show ?thesis by (auto simp: view_def next_proc_def pview_def)
qed

section \<open>The loops\<close>

lemma destroy_dead_id:
  assumes "chain s (active_proc s) (x # xs)" "\<not> has_state s PSTATE_DEAD x"
  shows "destroy_dead s = Some s"
proof -
  obtain p where p: "next_proc s = Some (x, p)" "p_store s x = Some p" using next_proc_view [OF assms(1)] by blast
  with assms(2) have "p_state p \<noteq> PSTATE_DEAD" by (auto simp: has_state_def view_def pview_def)
  with p show ?thesis by (subst destroy_dead.simps) simp
qed

lemma skip_sleeping_eq:
  "chain s (active_proc s) (ys @ [z]) \<Longrightarrow> \<forall>y \<in> set ys. has_state s PSTATE_STDINSLEEP y \<Longrightarrow>
   has_state s PSTATE_ALIVE z \<Longrightarrow> skip_sleeping s = Some (s\<lparr>active_proc := last (active_proc s # ys)\<rparr>)"
proof (induction ys arbitrary: s)
  case Nil
  obtain p where p: "next_proc s = Some (z, p)" "p_store s z = Some p"
    using next_proc_view [of s z "[]"] Nil.prems(1) by auto
  with Nil.prems(3) have "p_state p \<noteq> PSTATE_STDINSLEEP"
    by (auto simp: has_state_def view_def pview_def PSTATE_ALIVE_def PSTATE_STDINSLEEP_def)
  with p show ?case by (subst skip_sleeping.simps) simp
next
  case (Cons y ys)
  obtain p where p: "next_proc s = Some (y, p)" "p_store s y = Some p"
    using next_proc_view [of s y "ys @ [z]"] Cons.prems(1) by auto
  have "has_state s PSTATE_STDINSLEEP y" using Cons.prems(2) by simp
  with p have st: "p_state p = PSTATE_STDINSLEEP" by (auto simp: has_state_def view_def pview_def)
  let ?s = "s\<lparr>active_proc := y\<rparr>"
  have "chain ?s (active_proc ?s) (ys @ [z])" using Cons.prems(1) by (simp add: chain_view [of ?s s])
  moreover have "\<forall>y \<in> set ys. has_state ?s PSTATE_STDINSLEEP y" "has_state ?s PSTATE_ALIVE z"
    using Cons.prems(2,3) by (simp_all add: has_state_view [of ?s s])
  ultimately have "skip_sleeping ?s = Some (?s\<lparr>active_proc := last (active_proc ?s # ys)\<rparr>)" by (rule Cons.IH)
  with p st show ?case by (subst skip_sleeping.simps) simp
qed

lemma find_alive_next:
  assumes "chain s (active_proc s) [z]" "has_state s PSTATE_ALIVE z"
  shows "find_alive s = Some s"
proof -
  obtain p where p: "next_proc s = Some (z, p)" "p_store s z = Some p" using next_proc_view [OF assms(1)] by blast
  with assms(2) have "p_state p = PSTATE_ALIVE" by (auto simp: has_state_def view_def pview_def)
  with p show ?thesis by (subst find_alive.simps) simp
qed

lemma find_alive_eq:
  assumes c: "chain s (active_proc s) (ys @ [z])" and sl: "\<forall>y \<in> set ys. has_state s PSTATE_STDINSLEEP y"
    and al: "has_state s PSTATE_ALIVE z"
  shows "find_alive s = Some (s\<lparr>active_proc := last (active_proc s # ys)\<rparr>)"
proof (cases ys rule: rev_cases)
  case Nil
  with find_alive_next [of s z] c al show ?thesis by simp
next
  case (snoc us u)
  have "ys \<noteq> []" using snoc by simp
  then obtain y ys' where y: "ys = y # ys'" by (cases ys) auto
  then have hy: "has_state s PSTATE_STDINSLEEP y" using sl by simp
  obtain p where p: "next_proc s = Some (y, p)" "p_store s y = Some p"
    using next_proc_view [of s y "ys' @ [z]"] c y by auto
  have st: "p_state p = PSTATE_STDINSLEEP" using p hy by (auto simp: has_state_def view_def pview_def)
  have "\<not> has_state s PSTATE_DEAD y" using hy by (auto simp: has_state_def PSTATE_DEAD_def PSTATE_STDINSLEEP_def)
  then have d: "destroy_dead s = Some s" using destroy_dead_id [of s y "ys' @ [z]"] c y by simp
  let ?s = "s\<lparr>active_proc := u\<rparr>"
  have "last (active_proc s # ys) = u" using snoc by simp
  with skip_sleeping_eq [OF c sl al] have sk: "skip_sleeping s = Some ?s" by simp
  have "chain s u [z]" using c snoc chain_append [of s "active_proc s" us u "[z]"] by simp
  then have "chain ?s (active_proc ?s) [z]" by (simp add: chain_view [of ?s s])
  moreover have "has_state ?s PSTATE_ALIVE z" using al by (simp add: has_state_view [of ?s s])
  ultimately have f: "find_alive ?s = Some ?s" by (rule find_alive_next)
  show ?thesis using p st d sk f snoc by (subst find_alive.simps) (simp add: PSTATE_ALIVE_def PSTATE_STDINSLEEP_def)
qed

section \<open>One call of the scheduler\<close>

lemma schedule_switch:
  assumes nn: "active_proc s \<noteq> 0" and a: "p_store s (active_proc s) = Some a" and r: "\<not> p_remaining a > 1"
    and c: "chain s (active_proc s) (ys @ [z])" and sl: "\<forall>y \<in> set ys. has_state s PSTATE_STDINSLEEP y"
    and al: "has_state s PSTATE_ALIVE z"
  shows "\<exists>s' context'. pm_schedule s context = Some (s', context') \<and> view s' = view s \<and> active_proc s' = z \<and>
    (\<exists>p. ((p_store s)(active_proc s \<mapsto> a\<lparr>p_context := context\<rparr>)) z = Some p \<and> context' = p_context p \<and>
       p_store s' = (p_store s)(active_proc s \<mapsto> a\<lparr>p_context := context\<rparr>, z \<mapsto> p\<lparr>p_remaining := p_priority p\<rparr>))"
proof -
  obtain s1 where s1: "upd_proc s (active_proc s) (\<lambda>q. q\<lparr>p_context := context\<rparr>) = Some s1" "view s1 = view s"
    "active_proc s1 = active_proc s" "p_store s1 = (p_store s)(active_proc s \<mapsto> a\<lparr>p_context := context\<rparr>)"
    using upd_proc_view [of s "active_proc s" "\<lambda>q. q\<lparr>p_context := context\<rparr>"] a chain_head [OF c]
    by (auto simp: pview_def)
  let ?u = "last (active_proc s # ys)"
  have "chain s1 (active_proc s1) (ys @ [z])" using c by (simp add: s1(3) chain_view [OF s1(2)])
  moreover have "\<forall>y \<in> set ys. has_state s1 PSTATE_STDINSLEEP y" "has_state s1 PSTATE_ALIVE z"
    using sl al by (simp_all add: has_state_view [OF s1(2)])
  ultimately have f: "find_alive s1 = Some (s1\<lparr>active_proc := ?u\<rparr>)" by (subst find_alive_eq) (simp_all add: s1(3))
  let ?s2 = "s1\<lparr>active_proc := ?u\<rparr>"
  have "chain s ?u [z]"
  proof (cases ys rule: rev_cases)
    case Nil
    with c show ?thesis by simp
  next
    case (snoc us u)
    with c chain_append [of s "active_proc s" us u "[z]"] show ?thesis by simp
  qed
  then have "chain ?s2 (active_proc ?s2) [z]" using s1(2) by (simp add: chain_view [of ?s2 s])
  then obtain p where p: "next_proc ?s2 = Some (z, p)" "p_store ?s2 z = Some p" using next_proc_view by blast
  have "view (?s2\<lparr>active_proc := z\<rparr>) z \<noteq> None" using p(2) by (simp add: view_def)
  then obtain s3 where s3: "upd_proc (?s2\<lparr>active_proc := z\<rparr>) z (\<lambda>q. q\<lparr>p_remaining := p_priority q\<rparr>) = Some s3"
    "view s3 = view s" "active_proc s3 = z" "p_store s3 = (p_store s1)(z \<mapsto> p\<lparr>p_remaining := p_priority p\<rparr>)"
    using upd_proc_view [of "?s2\<lparr>active_proc := z\<rparr>" z "\<lambda>q. q\<lparr>p_remaining := p_priority q\<rparr>"] p(2) s1(2)
    by (auto simp: pview_def)
  have "pm_schedule s context = Some (s3, p_context p)"
    using nn a r s1(1) f p(1) s3(1) by (simp add: pm_schedule_def)
  moreover have "p_store s1 z = Some p" using p(2) by simp
  ultimately show ?thesis using s3 unfolding s1(4) by auto
qed

text \<open>
  When the time slice of the active process is used up, \<open>pm_schedule\<close> saves its context and
  switches to the next process of the ring that is alive, over all sleeping ones: it returns that
  process's context and gives it a slice of the length of its priority. While the slice lasts the
  process stays active. Links, states and priorities are never changed.
\<close>

theorem pm_schedule_next:
  assumes nn: "active_proc s \<noteq> 0" and a: "p_store s (active_proc s) = Some a"
    and c: "chain s (active_proc s) (ys @ [z])" and sl: "\<forall>y \<in> set ys. has_state s PSTATE_STDINSLEEP y"
    and al: "has_state s PSTATE_ALIVE z"
  shows "\<exists>s' context'. pm_schedule s context = Some (s', context') \<and> view s' = view s \<and>
    (if p_remaining a > 1
     then active_proc s' = active_proc s \<and> context' = context \<and>
       p_store s' = (p_store s)(active_proc s \<mapsto> a\<lparr>p_remaining := p_remaining a - 1\<rparr>)
     else active_proc s' = z \<and> (\<exists>p. ((p_store s)(active_proc s \<mapsto> a\<lparr>p_context := context\<rparr>)) z = Some p \<and>
       context' = p_context p \<and>
       p_store s' = (p_store s)(active_proc s \<mapsto> a\<lparr>p_context := context\<rparr>, z \<mapsto> p\<lparr>p_remaining := p_priority p\<rparr>)))"
proof (cases "p_remaining a > 1")
  case True
  obtain s' where s': "upd_proc s (active_proc s) (\<lambda>q. q\<lparr>p_remaining := p_remaining q - 1\<rparr>) = Some s'" "view s' = view s"
    "active_proc s' = active_proc s" "p_store s' = (p_store s)(active_proc s \<mapsto> a\<lparr>p_remaining := p_remaining a - 1\<rparr>)"
    using upd_proc_view [of s "active_proc s" "\<lambda>q. q\<lparr>p_remaining := p_remaining q - 1\<rparr>"] a chain_head [OF c]
    by (auto simp: pview_def)
  have "pm_schedule s context = Some (s', context)" using nn a True s'(1) by (simp add: pm_schedule_def)
  with True s' show ?thesis by auto
next
  case False
  from schedule_switch [OF nn a False c sl al, of "context"] False show ?thesis by simp
qed

section \<open>Fairness\<close>

fun sched_n :: "pm_state \<Rightarrow> u32 list \<Rightarrow> pm_state option" where
  "sched_n s [] = Some s"
| "sched_n s (c # cs) = do { (s, c') \<leftarrow> pm_schedule s c; sched_n s cs }"

lemma sched_n_append: "sched_n s (cs @ ds) = sched_n s cs \<bind> (\<lambda>s. sched_n s ds)"
  by (induction cs arbitrary: s) (auto split: bind_splits)

text \<open>After some number of timer interrupts the slice is used up and the next process alive is active.\<close>

lemma sched_slice:
  assumes "p_store s 0 = None" "chain s (active_proc s) (ys @ [z])" "\<forall>y \<in> set ys. has_state s PSTATE_STDINSLEEP y"
    "has_state s PSTATE_ALIVE z" "p_store s (active_proc s) = Some a"
  shows "\<forall>cs. length cs = max 1 (unat (p_remaining a)) \<longrightarrow>
    (\<exists>s' p. sched_n s cs = Some s' \<and> active_proc s' = z \<and> view s' = view s \<and> p_store s' 0 = None \<and>
      p_store s' z = Some p \<and> p_remaining p = p_priority p)"
  using assms
proof (induction "unat (p_remaining a)" arbitrary: s a rule: less_induct)
  case less
  have nn: "active_proc s \<noteq> 0" using less.prems(1,5) by (metis option.distinct(1))
  note step = pm_schedule_next [OF nn less.prems(5,2,3,4)]
  show ?case
  proof (cases "p_remaining a > 1")
    case False
    then have "max 1 (unat (p_remaining a)) = 1" by (simp add: word_less_nat_alt)
    moreover have "z \<noteq> 0" using less.prems(1,4) by (auto simp: has_state_def view_def)
    then have "\<exists>s' p. sched_n s [c] = Some s' \<and> active_proc s' = z \<and> view s' = view s \<and> p_store s' 0 = None \<and>
      p_store s' z = Some p \<and> p_remaining p = p_priority p" for c
      using step [of c] False nn less.prems(1) by auto
    ultimately show ?thesis by (auto simp: length_Suc_conv)
  next
    case True
    define r where "r = p_remaining a - 1"
    have r: "unat r < unat (p_remaining a)" "max 1 (unat (p_remaining a)) = Suc (max 1 (unat r))"
      using True by (auto simp: r_def word_less_nat_alt unat_sub_if')
    have "\<exists>s' p. sched_n s (c # cs) = Some s' \<and> active_proc s' = z \<and> view s' = view s \<and> p_store s' 0 = None \<and>
      p_store s' z = Some p \<and> p_remaining p = p_priority p" if l: "length cs = max 1 (unat r)" for c cs
    proof -
      obtain s1 c' where s1: "pm_schedule s c = Some (s1, c')" "view s1 = view s" "active_proc s1 = active_proc s"
        "p_store s1 = (p_store s)(active_proc s \<mapsto> a\<lparr>p_remaining := r\<rparr>)" using step [of c] True by (auto simp: r_def)
      have "p_store s1 0 = None" "p_store s1 (active_proc s1) = Some (a\<lparr>p_remaining := r\<rparr>)"
        using nn less.prems(1) by (simp_all add: s1(3,4))
      moreover have "chain s1 (active_proc s1) (ys @ [z])" "\<forall>y \<in> set ys. has_state s1 PSTATE_STDINSLEEP y" "has_state s1 PSTATE_ALIVE z"
        using less.prems(2-4) by (simp_all add: s1(3) chain_view [OF s1(2)] has_state_view [OF s1(2)])
      ultimately obtain s' p where "sched_n s1 cs = Some s'" "active_proc s' = z" "view s' = view s1" "p_store s' 0 = None"
        "p_store s' z = Some p" "p_remaining p = p_priority p"
        using less.hyps [of "a\<lparr>p_remaining := r\<rparr>" s1] r(1) l by auto
      with s1 show ?thesis by auto
    qed
    with r(2) show ?thesis by (auto simp: length_Suc_conv)
  qed
qed

text \<open>The number of interrupts depends on the view and on the slice of the active process only.\<close>

lemma fair_bound:
  "length ws = k \<Longrightarrow> chain s0 a (ws @ [z]) \<Longrightarrow>
   \<forall>w \<in> set ws. has_state s0 PSTATE_ALIVE w \<or> has_state s0 PSTATE_STDINSLEEP w \<Longrightarrow> has_state s0 PSTATE_ALIVE z \<Longrightarrow>
   \<exists>n. \<forall>s p cs. view s = view s0 \<longrightarrow> active_proc s = a \<longrightarrow> p_store s 0 = None \<longrightarrow> p_store s a = Some p \<longrightarrow>
     p_remaining p = r \<longrightarrow> length cs = n \<longrightarrow> (\<exists>s'. sched_n s cs = Some s' \<and> active_proc s' = z \<and> view s' = view s0)"
proof (induction k arbitrary: ws a r rule: less_induct)
  case (less k)
  have "\<exists>x \<in> set (ws @ [z]). has_state s0 PSTATE_ALIVE x" using less.prems(4) by simp
  then obtain ys y rest where sp: "ws @ [z] = ys @ y # rest" "has_state s0 PSTATE_ALIVE y" "\<forall>x \<in> set ys. \<not> has_state s0 PSTATE_ALIVE x"
    by (rule split_list_first_propE)
  have "set ys \<subseteq> set ws"
  proof
    fix x assume x: "x \<in> set ys"
    then have "x \<in> set (ws @ [z])" unfolding sp(1) by simp
    with x sp(3) less.prems(4) show "x \<in> set ws" by auto
  qed
  with sp(3) less.prems(3) have sl: "\<forall>x \<in> set ys. has_state s0 PSTATE_STDINSLEEP x" by blast
  have c: "chain s0 a (ys @ [y])" "chain s0 y rest"
    using less.prems(2) unfolding sp(1) by (simp_all only: chain_append [of s0 a ys y rest])
  have slice: "\<exists>s' p'. sched_n s cs = Some s' \<and> active_proc s' = y \<and> view s' = view s0 \<and> p_store s' 0 = None \<and>
      p_store s' y = Some p' \<and> p_remaining p' = p_priority p'"
    if "view s = view s0" "active_proc s = a" "p_store s 0 = None" "p_store s a = Some p" "p_remaining p = r"
      "length cs = max 1 (unat r)" for s p and cs :: "u32 list"
    using sched_slice [of s ys y p] that c(1) sl sp(2) by (simp add: chain_view [of s s0] has_state_view [of s s0])
  show ?case
  proof (cases rest rule: rev_cases)
    case Nil
    then have "y = z" using sp(1) by simp
    with slice show ?thesis by blast
  next
    case (snoc ws' z')
    then have z: "z' = z" "ws = ys @ y # ws'" using sp(1) by simp_all
    then have "length ws' < k" using less.prems(1) by simp
    moreover have "chain s0 y (ws' @ [z])" using c(2) snoc z(1) by simp
    moreover have "\<forall>w \<in> set ws'. has_state s0 PSTATE_ALIVE w \<or> has_state s0 PSTATE_STDINSLEEP w" using less.prems(3) z(2) by simp
    ultimately obtain n2 where n2: "\<forall>s p cs. view s = view s0 \<longrightarrow> active_proc s = y \<longrightarrow> p_store s 0 = None \<longrightarrow> p_store s y = Some p \<longrightarrow>
       p_remaining p = (case view s0 y of Some (n, st, prio) \<Rightarrow> prio) \<longrightarrow> length cs = n2 \<longrightarrow>
       (\<exists>s'. sched_n s cs = Some s' \<and> active_proc s' = z \<and> view s' = view s0)"
      using less.IH [OF _ refl, of ws' y "case view s0 y of Some (n, st, prio) \<Rightarrow> prio"] less.prems(4) by blast
    show ?thesis
    proof (intro exI [of _ "max 1 (unat r) + n2"] allI impI)
      fix s p and cs :: "u32 list"
      assume s: "view s = view s0" "active_proc s = a" "p_store s 0 = None" "p_store s a = Some p" "p_remaining p = r"
        and l: "length cs = max 1 (unat r) + n2"
      obtain s1 p1 where s1: "sched_n s (take (max 1 (unat r)) cs) = Some s1" "active_proc s1 = y" "view s1 = view s0"
        "p_store s1 0 = None" "p_store s1 y = Some p1" "p_remaining p1 = p_priority p1"
        using slice [OF s, of "take (max 1 (unat r)) cs"] l by auto
      have "view s0 y = Some (pview p1)" using s1(5) unfolding s1(3) [symmetric] by (simp add: view_def)
      then have "p_remaining p1 = (case view s0 y of Some (n, st, prio) \<Rightarrow> prio)" using s1(6) by (simp add: pview_def)
      moreover have "length (drop (max 1 (unat r)) cs) = n2" using l by simp
      ultimately obtain s' where "sched_n s1 (drop (max 1 (unat r)) cs) = Some s'" "active_proc s' = z" "view s' = view s0"
        using n2 s1 by blast
      with s1(1) show "\<exists>s'. sched_n s cs = Some s' \<and> active_proc s' = z \<and> view s' = view s0"
        using sched_n_append [of s "take (max 1 (unat r)) cs" "drop (max 1 (unat r)) cs"] by simp
    qed
  qed
qed

text \<open>
  The scheduler is fair: as long as no process dies or changes its state, every process that is
  alive gets the processor after a bounded number of timer interrupts, whatever the contexts
  are and however long the priorities of the processes before it are.
\<close>

theorem scheduler_fair:
  assumes "p_store s 0 = None" "chain s (active_proc s) (ws @ [z])"
    "\<forall>w \<in> set ws. has_state s PSTATE_ALIVE w \<or> has_state s PSTATE_STDINSLEEP w" "has_state s PSTATE_ALIVE z"
  shows "\<exists>n. \<forall>cs. length cs = n \<longrightarrow> (\<exists>s'. sched_n s cs = Some s' \<and> active_proc s' = z \<and> view s' = view s)"
proof -
  have "view s (active_proc s) \<noteq> None" by (rule chain_head [OF assms(2)])
  then obtain p where "p_store s (active_proc s) = Some p" by (auto simp: view_def)
  with fair_bound [OF refl assms(2-4), of "p_remaining p"] assms(1) show ?thesis by blast
qed

section \<open>An example\<close>

definition proc_example :: "u32 \<Rightarrow> u8 \<Rightarrow> u32 \<Rightarrow> u32 \<Rightarrow> process" where
  "proc_example nx st prio rem = \<lparr>p_name = [], p_pid = nx, p_state = st, p_context = nx + 1000, p_stack_start = 0, p_stack = [],
     p_stdin = None, p_pft = [], p_vmonitor = 0, p_next = nx, p_priority = prio, p_remaining = rem\<rparr>"

section \<open>When the scheduler does not return\<close>

definition asleep :: "pm_state \<Rightarrow> bool" where
  "asleep s \<longleftrightarrow> (\<exists>ys. chain s (active_proc s) (ys @ [active_proc s]) \<and> (\<forall>y \<in> set (ys @ [active_proc s]). has_state s PSTATE_STDINSLEEP y))"

lemma asleep_next:
  assumes "asleep s"
  shows "\<exists>y p. next_proc s = Some (y, p) \<and> p_state p = PSTATE_STDINSLEEP \<and> asleep (s\<lparr>active_proc := y\<rparr>) \<and> destroy_dead s = Some s"
proof -
  let ?a = "active_proc s"
  obtain ys where ys: "chain s ?a (ys @ [?a])" "\<forall>y \<in> set (ys @ [?a]). has_state s PSTATE_STDINSLEEP y"
    using assms by (auto simp: asleep_def)
  obtain y zs where y: "ys @ [?a] = y # zs" by (cases ys) auto
  from ys y have c: "chain s ?a (y # zs)" and st: "has_state s PSTATE_STDINSLEEP y" by simp_all
  obtain p where p: "next_proc s = Some (y, p)" "p_store s y = Some p" using next_proc_view [OF c] by blast
  have "p_state p = PSTATE_STDINSLEEP" using st p(2) by (auto simp: has_state_def view_def pview_def)
  moreover have "\<not> has_state s PSTATE_DEAD y" using st by (auto simp: has_state_def PSTATE_DEAD_def PSTATE_STDINSLEEP_def)
  then have "destroy_dead s = Some s" by (rule destroy_dead_id [OF c])
  moreover have "\<exists>us. chain s y (us @ [y]) \<and> (\<forall>x \<in> set (us @ [y]). has_state s PSTATE_STDINSLEEP x)"
  proof (cases ys)
    case Nil
    with ys y show ?thesis by (intro exI [of _ "[]"]) simp
  next
    case (Cons y' us)
    with y have z: "y' = y" "zs = us @ [?a]" by simp_all
    have "chain s y (us @ [?a])" "chain s ?a [y]" using c chain_head [of s y zs] unfolding z(2) by auto
    then have "chain s y (us @ ?a # [y])" using chain_append [of s y us ?a "[y]"] by blast
    then have "chain s y ((us @ [?a]) @ [y])" by simp
    moreover have "\<forall>x \<in> set ((us @ [?a]) @ [y]). has_state s PSTATE_STDINSLEEP x" using ys(2) Cons z st by simp
    ultimately show ?thesis by blast
  qed
  then have "asleep (s\<lparr>active_proc := y\<rparr>)"
    by (simp add: asleep_def chain_view [of "s\<lparr>active_proc := y\<rparr>" s] has_state_view [of "s\<lparr>active_proc := y\<rparr>" s])
  ultimately show ?thesis using p(1) by blast
qed

lemma skip_sleeping_asleep: "skip_sleeping s = Some s' \<Longrightarrow> \<not> asleep s"
proof (induction rule: skip_sleeping.raw_induct [rotated 1, consumes 1])
  case (1 f s s')
  show ?case
  proof
    assume "asleep s"
    from asleep_next [OF this] obtain y p where y: "next_proc s = Some (y, p)" "p_state p = PSTATE_STDINSLEEP" "asleep (s\<lparr>active_proc := y\<rparr>)"
      by blast
    with 1(2) have "f (s\<lparr>active_proc := y\<rparr>) = Some s'" by simp
    from 1(1) [OF this] y(3) show False by simp
  qed
qed

lemma find_alive_asleep: "asleep s \<Longrightarrow> find_alive s = None"
proof -
  assume a: "asleep s"
  from asleep_next [OF a] obtain y p where y: "next_proc s = Some (y, p)" "p_state p = PSTATE_STDINSLEEP" "destroy_dead s = Some s"
    by blast
  have "skip_sleeping s = None" using skip_sleeping_asleep [of s] a by (cases "skip_sleeping s") auto
  with y show ?thesis by (subst find_alive.simps) (simp add: PSTATE_ALIVE_def PSTATE_STDINSLEEP_def)
qed

text \<open>
  With a ring of processes none of which is dead, and at the end of a time slice, \<open>pm_schedule\<close> returns if and only if
  some process of the ring is alive. When all of them wait for input its loops never end, and as it runs in the timer interrupt
  no key can wake a process up any more.
\<close>

theorem pm_schedule_returns_iff:
  assumes nn: "active_proc s \<noteq> 0" and a: "p_store s (active_proc s) = Some a" and r: "unat (p_remaining a) \<le> 1"
    and c: "chain s (active_proc s) (ys @ [active_proc s])"
    and st: "\<forall>y \<in> set (ys @ [active_proc s]). has_state s PSTATE_ALIVE y \<or> has_state s PSTATE_STDINSLEEP y"
  shows "(\<exists>r. pm_schedule s context = Some r) \<longleftrightarrow> (\<exists>y \<in> set (ys @ [active_proc s]). has_state s PSTATE_ALIVE y)"
proof
  have r': "\<not> p_remaining a > 1" using r by (simp add: word_less_nat_alt)
  show "\<exists>r. pm_schedule s context = Some r" if al: "\<exists>y \<in> set (ys @ [active_proc s]). has_state s PSTATE_ALIVE y"
  proof -
    obtain us z vs where z: "ys @ [active_proc s] = us @ z # vs" "has_state s PSTATE_ALIVE z" "\<forall>u \<in> set us. \<not> has_state s PSTATE_ALIVE u"
      using split_list_first_prop [OF al] by blast
    have "chain s (active_proc s) (us @ [z])" using c chain_append [of s "active_proc s" us z vs] unfolding z(1) by simp
    moreover have "\<forall>u \<in> set us. has_state s PSTATE_STDINSLEEP u" using z(3) st unfolding z(1) by auto
    ultimately show ?thesis using schedule_switch [OF nn a r' _ _ z(2), of us "context"] by blast
  qed
  show "\<exists>y \<in> set (ys @ [active_proc s]). has_state s PSTATE_ALIVE y" if ret: "\<exists>r. pm_schedule s context = Some r"
  proof (rule ccontr)
    assume "\<not> ?thesis"
    then have "\<forall>y \<in> set (ys @ [active_proc s]). has_state s PSTATE_STDINSLEEP y" using st by blast
    moreover obtain s1 where s1: "upd_proc s (active_proc s) (\<lambda>q. q\<lparr>p_context := context\<rparr>) = Some s1" "view s1 = view s"
      "active_proc s1 = active_proc s"
      using upd_proc_view [of s "active_proc s" "\<lambda>q. q\<lparr>p_context := context\<rparr>"] chain_head [OF c] by (auto simp: pview_def)
    ultimately have "asleep s1" using c unfolding asleep_def s1(3) chain_view [OF s1(2)] has_state_view [OF s1(2)] by blast
    then have "pm_schedule s context = None" using nn a r' s1(1) find_alive_asleep [of s1] by (simp add: pm_schedule_def)
    with ret show False by simp
  qed
qed

text \<open>Three processes at 100, 200 and 300; the one at 200 sleeps.\<close>

definition pm_example :: pm_state where
  "pm_example = \<lparr>p_store = [100 \<mapsto> proc_example 200 0 3 1, 200 \<mapsto> proc_example 300 2 1 0, 300 \<mapsto> proc_example 100 0 5 0],
     procs_head = 100, active_proc = 100, focus_proc = 300, kernel_proc = 100, next_pid = 3, vmonitors = [],
     maxvmonitor = 0, active_monitor = 0\<rparr>"

lemma pm_example_chain: "chain pm_example 100 [200, 300]" "has_state pm_example PSTATE_STDINSLEEP 200" "has_state pm_example PSTATE_ALIVE 300"
  by (simp_all add: has_state_def view_def pview_def pm_example_def proc_example_def PSTATE_ALIVE_def PSTATE_STDINSLEEP_def)

theorem pm_schedule_next_witness:
  "\<exists>s' context'. pm_schedule pm_example 7 = Some (s', context') \<and> view s' = view pm_example \<and>
    (if p_remaining (proc_example 200 0 3 1) > 1
     then active_proc s' = active_proc pm_example \<and> context' = 7 \<and>
       p_store s' = (p_store pm_example)(active_proc pm_example \<mapsto>
         (proc_example 200 0 3 1)\<lparr>p_remaining := p_remaining (proc_example 200 0 3 1) - 1\<rparr>)
     else active_proc s' = 300 \<and> (\<exists>p. ((p_store pm_example)(active_proc pm_example \<mapsto> (proc_example 200 0 3 1)\<lparr>p_context := 7\<rparr>)) 300 = Some p \<and>
       context' = p_context p \<and>
       p_store s' = (p_store pm_example)(active_proc pm_example \<mapsto> (proc_example 200 0 3 1)\<lparr>p_context := 7\<rparr>, 300 \<mapsto> p\<lparr>p_remaining := p_priority p\<rparr>)))"
  by (rule pm_schedule_next [where ys = "[200]"])
    (use pm_example_chain in \<open>simp_all add: pm_example_def\<close>)

theorem scheduler_fair_witness:
  "\<exists>n. \<forall>cs. length cs = n \<longrightarrow> (\<exists>s'. sched_n pm_example cs = Some s' \<and> active_proc s' = 300 \<and> view s' = view pm_example)"
  by (rule scheduler_fair [where ws = "[200]"]) (use pm_example_chain in \<open>simp_all add: pm_example_def\<close>)

theorem pm_schedule_returns_iff_witness:
  "(\<exists>r. pm_schedule pm_example 7 = Some r) \<longleftrightarrow>
    (\<exists>y \<in> set ([200, 300] @ [active_proc pm_example]). has_state pm_example PSTATE_ALIVE y)"
proof (rule pm_schedule_returns_iff)
  have c: "chain pm_example 300 [100]" "has_state pm_example PSTATE_ALIVE 100"
    by (simp_all add: has_state_def view_def pview_def pm_example_def proc_example_def PSTATE_ALIVE_def)
  have a: "active_proc pm_example = 100" by (simp add: pm_example_def)
  show "chain pm_example (active_proc pm_example) ([200, 300] @ [active_proc pm_example])"
    using pm_example_chain(1) c(1) by (simp add: a)
  show "\<forall>y \<in> set ([200, 300] @ [active_proc pm_example]). has_state pm_example PSTATE_ALIVE y \<or> has_state pm_example PSTATE_STDINSLEEP y"
    using pm_example_chain c(2) by (simp add: a)
  show "active_proc pm_example \<noteq> 0" by (simp add: a)
  show "p_store pm_example (active_proc pm_example) = Some (proc_example 200 0 3 1)" unfolding a by (simp add: pm_example_def)
qed (simp add: proc_example_def)

end
