(* ===== verification/ProcRing.thy ===== *)
theory ProcRing
  imports Scheduler
begin

text \<open>
  The invariant of the process management: the processes in memory form one ring that goes through the kernel
  process at \<open>procs_head\<close>, each has a monitor of its own, the monitors are numbered without holes, and the process in
  focus is the one whose monitor is shown. Starting the system establishes it, and creating, killing and destroying
  processes, switching monitors, input and the scheduler keep it.
\<close>

section \<open>The invariant\<close>

definition pr :: "pm_state \<Rightarrow> u32 \<Rightarrow> process" where
  "pr s a = the (p_store s a)"

definition ring :: "pm_state \<Rightarrow> u32 \<Rightarrow> u32 list \<Rightarrow> bool" where
  "ring s a xs \<longleftrightarrow> chain s a (xs @ [a]) \<and> distinct (a # xs)"

definition procs_ok :: "pm_state \<Rightarrow> bool" where
  "procs_ok s \<longleftrightarrow> (\<exists>xs. ring s (procs_head s) xs \<and> dom (p_store s) = set (procs_head s # xs)) \<and>
     inj_on (\<lambda>a. p_pid (pr s a)) (dom (p_store s)) \<and> p_store s 0 = None"

definition mons_ok :: "pm_state \<Rightarrow> bool" where
  "mons_ok s \<longleftrightarrow> length (vmonitors s) = 1000 \<and> unat (maxvmonitor s) + 1 = card (dom (p_store s)) \<and>
     unat (maxvmonitor s) < 1000 \<and> active_monitor s \<le> maxvmonitor s \<and>
     inj_on (\<lambda>a. p_vmonitor (pr s a)) (dom (p_store s)) \<and>
     (\<forall>a \<in> dom (p_store s). p_vmonitor (pr s a) \<le> unat (maxvmonitor s) \<and>
        vm_pid (vmonitors s ! p_vmonitor (pr s a)) = p_pid (pr s a))"

definition focus_ok :: "pm_state \<Rightarrow> bool" where
  "focus_ok s \<longleftrightarrow> focus_proc s = 0 \<or>
     focus_proc s \<in> dom (p_store s) \<and> p_vmonitor (pr s (focus_proc s)) = unat (active_monitor s)"

definition queues_ok :: "pm_state \<Rightarrow> bool" where
  "queues_ok s \<longleftrightarrow> (\<forall>a \<in> dom (p_store s). \<exists>q. p_stdin (pr s a) = Some q \<and> rf_inv q)"

definition pm_ok :: "pm_state \<Rightarrow> bool" where
  "pm_ok s \<longleftrightarrow> procs_ok s \<and> active_proc s \<in> dom (p_store s) \<and> mons_ok s \<and> focus_ok s \<and> queues_ok s"

section \<open>Rings\<close>

lemma view_None: "view s a = None \<longleftrightarrow> p_store s a = None"
  by (simp add: view_def)

lemma chain_dom: "chain s a xs \<Longrightarrow> set (a # xs) \<subseteq> dom (p_store s)"
  by (induction xs arbitrary: a) (auto simp: view_def)

lemma ring_rotate:
  assumes "ring s a (us @ h # vs)"
  shows "ring s h (vs @ a # us)"
proof -
  have "chain s a (us @ h # (vs @ [a]))" using assms by (simp add: ring_def)
  then have 1: "chain s a (us @ [h])" and 2: "chain s h (vs @ [a])" by (simp_all add: chain_append [of s a us h "vs @ [a]"])
  have "chain s h (vs @ a # (us @ [h]))" using chain_append [of s h vs a "us @ [h]"] 1 2 by simp
  then show ?thesis using assms by (auto simp: ring_def)
qed

lemma ring_at:
  assumes "ring s h xs" "z \<in> set (h # xs)"
  obtains ys where "ring s z ys" "set (z # ys) = set (h # xs)"
proof (cases "z = h")
  case True
  with assms(1) show ?thesis by (auto intro: that)
next
  case False
  with assms(2) obtain us vs where "xs = us @ z # vs" by (auto dest: split_list)
  with ring_rotate [of s h us z vs] assms(1) show ?thesis by (intro that) auto
qed

lemma pm_ring:
  assumes "procs_ok s" "z \<in> dom (p_store s)"
  obtains ys where "ring s z ys" "set (z # ys) = dom (p_store s)"
  using assms ring_at [of s "procs_head s" _ z] unfolding procs_ok_def by metis

lemma pm_okD:
  assumes "pm_ok s"
  shows "procs_head s \<in> dom (p_store s)" "procs_ok s" "active_proc s \<in> dom (p_store s)" "mons_ok s" "focus_ok s"
    "queues_ok s" "finite (dom (p_store s))"
  using assms by (auto simp: pm_ok_def procs_ok_def)

lemma zero_free: "pm_ok s \<Longrightarrow> 0 \<notin> dom (p_store s)"
  by (auto simp: pm_ok_def procs_ok_def)

section \<open>Looking up processes\<close>

lemma get_proc_loop_ok:
  "chain s p (ys @ [procs_head s]) \<Longrightarrow> procs_head s \<notin> set ys \<Longrightarrow>
   get_proc_loop s pid p = Some (case filter (\<lambda>a. p_pid (pr s a) = pid) (p # ys) of [] \<Rightarrow> 0 | a # as \<Rightarrow> a)"
proof (induction ys arbitrary: p)
  case Nil
  then obtain q where "p_store s p = Some q" "p_next q = procs_head s" by (auto simp: view_def pview_def)
  then show ?case by (subst get_proc_loop.simps) (simp add: pr_def)
next
  case (Cons y ys)
  then obtain q where q: "p_store s p = Some q" "p_next q = y" by (auto simp: view_def pview_def)
  moreover have "y \<noteq> procs_head s" using Cons.prems by auto
  ultimately show ?case using Cons by (subst get_proc_loop.simps) (simp add: pr_def)
qed

lemma pm_get_proc_found:
  assumes ok: "procs_ok s" and a: "a \<in> dom (p_store s)"
  shows "pm_get_proc s (p_pid (pr s a)) = Some a"
proof -
  obtain xs where xs: "ring s (procs_head s) xs" "dom (p_store s) = set (procs_head s # xs)"
    and inj: "inj_on (\<lambda>a. p_pid (pr s a)) (dom (p_store s))" using ok by (auto simp: procs_ok_def)
  let ?f = "filter (\<lambda>b. p_pid (pr s b) = p_pid (pr s a)) (procs_head s # xs)"
  have g: "pm_get_proc s (p_pid (pr s a)) = Some (case ?f of [] \<Rightarrow> 0 | b # bs \<Rightarrow> b)"
    unfolding pm_get_proc_def using xs by (intro get_proc_loop_ok) (auto simp: ring_def)
  have f: "set ?f = {b \<in> dom (p_store s). p_pid (pr s b) = p_pid (pr s a)}" unfolding xs(2) by auto
  show ?thesis
  proof (cases ?f)
    case Nil
    then show ?thesis using f a by auto
  next
    case (Cons b bs)
    then have "b \<in> set ?f" by simp
    then have "b = a" using f a inj by (auto dest: inj_onD)
    with g Cons show ?thesis by simp
  qed
qed

text \<open>A process number that no process has: the result is \<open>NULL\<close>.\<close>

lemma pm_get_proc_missing:
  assumes ok: "procs_ok s" and pid: "\<forall>a \<in> dom (p_store s). p_pid (pr s a) \<noteq> pid"
  shows "pm_get_proc s pid = Some 0"
proof -
  obtain xs where xs: "ring s (procs_head s) xs" "dom (p_store s) = set (procs_head s # xs)" using ok by (auto simp: procs_ok_def)
  have "pm_get_proc s pid = Some (case filter (\<lambda>b. p_pid (pr s b) = pid) (procs_head s # xs) of [] \<Rightarrow> 0 | b # bs \<Rightarrow> b)"
    unfolding pm_get_proc_def using xs by (intro get_proc_loop_ok) (auto simp: ring_def)
  moreover have "filter (\<lambda>b. p_pid (pr s b) = pid) (procs_head s # xs) = []"
    unfolding filter_empty_conv using pid xs(2) by blast
  ultimately show ?thesis by simp
qed

lemma store_cong:
  assumes "p_store s' = p_store s"
  shows "view s' = view s" "pr s' = pr s" "ring s' a xs = ring s a xs" "queues_ok s' = queues_ok s"
proof -
  show v: "view s' = view s" and p: "pr s' = pr s" using assms by (simp_all add: view_def pr_def fun_eq_iff)
  show "ring s' a xs = ring s a xs" using chain_view [OF v] by (simp add: ring_def)
  show "queues_ok s' = queues_ok s" using assms p by (simp add: queues_ok_def)
qed

lemma procs_ok_cong: "p_store s' = p_store s \<Longrightarrow> procs_head s' = procs_head s \<Longrightarrow> procs_ok s' = procs_ok s"
  using store_cong [of s' s] by (simp add: procs_ok_def)

text \<open>Every monitor in use belongs to a process.\<close>

lemma monitor_owner:
  assumes ok: "pm_ok s" and i: "i \<le> unat (maxvmonitor s)"
  obtains a where "a \<in> dom (p_store s)" "p_vmonitor (pr s a) = i" "vm_pid (vmonitors s ! i) = p_pid (pr s a)"
proof -
  note m = pm_okD(4) [OF ok, unfolded mons_ok_def]
  let ?f = "\<lambda>a. p_vmonitor (pr s a)"
  have "?f ` dom (p_store s) \<subseteq> {..unat (maxvmonitor s)}" using m by auto
  moreover have "card (?f ` dom (p_store s)) = card {..unat (maxvmonitor s)}" using m by (simp add: card_image)
  ultimately have "?f ` dom (p_store s) = {..unat (maxvmonitor s)}" by (intro card_subset_eq) auto
  then obtain a where "a \<in> dom (p_store s)" "?f a = i" using i by (metis (no_types, lifting) atMost_iff imageE)
  with m show ?thesis by (intro that) auto
qed

lemma focus_active_ok:
  assumes ok: "pm_ok s" and i: "i \<le> maxvmonitor s"
  shows "\<exists>a. focus_active (s\<lparr>active_monitor := i\<rparr>) = Some (s\<lparr>active_monitor := i, focus_proc := a\<rparr>) \<and>
    a \<in> dom (p_store s) \<and> p_vmonitor (pr s a) = unat i \<and> pm_ok (s\<lparr>active_monitor := i, focus_proc := a\<rparr>)"
proof -
  have i': "unat i \<le> unat (maxvmonitor s)" using i by (simp add: word_le_nat_alt)
  from monitor_owner [OF ok i'] obtain a where
    a: "a \<in> dom (p_store s)" "p_vmonitor (pr s a) = unat i" "vm_pid (vmonitors s ! unat i) = p_pid (pr s a)" by blast
  have len: "unat i < length (vmonitors s)" using pm_okD(4) [OF ok] i' by (simp add: mons_ok_def)
  let ?s = "s\<lparr>active_monitor := i\<rparr>"
  have "procs_ok ?s" "pr ?s = pr s" using procs_ok_cong [of ?s s] store_cong [of ?s s] pm_okD(2) [OF ok] by simp_all
  with pm_get_proc_found [of ?s a] a(1) have "pm_get_proc ?s (p_pid (pr s a)) = Some a" by simp
  then have f: "focus_active ?s = Some (s\<lparr>active_monitor := i, focus_proc := a\<rparr>)"
    using a(3) len by (simp add: focus_active_def pm_set_focus_proc_def)
  let ?t = "s\<lparr>active_monitor := i, focus_proc := a\<rparr>"
  have "procs_ok ?t" "pr ?t = pr s" "queues_ok ?t"
    using procs_ok_cong [of ?t s] store_cong [of ?t s] pm_okD [OF ok] by simp_all
  then have "pm_ok ?t" using pm_okD [OF ok] i a by (simp add: pm_ok_def mons_ok_def focus_ok_def)
  with f a show ?thesis by blast
qed

text \<open>Switching between the monitors.\<close>

lemma switch_monitor_ok:
  assumes ok: "pm_ok s"
  shows "\<exists>s'. switch_monitor_up s = Some s' \<and> pm_ok s' \<and> p_store s' = p_store s \<and> focus_proc s' \<in> dom (p_store s')"
    "\<exists>s'. switch_monitor_down s = Some s' \<and> pm_ok s' \<and> p_store s' = p_store s \<and> focus_proc s' \<in> dom (p_store s')"
proof -
  have le: "active_monitor s \<le> maxvmonitor s" using pm_okD(4) [OF ok] by (simp add: mons_ok_def)
  have up: "(if active_monitor s < maxvmonitor s then active_monitor s + 1 else 0) \<le> maxvmonitor s"
    by (simp add: inc_le word_less_nat_alt)
  have dn: "(if active_monitor s > 0 then active_monitor s - 1 else maxvmonitor s) \<le> maxvmonitor s"
    using le by (auto simp: word_le_nat_alt unat_minus_one word_gt_0)
  from focus_active_ok [OF ok up] le
  show "\<exists>s'. switch_monitor_up s = Some s' \<and> pm_ok s' \<and> p_store s' = p_store s \<and> focus_proc s' \<in> dom (p_store s')"
    by (auto simp: switch_monitor_up_def)
  from focus_active_ok [OF ok dn]
  show "\<exists>s'. switch_monitor_down s = Some s' \<and> pm_ok s' \<and> p_store s' = p_store s \<and> focus_proc s' \<in> dom (p_store s')"
    by (auto simp: switch_monitor_down_def split: if_splits)
qed

section \<open>Starting and creating\<close>

text \<open>A chain in terms of the links alone.\<close>

definition nx :: "pm_state \<Rightarrow> u32 \<Rightarrow> u32 option" where
  "nx s a = map_option p_next (p_store s a)"

lemma chain_nx: "chain s a xs \<longleftrightarrow> successively (\<lambda>x y. nx s x = Some y) (a # xs) \<and> last (a # xs) \<in> dom (p_store s)"
proof (induction xs arbitrary: a)
  case Nil
  then show ?case by (auto simp: view_def)
next
  case (Cons x xs)
  have "(\<exists>st prio. view s a = Some (x, st, prio)) \<longleftrightarrow> nx s a = Some x" by (auto simp: view_def pview_def nx_def)
  with Cons show ?case by simp
qed

lemma succ_nx_cong:
  "(\<And>x. x \<in> set (butlast zs) \<Longrightarrow> nx s' x = nx s x) \<Longrightarrow> successively (\<lambda>x y. nx s x = Some y) zs \<Longrightarrow> successively (\<lambda>x y. nx s' x = Some y) zs"
  by (induction zs rule: induct_list012) auto

lemma chain_cong2:
  assumes "chain s a xs" "\<And>x. x \<in> set (butlast (a # xs)) \<Longrightarrow> nx s' x = nx s x" "dom (p_store s) \<subseteq> dom (p_store s')"
  shows "chain s' a xs"
  using assms succ_nx_cong [of "a # xs" s' s] unfolding chain_nx by blast

text \<open>Linking a process in behind \<open>h\<close>, and unlinking the one behind \<open>h\<close>.\<close>

lemma ring_insert:
  assumes r: "ring s h xs" and n: "n \<notin> set (h # xs)" and d: "dom (p_store s) \<subseteq> dom (p_store s')"
    and l: "nx s' h = Some n" "nx s' n = nx s h" "\<And>x. x \<in> set xs \<Longrightarrow> nx s' x = nx s x"
  shows "ring s' h (n # xs)"
proof -
  obtain y ys where y: "xs @ [h] = y # ys" by (cases "xs @ [h]") auto
  have c: "chain s h (y # ys)" using r y by (simp add: ring_def)
  then have hy: "nx s h = Some y" "chain s y ys" by (auto simp: chain_nx)
  have "set (butlast (y # ys)) \<subseteq> set xs" unfolding y [symmetric] by simp
  then have "chain s' y ys" using chain_cong2 [OF hy(2), of s'] l(3) d by blast
  moreover from this have "nx s' y \<noteq> None" using chain_head [of s' y ys] by (auto simp: nx_def view_def)
  ultimately have "chain s' n (y # ys)" using l(2) hy(1) by (simp add: chain_nx)
  then have "chain s' h (n # y # ys)" using l(1) by (simp add: chain_nx)
  then show ?thesis using r n y by (auto simp: ring_def)
qed

lemma ring_remove:
  assumes r: "ring s h (n # xs)" and d: "dom (p_store s') = dom (p_store s) - {n}"
    and l: "nx s' h = nx s n" "\<And>x. x \<in> set xs \<Longrightarrow> nx s' x = nx s x"
  shows "ring s' h xs"
proof -
  obtain y ys where y: "xs @ [h] = y # ys" by (cases "xs @ [h]") auto
  have c: "chain s h (n # y # ys)" using r y by (simp add: ring_def)
  then have hy: "nx s n = Some y" "chain s y ys" by (auto simp: chain_nx)
  have b: "set (butlast (y # ys)) \<subseteq> set xs" unfolding y [symmetric] by simp
  have "successively (\<lambda>x y. nx s x = Some y) (y # ys)" using hy(2) by (simp add: chain_nx)
  then have "successively (\<lambda>x y. nx s' x = Some y) (y # ys)"
    by (rule succ_nx_cong [rotated]) (use b l(2) in blast)
  moreover have "last (y # ys) = h" unfolding y [symmetric] by simp
  moreover have "h \<in> dom (p_store s')" using r d chain_dom [OF c] by (auto simp: ring_def)
  ultimately have "chain s' h (y # ys)" using l(1) hy(1) by (simp add: chain_nx)
  then show ?thesis using r y by (simp add: ring_def)
qed

lemma start_vmonitor_ok:
  assumes "length (vmonitors s) = 1000" "unat (maxvmonitor s + 1) < 1000" "3840 \<le> length mon" "length nm = 81" "length name \<le> 78"
  shows "\<exists>vm. start_vmonitor s mon nm name pid = Some (s\<lparr>maxvmonitor := maxvmonitor s + 1, active_monitor := maxvmonitor s + 1,
      vmonitors := (vmonitors s)[unat (maxvmonitor s + 1) := vm]\<rparr>, unat (maxvmonitor s + 1)) \<and> vm_pid vm = pid"
proof -
  have "unat VMONITOR_HEIGHT = 3840" by (simp add: VMONITOR_HEIGHT_def)
  with assms obtain vm where vm: "new_virt_monitor mon nm pid = Some vm" "vm_pid vm = pid" "vm_name vm = nm"
    by (auto simp: new_virt_monitor_def)
  show ?thesis using vm assms by (auto simp: start_vmonitor_def Let_def)
qed

text \<open>The kernel process gets the first monitor. The variables have their initial values before.\<close>

definition pm_boot :: "pm_state" where
  "pm_boot = \<lparr>p_store = Map.empty, procs_head = 0, active_proc = 0, focus_proc = 0, kernel_proc = 0, next_pid = 0,
     vmonitors = [], maxvmonitor = - 1, active_monitor = - 1\<rparr>"

lemma pm_init_ok:
  assumes "addr \<noteq> 0" "3840 \<le> length mon" "length nm = 81" "length fifo = 512"
  shows "\<exists>s1 s. init_vmonitors pm_boot mon nm = Some s1 \<and> pm_init_proc s1 addr fifo = Some s \<and> pm_ok s \<and>
    dom (p_store s) = {addr} \<and> next_pid s = 1 \<and> p_pid (pr s addr) = 0"
proof -
  let ?b = "pm_boot\<lparr>vmonitors := replicate 1000 zero_vmonitor\<rparr>"
  from start_vmonitor_ok [of ?b mon nm "[68, 69, 66, 85, 71, 32, 77, 79, 78, 73, 84, 79, 82]" 0] assms obtain vm where
    vm: "init_vmonitors pm_boot mon nm = Some (pm_boot\<lparr>maxvmonitor := 0, active_monitor := 0,
      vmonitors := (replicate 1000 zero_vmonitor)[0 := vm]\<rparr>)" "vm_pid vm = 0"
    by (auto simp: init_vmonitors_def pm_boot_def)
  let ?s1 = "pm_boot\<lparr>maxvmonitor := 0, active_monitor := 0, vmonitors := (replicate 1000 zero_vmonitor)[0 := vm]\<rparr>"
  obtain q where q: "rf_alloc True (Some fifo) STDIN_QUEUE_SIZE = Some q" "rf_inv q"
    using assms(4) rf_inv_clear [of "\<lparr>rf_data = fifo, rf_size = STDIN_QUEUE_SIZE, rf_start = 0, rf_end = 0, rf_len = 0\<rparr>"]
    by (simp add: rf_alloc_def STDIN_QUEUE_SIZE_def)
  obtain s where s: "pm_init_proc ?s1 addr fifo = Some s" using assms(1) by (auto simp: pm_init_proc_def)
  then obtain p where p: "p_store s = [addr \<mapsto> p]" "p_next p = addr" "p_pid p = 0" "p_vmonitor p = 0" "p_stdin p = Some q"
    and f: "procs_head s = addr" "active_proc s = addr" "focus_proc s = 0" "next_pid s = 1" "maxvmonitor s = 0"
      "active_monitor s = 0" "vmonitors s = (replicate 1000 zero_vmonitor)[0 := vm]"
    using assms(1) q(1) by (auto simp: pm_init_proc_def pm_boot_def get_active_virt_monitor_def)
  have pr: "pr s addr = p" by (simp add: pr_def p(1))
  have "ring s addr []" using p(1,2) by (simp add: ring_def chain_nx nx_def)
  then have "procs_ok s" using p(1) f(1) assms(1) by (auto simp: procs_ok_def intro!: exI [of _ "[]"])
  moreover have "mons_ok s" using p f pr vm(2) by (simp add: mons_ok_def)
  moreover have "focus_ok s" "queues_ok s" using p f pr q(2) by (simp_all add: focus_ok_def queues_ok_def)
  ultimately have "pm_ok s" using p(1) f(2) by (simp add: pm_ok_def)
  with vm(1) s p(1,3) pr f(4) show ?thesis by simp
qed

lemma card_insert_dom: "a \<notin> dom f \<Longrightarrow> finite (dom f) \<Longrightarrow> card (insert a (dom f)) = card (dom f) + 1"
  by simp

lemma pm_create_ok:
  assumes ok: "pm_ok s" and name: "length nm \<le> 78" "entry \<noteq> 0"
    and mem: "tm_addr m \<noteq> 0" "tm_addr m \<notin> dom (p_store s)" "tm_stack m \<noteq> 0" "length (tm_fifo m) = 512"
      "3840 \<le> length (tm_mon m)" "length (tm_name m) = 81"
    and room: "unat (maxvmonitor s) + 1 < 1000" and fresh: "\<forall>a \<in> dom (p_store s). p_pid (pr s a) \<noteq> next_pid s"
  shows "\<exists>s'. pm_create_thread s m (Some nm) entry stacksize = Some (s', next_pid s) \<and> pm_ok s' \<and>
    dom (p_store s') = insert (tm_addr m) (dom (p_store s)) \<and> next_pid s' = next_pid s + 1 \<and>
    active_proc s' = active_proc s \<and> procs_head s' = procs_head s \<and>
    focus_proc s' = tm_addr m \<and> p_pid (pr s' (tm_addr m)) = next_pid s \<and> p_state (pr s' (tm_addr m)) = PSTATE_ALIVE \<and>
    (\<forall>a \<in> dom (p_store s). p_pid (pr s' a) = p_pid (pr s a) \<and> p_state (pr s' a) = p_state (pr s a))"
proof -
  let ?h = "procs_head s" and ?n = "tm_addr m"
  note m = pm_okD(4) [OF ok, unfolded mons_ok_def]
  obtain h where h: "p_store s ?h = Some h" using pm_okD(1) [OF ok] by blast
  have nh: "?n \<noteq> ?h" using pm_okD(1) [OF ok] mem(2) by auto
  have a0: "active_proc s \<noteq> 0" using pm_okD(2,3) [OF ok] by (auto simp: procs_ok_def)
  obtain q where q: "rf_alloc True (Some (tm_fifo m)) STDIN_QUEUE_SIZE = Some q" "rf_inv q"
    using mem(4) rf_inv_clear [of "\<lparr>rf_data = tm_fifo m, rf_size = STDIN_QUEUE_SIZE, rf_start = 0, rf_end = 0, rf_len = 0\<rparr>"]
    by (simp add: rf_alloc_def STDIN_QUEUE_SIZE_def)
  have mx: "unat (maxvmonitor s + 1) = unat (maxvmonitor s) + 1" using room by (simp add: unat_word_ariths)
  define p where "p = \<lparr>p_name = nm, p_pid = next_pid s, p_state = PSTATE_ALIVE, p_context = tm_stack m + stacksize - 68,
       p_stack_start = tm_stack m, p_stack = initial_stack entry,
       p_stdin = Some q, p_pft = init_proc_file_table (tm_pft m),
       p_vmonitor = unat (maxvmonitor s + 1), p_next = p_next h, p_priority = 1, p_remaining = 1\<rparr>"
  define st where "st = (p_store s)(?n \<mapsto> p, ?h \<mapsto> h\<lparr>p_next := ?n\<rparr>)"
  from start_vmonitor_ok [of "s\<lparr>next_pid := next_pid s + 1, p_store := (p_store s)(?n \<mapsto> p\<lparr>p_vmonitor := 0\<rparr>, ?h \<mapsto> h\<lparr>p_next := ?n\<rparr>),
      focus_proc := ?n\<rparr>" "tm_mon m" "tm_name m" nm "next_pid s"] m room mem name(1) mx
  obtain vm where vm: "vm_pid vm = next_pid s"
    "start_vmonitor (s\<lparr>next_pid := next_pid s + 1, p_store := (p_store s)(?n \<mapsto> p\<lparr>p_vmonitor := 0\<rparr>, ?h \<mapsto> h\<lparr>p_next := ?n\<rparr>),
      focus_proc := ?n\<rparr>) (tm_mon m) (tm_name m) nm (next_pid s) =
     Some (s\<lparr>next_pid := next_pid s + 1, p_store := (p_store s)(?n \<mapsto> p\<lparr>p_vmonitor := 0\<rparr>, ?h \<mapsto> h\<lparr>p_next := ?n\<rparr>),
      focus_proc := ?n, maxvmonitor := maxvmonitor s + 1, active_monitor := maxvmonitor s + 1,
      vmonitors := (vmonitors s)[unat (maxvmonitor s + 1) := vm]\<rparr>, unat (maxvmonitor s + 1))"
    by auto
  define s' where "s' = s\<lparr>next_pid := next_pid s + 1, p_store := st, focus_proc := ?n, maxvmonitor := maxvmonitor s + 1,
    active_monitor := maxvmonitor s + 1, vmonitors := (vmonitors s)[unat (maxvmonitor s + 1) := vm]\<rparr>"
  have st': "((p_store s)(?n \<mapsto> p\<lparr>p_vmonitor := 0\<rparr>, ?h \<mapsto> h\<lparr>p_next := ?n\<rparr>))(?n \<mapsto> p) = st"
    using nh by (auto simp: st_def)
  have run: "pm_create_thread s m (Some nm) entry stacksize = Some (s', next_pid s)"
    using a0 h nh mem name q(1) vm(2) st' by (simp add: pm_create_thread_def upd_proc_def s'_def p_def)
  have dm: "dom (p_store s') = insert ?n (dom (p_store s))" using h by (auto simp: s'_def st_def)
  have prn: "pr s' ?n = p" using nh by (simp add: pr_def s'_def st_def)
  have pra: "p_pid (pr s' a) = p_pid (pr s a) \<and> p_state (pr s' a) = p_state (pr s a) \<and> p_vmonitor (pr s' a) = p_vmonitor (pr s a) \<and>
      p_stdin (pr s' a) = p_stdin (pr s a)" if "a \<in> dom (p_store s)" for a
    using that mem(2) h by (auto simp: pr_def s'_def st_def)
  obtain xs where xs: "ring s ?h xs" "dom (p_store s) = set (?h # xs)" using pm_okD(2) [OF ok] by (auto simp: procs_ok_def)
  have "ring s' ?h (?n # xs)"
  proof (rule ring_insert [OF xs(1)])
    show "?n \<notin> set (?h # xs)" using mem(2) xs(2) by simp
    show "nx s' x = nx s x" if "x \<in> set xs" for x using that mem(2) xs by (auto simp: nx_def s'_def st_def ring_def)
  qed (use nh h dm in \<open>auto simp: nx_def s'_def st_def p_def\<close>)
  moreover have "inj_on (\<lambda>a. p_pid (pr s' a)) (dom (p_store s'))"
    using pm_okD(2) [OF ok] fresh mem(2) pra prn by (auto simp: dm procs_ok_def inj_on_def p_def)
  moreover have "p_store s' 0 = None" "procs_head s' = ?h"
    using pm_okD(2) [OF ok] mem(1) h by (auto simp: s'_def st_def procs_ok_def)
  ultimately have "procs_ok s'" using xs(2) dm by (auto simp: procs_ok_def intro!: exI [of _ "?n # xs"])
  moreover have "mons_ok s'"
  proof -
    have "card (dom (p_store s')) = card (dom (p_store s)) + 1" unfolding dm by (rule card_insert_dom [OF mem(2) pm_okD(7) [OF ok]])
    moreover have "inj_on (\<lambda>a. p_vmonitor (pr s' a)) (dom (p_store s'))"
    proof -
      have 1: "inj_on (\<lambda>a. p_vmonitor (pr s' a)) (dom (p_store s))" using m pra by (simp add: inj_on_def)
      have "p_vmonitor (pr s' a) \<noteq> p_vmonitor (pr s' ?n)" if "a \<in> dom (p_store s)" for a
      proof -
        have "p_vmonitor (pr s a) \<le> unat (maxvmonitor s)" using m that by blast
        then show ?thesis using pra [OF that] mx by (simp add: prn p_def)
      qed
      then have "p_vmonitor (pr s' ?n) \<notin> (\<lambda>a. p_vmonitor (pr s' a)) ` dom (p_store s)" by (metis (no_types, lifting) imageE)
      with 1 mem(2) show ?thesis unfolding dm by simp
    qed
    moreover have f: "maxvmonitor s' = maxvmonitor s + 1" "active_monitor s' = maxvmonitor s + 1"
      "vmonitors s' = (vmonitors s)[unat (maxvmonitor s) + 1 := vm]"
      by (simp_all add: s'_def mx)
    moreover have "p_vmonitor (pr s' a) \<le> unat (maxvmonitor s) + 1 \<and>
        (vmonitors s)[unat (maxvmonitor s) + 1 := vm] ! p_vmonitor (pr s' a) = (if a = ?n then vm else vmonitors s ! p_vmonitor (pr s a))"
      if "a \<in> dom (p_store s')" for a
    proof (cases "a = ?n")
      case True
      then show ?thesis using m room mx prn by (simp add: p_def)
    next
      case False
      with that dm have a: "a \<in> dom (p_store s)" by simp
      with m have "p_vmonitor (pr s a) \<le> unat (maxvmonitor s)" by blast
      with False pra [OF a] show ?thesis by simp
    qed
    moreover have "vm_pid (if a = ?n then vm else vmonitors s ! p_vmonitor (pr s a)) = p_pid (pr s' a)" if "a \<in> dom (p_store s')" for a
    proof (cases "a = ?n")
      case True
      then show ?thesis using prn vm(1) by (simp add: p_def)
    next
      case False
      with that dm have a: "a \<in> dom (p_store s)" by simp
      with m pra [OF a] False show ?thesis by simp
    qed
    ultimately show ?thesis using m mx room unfolding mons_ok_def by simp
  qed
  moreover have "focus_ok s'" using prn dm by (simp add: focus_ok_def) (simp add: s'_def p_def)
  moreover have "queues_ok s'" using pm_okD(6) [OF ok] pra prn q(2) by (auto simp: queues_ok_def dm p_def)
  moreover have "active_proc s' \<in> dom (p_store s')" using pm_okD(3) [OF ok] dm by (simp add: s'_def)
  ultimately have "pm_ok s'" by (simp add: pm_ok_def)
  moreover have "next_pid s' = next_pid s + 1" "active_proc s' = active_proc s" "focus_proc s' = ?n" "procs_head s' = ?h"
    by (simp_all add: s'_def)
  moreover have "p_pid (pr s' ?n) = next_pid s" "p_state (pr s' ?n) = PSTATE_ALIVE" by (simp_all add: prn p_def)
  ultimately show ?thesis using run dm pra by blast
qed

section \<open>Destroying\<close>

text \<open>Two states whose processes differ at most in the numbers of their monitors.\<close>

definition same_but_mon :: "pm_state \<Rightarrow> pm_state \<Rightarrow> bool" where
  "same_but_mon s s' \<longleftrightarrow> (\<forall>x. map_option (p_vmonitor_update (\<lambda>_. 0)) (p_store s' x) = map_option (p_vmonitor_update (\<lambda>_. 0)) (p_store s x)) \<and>
     procs_head s' = procs_head s \<and> active_proc s' = active_proc s \<and> next_pid s' = next_pid s"

lemma same_but_monD:
  assumes "same_but_mon s s'"
  shows "dom (p_store s') = dom (p_store s)" "nx s' = nx s" "procs_head s' = procs_head s" "active_proc s' = active_proc s"
    "a \<in> dom (p_store s) \<Longrightarrow> p_pid (pr s' a) = p_pid (pr s a) \<and> p_state (pr s' a) = p_state (pr s a) \<and> p_stdin (pr s' a) = p_stdin (pr s a) \<and>
       p_next (pr s' a) = p_next (pr s a)"
proof -
  have m: "map_option (p_vmonitor_update (\<lambda>_. 0)) (p_store s' x) = map_option (p_vmonitor_update (\<lambda>_. 0)) (p_store s x)" for x
    using assms by (simp add: same_but_mon_def)
  have "p_store s' x = None \<longleftrightarrow> p_store s x = None" for x using m [of x] by (metis map_option_is_None)
  then show "dom (p_store s') = dom (p_store s)" by (simp add: dom_def)
  have f: "f (pr s' x) = f (pr s x)" if x: "x \<in> dom (p_store s)" and fp: "\<And>p. f (p\<lparr>p_vmonitor := 0\<rparr>) = f p" for x and f :: "process \<Rightarrow> 'a"
  proof -
    obtain p p' where p: "p_store s x = Some p" "p_store s' x = Some p'" using x m [of x] by (cases "p_store s' x") auto
    with m [of x] have "p'\<lparr>p_vmonitor := 0\<rparr> = p\<lparr>p_vmonitor := 0\<rparr>" by simp
    then have "f p' = f p" using fp by metis
    with p show ?thesis by (simp add: pr_def)
  qed
  show "a \<in> dom (p_store s) \<Longrightarrow> p_pid (pr s' a) = p_pid (pr s a) \<and> p_state (pr s' a) = p_state (pr s a) \<and> p_stdin (pr s' a) = p_stdin (pr s a) \<and>
       p_next (pr s' a) = p_next (pr s a)"
    using f [of a p_pid] f [of a p_state] f [of a p_stdin] f [of a p_next] by simp
  have "map_option p_next (p_store s' x) = map_option p_next (p_store s x)" for x
  proof -
    have "map_option p_next (map_option (p_vmonitor_update (\<lambda>_. 0)) t) = map_option p_next t" for t by (cases t) simp_all
    then show ?thesis using m [of x] by metis
  qed
  then show "nx s' = nx s" by (simp add: nx_def fun_eq_iff)
  show "procs_head s' = procs_head s" "active_proc s' = active_proc s" using assms by (simp_all add: same_but_mon_def)
qed

definition mons_without :: "pm_state \<Rightarrow> u32 \<Rightarrow> bool" where
  "mons_without s d \<longleftrightarrow> length (vmonitors s) = 1000 \<and> unat (maxvmonitor s) + 1 = card (dom (p_store s) - {d}) \<and>
     unat (maxvmonitor s) < 1000 \<and> active_monitor s \<le> maxvmonitor s \<and>
     inj_on (\<lambda>a. p_vmonitor (pr s a)) (dom (p_store s) - {d}) \<and>
     (\<forall>a \<in> dom (p_store s) - {d}. p_vmonitor (pr s a) \<le> unat (maxvmonitor s) \<and>
        vm_pid (vmonitors s ! p_vmonitor (pr s a)) = p_pid (pr s a)) \<and>
     (focus_proc s = 0 \<or> focus_proc s \<in> dom (p_store s) - {d} \<and> p_vmonitor (pr s (focus_proc s)) = unat (active_monitor s))"

text \<open>The monitor of \<open>d\<close> is the last one.\<close>

lemma free_last_monitor:
  assumes ok: "pm_ok s" and d: "d \<in> dom (p_store s)" and v: "p_vmonitor (pr s d) = unat (maxvmonitor s)" and two: "maxvmonitor s \<noteq> 0"
  shows "\<exists>s'. free_virt_monitor s (p_vmonitor (pr s d)) = Some s' \<and> same_but_mon s s' \<and> mons_without s' d"
proof -
  note m = pm_okD(4) [OF ok, unfolded mons_ok_def]
  let ?mx = "unat (maxvmonitor s)"
  have mx1: "unat (maxvmonitor s - 1) = ?mx - 1" "0 < ?mx" using two by (simp_all add: unat_minus_one unat_gt_0)
  have fin: "card (dom (p_store s) - {d}) = ?mx"
  proof -
    have "card (dom (p_store s)) = ?mx + 1" using m by simp
    then show ?thesis using d pm_okD(7) [OF ok] by (simp add: card_Diff_singleton)
  qed
  have small: "p_vmonitor (pr s a) \<le> ?mx - 1" if "a \<in> dom (p_store s) - {d}" for a
  proof -
    have "p_vmonitor (pr s a) \<noteq> p_vmonitor (pr s d)" using m d that by (auto dest: inj_onD)
    moreover have "p_vmonitor (pr s a) \<le> ?mx" using m that by blast
    ultimately show ?thesis using v by linarith
  qed
  have keep: "vm_pid ((vmonitors s)[?mx := zero_vmonitor] ! p_vmonitor (pr s a)) = p_pid (pr s a)" if "a \<in> dom (p_store s) - {d}" for a
  proof -
    have "p_vmonitor (pr s a) \<noteq> ?mx" using small [OF that] mx1 by linarith
    with m that show ?thesis by simp
  qed
  have inj: "inj_on (\<lambda>a. p_vmonitor (pr s a)) (dom (p_store s) - {d})" using m by (auto intro: inj_on_subset)
  define fin_s where "fin_s = (\<lambda>i f. s\<lparr>active_monitor := i, focus_proc := f, vmonitors := (vmonitors s)[?mx := zero_vmonitor], maxvmonitor := maxvmonitor s - 1\<rparr>)"
  have st: "pr (fin_s i f) = pr s" "p_store (fin_s i f) = p_store s" for i f by (simp_all add: fin_s_def pr_def fun_eq_iff)
  have fok: "same_but_mon s (fin_s i f) \<and> mons_without (fin_s i f) d"
    if "i \<le> maxvmonitor s - 1" "f = 0 \<or> f \<in> dom (p_store s) - {d} \<and> p_vmonitor (pr s f) = unat i" for i f
    using that m mx1 fin small keep inj
    by (simp add: same_but_mon_def mons_without_def st) (simp add: fin_s_def less_imp_diff_less)
  show ?thesis
  proof (cases "active_monitor s = maxvmonitor s")
    case True
    have le: "active_monitor s - 1 \<le> maxvmonitor s" using True mx1 by (simp add: word_le_nat_alt)
    from focus_active_ok [OF ok le] obtain a where
      a: "focus_active (s\<lparr>active_monitor := active_monitor s - 1\<rparr>) = Some (s\<lparr>active_monitor := active_monitor s - 1, focus_proc := a\<rparr>)"
      "a \<in> dom (p_store s)" "p_vmonitor (pr s a) = unat (active_monitor s - 1)" by blast
    have "free_virt_monitor s (p_vmonitor (pr s d)) = Some (fin_s (active_monitor s - 1) a)"
      using a(1) True m v by (simp add: free_virt_monitor_def fin_s_def Let_def)
    moreover have "a \<noteq> d" using a(3) v mx1 True by auto
    ultimately show ?thesis using fok [of "active_monitor s - 1" a] a True by auto
  next
    case False
    have le: "active_monitor s \<le> maxvmonitor s - 1"
    proof -
      have "active_monitor s \<le> maxvmonitor s" using m by simp
      then have "unat (active_monitor s) \<le> ?mx" by (simp add: word_le_nat_alt)
      moreover have "unat (active_monitor s) \<noteq> ?mx" using False by (simp add: word_unat_eq_iff)
      ultimately show ?thesis using mx1 by (simp add: word_le_nat_alt)
    qed
    have "free_virt_monitor s (p_vmonitor (pr s d)) = Some (fin_s (active_monitor s) (focus_proc s))"
      using False m v by (simp add: free_virt_monitor_def fin_s_def Let_def)
    moreover have ne: "unat (active_monitor s) \<noteq> ?mx" using False by (simp add: word_unat_eq_iff)
    have "focus_proc s = 0 \<or> focus_proc s \<in> dom (p_store s) - {d} \<and> p_vmonitor (pr s (focus_proc s)) = unat (active_monitor s)"
      using pm_okD(5) [OF ok] ne v by (auto simp: focus_ok_def)
    moreover note this
    ultimately show ?thesis using fok le by blast
  qed
qed

text \<open>The monitor of \<open>d\<close> is another one: the last monitor, which belongs to \<open>q\<close>, takes its place.\<close>

lemma free_inner_monitor:
  assumes ok: "pm_ok s" and d: "d \<in> dom (p_store s)" and v: "p_vmonitor (pr s d) \<noteq> unat (maxvmonitor s)"
  shows "\<exists>s'. free_virt_monitor s (p_vmonitor (pr s d)) = Some s' \<and> same_but_mon s s' \<and> mons_without s' d"
proof -
  note m = pm_okD(4) [OF ok, unfolded mons_ok_def]
  let ?mx = "unat (maxvmonitor s)" and ?v = "p_vmonitor (pr s d)"
  have vmx: "?v < ?mx" using m d v by (metis le_neq_implies_less)
  have mx1: "unat (maxvmonitor s - 1) = ?mx - 1" "0 < ?mx"
  proof -
    have "maxvmonitor s \<noteq> 0" using vmx by auto
    then show "unat (maxvmonitor s - 1) = ?mx - 1" "0 < ?mx" by (simp_all add: unat_minus_one unat_gt_0)
  qed
  from monitor_owner [OF ok order_refl] obtain q where
    q: "q \<in> dom (p_store s)" "p_vmonitor (pr s q) = ?mx" "vm_pid (vmonitors s ! ?mx) = p_pid (pr s q)" by blast
  have qd: "q \<noteq> d" using q(2) v by auto
  have fin: "card (dom (p_store s) - {d}) = ?mx"
  proof -
    have "card (dom (p_store s)) = ?mx + 1" using m by simp
    then show ?thesis using d pm_okD(7) [OF ok] by (simp add: card_Diff_singleton)
  qed
  define st where "st = (p_store s)(q \<mapsto> (pr s q)\<lparr>p_vmonitor := ?v\<rparr>)"
  define fin_s where "fin_s = (\<lambda>i f. s\<lparr>active_monitor := i, focus_proc := f,
     vmonitors := (vmonitors s)[?v := vmonitors s ! ?mx, ?mx := zero_vmonitor], p_store := st, maxvmonitor := maxvmonitor s - 1\<rparr>)"
  have dst: "dom (p_store (fin_s i f)) = dom (p_store s)" for i f using q(1) by (auto simp: fin_s_def st_def)
  have prq: "pr (fin_s i f) a = (if a = q then (pr s q)\<lparr>p_vmonitor := ?v\<rparr> else pr s a)" for i f a
    by (simp add: fin_s_def st_def pr_def)
  have small: "p_vmonitor (pr s a) < ?mx" if "a \<in> dom (p_store s)" "a \<noteq> q" for a
  proof -
    have "p_vmonitor (pr s a) \<noteq> ?mx" using m q that by (metis (no_types, lifting) inj_onD)
    then show ?thesis using m that by (metis le_neq_implies_less)
  qed
  have nv: "p_vmonitor (pr s a) \<noteq> ?v" if "a \<in> dom (p_store s)" "a \<noteq> d" for a
    using m d that by (metis (no_types, lifting) inj_onD)
  have mon: "p_vmonitor (pr (fin_s i f) a) \<le> ?mx - 1 \<and>
      vm_pid ((vmonitors s)[?v := vmonitors s ! ?mx, ?mx := zero_vmonitor] ! p_vmonitor (pr (fin_s i f) a)) = p_pid (pr (fin_s i f) a)"
    if "a \<in> dom (p_store s) - {d}" for i f a
  proof (cases "a = q")
    case True
    then show ?thesis using m vmx q(3) by (simp add: prq)
  next
    case False
    have "p_vmonitor (pr s a) < ?mx" "p_vmonitor (pr s a) \<noteq> ?v" using small [of a] nv [of a] that False by auto
    moreover have "vm_pid (vmonitors s ! p_vmonitor (pr s a)) = p_pid (pr s a)" using m that by blast
    ultimately show ?thesis using False by (simp add: prq)
  qed
  have inj: "inj_on (\<lambda>a. p_vmonitor (pr (fin_s i f) a)) (dom (p_store s) - {d})" for i f
  proof (rule inj_onI)
    fix a b assume ab: "a \<in> dom (p_store s) - {d}" "b \<in> dom (p_store s) - {d}"
      and e: "p_vmonitor (pr (fin_s i f) a) = p_vmonitor (pr (fin_s i f) b)"
    show "a = b"
    proof (cases "a = q \<or> b = q")
      case True
      then show ?thesis using e ab nv [of a] nv [of b] by (auto simp: prq split: if_splits)
    next
      case False
      then have "p_vmonitor (pr s a) = p_vmonitor (pr s b)" using e by (simp add: prq)
      then show ?thesis using m ab by (auto dest: inj_onD)
    qed
  qed
  have same: "same_but_mon s (fin_s i f)" for i f
    using q(1) by (auto simp: same_but_mon_def fin_s_def st_def pr_def)
  have fok: "same_but_mon s (fin_s i f) \<and> mons_without (fin_s i f) d"
    if "i \<le> maxvmonitor s - 1" "f = 0 \<or> f \<in> dom (p_store s) - {d} \<and> p_vmonitor (pr (fin_s i f) f) = unat i" for i f
  proof -
    have "length (vmonitors (fin_s i f)) = 1000" "maxvmonitor (fin_s i f) = maxvmonitor s - 1" "active_monitor (fin_s i f) = i"
      "focus_proc (fin_s i f) = f" "vmonitors (fin_s i f) = (vmonitors s)[?v := vmonitors s ! ?mx, ?mx := zero_vmonitor]"
      using m by (simp_all add: fin_s_def)
    then show ?thesis using same [of i f] that m mx1 fin mon [of _ i f] inj [of i f] unfolding mons_without_def dst by (simp add: less_imp_diff_less)
  qed
  have vw: "unat (word_of_nat ?v :: u16) = ?v" using vmx unat_u16_lt [of "maxvmonitor s"] by (simp add: unat_of_nat)
  define i where "i = (if active_monitor s = maxvmonitor s then word_of_nat ?v else active_monitor s)"
  define f where "f = (if active_monitor s \<noteq> maxvmonitor s \<and> unat (active_monitor s) = ?v then q else focus_proc s)"
  have i_le: "i \<le> maxvmonitor s - 1"
    using m mx1 vmx vw unfolding i_def by (auto simp: word_le_nat_alt word_unat_eq_iff)
  have f_ok: "f = 0 \<or> f \<in> dom (p_store s) - {d} \<and> p_vmonitor (pr (fin_s i f) f) = unat i"
  proof (cases "active_monitor s \<noteq> maxvmonitor s \<and> unat (active_monitor s) = ?v")
    case True
    then show ?thesis using q qd by (auto simp: f_def i_def prq)
  next
    case False
    show ?thesis
    proof (cases "focus_proc s = 0")
      case False2: False
      then have fo: "focus_proc s \<in> dom (p_store s)" "p_vmonitor (pr s (focus_proc s)) = unat (active_monitor s)"
        using pm_okD(5) [OF ok] by (auto simp: focus_ok_def)
      have "active_monitor s = maxvmonitor s \<longleftrightarrow> unat (active_monitor s) = ?mx" by (rule word_unat_eq_iff)
      then have fd: "focus_proc s \<noteq> d" using fo(2) False v by auto
      have fq: "focus_proc s = q \<longleftrightarrow> active_monitor s = maxvmonitor s"
        using fo q m by (metis (no_types, lifting) inj_onD word_unat_eq_iff)
      have "f = focus_proc s" unfolding f_def using False by (simp only: if_False)
      then show ?thesis using fo fd fq vw by (auto simp: i_def prq)
    qed (use False in \<open>auto simp: f_def\<close>)
  qed
  let ?s2 = "s\<lparr>active_monitor := i, vmonitors := (vmonitors s)[?v := vmonitors s ! ?mx]\<rparr>"
  have g2: "pm_get_proc ?s2 (p_pid (pr s q)) = Some q"
    using pm_get_proc_found [of ?s2 q] procs_ok_cong [of ?s2 s] store_cong(2) [of ?s2 s] pm_okD(2) [OF ok] q(1) by simp
  have up: "upd_proc ?s2 q (\<lambda>p. p\<lparr>p_vmonitor := ?v\<rparr>) = Some (?s2\<lparr>p_store := st\<rparr>)"
    using q(1) by (auto simp: upd_proc_def st_def pr_def)
  have nx2: "same_but_mon s (?s2\<lparr>p_store := st\<rparr>)"
    using q(1) by (auto simp: same_but_mon_def st_def pr_def)
  have g3: "pm_set_focus_proc (?s2\<lparr>p_store := st\<rparr>) (p_pid (pr s q)) = Some (?s2\<lparr>p_store := st, focus_proc := q\<rparr>)"
  proof -
    let ?s3 = "?s2\<lparr>p_store := st\<rparr>"
    note sb = same_but_monD [OF nx2]
    obtain xs where xs: "ring s (procs_head s) xs" "dom (p_store s) = set (procs_head s # xs)" using pm_okD(2) [OF ok] by (auto simp: procs_ok_def)
    have "ring ?s3 (procs_head s) xs" using xs(1) sb(1,2) unfolding ring_def chain_nx by simp
    moreover have "inj_on (\<lambda>a. p_pid (pr ?s3 a)) (dom (p_store ?s3))"
      using pm_okD(2) [OF ok] sb(1,5) by (auto simp: procs_ok_def inj_on_def)
    moreover have "0 \<notin> dom (p_store ?s3)" unfolding sb(1) by (rule zero_free [OF ok])
    then have "p_store ?s3 0 = None" unfolding domIff by blast
    moreover note this
    ultimately have "procs_ok ?s3" using xs(2) sb(1,3) by (auto simp: procs_ok_def)
    from pm_get_proc_found [OF this, of q] sb(1,5) q(1) have "pm_get_proc ?s3 (p_pid (pr s q)) = Some q" by simp
    then show ?thesis by (simp add: pm_set_focus_proc_def)
  qed
  have "free_virt_monitor s ?v = Some (fin_s i f)"
  proof -
    have "(let active_deleted = (active_monitor s \<noteq> maxvmonitor s \<and> unat (active_monitor s) = ?v);
          t = (if active_monitor s = maxvmonitor s then s\<lparr>active_monitor := word_of_nat ?v\<rparr> else s) in (active_deleted, t))
      = (active_monitor s \<noteq> maxvmonitor s \<and> unat (active_monitor s) = ?v, s\<lparr>active_monitor := i\<rparr>)"
      by (simp add: i_def)
    then show ?thesis
      using v vmx m q(3) g2 up g3
      by (cases "active_monitor s = maxvmonitor s"; cases "unat (active_monitor s) = ?v")
        (simp_all add: free_virt_monitor_def Let_def fin_s_def f_def i_def)
  qed
  with fok [OF i_le f_ok] show ?thesis by blast
qed

text \<open>One step of the loop that destroys dead processes: \<open>d\<close> follows \<open>a\<close> in the ring.\<close>

lemma destroy_step:
  assumes ok: "pm_ok s" and r: "ring s (active_proc s) (d # xs)" "set (active_proc s # d # xs) = dom (p_store s)"
    and dh: "d \<noteq> procs_head s"
  shows "\<exists>s1 s2. pm_destroy_thread s d = Some s1 \<and> upd_proc s1 (active_proc s1) (\<lambda>q. q\<lparr>p_next := p_next (pr s d)\<rparr>) = Some s2 \<and>
    pm_ok s2 \<and> ring s2 (active_proc s) xs \<and> dom (p_store s2) = dom (p_store s) - {d} \<and> active_proc s2 = active_proc s \<and>
    procs_head s2 = procs_head s \<and> (\<forall>a \<in> dom (p_store s2). p_pid (pr s2 a) = p_pid (pr s a) \<and> p_state (pr s2 a) = p_state (pr s a))"
proof -
  let ?a = "active_proc s"
  have d: "d \<in> dom (p_store s)" using r(2) by auto
  have ad: "?a \<noteq> d" "?a \<in> dom (p_store s)" using r by (auto simp: ring_def)
  have two: "maxvmonitor s \<noteq> 0"
  proof
    assume "maxvmonitor s = 0"
    then have "card (dom (p_store s)) = 1" using pm_okD(4) [OF ok] by (simp add: mons_ok_def)
    then show False using d ad by (metis card_1_singletonE singletonD)
  qed
  obtain s0 where s0: "free_virt_monitor s (p_vmonitor (pr s d)) = Some s0" "same_but_mon s s0" "mons_without s0 d"
    using free_last_monitor [OF ok d _ two] free_inner_monitor [OF ok d] by metis
  note sb = same_but_monD [OF s0(2)]
  define s1 where "s1 = s0\<lparr>p_store := (p_store s0)(d := None)\<rparr>"
  have pd: "p_store s d = Some (pr s d)" using d by (auto simp: pr_def)
  have 1: "pm_destroy_thread s d = Some s1" using pd s0(1) by (simp add: pm_destroy_thread_def s1_def)
  define s2 where "s2 = s1\<lparr>p_store := (p_store s1)(?a \<mapsto> (pr s0 ?a)\<lparr>p_next := p_next (pr s d)\<rparr>)\<rparr>"
  have pa: "p_store s0 ?a = Some (pr s0 ?a)" using ad(2) unfolding sb(1) [symmetric] by (auto simp: pr_def)
  have 2: "upd_proc s1 (active_proc s1) (\<lambda>q. q\<lparr>p_next := p_next (pr s d)\<rparr>) = Some s2"
    using pa ad(1) sb(4) by (simp add: upd_proc_def s1_def s2_def)
  have dm: "dom (p_store s2) = dom (p_store s) - {d}"
    using sb(1) ad by (auto simp: s2_def s1_def domIff set_eq_iff)
  have pr2: "p_pid (pr s2 x) = p_pid (pr s x) \<and> p_state (pr s2 x) = p_state (pr s x) \<and> p_stdin (pr s2 x) = p_stdin (pr s x) \<and>
      p_vmonitor (pr s2 x) = p_vmonitor (pr s0 x)" if "x \<in> dom (p_store s) - {d}" for x
    using sb(5) [of x] that by (auto simp: s2_def s1_def pr_def)
  have pr2': "pr s2 x = pr s0 x" if "x \<noteq> d" "x \<noteq> ?a" for x using that by (simp add: s2_def s1_def pr_def)
  have ring2: "ring s2 ?a xs"
  proof (rule ring_remove [OF r(1) dm])
    show "nx s2 ?a = nx s d" using pd by (simp add: nx_def s2_def)
    show "nx s2 x = nx s x" if "x \<in> set xs" for x
    proof -
      have "x \<noteq> ?a" "x \<noteq> d" using that r(1) by (auto simp: ring_def)
      then have "nx s2 x = nx s0 x" by (simp add: nx_def s2_def s1_def)
      then show ?thesis using sb(2) by simp
    qed
  qed
  have hd: "procs_head s2 = procs_head s" "active_proc s2 = ?a" using sb(3,4) by (simp_all add: s2_def s1_def)
  have dset: "set (?a # xs) = dom (p_store s2)" using r ad unfolding dm by (auto simp: ring_def)
  have "procs_head s \<in> set (?a # xs)" using pm_okD(1) [OF ok] dh unfolding dset dm by simp
  from ring_at [OF ring2 this] obtain ys where "ring s2 (procs_head s) ys" "set (procs_head s # ys) = dom (p_store s2)"
    unfolding dset by blast
  moreover have "inj_on (\<lambda>a. p_pid (pr s2 a)) (dom (p_store s2))"
    using pm_okD(2) [OF ok] pr2 by (auto simp: dm procs_ok_def inj_on_def)
  moreover have "0 \<notin> dom (p_store s2)" unfolding dm using zero_free [OF ok] by simp
  then have "p_store s2 0 = None" unfolding domIff by blast
  moreover note this
  ultimately have "procs_ok s2" using hd by (auto simp: procs_ok_def)
  moreover have "mons_ok s2 \<and> focus_ok s2"
  proof -
    have f: "vmonitors s2 = vmonitors s0" "maxvmonitor s2 = maxvmonitor s0" "active_monitor s2 = active_monitor s0" "focus_proc s2 = focus_proc s0"
      by (simp_all add: s2_def s1_def)
    have pv: "p_vmonitor (pr s2 x) = p_vmonitor (pr s0 x) \<and> p_pid (pr s2 x) = p_pid (pr s0 x)" if "x \<in> dom (p_store s) - {d}" for x
      using pr2 [OF that] sb(5) [of x] that by simp
    have "inj_on (\<lambda>a. p_vmonitor (pr s2 a)) (dom (p_store s) - {d})"
      using s0(3) pv unfolding mons_without_def sb(1) inj_on_def by simp
    then show ?thesis
      using s0(3) pv unfolding mons_ok_def focus_ok_def mons_without_def f dm sb(1) by (simp only: Ball_def) metis
  qed
  moreover have "queues_ok s2" using pm_okD(6) [OF ok] pr2 by (auto simp: queues_ok_def dm)
  moreover have "active_proc s2 \<in> dom (p_store s2)" using ad by (simp add: hd dm)
  ultimately have "pm_ok s2" by (simp add: pm_ok_def)
  moreover have "\<forall>a \<in> dom (p_store s2). p_pid (pr s2 a) = p_pid (pr s a) \<and> p_state (pr s2 a) = p_state (pr s a)"
    using pr2 unfolding dm by blast
  ultimately show ?thesis using 1 2 ring2 dm hd by blast
qed

end
