(* ===== verification/ProcReach.thy ===== *)
theory ProcReach
  imports ProcRing Syscalls
begin

text \<open>
  The invariant of \<open>ProcRing\<close> in motion: the scheduler with sleeping and dead processes, the other operations on
  processes, and the states that the process management reaches from the start of the system.
\<close>

section \<open>Updates of one process\<close>

lemma pm_ok_upd:
  assumes ok: "pm_ok s" and a: "a \<in> dom (p_store s)"
    and f: "\<And>p. p_next (f p) = p_next p" "\<And>p. p_pid (f p) = p_pid p" "\<And>p. p_vmonitor (f p) = p_vmonitor p"
      "\<exists>q. p_stdin (f (pr s a)) = Some q \<and> rf_inv q"
  shows "\<exists>s'. upd_proc s a f = Some s' \<and> pm_ok s' \<and> s' = s\<lparr>p_store := (p_store s)(a \<mapsto> f (pr s a))\<rparr> \<and> dom (p_store s') = dom (p_store s) \<and>
    (\<forall>x. pr s' x = (if x = a then f (pr s a) else pr s x))"
proof -
  have pa: "p_store s a = Some (pr s a)" using a by (auto simp: pr_def)
  define s' where "s' = s\<lparr>p_store := (p_store s)(a \<mapsto> f (pr s a))\<rparr>"
  have u: "upd_proc s a f = Some s'" using pa by (simp add: upd_proc_def s'_def)
  have dm: "dom (p_store s') = dom (p_store s)" using a by (auto simp: s'_def)
  have prs: "pr s' x = (if x = a then f (pr s a) else pr s x)" for x by (simp add: s'_def pr_def)
  have nxs: "nx s' = nx s" using pa f(1) by (auto simp: nx_def s'_def fun_eq_iff)
  have pid: "p_pid (pr s' x) = p_pid (pr s x)" "p_vmonitor (pr s' x) = p_vmonitor (pr s x)" for x using f by (simp_all add: prs)
  have "ring s' x ys = ring s x ys" for x ys using nxs dm by (simp add: ring_def chain_nx)
  moreover have "procs_head s' = procs_head s" by (simp add: s'_def)
  moreover have "0 \<notin> dom (p_store s')" unfolding dm by (rule zero_free [OF ok])
  then have "p_store s' 0 = None" unfolding domIff by blast
  ultimately have "procs_ok s'" using pm_okD(2) [OF ok] unfolding procs_ok_def dm pid by simp
  moreover have "mons_ok s'" "focus_ok s'"
    using pm_okD(4,5) [OF ok] unfolding mons_ok_def focus_ok_def dm pid by (simp_all add: s'_def)
  moreover have "queues_ok s'" using pm_okD(6) [OF ok] f(4) unfolding queues_ok_def dm prs by auto
  moreover have "active_proc s' \<in> dom (p_store s')" using pm_okD(3) [OF ok] unfolding dm by (simp add: s'_def)
  ultimately have "pm_ok s'" by (simp add: pm_ok_def)
  with u dm prs show ?thesis unfolding s'_def by blast
qed

lemma pm_ok_active: "pm_ok s \<Longrightarrow> n \<in> dom (p_store s) \<Longrightarrow> pm_ok (s\<lparr>active_proc := n\<rparr>)"
proof -
  assume ok: "pm_ok s" and n: "n \<in> dom (p_store s)"
  let ?s = "s\<lparr>active_proc := n\<rparr>"
  have "procs_ok ?s" "queues_ok ?s" "pr ?s = pr s" using procs_ok_cong [of ?s s] store_cong [of ?s s] pm_okD [OF ok] by simp_all
  then show "pm_ok ?s" using pm_okD [OF ok] n by (simp add: pm_ok_def mons_ok_def focus_ok_def)
qed

section \<open>The scheduler\<close>

text \<open>\<open>survives s s'\<close>: only dead processes have gone, and nothing else about the states has changed.\<close>

definition survives :: "pm_state \<Rightarrow> pm_state \<Rightarrow> bool" where
  "survives s s' \<longleftrightarrow> dom (p_store s') \<subseteq> dom (p_store s) \<and> procs_head s' = procs_head s \<and>
     (\<forall>a \<in> dom (p_store s) - dom (p_store s'). p_state (pr s a) = PSTATE_DEAD) \<and>
     (\<forall>a \<in> dom (p_store s'). p_pid (pr s' a) = p_pid (pr s a) \<and> p_state (pr s' a) = p_state (pr s a))"

lemma survives_refl [simp]: "survives s s"
  by (simp add: survives_def)

lemma survives_trans: "survives s t \<Longrightarrow> survives t u \<Longrightarrow> survives s u"
  unfolding survives_def by (metis (no_types, lifting) Diff_iff subset_iff)

lemma ring_next:
  assumes "ring s (active_proc s) (u # us)"
  shows "next_proc s = Some (u, pr s u)" "u \<in> dom (p_store s)"
proof -
  have c: "chain s (active_proc s) (u # us @ [active_proc s])" using assms by (simp add: ring_def)
  from next_proc_view [OF this] show "next_proc s = Some (u, pr s u)" "u \<in> dom (p_store s)" by (auto simp: pr_def)
qed

lemma ring_next_self: "ring s (active_proc s) [] \<Longrightarrow> next_proc s = Some (active_proc s, pr s (active_proc s))"
  using next_proc_view [of s "active_proc s" "[]"] by (auto simp: ring_def pr_def)

definition search :: "pm_state \<Rightarrow> pm_state option" where
  "search s = do { s \<leftarrow> destroy_dead s; s \<leftarrow> skip_sleeping s; find_alive s }"

definition skip_find :: "pm_state \<Rightarrow> pm_state option" where
  "skip_find s = do { s \<leftarrow> skip_sleeping s; find_alive s }"

lemma find_alive_search:
  "next_proc s = Some (n, p) \<Longrightarrow> find_alive s = (if p_state p \<noteq> PSTATE_ALIVE then search s else Some s)"
  by (subst find_alive.simps) (simp add: search_def)

lemma destroy_dead_not: "next_proc s = Some (n, p) \<Longrightarrow> p_state p \<noteq> PSTATE_DEAD \<Longrightarrow> destroy_dead s = Some s"
  by (subst destroy_dead.simps) simp

lemma skip_sleeping_not: "next_proc s = Some (n, p) \<Longrightarrow> p_state p \<noteq> PSTATE_STDINSLEEP \<Longrightarrow> skip_sleeping s = Some s"
  by (subst skip_sleeping.simps) simp

lemma skip_sleeping_step:
  "next_proc s = Some (n, p) \<Longrightarrow> p_state p = PSTATE_STDINSLEEP \<Longrightarrow> skip_sleeping s = skip_sleeping (s\<lparr>active_proc := n\<rparr>)"
  by (subst skip_sleeping.simps) simp

lemma states_distinct: "PSTATE_ALIVE \<noteq> PSTATE_DEAD" "PSTATE_ALIVE \<noteq> PSTATE_STDINSLEEP" "PSTATE_DEAD \<noteq> PSTATE_STDINSLEEP"
  by (simp_all add: PSTATE_ALIVE_def PSTATE_DEAD_def PSTATE_STDINSLEEP_def)

text \<open>
  From the active process the processes \<open>us\<close> come next in the ring, none of them alive, and then \<open>z\<close>, which
  is alive: the search ends in front of \<open>z\<close>.
\<close>

definition found :: "pm_state \<Rightarrow> u32 \<Rightarrow> pm_state \<Rightarrow> bool" where
  "found s z s' \<longleftrightarrow> pm_ok s' \<and> survives s s' \<and> next_proc s' = Some (z, pr s' z) \<and> z \<in> dom (p_store s')"

lemma found_trans: "survives s t \<Longrightarrow> found t z u \<Longrightarrow> found s z u"
  by (auto simp: found_def intro: survives_trans)

definition at_search :: "pm_state \<Rightarrow> u32 list \<Rightarrow> u32 list \<Rightarrow> u32 \<Rightarrow> bool" where
  "at_search s us vs z \<longleftrightarrow> pm_ok s \<and> p_state (pr s (procs_head s)) \<noteq> PSTATE_DEAD \<and> ring s (active_proc s) (us @ vs) \<and>
     set (active_proc s # us @ vs) = dom (p_store s) \<and> hd (vs @ [active_proc s]) = z \<and> p_state (pr s z) = PSTATE_ALIVE \<and>
     (\<forall>u \<in> set us. p_state (pr s u) = PSTATE_DEAD \<or> p_state (pr s u) = PSTATE_STDINSLEEP)"

lemma at_search_next:
  assumes "at_search s us vs z"
  shows "next_proc s = Some (hd (us @ [z]), pr s (hd (us @ [z])))"
proof (cases us)
  case Nil
  show ?thesis
  proof (cases vs)
    case Nil2: Nil
    have "ring s (active_proc s) []" "z = active_proc s" using assms unfolding at_search_def Nil Nil2 by auto
    with ring_next_self [of s] Nil show ?thesis by simp
  next
    case (Cons v vs')
    have "ring s (active_proc s) (v # vs')" "z = v" using assms unfolding at_search_def Nil Cons by auto
    with ring_next(1) [of s v vs'] Nil show ?thesis by simp
  qed
next
  case (Cons u us')
  have "ring s (active_proc s) (u # us' @ vs)" using assms unfolding at_search_def Cons by simp
  from ring_next(1) [OF this] Cons show ?thesis by simp
qed

lemma at_search_end: "at_search s [] vs z \<Longrightarrow> found s z s"
  using at_search_next [of s "[]" vs z] unfolding found_def at_search_def by (cases vs) auto

lemma search_ok:
  "at_search s us vs z \<Longrightarrow> (\<exists>s'. search s = Some s' \<and> found s z s') \<and> (\<exists>s'. skip_find s = Some s' \<and> found s z s')"
proof (induction us arbitrary: s vs)
  case Nil
  note n = at_search_next [OF Nil, simplified]
  have al: "p_state (pr s z) = PSTATE_ALIVE" using Nil by (simp add: at_search_def)
  have "destroy_dead s = Some s" "skip_sleeping s = Some s" "find_alive s = Some s"
    using destroy_dead_not [OF n] skip_sleeping_not [OF n] find_alive_search [OF n] al states_distinct by simp_all
  then show ?case using at_search_end [OF Nil] by (simp add: search_def skip_find_def)
next
  case (Cons u us)
  note n = at_search_next [OF Cons.prems, simplified]
  note a = Cons.prems [unfolded at_search_def]
  have ok: "pm_ok s" using a by blast
  have r: "ring s (active_proc s) (u # us @ vs)" using a by simp
  have st: "p_state (pr s u) = PSTATE_DEAD \<or> p_state (pr s u) = PSTATE_STDINSLEEP" using a by simp
  show ?case
  proof (cases "p_state (pr s u) = PSTATE_DEAD")
    case True
    have uh: "u \<noteq> procs_head s" using True a by auto
    have cov: "set (active_proc s # u # us @ vs) = dom (p_store s)" using a by simp
    from destroy_step [OF ok r cov uh] obtain s1 s2 where s2: "pm_destroy_thread s u = Some s1"
      "upd_proc s1 (active_proc s1) (\<lambda>q. q\<lparr>p_next := p_next (pr s u)\<rparr>) = Some s2" "pm_ok s2" "ring s2 (active_proc s) (us @ vs)"
      "dom (p_store s2) = dom (p_store s) - {u}" "active_proc s2 = active_proc s" "procs_head s2 = procs_head s"
      "\<forall>a \<in> dom (p_store s2). p_pid (pr s2 a) = p_pid (pr s a) \<and> p_state (pr s2 a) = p_state (pr s a)" by blast
    have sv: "survives s s2" using s2 True by (auto simp: survives_def)
    have dd: "destroy_dead s = destroy_dead s2"
      by (subst destroy_dead.simps) (simp add: n True s2(1,2))
    have cov2: "set (active_proc s2 # us @ vs) = dom (p_store s2)" using cov r unfolding s2(5,6) by (auto simp: ring_def)
    have "z \<in> dom (p_store s2)" using a unfolding cov2 [symmetric] s2(6) by (cases vs) auto
    moreover have "procs_head s2 \<in> dom (p_store s2)" by (rule pm_okD(1) [OF s2(3)])
    moreover have "set us \<subseteq> dom (p_store s2)" using cov2 by auto
    ultimately have "at_search s2 us vs z"
      using a s2 cov2 unfolding at_search_def by (auto simp: subset_iff)
    from Cons.IH [OF this] obtain s' where s': "search s2 = Some s'" "found s2 z s'" by blast
    have "search s = Some s'" using s'(1) dd by (simp add: search_def)
    moreover have "skip_find s = search s"
    proof -
      have "skip_sleeping s = Some s" using skip_sleeping_not [OF n] True states_distinct by simp
      moreover have "find_alive s = search s" using find_alive_search [OF n] True states_distinct by simp
      ultimately show ?thesis by (simp add: skip_find_def)
    qed
    ultimately show ?thesis using found_trans [OF sv s'(2)] by auto
  next
    case False
    with st have sl: "p_state (pr s u) = PSTATE_STDINSLEEP" by simp
    let ?s = "s\<lparr>active_proc := u\<rparr>"
    have u: "u \<in> dom (p_store s)" by (rule ring_next(2) [OF r])
    have ok1: "pm_ok ?s" by (rule pm_ok_active [OF ok u])
    have same: "pr ?s = pr s" "ring ?s x ys = ring s x ys" for x ys using store_cong [of ?s s] by simp_all
    have r1: "ring s u (us @ vs @ [active_proc s])" using ring_rotate [of s "active_proc s" "[]" u "us @ vs"] r by simp
    have "at_search ?s us (vs @ [active_proc s]) z"
      using a ok1 r1 unfolding at_search_def by (simp add: same) (cases vs, auto)
    from Cons.IH [OF this] obtain s' where s': "skip_find ?s = Some s'" "found ?s z s'" by blast
    have sv: "survives s ?s" by (simp add: survives_def same)
    have "skip_find s = Some s'" using s'(1) skip_sleeping_step [OF n sl] by (simp add: skip_find_def)
    moreover have "search s = skip_find s" using destroy_dead_not [OF n False] by (simp add: search_def skip_find_def)
    ultimately show ?thesis using found_trans [OF sv s'(2)] by auto
  qed
qed

definition pm_safe :: "pm_state \<Rightarrow> bool" where
  "pm_safe s \<longleftrightarrow> pm_ok s \<and> p_pid (pr s (procs_head s)) = 0 \<and> p_state (pr s (procs_head s)) \<noteq> PSTATE_DEAD \<and>
     (\<forall>a \<in> dom (p_store s). p_state (pr s a) \<in> {PSTATE_ALIVE, PSTATE_DEAD, PSTATE_STDINSLEEP})"

lemma pm_safeD: "pm_safe s \<Longrightarrow> pm_ok s"
  by (simp add: pm_safe_def)

lemma pm_safe_survives: "pm_safe s \<Longrightarrow> survives s s' \<Longrightarrow> pm_ok s' \<Longrightarrow> pm_safe s'"
  using pm_okD(1) [of s'] by (auto simp: pm_safe_def survives_def subset_iff)

lemma find_alive_ok:
  assumes safe: "pm_safe s" and al: "y \<in> dom (p_store s)" "p_state (pr s y) = PSTATE_ALIVE"
  shows "\<exists>s' z. find_alive s = Some s' \<and> found s z s' \<and> p_state (pr s' z) = PSTATE_ALIVE"
proof -
  note ok = pm_safeD [OF safe]
  from pm_ring [OF pm_okD(2,3) [OF ok]] obtain xs where
    xs: "ring s (active_proc s) xs" "set (active_proc s # xs) = dom (p_store s)" by blast
  let ?P = "\<lambda>x. p_state (pr s x) = PSTATE_ALIVE"
  have "\<exists>x \<in> set (xs @ [active_proc s]). ?P x" using al xs(2) by auto
  from split_list_first_prop [OF this] obtain us z ws where
    z: "xs @ [active_proc s] = us @ z # ws" "?P z" "\<forall>u \<in> set us. \<not> ?P u" by blast
  have "us @ butlast (z # ws) = xs" using z(1) by (metis butlast_append butlast_snoc list.distinct(1))
  moreover have "hd (butlast (z # ws) @ [active_proc s]) = z"
  proof (cases ws)
    case Nil
    with z(1) show ?thesis by simp
  qed simp
  moreover have "\<forall>u \<in> set us. p_state (pr s u) = PSTATE_DEAD \<or> p_state (pr s u) = PSTATE_STDINSLEEP"
  proof
    fix u assume u: "u \<in> set us"
    then have "u \<in> dom (p_store s)" using z(1) xs(2) by (metis UnCI in_set_conv_decomp rotate1.simps(2) set_append set_rotate1)
    then show "p_state (pr s u) = PSTATE_DEAD \<or> p_state (pr s u) = PSTATE_STDINSLEEP"
      using safe z(3) u by (auto simp: pm_safe_def)
  qed
  ultimately have at: "at_search s us (butlast (z # ws)) z" using safe ok xs z(2) by (simp add: at_search_def pm_safe_def)
  have fz: "p_state (pr s' z) = PSTATE_ALIVE" if "found s z s'" for s' using that z(2) by (auto simp: found_def survives_def)
  show ?thesis
  proof (cases us)
    case Nil
    have "find_alive s = Some s" using find_alive_search [OF at_search_next [OF at]] z(2) Nil by simp
    then show ?thesis using at_search_end [of s "butlast (z # ws)" z] at Nil fz by auto
  next
    case (Cons u us')
    have "find_alive s = search s" using find_alive_search [OF at_search_next [OF at]] z(3) Cons by simp
    then show ?thesis using search_ok [OF at] fz by auto
  qed
qed

lemma pm_schedule_safe:
  assumes safe: "pm_safe s" and al: "y \<in> dom (p_store s)" "p_state (pr s y) = PSTATE_ALIVE"
  shows "\<exists>s' context'. pm_schedule s context = Some (s', context') \<and> pm_safe s' \<and> survives s s' \<and>
    (p_remaining (pr s (active_proc s)) \<le> 1 \<longrightarrow> p_state (pr s' (active_proc s')) = PSTATE_ALIVE)"
proof -
  note ok = pm_safeD [OF safe]
  have a: "active_proc s \<in> dom (p_store s)" by (rule pm_okD(3) [OF ok])
  then have a0: "active_proc s \<noteq> 0" "p_store s (active_proc s) = Some (pr s (active_proc s))"
    using zero_free [OF ok] by (auto simp: pr_def)
  have q: "\<exists>q. p_stdin (pr t x) = Some q \<and> rf_inv q" if "pm_ok t" "x \<in> dom (p_store t)" for t x
    using pm_okD(6) [OF that(1)] that(2) by (auto simp: queues_ok_def)
  show ?thesis
  proof (cases "p_remaining (pr s (active_proc s)) > 1")
    case True
    obtain s' where s': "upd_proc s (active_proc s) (\<lambda>q. q\<lparr>p_remaining := p_remaining q - 1\<rparr>) = Some s'" "pm_ok s'"
      "s' = s\<lparr>p_store := (p_store s)(active_proc s \<mapsto> (pr s (active_proc s))\<lparr>p_remaining := p_remaining (pr s (active_proc s)) - 1\<rparr>)\<rparr>"
      "dom (p_store s') = dom (p_store s)"
      "\<forall>x. pr s' x = (if x = active_proc s then (pr s (active_proc s))\<lparr>p_remaining := p_remaining (pr s (active_proc s)) - 1\<rparr> else pr s x)"
      using pm_ok_upd [OF ok a, of "\<lambda>q. q\<lparr>p_remaining := p_remaining q - 1\<rparr>"] q [OF ok a] by auto
    have sv: "survives s s'" using s'(4,5) by (auto simp: survives_def s'(3))
    have "pm_schedule s context = Some (s', context)" using a0 True s'(1) by (simp add: pm_schedule_def)
    with sv pm_safe_survives [OF safe sv s'(2)] True show ?thesis by (auto simp: not_le)
  next
    case False
    obtain s1 where s1: "upd_proc s (active_proc s) (\<lambda>q. q\<lparr>p_context := context\<rparr>) = Some s1" "pm_ok s1"
      "s1 = s\<lparr>p_store := (p_store s)(active_proc s \<mapsto> (pr s (active_proc s))\<lparr>p_context := context\<rparr>)\<rparr>"
      "dom (p_store s1) = dom (p_store s)"
      "\<forall>x. pr s1 x = (if x = active_proc s then (pr s (active_proc s))\<lparr>p_context := context\<rparr> else pr s x)"
      using pm_ok_upd [OF ok a, of "\<lambda>q. q\<lparr>p_context := context\<rparr>"] q [OF ok a] by auto
    have sv1: "survives s s1" using s1(4,5) by (auto simp: survives_def s1(3))
    have safe1: "pm_safe s1" by (rule pm_safe_survives [OF safe sv1 s1(2)])
    have "y \<in> dom (p_store s1)" "p_state (pr s1 y) = PSTATE_ALIVE" using al s1(4,5) by auto
    from find_alive_ok [OF safe1 this] obtain s2 z where
      s2: "find_alive s1 = Some s2" "found s1 z s2" "p_state (pr s2 z) = PSTATE_ALIVE" by blast
    note fd = s2(2) [unfolded found_def]
    have ok3: "pm_ok (s2\<lparr>active_proc := z\<rparr>)" using pm_ok_active fd by blast
    have z3: "z \<in> dom (p_store (s2\<lparr>active_proc := z\<rparr>))" using fd by simp
    have pr3: "pr (s2\<lparr>active_proc := z\<rparr>) = pr s2" by (rule store_cong) simp
    obtain s3 where s3: "upd_proc (s2\<lparr>active_proc := z\<rparr>) z (\<lambda>q. q\<lparr>p_remaining := p_priority q\<rparr>) = Some s3" "pm_ok s3"
      "s3 = s2\<lparr>active_proc := z, p_store := (p_store s2)(z \<mapsto> (pr s2 z)\<lparr>p_remaining := p_priority (pr s2 z)\<rparr>)\<rparr>"
      "dom (p_store s3) = dom (p_store s2)"
      "\<forall>x. pr s3 x = (if x = z then (pr s2 z)\<lparr>p_remaining := p_priority (pr s2 z)\<rparr> else pr s2 x)"
      using pm_ok_upd [OF ok3 z3, of "\<lambda>q. q\<lparr>p_remaining := p_priority q\<rparr>"] q [OF ok3 z3] by (auto simp: pr3)
    have "survives s2 s3" using s3(4,5) by (auto simp: survives_def s3(3))
    with sv1 fd have sv: "survives s s3" by (blast intro: survives_trans)
    have "pm_schedule s context = Some (s3, p_context (pr s2 z))"
      using a0 False s1(1) s2(1) fd s3(1) by (simp add: pm_schedule_def)
    moreover have "active_proc s3 = z" by (simp add: s3(3))
    ultimately show ?thesis using sv pm_safe_survives [OF safe sv s3(2)] s3(5) s2(3) by auto
  qed
qed

text \<open>Conversely, what is known when the loops end.\<close>

lemma next_cases:
  assumes "pm_ok s"
  obtains (self) "ring s (active_proc s) []" "dom (p_store s) = {active_proc s}" "next_proc s = Some (active_proc s, pr s (active_proc s))"
    | (other) n xs where "ring s (active_proc s) (n # xs)" "set (active_proc s # n # xs) = dom (p_store s)" "next_proc s = Some (n, pr s n)"
proof -
  from pm_ring [OF pm_okD(2,3) [OF assms]] obtain xs where
    xs: "ring s (active_proc s) xs" "set (active_proc s # xs) = dom (p_store s)" by blast
  show ?thesis
  proof (cases xs)
    case Nil
    then show ?thesis using xs ring_next_self [of s] by (intro self) auto
  next
    case (Cons n ys)
    then show ?thesis using xs ring_next(1) [of s n ys] by (intro other [of n ys]) auto
  qed
qed

lemma next_in: "pm_ok s \<Longrightarrow> next_proc s = Some (n, p) \<Longrightarrow> n \<in> dom (p_store s) \<and> p = pr s n"
  by (erule next_cases) auto

lemma destroy_dead_part: "destroy_dead s = Some t \<Longrightarrow> pm_safe s \<Longrightarrow> pm_safe t \<and> survives s t"
proof (induction rule: destroy_dead.raw_induct [rotated 1, consumes 1])
  case (1 rec s t)
  note ok = pm_safeD [OF 1(3)]
  from ok show ?case
  proof (cases rule: next_cases)
    case self
    have "procs_head s = active_proc s" using pm_okD(1) [OF ok] self(2) by simp
    then have "p_state (pr s (active_proc s)) \<noteq> PSTATE_DEAD" using 1(3) by (simp add: pm_safe_def)
    with 1(2,3) self(3) show ?thesis by simp
  next
    case (other n xs)
    show ?thesis
    proof (cases "p_state (pr s n) = PSTATE_DEAD")
      case True
      then have nh: "n \<noteq> procs_head s" using 1(3) by (auto simp: pm_safe_def)
      from destroy_step [OF ok other(1,2) nh] obtain s1 s2 where s2: "pm_destroy_thread s n = Some s1"
        "upd_proc s1 (active_proc s1) (\<lambda>q. q\<lparr>p_next := p_next (pr s n)\<rparr>) = Some s2" "pm_ok s2"
        "dom (p_store s2) = dom (p_store s) - {n}" "procs_head s2 = procs_head s"
        "\<forall>a \<in> dom (p_store s2). p_pid (pr s2 a) = p_pid (pr s a) \<and> p_state (pr s2 a) = p_state (pr s a)" by blast
      have sv: "survives s s2" using s2 True by (auto simp: survives_def)
      have "rec s2 = Some t" using 1(2) other(3) True s2(1,2) by simp
      from 1(1) [OF this pm_safe_survives [OF 1(3) sv s2(3)]] sv show ?thesis by (blast intro: survives_trans)
    next
      case False
      with 1(2,3) other(3) show ?thesis by simp
    qed
  qed
qed

lemma survives_active: "pm_safe s \<Longrightarrow> n \<in> dom (p_store s) \<Longrightarrow> pm_safe (s\<lparr>active_proc := n\<rparr>) \<and> survives s (s\<lparr>active_proc := n\<rparr>)"
proof -
  assume s: "pm_safe s" "n \<in> dom (p_store s)"
  have "pr (s\<lparr>active_proc := n\<rparr>) = pr s" by (rule store_cong) simp
  then have "survives s (s\<lparr>active_proc := n\<rparr>)" by (simp add: survives_def)
  with pm_safe_survives [OF s(1) this] pm_ok_active [OF pm_safeD [OF s(1)] s(2)] show ?thesis by blast
qed

lemma skip_sleeping_part: "skip_sleeping s = Some t \<Longrightarrow> pm_safe s \<Longrightarrow> pm_safe t \<and> survives s t"
proof (induction rule: skip_sleeping.raw_induct [rotated 1, consumes 1])
  case (1 rec s t)
  from 1(2) obtain n p where n: "next_proc s = Some (n, p)" by (auto simp: bind_eq_Some_conv)
  note n' = next_in [OF pm_safeD [OF 1(3)] n]
  show ?case
  proof (cases "p_state p = PSTATE_STDINSLEEP")
    case True
    with 1(2) n have "rec (s\<lparr>active_proc := n\<rparr>) = Some t" by simp
    with 1(1) survives_active [OF 1(3)] n' show ?thesis by (blast intro: survives_trans)
  next
    case False
    with 1(2,3) n show ?thesis by simp
  qed
qed

lemma find_alive_part:
  "find_alive s = Some t \<Longrightarrow> pm_safe s \<Longrightarrow> pm_safe t \<and> survives s t \<and> (\<exists>n p. next_proc t = Some (n, p) \<and> p_state p = PSTATE_ALIVE)"
proof (induction rule: find_alive.raw_induct [rotated 1, consumes 1])
  case (1 rec s t)
  from 1(2) obtain n p where n: "next_proc s = Some (n, p)" by (auto simp: bind_eq_Some_conv)
  show ?case
  proof (cases "p_state p = PSTATE_ALIVE")
    case True
    with 1(2,3) n show ?thesis by simp
  next
    case False
    with 1(2) n obtain s1 s2 where s: "destroy_dead s = Some s1" "skip_sleeping s1 = Some s2" "rec s2 = Some t"
      by (auto simp: bind_eq_Some_conv)
    have 2: "pm_safe s1" "survives s s1" using destroy_dead_part [OF s(1) 1(3)] by auto
    have 3: "pm_safe s2" "survives s1 s2" using skip_sleeping_part [OF s(2) 2(1)] by auto
    from 1(1) [OF s(3) 3(1)] 2(2) 3(2) show ?thesis by (blast intro: survives_trans)
  qed
qed

text \<open>Without a process that is alive the search does not end.\<close>

lemma pm_schedule_needs_alive:
  assumes safe: "pm_safe s" and ret: "pm_schedule s context = Some r" and rem: "\<not> p_remaining (pr s (active_proc s)) > 1"
  shows "\<exists>y \<in> dom (p_store s). p_state (pr s y) = PSTATE_ALIVE"
proof -
  note ok = pm_safeD [OF safe]
  have a: "active_proc s \<in> dom (p_store s)" by (rule pm_okD(3) [OF ok])
  then have a0: "active_proc s \<noteq> 0" "p_store s (active_proc s) = Some (pr s (active_proc s))"
    using zero_free [OF ok] by (auto simp: pr_def)
  have "\<exists>q. p_stdin (pr s (active_proc s)) = Some q \<and> rf_inv q" using pm_okD(6) [OF ok] a by (auto simp: queues_ok_def)
  with pm_ok_upd [OF ok a, of "\<lambda>q. q\<lparr>p_context := context\<rparr>"] obtain s1 where
    s1: "upd_proc s (active_proc s) (\<lambda>q. q\<lparr>p_context := context\<rparr>) = Some s1" "pm_ok s1"
      "s1 = s\<lparr>p_store := (p_store s)(active_proc s \<mapsto> (pr s (active_proc s))\<lparr>p_context := context\<rparr>)\<rparr>"
      "dom (p_store s1) = dom (p_store s)"
      "\<forall>x. pr s1 x = (if x = active_proc s then (pr s (active_proc s))\<lparr>p_context := context\<rparr> else pr s x)" by auto
  have sv1: "survives s s1" using s1(4,5) by (auto simp: survives_def s1(3))
  have safe1: "pm_safe s1" by (rule pm_safe_survives [OF safe sv1 s1(2)])
  from ret a0 rem s1(1) obtain s2 where s2: "find_alive s1 = Some s2" by (auto simp: pm_schedule_def bind_eq_Some_conv)
  from find_alive_part [OF s2 safe1] obtain n p where n: "pm_safe s2" "survives s1 s2" "next_proc s2 = Some (n, p)" "p_state p = PSTATE_ALIVE"
    by blast
  have "n \<in> dom (p_store s2)" "p_state (pr s2 n) = PSTATE_ALIVE" using next_in [OF pm_safeD [OF n(1)] n(3)] n(4) by auto
  with survives_trans [OF sv1 n(2)] have "n \<in> dom (p_store s)" "p_state (pr s n) = PSTATE_ALIVE" by (auto simp: survives_def)
  then show ?thesis by blast
qed

lemma pm_schedule_part:
  assumes safe: "pm_safe s" and ret: "pm_schedule s context = Some (s', context')"
  shows "pm_safe s'"
proof (cases "\<exists>y \<in> dom (p_store s). p_state (pr s y) = PSTATE_ALIVE")
  case True
  then obtain y where "y \<in> dom (p_store s)" "p_state (pr s y) = PSTATE_ALIVE" by blast
  from pm_schedule_safe [OF safe this, of "context"] ret show ?thesis by auto
next
  case False
  then have rem: "p_remaining (pr s (active_proc s)) > 1" using pm_schedule_needs_alive [OF safe ret] by blast
  note ok = pm_safeD [OF safe]
  have a: "active_proc s \<in> dom (p_store s)" by (rule pm_okD(3) [OF ok])
  then have a0: "active_proc s \<noteq> 0" "p_store s (active_proc s) = Some (pr s (active_proc s))"
    using zero_free [OF ok] by (auto simp: pr_def)
  have "\<exists>q. p_stdin (pr s (active_proc s)) = Some q \<and> rf_inv q" using pm_okD(6) [OF ok] a by (auto simp: queues_ok_def)
  with pm_ok_upd [OF ok a, of "\<lambda>q. q\<lparr>p_remaining := p_remaining q - 1\<rparr>"] obtain s1 where
    s1: "upd_proc s (active_proc s) (\<lambda>q. q\<lparr>p_remaining := p_remaining q - 1\<rparr>) = Some s1" "pm_ok s1"
      "dom (p_store s1) = dom (p_store s)" "procs_head s1 = procs_head s"
      "\<forall>x. pr s1 x = (if x = active_proc s then (pr s (active_proc s))\<lparr>p_remaining := p_remaining (pr s (active_proc s)) - 1\<rparr> else pr s x)" by auto
  have "survives s s1" using s1 by (auto simp: survives_def)
  moreover have "s' = s1" using ret a0 rem s1(1) by (simp add: pm_schedule_def)
  ultimately show ?thesis using pm_safe_survives [OF safe _ s1(2)] by simp
qed


section \<open>All operations\<close>

lemma pm_safe_upd:
  assumes safe: "pm_safe s" and a: "a \<in> dom (p_store s)"
    and f: "\<And>p. p_next (f p) = p_next p" "\<And>p. p_pid (f p) = p_pid p" "\<And>p. p_vmonitor (f p) = p_vmonitor p"
      "\<exists>q. p_stdin (f (pr s a)) = Some q \<and> rf_inv q"
    and st: "p_state (f (pr s a)) \<in> {PSTATE_ALIVE, PSTATE_STDINSLEEP} \<or> p_state (f (pr s a)) = p_state (pr s a) \<or>
      p_state (f (pr s a)) = PSTATE_DEAD \<and> p_pid (pr s a) \<noteq> 0"
  shows "\<exists>s'. upd_proc s a f = Some s' \<and> pm_safe s' \<and> s' = s\<lparr>p_store := (p_store s)(a \<mapsto> f (pr s a))\<rparr>"
proof -
  note ok = pm_safeD [OF safe]
  obtain s' where s': "upd_proc s a f = Some s'" "pm_ok s'" "s' = s\<lparr>p_store := (p_store s)(a \<mapsto> f (pr s a))\<rparr>"
    "dom (p_store s') = dom (p_store s)" "\<forall>x. pr s' x = (if x = a then f (pr s a) else pr s x)"
    using pm_ok_upd [where f = f, OF ok a f] by blast
  have "procs_head s' = procs_head s" by (simp add: s'(3))
  moreover have "p_state (f (pr s a)) \<in> {PSTATE_ALIVE, PSTATE_DEAD, PSTATE_STDINSLEEP}"
    using st safe a by (auto simp: pm_safe_def)
  moreover have "procs_head s = a \<longrightarrow> p_state (f (pr s a)) \<noteq> PSTATE_DEAD" using st safe states_distinct by (auto simp: pm_safe_def)
  ultimately have "pm_safe s'" using safe s'(2,4,5) f(2) unfolding pm_safe_def by auto
  with s'(1,3) show ?thesis by blast
qed

lemma stdin_queue: "pm_safe s \<Longrightarrow> a \<in> dom (p_store s) \<Longrightarrow> \<exists>q. p_stdin (pr s a) = Some q \<and> rf_inv q"
  using pm_okD(6) by (auto simp: pm_safe_def queues_ok_def)

lemma store_pr: "a \<in> dom (p_store s) \<Longrightarrow> p_store s a = Some (pr s a)"
  by (auto simp: pr_def)

lemma get_proc_dom:
  assumes "pm_safe s" "pm_get_proc s pid = Some p" "p \<noteq> 0"
  shows "p \<in> dom (p_store s) \<and> p_pid (pr s p) = pid"
proof -
  have ok: "procs_ok s" using assms(1) by (simp add: pm_safe_def pm_ok_def)
  show ?thesis
  proof (cases "\<exists>a \<in> dom (p_store s). p_pid (pr s a) = pid")
    case True
    then obtain a where "a \<in> dom (p_store s)" "p_pid (pr s a) = pid" by blast
    with pm_get_proc_found [OF ok, of a] assms(2) show ?thesis by simp
  next
    case False
    with pm_get_proc_missing [OF ok, of pid] assms(2,3) show ?thesis by auto
  qed
qed

lemma pm_kill_safe:
  assumes safe: "pm_safe s" and pid: "pid \<noteq> 0" and k: "pm_kill_proc s pid = Some s'"
  shows "pm_safe s'"
proof -
  from k obtain p where p: "pm_get_proc s pid = Some p" by (auto simp: pm_kill_proc_def bind_eq_Some_conv)
  show ?thesis
  proof (cases "p = 0")
    case False
    with get_proc_dom [OF safe p] pid have d: "p \<in> dom (p_store s)" "p_pid (pr s p) \<noteq> 0" by auto
    obtain t where "upd_proc s p (\<lambda>q. q\<lparr>p_state := PSTATE_DEAD\<rparr>) = Some t" "pm_safe t"
      using pm_safe_upd [OF safe d(1), of "\<lambda>q. q\<lparr>p_state := PSTATE_DEAD\<rparr>"] stdin_queue [OF safe d(1)] d(2) by auto
    with k p False show ?thesis by (simp add: pm_kill_proc_def)
  qed (use k p safe in \<open>simp add: pm_kill_proc_def\<close>)
qed

lemma pm_priority_safe:
  assumes safe: "pm_safe s" and k: "pm_set_thread_priority s pid prio = Some s'"
  shows "pm_safe s'"
proof -
  from k obtain p where p: "pm_get_proc s pid = Some p" by (auto simp: pm_set_thread_priority_def bind_eq_Some_conv)
  show ?thesis
  proof (cases "p = 0")
    case False
    with get_proc_dom [OF safe p] have d: "p \<in> dom (p_store s)" by auto
    obtain t where "upd_proc s p (\<lambda>q. q\<lparr>p_priority := prio\<rparr>) = Some t" "pm_safe t"
      using pm_safe_upd [OF safe d, of "\<lambda>q. q\<lparr>p_priority := prio\<rparr>"] stdin_queue [OF safe d] by auto
    with k p False show ?thesis by (simp add: pm_set_thread_priority_def)
  qed (use k p safe in \<open>simp add: pm_set_thread_priority_def\<close>)
qed

lemma pm_exit_safe:
  assumes safe: "pm_safe (k_pm k)" and ex: "sys_exit k = Some k'"
  shows "pm_safe (k_pm k')"
proof -
  let ?s = "k_pm k"
  have a: "active_proc ?s \<in> dom (p_store ?s)" by (rule pm_okD(3) [OF pm_safeD [OF safe]])
  from ex obtain pid where "getpid ?s = Some pid" "pid \<noteq> 0" by (auto simp: sys_exit_def bind_eq_Some_conv split: if_splits)
  then have "p_pid (pr ?s (active_proc ?s)) \<noteq> 0" using store_pr [OF a] by (auto simp: getpid_def split: if_splits)
  from pm_safe_upd [OF safe a, of "\<lambda>q. q\<lparr>p_state := PSTATE_DEAD\<rparr>"] stdin_queue [OF safe a] this ex show ?thesis
    by (auto simp: sys_exit_def bind_eq_Some_conv split: if_splits)
qed

lemma pm_input_safe:
  assumes safe: "pm_safe s"
  shows "\<exists>s'. pm_handle_input s c = Some s' \<and> pm_safe s'"
proof (cases "focus_proc s = 0")
  case True
  with safe show ?thesis by (simp add: pm_handle_input_def)
next
  case False
  let ?f = "focus_proc s"
  have f: "?f \<in> dom (p_store s)" using pm_okD(5) [OF pm_safeD [OF safe]] False by (simp add: focus_ok_def)
  note p = store_pr [OF f]
  obtain q where q: "p_stdin (pr s ?f) = Some q" "rf_inv q" using stdin_queue [OF safe f] by blast
  have "unat (1 :: u32) \<le> length [c]" by simp
  from rf_write_correct [OF q(2) this] obtain q' n where q': "rf_write (Some q) (Some [c]) 1 = Some (Some q', n)" "rf_inv q'" by blast
  let ?g = "\<lambda>p. (if p_state p = PSTATE_STDINSLEEP then p\<lparr>p_state := PSTATE_ALIVE\<rparr> else p)\<lparr>p_stdin := Some q'\<rparr>"
  have "p_state (?g (pr s ?f)) \<in> {PSTATE_ALIVE, PSTATE_STDINSLEEP} \<or> p_state (?g (pr s ?f)) = p_state (pr s ?f)" by simp
  from pm_safe_upd [OF safe f, of ?g] this q'(2) obtain s' where "pm_safe s'" "s' = s\<lparr>p_store := (p_store s)(?f \<mapsto> ?g (pr s ?f))\<rparr>"
    by auto
  then show ?thesis using False p q(1) q'(1)
    by (cases "p_state (pr s ?f) = PSTATE_STDINSLEEP") (simp_all add: pm_handle_input_def)
qed

lemma pm_read_safe:
  assumes safe: "pm_safe s"
  shows "\<exists>s' r. dev_stdin_read s n = Some (s', r) \<and> pm_safe s'"
proof -
  let ?a = "active_proc s"
  have a: "?a \<in> dom (p_store s)" by (rule pm_okD(3) [OF pm_safeD [OF safe]])
  obtain q where q: "p_stdin (pr s ?a) = Some q" "rf_inv q" using stdin_queue [OF safe a] by blast
  from rf_read_correct [OF q(2), of n] obtain q' out k where q': "rf_read (Some q) True n = Some (Some q', out, k)" "rf_inv q'" by blast
  show ?thesis
  proof (cases "n > rf_getlength q \<and> ?a \<noteq> focus_proc s")
    case True
    obtain s' where "upd_proc s ?a (\<lambda>q. q\<lparr>p_state := PSTATE_STDINSLEEP\<rparr>) = Some s'" "pm_safe s'"
      using pm_safe_upd [OF safe a, of "\<lambda>q. q\<lparr>p_state := PSTATE_STDINSLEEP\<rparr>"] q by auto
    then show ?thesis using True store_pr [OF a] q(1) by (simp add: dev_stdin_read_def)
  next
    case False
    obtain s' where "upd_proc s ?a (\<lambda>q. q\<lparr>p_stdin := Some q'\<rparr>) = Some s'" "pm_safe s'"
      using pm_safe_upd [OF safe a, of "\<lambda>q. q\<lparr>p_stdin := Some q'\<rparr>"] q'(2) by auto
    then show ?thesis using False store_pr [OF a] q(1) q'(1) by (auto simp: dev_stdin_read_def)
  qed
qed

lemma pm_switch_safe:
  assumes safe: "pm_safe s" and sw: "switch_monitor_up s = Some s' \<or> switch_monitor_down s = Some s'"
  shows "pm_safe s'"
proof -
  obtain t u where t: "switch_monitor_up s = Some t" "pm_ok t" "p_store t = p_store s"
    and u: "switch_monitor_down s = Some u" "pm_ok u" "p_store u = p_store s"
    using switch_monitor_ok [OF pm_safeD [OF safe]] by blast
  have s': "pm_ok s'" "p_store s' = p_store s" using sw t u by auto
  have "procs_head s' = procs_head s"
    using sw by (auto simp: switch_monitor_up_def switch_monitor_down_def focus_active_def pm_set_focus_proc_def bind_eq_Some_conv)
  moreover have "pr s' = pr s" by (rule store_cong [OF s'(2)])
  ultimately show ?thesis using safe s' by (simp add: pm_safe_def)
qed

text \<open>
  The states of the process management. What the calls of \<open>mallocn\<close> return for a new thread is
  \<open>fresh_mem\<close>: a block that is not in use, with the sizes that were asked for.
\<close>

definition fresh_mem :: "pm_state \<Rightarrow> thread_mem \<Rightarrow> bool" where
  "fresh_mem s m \<longleftrightarrow> tm_addr m \<noteq> 0 \<and> tm_addr m \<notin> dom (p_store s) \<and> tm_stack m \<noteq> 0 \<and> length (tm_fifo m) = 512 \<and>
     3840 \<le> length (tm_mon m) \<and> length (tm_name m) = 81"

inductive pm_reach :: "pm_state \<Rightarrow> bool" where
  boot: "init_vmonitors pm_boot mon nm = Some s1 \<Longrightarrow> pm_init_proc s1 addr fifo = Some s \<Longrightarrow> addr \<noteq> 0 \<Longrightarrow>
    3840 \<le> length mon \<Longrightarrow> length nm = 81 \<Longrightarrow> length fifo = 512 \<Longrightarrow> pm_reach s"
| create: "pm_reach s \<Longrightarrow> pm_create_thread s m (Some nm) entry stacksize = Some (s', pid) \<Longrightarrow> fresh_mem s m \<Longrightarrow>
    length nm \<le> 78 \<Longrightarrow> entry \<noteq> 0 \<Longrightarrow> unat (maxvmonitor s) + 1 < 1000 \<Longrightarrow>
    \<forall>a \<in> dom (p_store s). p_pid (pr s a) \<noteq> next_pid s \<Longrightarrow> pm_reach s'"
| timer: "pm_reach s \<Longrightarrow> pm_schedule s c = Some (s', c') \<Longrightarrow> pm_reach s'"
| key: "pm_reach s \<Longrightarrow> pm_handle_input s ch = Some s' \<Longrightarrow> pm_reach s'"
| read: "pm_reach s \<Longrightarrow> dev_stdin_read s n = Some (s', r) \<Longrightarrow> pm_reach s'"
| kill: "pm_reach s \<Longrightarrow> pid \<noteq> 0 \<Longrightarrow> pm_kill_proc s pid = Some s' \<Longrightarrow> pm_reach s'"
| exit: "pm_reach (k_pm k) \<Longrightarrow> sys_exit k = Some k' \<Longrightarrow> pm_reach (k_pm k')"
| priority: "pm_reach s \<Longrightarrow> pm_set_thread_priority s pid prio = Some s' \<Longrightarrow> pm_reach s'"
| switch: "pm_reach s \<Longrightarrow> switch_monitor_up s = Some s' \<or> switch_monitor_down s = Some s' \<Longrightarrow> pm_reach s'"

lemma pm_create_safe:
  assumes safe: "pm_safe s" and c: "pm_create_thread s m (Some nm) entry stacksize = Some (s', pid)" "fresh_mem s m"
    "length nm \<le> 78" "entry \<noteq> 0" "unat (maxvmonitor s) + 1 < 1000" "\<forall>a \<in> dom (p_store s). p_pid (pr s a) \<noteq> next_pid s"
  shows "pm_safe s'"
proof -
  have m: "tm_addr m \<noteq> 0" "tm_addr m \<notin> dom (p_store s)" "tm_stack m \<noteq> 0" "length (tm_fifo m) = 512"
    "3840 \<le> length (tm_mon m)" "length (tm_name m) = 81"
    using c(2) by (simp_all add: fresh_mem_def)
  have "\<exists>t. pm_create_thread s m (Some nm) entry stacksize = Some (t, next_pid s) \<and> pm_ok t \<and>
    dom (p_store t) = insert (tm_addr m) (dom (p_store s)) \<and> next_pid t = next_pid s + 1 \<and>
    active_proc t = active_proc s \<and> procs_head t = procs_head s \<and>
    focus_proc t = tm_addr m \<and> p_pid (pr t (tm_addr m)) = next_pid s \<and> p_state (pr t (tm_addr m)) = PSTATE_ALIVE \<and>
    (\<forall>a \<in> dom (p_store s). p_pid (pr t a) = p_pid (pr s a) \<and> p_state (pr t a) = p_state (pr s a))"
    by (rule pm_create_ok [OF pm_safeD [OF safe] c(3,4) m c(5,6)])
  then obtain t where
    t: "pm_create_thread s m (Some nm) entry stacksize = Some (t, next_pid s)" "pm_ok t"
      "dom (p_store t) = insert (tm_addr m) (dom (p_store s))" "procs_head t = procs_head s" "p_state (pr t (tm_addr m)) = PSTATE_ALIVE"
      "\<forall>a \<in> dom (p_store s). p_pid (pr t a) = p_pid (pr s a) \<and> p_state (pr t a) = p_state (pr s a)"
    by metis
  have "procs_head s \<in> dom (p_store s)" by (rule pm_okD(1) [OF pm_safeD [OF safe]])
  with safe t(4,6) have hd: "p_pid (pr t (procs_head t)) = 0" "p_state (pr t (procs_head t)) \<noteq> PSTATE_DEAD"
    by (simp_all add: pm_safe_def)
  have "p_state (pr t a) \<in> {PSTATE_ALIVE, PSTATE_DEAD, PSTATE_STDINSLEEP}" if "a \<in> dom (p_store t)" for a
  proof (cases "a = tm_addr m")
    case False
    with that t(3) have a: "a \<in> dom (p_store s)" by simp
    with safe have "p_state (pr s a) \<in> {PSTATE_ALIVE, PSTATE_DEAD, PSTATE_STDINSLEEP}" unfolding pm_safe_def by blast
    with t(6) a show ?thesis by simp
  qed (simp add: t(5))
  with hd t(2) have "pm_safe t" unfolding pm_safe_def by blast
  with t(1) c(1) show ?thesis by simp
qed

lemma pm_reach_safe_lemma: "pm_reach s \<Longrightarrow> pm_safe s"
proof (induction rule: pm_reach.induct)
  case (boot mon nm s1 addr fifo s)
  from pm_init_ok [of addr mon nm fifo] boot have s: "pm_ok s" "dom (p_store s) = {addr}" "p_pid (pr s addr) = 0" by auto
  have "procs_head s = addr" using pm_okD(1) [OF s(1)] s(2) by simp
  moreover have "p_state (pr s addr) = PSTATE_ALIVE" using boot(2) by (auto simp: pm_init_proc_def pr_def split: if_splits)
  ultimately show ?case using s states_distinct by (simp add: pm_safe_def)
next
  case (create s m nm entry stacksize s' pid)
  show ?case by (rule pm_create_safe [OF create.IH create.hyps(2-7)])
next
  case (timer s c s' c')
  show ?case by (rule pm_schedule_part [OF timer.IH timer.hyps(2)])
next
  case (key s ch s')
  with pm_input_safe [of s ch] show ?case by auto
next
  case (read s n s' r)
  with pm_read_safe [of s n] show ?case by auto
next
  case (kill s pid s')
  show ?case by (rule pm_kill_safe [OF kill.IH kill.hyps(2,3)])
next
  case (exit k k')
  show ?case by (rule pm_exit_safe [OF exit.IH exit.hyps(2)])
next
  case (priority s pid prio s')
  show ?case by (rule pm_priority_safe [OF priority.IH priority.hyps(2)])
next
  case (switch s s')
  show ?case by (rule pm_switch_safe [OF switch.IH switch.hyps(2)])
qed


text \<open>The system after its start, with the kernel process at \<open>0x100000\<close>, and a thread at \<open>0x200000\<close>.\<close>

definition thread_mem_example :: thread_mem where
  "thread_mem_example = \<lparr>tm_addr = 0x200000, tm_pft = replicate NUM_PROC_FILES \<lparr>pf_desc = 0, pf_f_desc = 0, pf_pos = 0\<rparr>,
     tm_stack = 0x210000, tm_fifo = replicate 512 0, tm_mon = replicate 3840 7, tm_name = replicate 81 0\<rparr>"

definition started :: "pm_state \<Rightarrow> bool" where
  "started s \<longleftrightarrow> (\<exists>s1. init_vmonitors pm_boot (replicate 3840 0) (replicate 81 0) = Some s1 \<and>
     pm_init_proc s1 0x100000 (replicate 512 0) = Some s)"

lemma started_ex:
  obtains s where "started s" "pm_ok s" "dom (p_store s) = {0x100000}" "next_pid s = 1" "p_pid (pr s 0x100000) = 0"
    "p_remaining (pr s 0x100000) = 1"
proof -
  obtain s1 s where s: "init_vmonitors pm_boot (replicate 3840 0) (replicate 81 0) = Some s1"
    "pm_init_proc s1 0x100000 (replicate 512 0) = Some s" "pm_ok s" "dom (p_store s) = {0x100000}" "next_pid s = 1" "p_pid (pr s 0x100000) = 0"
    using pm_init_ok [of "0x100000" "replicate 3840 0" "replicate 81 0" "replicate 512 0"] by auto
  moreover have "p_remaining (pr s 0x100000) = 1" using s(2) by (auto simp: pm_init_proc_def pr_def)
  ultimately show ?thesis by (intro that) (auto simp: started_def)
qed

lemma started_reach: "started s \<Longrightarrow> pm_reach s"
  by (auto simp: started_def intro: pm_reach.boot)



section \<open>Fairness in every state\<close>



end
