(* ===== verification/BfEquiv.thy ===== *)
theory BfEquiv
  imports Brainfuck
begin

text \<open>
  The interpreter of theory \<open>Brainfuck\<close>, which sees one character at a time, stores the loop that it is in and
  replays it, is equivalent to the usual semantics of Brainfuck on programs with nested loops.
\<close>

section \<open>The language\<close>

datatype instr = Op u8 | While "instr list"

fun code :: "instr list \<Rightarrow> bytes" where
  "code [] = []"
| "code (Op c # p) = c # code p"
| "code (While q # p) = 91 # code q @ 93 # code p"

fun ok_prog :: "instr list \<Rightarrow> bool" where
  "ok_prog [] \<longleftrightarrow> True"
| "ok_prog (Op c # p) \<longleftrightarrow> c \<noteq> 91 \<and> c \<noteq> 93 \<and> ok_prog p"
| "ok_prog (While q # p) \<longleftrightarrow> ok_prog q \<and> ok_prog p"

fun nest :: "instr list \<Rightarrow> nat" where
  "nest [] = 0"
| "nest (Op c # p) = nest p"
| "nest (While q # p) = max (Suc (nest q)) (nest p)"

text \<open>The machine: cells, position, input and output. Moving off the cells has no result.\<close>

record tape =
  t_cells :: bytes
  t_ptr :: nat
  t_in :: bytes
  t_out :: bytes

definition t_cell :: "tape \<Rightarrow> u8" where
  "t_cell t = t_cells t ! t_ptr t"

definition step_op :: "u8 \<Rightarrow> tape \<Rightarrow> tape option" where
  "step_op c t =
     (if c = 43 then Some (t\<lparr>t_cells := (t_cells t)[t_ptr t := t_cell t + 1]\<rparr>)
      else if c = 45 then Some (t\<lparr>t_cells := (t_cells t)[t_ptr t := t_cell t - 1]\<rparr>)
      else if c = 60 then (if t_ptr t = 0 then None else Some (t\<lparr>t_ptr := t_ptr t - 1\<rparr>))
      else if c = 62 then (if t_ptr t + 1 < length (t_cells t) then Some (t\<lparr>t_ptr := t_ptr t + 1\<rparr>) else None)
      else if c = 46 then Some (t\<lparr>t_out := t_out t @ [t_cell t]\<rparr>)
      else if c = 44 then (case t_in t of [] \<Rightarrow> None | x # xs \<Rightarrow> Some (t\<lparr>t_in := xs, t_cells := (t_cells t)[t_ptr t := x]\<rparr>))
      else Some t)"

inductive exec :: "instr list \<Rightarrow> tape \<Rightarrow> tape \<Rightarrow> bool" and loop :: "instr list \<Rightarrow> tape \<Rightarrow> tape \<Rightarrow> bool" where
  exec_Nil: "exec [] t t"
| exec_Op: "step_op c t = Some t1 \<Longrightarrow> exec p t1 t2 \<Longrightarrow> exec (Op c # p) t t2"
| exec_While: "loop q t t1 \<Longrightarrow> exec p t1 t2 \<Longrightarrow> exec (While q # p) t t2"
| loop_end: "t_cell t = 0 \<Longrightarrow> loop q t t"
| loop_round: "t_cell t \<noteq> 0 \<Longrightarrow> exec q t t1 \<Longrightarrow> loop q t1 t2 \<Longrightarrow> loop q t t2"

section \<open>The relation between the two machines\<close>

definition core :: "bf_state \<Rightarrow> tape \<Rightarrow> bool" where
  "core s t \<longleftrightarrow> bf_start s = t_cells t \<and> bf_ptr s = int (t_ptr t) \<and> maxlength s = int (length (t_cells t)) \<and>
     bf_in s = t_in t \<and> bf_out s = t_out t \<and> t_ptr t < length (t_cells t)"

text \<open>
  Between two characters the interpreter is outside of all loops, or it reads the outermost loop for
  the first time and stores it, or it replays a loop that is stored. \<open>i\<close> is the position of the next
  character in the buffer \<open>b\<close>.
\<close>

datatype bf_mode = Top | Rec | Replay

definition base :: "bf_state \<Rightarrow> bf_mode \<Rightarrow> nat \<Rightarrow> bytes \<Rightarrow> nat \<Rightarrow> bool" where
  "base s m D b i \<longleftrightarrow> loopdepth s = int D \<and> length (loop_marks s) = 50 \<and> (case m of
       Top \<Rightarrow> bf_buffer s = None \<and> \<not> store_lock s \<and> store_lock_level s = 0 \<and> bf_buf_offset s = 0 \<and> bf_buf_position s = - 1
     | Rec \<Rightarrow> bf_buffer s = Some b \<and> \<not> store_lock s \<and> store_lock_level s = 0 \<and> bf_buf_offset s = i \<and> bf_buf_position s = int i - 1
     | Replay \<Rightarrow> bf_buffer s = Some b \<and> store_lock s \<and> 0 < store_lock_level s \<and> store_lock_level s \<le> int D)"

definition room :: "bf_mode \<Rightarrow> bytes \<Rightarrow> nat \<Rightarrow> bytes \<Rightarrow> bool" where
  "room m b i cs \<longleftrightarrow> (case m of Top \<Rightarrow> True | Rec \<Rightarrow> i + length cs \<le> length b
     | Replay \<Rightarrow> i + length cs \<le> length b \<and> sub_bytes i (length cs) b = cs)"

definition recd :: "bf_mode \<Rightarrow> nat \<Rightarrow> bytes \<Rightarrow> bytes \<Rightarrow> bytes" where
  "recd m i cs b = (if m = Rec then blit i cs b else b)"

text \<open>
  A run over the characters \<open>cs\<close>: what the caller of \<open>interpret_bf\<close> does, and in a replay what the loop over the
  buffer does, which sets the position before every character.
\<close>

definition at_pos :: "bf_mode \<Rightarrow> bf_state \<Rightarrow> nat \<Rightarrow> bf_state" where
  "at_pos m s i = (if m = Replay then s\<lparr>bf_buf_position := int i\<rparr> else s)"

fun feed :: "bf_mode \<Rightarrow> (nat \<Rightarrow> bytes) \<Rightarrow> bf_state \<Rightarrow> nat \<Rightarrow> bytes \<Rightarrow> bf_state option" where
  "feed m mem s i [] = Some s"
| "feed m mem s i (c # cs) =
     (if m = Replay \<and> \<not> (\<exists>b. bf_buffer s = Some b \<and> i < length b \<and> b ! i = c) then None
      else do { s \<leftarrow> bf_run mem (Symbol c) (at_pos m s i); feed m mem s (i + 1) cs })"

lemma feed_append: "feed m mem s i (xs @ ys) = feed m mem s i xs \<bind> (\<lambda>s. feed m mem s (i + length xs) ys)"
  by (induction xs arbitrary: s i) (auto split: bind_splits)

lemma feed_interpret: "m \<noteq> Replay \<Longrightarrow> feed m mem s i cs = interpret_all mem s cs"
  by (induction cs arbitrary: s i) (simp_all add: at_pos_def interpret_bf_def)

lemma feed_position: "cs \<noteq> [] \<Longrightarrow> feed Replay mem (s\<lparr>bf_buf_position := x\<rparr>) i cs = feed Replay mem s i cs"
  by (cases cs) (auto simp: at_pos_def)

lemma feed_Body:
  "feed Replay mem s i cs = Some s' \<Longrightarrow> bf_buf_position s = int i \<Longrightarrow>
   bf_run mem (Body (int i) (int (i + length cs))) s = Some (s'\<lparr>bf_buf_position := int (i + length cs)\<rparr>)"
proof (induction cs arbitrary: s i)
  case Nil
  then show ?case by (subst bf_run.simps) simp
next
  case (Cons c cs)
  from Cons.prems(1) obtain b s1 where b: "bf_buffer s = Some b" "i < length b" "b ! i = c"
    and s1: "bf_run mem (Symbol c) (at_pos Replay s i) = Some s1" "feed Replay mem s1 (i + 1) cs = Some s'"
    by (auto split: if_splits bind_splits)
  have at: "at_pos Replay s i = s" using Cons.prems(2) by (simp add: at_pos_def)
  let ?s1 = "s1\<lparr>bf_buf_position := int (i + 1)\<rparr>"
  have "feed Replay mem ?s1 (i + 1) cs = Some s' \<or> cs = []"
    by (cases "cs = []") (simp_all only: feed_position s1(2) simp_thms)
  then have "bf_run mem (Body (int (i + 1)) (int (i + 1 + length cs))) ?s1 = Some (s'\<lparr>bf_buf_position := int (i + 1 + length cs)\<rparr>)"
  proof
    assume "feed Replay mem ?s1 (i + 1) cs = Some s'"
    then show ?thesis by (rule Cons.IH) simp
  next
    assume "cs = []"
    with s1(2) show ?thesis by (subst bf_run.simps) simp
  qed
  then show ?case using b s1(1) at by (subst bf_run.simps) (simp add: add.commute)
qed

section \<open>Steps\<close>

text \<open>The parts of the state that a step leaves alone.\<close>

definition tape_of :: "bf_state \<Rightarrow> bytes \<times> int \<times> int \<times> bytes \<times> bytes" where
  "tape_of s = (bf_start s, bf_ptr s, maxlength s, bf_in s, bf_out s)"

definition ctl :: "bf_state \<Rightarrow> bytes option \<times> nat \<times> int \<times> (int \<times> int) list \<times> bool \<times> int \<times> int" where
  "ctl s = (bf_buffer s, bf_buf_offset s, bf_buf_position s, loop_marks s, store_lock s, loopdepth s, store_lock_level s)"

lemma core_tape: "tape_of s' = tape_of s \<Longrightarrow> core s' t = core s t"
  by (simp add: tape_of_def core_def)

lemma bf_cell_core: "core s t \<Longrightarrow> bf_cell s = Some (t_cell t)"
  by (simp add: core_def bf_cell_def t_cell_def)

lemma bf_repair_core: "core s t \<Longrightarrow> bf_repair mem s = Some s"
  by (simp add: core_def bf_repair_def)

lemma op_step:
  assumes "core s t" "step_op c t = Some t1" "c \<noteq> 91" "c \<noteq> 93"
  shows "\<exists>s1. bf_symbol mem s c = Some s1 \<and> core s1 t1 \<and> ctl s1 = ctl s \<and> jumpover s1 = jumpover s"
  using assms bf_cell_core [OF assms(1)]
  by (auto simp: bf_symbol_def step_op_def core_def ctl_def set_cell_def split: if_splits list.splits)

lemma base_ctl: "ctl s1 = ctl s \<Longrightarrow> base s1 m D b i = base s m D b i"
  by (simp add: ctl_def base_def split: bf_mode.split)

lemma record_step:
  assumes "base s m D b i" "room m b i [c]"
  shows "\<exists>s1. bf_record (at_pos m s i) c = Some s1 \<and> base s1 m D (recd m i [c] b) (i + 1) \<and>
    (m \<noteq> Top \<longrightarrow> bf_buf_position s1 = int i) \<and> tape_of s1 = tape_of s \<and> jumpover s1 = jumpover s \<and>
    temploopdepth s1 = temploopdepth s \<and> loop_marks s1 = loop_marks s \<and> store_lock_level s1 = store_lock_level s \<and>
    (m = Replay \<longrightarrow> bf_buf_offset s1 = bf_buf_offset s)"
  using assms by (cases m)
    (auto simp: base_def room_def recd_def at_pos_def bf_record_def tape_of_def blit_def upd_conv_take_nth_drop)

lemma feed_guard:
  assumes "base s m D b i" "room m b i (c # cs)" "m = Replay"
  shows "bf_buffer s = Some b \<and> i < length b \<and> b ! i = c"
proof -
  have r: "i + Suc (length cs) \<le> length b" "sub_bytes i (Suc (length cs)) b = c # cs" using assms(2,3) by (simp_all add: room_def)
  then have "b ! i = (c # cs) ! 0" using nth_sub_bytes [of 0 "Suc (length cs)" i b] by simp
  with r(1) assms(1,3) show ?thesis by (simp add: base_def)
qed

lemma blit_blit:
  "i + length xs + length ys \<le> length b \<Longrightarrow> blit (i + length xs) ys (blit i xs b) = blit i (xs @ ys) b"
  by (simp add: blit_def ac_simps)

lemma recd_append: "room m b i (xs @ ys) \<Longrightarrow> recd m i (xs @ ys) b = recd m (i + length xs) ys (recd m i xs b)"
  by (cases m) (simp_all add: room_def recd_def blit_blit)

lemma room_append:
  assumes "room m b i (xs @ ys)"
  shows "room m b i xs" "room m (recd m i xs b) (i + length xs) ys"
proof -
  have "take (length xs) (drop i b) = xs \<and> take (length ys) (drop (i + length xs) b) = ys"
    if "m = Replay"
  proof -
    have "i + length xs + length ys \<le> length b" "take (length xs) (drop i b) @ take (length ys) (drop (i + length xs) b) = xs @ ys"
      using that assms by (simp_all add: room_def sub_bytes_def take_add ac_simps)
    moreover from this(1) have "length (take (length xs) (drop i b)) = length xs" by simp
    ultimately show ?thesis by (simp only: append_eq_append_conv simp_thms)
  qed
  then show "room m b i xs" "room m (recd m i xs b) (i + length xs) ys"
    using assms by (cases m; simp add: room_def recd_def sub_bytes_def)+
qed

text \<open>A character is consumed: recorded in the mode \<open>Rec\<close>, and the rest is left.\<close>

definition same :: "bf_mode \<Rightarrow> bf_state \<Rightarrow> bf_state \<Rightarrow> bool" where
  "same m s s' \<longleftrightarrow> store_lock_level s' = store_lock_level s \<and> (m = Replay \<longrightarrow> bf_buf_offset s' = bf_buf_offset s)"

lemma same_trans: "same m s1 s2 \<Longrightarrow> same m s2 s3 \<Longrightarrow> same m s1 s3"
  by (simp add: same_def)

lemma consume:
  fixes mem :: "nat \<Rightarrow> bytes"
  assumes "base s m D b i" "room m b i (c # cs)"
  obtains s1 where "bf_record (at_pos m s i) c = Some s1" "base s1 m D (recd m i [c] b) (i + 1)"
    "m \<noteq> Top \<longrightarrow> bf_buf_position s1 = int i" "tape_of s1 = tape_of s" "jumpover s1 = jumpover s"
    "temploopdepth s1 = temploopdepth s" "loop_marks s1 = loop_marks s" "same m s s1"
    "feed m mem s i (c # cs) = bf_run mem (Symbol c) (at_pos m s i) \<bind> (\<lambda>s. feed m mem s (i + 1) cs)"
    "room m (recd m i [c] b) (i + 1) cs" "recd m i (c # cs) b = recd m (i + 1) cs (recd m i [c] b)"
proof -
  have r: "room m b i ([c] @ cs)" using assms(2) by simp
  have "room m b i [c]" by (rule room_append(1) [OF r])
  from record_step [OF assms(1) this] obtain s1 where s1: "bf_record (at_pos m s i) c = Some s1" "base s1 m D (recd m i [c] b) (i + 1)"
    "m \<noteq> Top \<longrightarrow> bf_buf_position s1 = int i" "tape_of s1 = tape_of s" "jumpover s1 = jumpover s"
    "temploopdepth s1 = temploopdepth s" "loop_marks s1 = loop_marks s" "same m s s1" unfolding same_def by blast
  moreover have "feed m mem s i (c # cs) = bf_run mem (Symbol c) (at_pos m s i) \<bind> (\<lambda>s. feed m mem s (i + 1) cs)"
    using feed_guard [OF assms] by auto
  moreover have "room m (recd m i [c] b) (i + 1) cs" using room_append(2) [OF r] by simp
  moreover have "recd m i (c # cs) b = recd m (i + 1) cs (recd m i [c] b)" using recd_append [OF r] by simp
  ultimately show ?thesis using that by blast
qed

section \<open>Jumping over a loop\<close>

lemma jump_step:
  fixes mem :: "nat \<Rightarrow> bytes"
  assumes "base s m D b i" "room m b i (c # cs)" "jumpover s"
  obtains s1 where "feed m mem s i (c # cs) = feed m mem (bf_jump s1 c) (i + 1) cs" "base s1 m D (recd m i [c] b) (i + 1)"
    "jumpover s1" "tape_of s1 = tape_of s" "temploopdepth s1 = temploopdepth s" "loop_marks s1 = loop_marks s" "same m s s1"
    "room m (recd m i [c] b) (i + 1) cs" "recd m i (c # cs) b = recd m (i + 1) cs (recd m i [c] b)"
proof -
  obtain s1 where s1: "bf_record (at_pos m s i) c = Some s1" "base s1 m D (recd m i [c] b) (i + 1)"
    "m \<noteq> Top \<longrightarrow> bf_buf_position s1 = int i" "tape_of s1 = tape_of s" "jumpover s1 = jumpover s"
    "temploopdepth s1 = temploopdepth s" "loop_marks s1 = loop_marks s" "same m s s1"
    "feed m mem s i (c # cs) = bf_run mem (Symbol c) (at_pos m s i) \<bind> (\<lambda>s. feed m mem s (i + 1) cs)"
    "room m (recd m i [c] b) (i + 1) cs" "recd m i (c # cs) b = recd m (i + 1) cs (recd m i [c] b)"
    by (rule consume [OF assms(1,2), where mem = mem])
  have "bf_run mem (Symbol c) (at_pos m s i) = Some (bf_jump s1 c)"
    using s1(1,5) assms(3) by (subst bf_run.simps) simp
  then show ?thesis using that s1 assms(3) by simp
qed

lemma skip:
  "base s m D b i \<Longrightarrow> jumpover s \<Longrightarrow> temploopdepth s = int T \<Longrightarrow> T \<le> D \<Longrightarrow> ok_prog q \<Longrightarrow> room m b i (code q) \<Longrightarrow>
   \<exists>s'. feed m mem s i (code q) = Some s' \<and> base s' m D (recd m i (code q) b) (i + length (code q)) \<and> jumpover s' \<and>
     temploopdepth s' = int T \<and> tape_of s' = tape_of s \<and> loop_marks s' = loop_marks s \<and> same m s s'"
proof (induction q arbitrary: s D b i rule: code.induct)
  case 1
  then show ?case by (auto simp: recd_def same_def blit_def)
next
  case (2 c p)
  have r: "room m b i (c # code p)" using "2.prems"(6) by simp
  obtain s1 where s1: "feed m mem s i (c # code p) = feed m mem (bf_jump s1 c) (i + 1) (code p)"
    "base s1 m D (recd m i [c] b) (i + 1)" "jumpover s1" "tape_of s1 = tape_of s" "temploopdepth s1 = temploopdepth s"
    "loop_marks s1 = loop_marks s" "same m s s1" "room m (recd m i [c] b) (i + 1) (code p)"
    "recd m i (c # code p) b = recd m (i + 1) (code p) (recd m i [c] b)"
    by (rule jump_step [OF "2.prems"(1) r "2.prems"(2), where mem = mem])
  have "bf_jump s1 c = s1" using "2.prems"(5) by (simp add: bf_jump_def)
  moreover obtain s' where "feed m mem s1 (i + 1) (code p) = Some s'"
    "base s' m D (recd m (i + 1) (code p) (recd m i [c] b)) (i + 1 + length (code p))" "jumpover s'"
    "temploopdepth s' = int T" "tape_of s' = tape_of s1" "loop_marks s' = loop_marks s1" "same m s1 s'"
    using "2.IH" [OF s1(2,3)] "2.prems" s1(5,8) by auto
  ultimately show ?case using s1 same_trans [of m s s1 s'] by auto
next
  case (3 q p)
  let ?b1 = "recd m i [91] b"
  have r: "room m b i (91 # (code q @ 93 # code p))" using "3.prems"(6) by simp
  obtain s1 where s1: "feed m mem s i (91 # (code q @ 93 # code p)) = feed m mem (bf_jump s1 91) (i + 1) (code q @ 93 # code p)"
    "base s1 m D ?b1 (i + 1)" "jumpover s1" "tape_of s1 = tape_of s" "temploopdepth s1 = temploopdepth s"
    "loop_marks s1 = loop_marks s" "same m s s1" "room m ?b1 (i + 1) (code q @ 93 # code p)"
    "recd m i (91 # (code q @ 93 # code p)) b = recd m (i + 1) (code q @ 93 # code p) ?b1"
    by (rule jump_step [OF "3.prems"(1) r "3.prems"(2), where mem = mem])
  let ?s1 = "bf_jump s1 91"
  have j1: "base ?s1 m (D + 1) ?b1 (i + 1)" "jumpover ?s1" "tape_of ?s1 = tape_of s" "temploopdepth ?s1 = int T"
    "loop_marks ?s1 = loop_marks s" "same m s ?s1"
    using s1 "3.prems"(3) by (auto simp: bf_jump_def base_def tape_of_def same_def split: bf_mode.splits)
  let ?b2 = "recd m (i + 1) (code q) ?b1" and ?j = "i + 1 + length (code q)"
  note rq = room_append [OF s1(8)]
  obtain s2 where s2: "feed m mem ?s1 (i + 1) (code q) = Some s2" "base s2 m (D + 1) ?b2 ?j" "jumpover s2"
    "temploopdepth s2 = int T" "tape_of s2 = tape_of ?s1" "loop_marks s2 = loop_marks ?s1" "same m ?s1 s2"
    using "3.IH"(1) [OF j1(1,2,4) _ _ rq(1)] "3.prems"(4,5) by auto
  obtain s3 where s3: "feed m mem s2 ?j (93 # code p) = feed m mem (bf_jump s3 93) (?j + 1) (code p)"
    "base s3 m (D + 1) (recd m ?j [93] ?b2) (?j + 1)" "jumpover s3" "tape_of s3 = tape_of s2" "temploopdepth s3 = temploopdepth s2"
    "loop_marks s3 = loop_marks s2" "same m s2 s3" "room m (recd m ?j [93] ?b2) (?j + 1) (code p)"
    "recd m ?j (93 # code p) ?b2 = recd m (?j + 1) (code p) (recd m ?j [93] ?b2)"
    by (rule jump_step [OF s2(2) rq(2) s2(3), where mem = mem])
  let ?s3 = "bf_jump s3 93"
  have sm3: "same m s s3" using same_trans j1(6) s2(7) s3(7) by blast
  have j3: "base ?s3 m D (recd m ?j [93] ?b2) (?j + 1)" "jumpover ?s3" "tape_of ?s3 = tape_of s" "temploopdepth ?s3 = int T"
    "loop_marks ?s3 = loop_marks s" "same m s ?s3"
    using s3 s2 j1 sm3 "3.prems"(1,4) by (auto simp: bf_jump_def base_def tape_of_def same_def split: bf_mode.splits)
  obtain s' where "feed m mem ?s3 (?j + 1) (code p) = Some s'"
    "base s' m D (recd m (?j + 1) (code p) (recd m ?j [93] ?b2)) (?j + 1 + length (code p))" "jumpover s'"
    "temploopdepth s' = int T" "tape_of s' = tape_of ?s3" "loop_marks s' = loop_marks ?s3" "same m ?s3 s'"
    using "3.IH"(2) [OF j3(1,2,4) "3.prems"(4) _ s3(8)] "3.prems"(5) by auto
  moreover have "feed m mem s i (code (While q # p)) = feed m mem ?s3 (?j + 1) (code p)"
    using s1(1) s2(1) s3(1) by (simp add: feed_append)
  moreover have "recd m i (code (While q # p)) b = recd m (?j + 1) (code p) (recd m ?j [93] ?b2)"
    using s1(9) s3(9) recd_append [OF s1(8)] by simp
  moreover have "i + length (code (While q # p)) = ?j + 1 + length (code p)" by simp
  ultimately show ?case using j3 same_trans [of m s ?s3 s'] by (metis (no_types))
qed


section \<open>A program, and the rounds of a loop\<close>

definition good :: "bf_mode \<Rightarrow> bf_state \<Rightarrow> nat \<Rightarrow> bf_state \<Rightarrow> tape \<Rightarrow> bytes \<Rightarrow> nat \<Rightarrow> bool" where
  "good m s D s' t b j \<longleftrightarrow> base s' m D b j \<and> core s' t \<and> \<not> jumpover s' \<and>
     (\<forall>k\<le>D. loop_marks s' ! k = loop_marks s ! k) \<and> same m s s'"

definition feeds :: "(nat \<Rightarrow> bytes) \<Rightarrow> instr list \<Rightarrow> tape \<Rightarrow> tape \<Rightarrow> bool" where
  "feeds mem q t t' \<longleftrightarrow> (\<forall>m s D b i. m \<noteq> Top \<longrightarrow> base s m D b i \<longrightarrow> core s t \<longrightarrow> \<not> jumpover s \<longrightarrow> 0 < D \<longrightarrow> D + nest q < 50 \<longrightarrow>
     ok_prog q \<longrightarrow> room m b i (code q) \<longrightarrow>
     (\<exists>s'. feed m mem s i (code q) = Some s' \<and> good m s D s' t' (recd m i (code q) b) (i + length (code q))))"

lemma feedsD:
  assumes "feeds mem q t t'" "m \<noteq> Top" "base s m D b i" "core s t" "\<not> jumpover s" "0 < D" "D + nest q < 50" "ok_prog q"
    "room m b i (code q)"
  obtains s' where "feed m mem s i (code q) = Some s'" "good m s D s' t' (recd m i (code q) b) (i + length (code q))"
  using assms unfolding feeds_def by blast

definition at_end :: "bf_state \<Rightarrow> nat \<Rightarrow> bytes \<Rightarrow> nat \<Rightarrow> instr list \<Rightarrow> tape \<Rightarrow> bool" where
  "at_end s D b a q t \<longleftrightarrow> core s t \<and> \<not> jumpover s \<and> bf_buffer s = Some b \<and> length (loop_marks s) = 50 \<and> loopdepth s = int D \<and>
     loop_marks s ! D = (int a, int (a + length (code q))) \<and> a + length (code q) \<le> length b \<and>
     sub_bytes a (length (code q)) b = code q \<and> bf_buf_position s = int (a + length (code q)) \<and>
     (if store_lock s then 0 < store_lock_level s \<and> store_lock_level s \<le> int D else store_lock_level s = 0)"

definition rounds :: "bf_state \<Rightarrow> nat \<Rightarrow> bf_state \<Rightarrow> bool \<Rightarrow> bool" where
  "rounds s D s' z \<longleftrightarrow> bf_buf_offset s' = bf_buf_offset s \<and> (\<forall>k\<le>D. loop_marks s' ! k = loop_marks s ! k) \<and>
     (if z then store_lock s' = store_lock s \<and> store_lock_level s' = store_lock_level s
      else store_lock s' \<and> store_lock_level s' = (if store_lock_level s = 0 then int D else store_lock_level s))"

definition loops :: "(nat \<Rightarrow> bytes) \<Rightarrow> instr list \<Rightarrow> tape \<Rightarrow> tape \<Rightarrow> bool" where
  "loops mem q t t' \<longleftrightarrow> (\<forall>s D b a. at_end s D b a q t \<longrightarrow> 0 < D \<longrightarrow> D + nest q < 50 \<longrightarrow> ok_prog q \<longrightarrow>
     (\<exists>s'. bf_run mem Loop s = Some s' \<and> at_end s' D b a q t' \<and> rounds s D s' (t_cell t = 0)))"

lemma loopsD:
  assumes "loops mem q t t'" "at_end s D b a q t" "0 < D" "D + nest q < 50" "ok_prog q"
  obtains s' where "bf_run mem Loop s = Some s'" "at_end s' D b a q t'" "rounds s D s' (t_cell t = 0)"
  using assms unfolding loops_def by blast

lemma good_trans:
  "good m s D s1 t1 b1 j1 \<Longrightarrow> good m s1 D s2 t2 b2 j2 \<Longrightarrow> good m s D s2 t2 b2 j2"
  by (auto simp: good_def same_def)

lemma loops_end: "t_cell t = 0 \<Longrightarrow> loops mem q t t"
  unfolding loops_def
proof (intro allI impI)
  fix s D b a
  assume z: "t_cell t = 0" and e: "at_end s D b a q t"
  then have "bf_cell s = Some 0" using bf_cell_core [of s t] by (simp add: at_end_def)
  then have "bf_run mem Loop s = Some s" by (subst bf_run.simps) simp
  with e z show "\<exists>s'. bf_run mem Loop s = Some s' \<and> at_end s' D b a q t \<and> rounds s D s' (t_cell t = 0)"
    by (auto simp: rounds_def)
qed

text \<open>A round starts: the lock is on and the position is that of the first character of the loop.\<close>

lemma round_start:
  assumes "at_end s D b a q t" "0 < D" "D < 50"
  shows "\<exists>s1. bf_round_start s = Some (s1, int a, int (a + length (code q))) \<and> base s1 Replay D b a \<and> core s1 t \<and>
    \<not> jumpover s1 \<and> bf_buf_position s1 = int a \<and> loop_marks s1 = loop_marks s \<and> bf_buf_offset s1 = bf_buf_offset s \<and>
    store_lock_level s1 = (if store_lock_level s = 0 then int D else store_lock_level s)"
  using assms
  by (auto simp: bf_round_start_def at_end_def base_def core_def get_mark_def Let_def split: if_splits)

lemma loops_round:
  assumes nz: "t_cell t \<noteq> 0" and f: "feeds mem q t t1" and l: "loops mem q t1 t2"
  shows "loops mem q t t2"
  unfolding loops_def
proof (intro allI impI)
  fix s D b a
  assume e: "at_end s D b a q t" and D: "0 < D" "D + nest q < 50" and q: "ok_prog q"
  from D have D50: "D < 50" by simp
  obtain s1 where s1: "bf_round_start s = Some (s1, int a, int (a + length (code q)))" "base s1 Replay D b a" "core s1 t"
    "\<not> jumpover s1" "bf_buf_position s1 = int a" "loop_marks s1 = loop_marks s" "bf_buf_offset s1 = bf_buf_offset s"
    "store_lock_level s1 = (if store_lock_level s = 0 then int D else store_lock_level s)"
    using round_start [OF e D(1) D50] by blast
  have r: "room Replay b a (code q)" using e by (simp add: room_def at_end_def)
  obtain s2 where s2: "feed Replay mem s1 a (code q) = Some s2"
    "good Replay s1 D s2 t1 (recd Replay a (code q) b) (a + length (code q))"
    by (rule feedsD [OF f _ s1(2,3,4) D q r]) simp_all
  let ?s2 = "s2\<lparr>bf_buf_position := int (a + length (code q))\<rparr>"
  have body: "bf_run mem (Body (int a) (int (a + length (code q)))) s1 = Some ?s2"
    by (rule feed_Body [OF s2(1) s1(5)])
  have e2: "at_end ?s2 D b a q t1"
    using s2(2) e s1(6) by (simp add: at_end_def good_def base_def core_def recd_def)
  obtain s' where s': "bf_run mem Loop ?s2 = Some s'" "at_end s' D b a q t2" "rounds ?s2 D s' (t_cell t1 = 0)"
    by (rule loopsD [OF l e2 D q])
  have "bf_cell s = Some (t_cell t)" using e bf_cell_core [of s t] by (simp add: at_end_def)
  then have "bf_run mem Loop s = Some s'" using nz s1(1) body s'(1) by (subst bf_run.simps) simp
  moreover have "rounds s D s' (t_cell t = 0)"
    using s'(3) s2(2) s1(6,7,8) nz D(1) by (auto simp: rounds_def good_def same_def base_def split: if_splits)
  ultimately show "\<exists>s'. bf_run mem Loop s = Some s' \<and> at_end s' D b a q t2 \<and> rounds s D s' (t_cell t = 0)"
    using s'(2) by blast
qed

text \<open>The closing bracket when the first round is over.\<close>

lemma close_start:
  assumes "base s m D b j" "m \<noteq> Top" "core s t" "\<not> jumpover s" "D < 50" "bf_buf_position s = int (a + length (code q))"
    "fst (loop_marks s ! D) = int a" "a + length (code q) \<le> length b" "sub_bytes a (length (code q)) b = code q"
  shows "\<exists>s1. bf_close_start s = Some s1 \<and> at_end s1 D b a q t \<and> bf_buf_offset s1 = bf_buf_offset s \<and>
    store_lock s1 = store_lock s \<and> store_lock_level s1 = store_lock_level s \<and> (\<forall>k<D. loop_marks s1 ! k = loop_marks s ! k)"
  using assms
  by (cases m) (auto simp: bf_close_start_def get_mark_def set_mark_def base_def at_end_def core_def)

lemma recorded:
  assumes "room m b i (cs @ ys)" "m \<noteq> Top"
  shows "i + length cs \<le> length b" "sub_bytes i (length cs) (recd m i cs b) = cs"
  using room_append(1) [OF assms(1)] assms(2)
  by (cases m; simp add: room_def recd_def sub_bytes_def blit_def)+

lemma length_recd: "room m b i cs \<Longrightarrow> length (recd m i cs b) = length b"
  by (cases m) (simp_all add: recd_def room_def)

lemma first_round:
  assumes b: "base s m (Suc D) b i" and m: "m \<noteq> Top" and c: "core s t" "\<not> jumpover s"
    and mk: "fst (loop_marks s ! Suc D) = int i" and D: "Suc D + nest q < 50" and q: "ok_prog q"
    and r: "room m b i (code q @ 93 # cs)" and f: "feeds mem q t t1" and l: "loops mem q t1 t2"
  shows "\<exists>s'. feed m mem s i (code q @ 93 # cs) = feed m mem (bf_close_end s') (i + length (code q) + 1) cs \<and>
    at_end s' (Suc D) (recd m i (code q @ [93]) b) i q t2 \<and> (\<forall>k\<le>D. loop_marks s' ! k = loop_marks s ! k) \<and>
    (if m = Rec then bf_buf_offset s' = i + length (code q) + 1 \<and> store_lock_level s' = (if store_lock s' then int (Suc D) else 0)
     else store_lock s' \<and> store_lock_level s' = store_lock_level s \<and> bf_buf_offset s' = bf_buf_offset s)"
proof -
  let ?j = "i + length (code q)" and ?b1 = "recd m i (code q) b"
  note rq = room_append [OF r]
  have D50: "Suc D < 50" using D by simp
  obtain s1 where s1: "feed m mem s i (code q) = Some s1" "good m s (Suc D) s1 t1 ?b1 ?j"
    by (rule feedsD [OF f m b c _ D q rq(1)]) simp_all
  have b1: "base s1 m (Suc D) ?b1 ?j" "core s1 t1" "\<not> jumpover s1" "same m s s1"
    and mk1: "\<And>k. k \<le> Suc D \<Longrightarrow> loop_marks s1 ! k = loop_marks s ! k"
    using s1(2) by (auto simp: good_def)
  obtain s2 where s2: "bf_record (at_pos m s1 ?j) 93 = Some s2" "base s2 m (Suc D) (recd m ?j [93] ?b1) (?j + 1)"
    "m \<noteq> Top \<longrightarrow> bf_buf_position s2 = int ?j" "tape_of s2 = tape_of s1" "jumpover s2 = jumpover s1"
    "temploopdepth s2 = temploopdepth s1" "loop_marks s2 = loop_marks s1" "same m s1 s2"
    "feed m mem s1 ?j (93 # cs) = bf_run mem (Symbol 93) (at_pos m s1 ?j) \<bind> (\<lambda>s. feed m mem s (?j + 1) cs)"
    "room m (recd m ?j [93] ?b1) (?j + 1) cs" "recd m ?j (93 # cs) ?b1 = recd m (?j + 1) cs (recd m ?j [93] ?b1)"
    by (rule consume [OF b1(1) rq(2), where mem = mem])
  let ?b2 = "recd m i (code q @ [93]) b"
  have r1: "room m b i ((code q @ [93]) @ cs)" using r by simp
  have r2: "room m b i (code q @ [93])" by (rule room_append(1) [OF r1])
  have b2: "recd m ?j [93] ?b1 = ?b2" using recd_append [OF r2] by simp
  have len: "?j + 1 \<le> length b" using recorded(1) [OF r1 m] by simp
  have "sub_bytes i (length (code q) + 1) ?b2 = code q @ [93]" using recorded(2) [OF r1 m] by simp
  then have "take (length (code q)) (sub_bytes i (length (code q) + 1) ?b2) = code q" by simp
  then have sub: "sub_bytes i (length (code q)) ?b2 = code q" by (simp add: sub_bytes_def)
  have c2: "core s2 t1" using s2(4) b1(2) core_tape by blast
  have "\<exists>s3. bf_close_start s2 = Some s3 \<and> at_end s3 (Suc D) ?b2 i q t1 \<and> bf_buf_offset s3 = bf_buf_offset s2 \<and>
    store_lock s3 = store_lock s2 \<and> store_lock_level s3 = store_lock_level s2 \<and> (\<forall>k<Suc D. loop_marks s3 ! k = loop_marks s2 ! k)"
  proof (rule close_start)
    show "base s2 m (Suc D) ?b2 (?j + 1)" using s2(2) b2 by simp
    show "bf_buf_position s2 = int ?j" using s2(3) m by simp
    show "fst (loop_marks s2 ! Suc D) = int i" using s2(7) mk1 [of "Suc D"] mk by simp
    show "?j \<le> length ?b2" using length_recd [OF r2] len by simp
  qed (use m c2 s2(5) b1(3) D50 sub in simp_all)
  then obtain s3 where s3: "bf_close_start s2 = Some s3" "at_end s3 (Suc D) ?b2 i q t1" "bf_buf_offset s3 = bf_buf_offset s2"
    "store_lock s3 = store_lock s2" "store_lock_level s3 = store_lock_level s2" "\<forall>k<Suc D. loop_marks s3 ! k = loop_marks s2 ! k"
    by blast
  obtain s4 where s4: "bf_run mem Loop s3 = Some s4" "at_end s4 (Suc D) ?b2 i q t2" "rounds s3 (Suc D) s4 (t_cell t1 = 0)"
    by (rule loopsD [OF l s3(2) _ D q]) simp_all
  have "core (bf_close_end s4) t2" using s4(2) by (simp add: at_end_def core_def bf_close_end_def Let_def)
  then have "bf_repair mem (bf_close_end s4) = Some (bf_close_end s4)" by (rule bf_repair_core)
  then have "bf_run mem (Symbol 93) (at_pos m s1 ?j) = Some (bf_close_end s4)"
    using s2(1,5) b1(3) s3(1) s4(1) by (subst bf_run.simps) simp
  then have "feed m mem s i (code q @ 93 # cs) = feed m mem (bf_close_end s4) (?j + 1) cs"
    using s1(1) s2(9) by (simp add: feed_append)
  moreover have "\<forall>k\<le>D. loop_marks s4 ! k = loop_marks s ! k"
    using s4(3) s3(6) s2(7) mk1 by (simp add: rounds_def)
  moreover have "if m = Rec then bf_buf_offset s4 = ?j + 1 \<and> store_lock_level s4 = (if store_lock s4 then int (Suc D) else 0)
     else store_lock s4 \<and> store_lock_level s4 = store_lock_level s \<and> bf_buf_offset s4 = bf_buf_offset s"
    using s4(3) s3(3,4,5) s2(2,8) b1(1,4) m by (cases m) (auto simp: rounds_def same_def base_def split: if_splits)
  ultimately show ?thesis using s4(2) by blast
qed

section \<open>A whole loop\<close>

lemma while_skip:
  assumes b: "base s m D b i" and c: "core s t" "\<not> jumpover s" and z: "t_cell t = 0" and q: "ok_prog q"
    and r: "room m b i (91 # code q @ 93 # cs)"
  shows "\<exists>s'. feed m mem s i (91 # code q @ 93 # cs) = feed m mem s' (i + length (code q) + 2) cs \<and>
    good m s D s' t (recd m i (91 # code q @ [93]) b) (i + length (code q) + 2) \<and> loop_marks s' = loop_marks s"
proof -
  obtain s1 where s1: "bf_record (at_pos m s i) 91 = Some s1" "base s1 m D (recd m i [91] b) (i + 1)"
    "m \<noteq> Top \<longrightarrow> bf_buf_position s1 = int i" "tape_of s1 = tape_of s" "jumpover s1 = jumpover s"
    "temploopdepth s1 = temploopdepth s" "loop_marks s1 = loop_marks s" "same m s s1"
    "feed m mem s i (91 # code q @ 93 # cs) = bf_run mem (Symbol 91) (at_pos m s i) \<bind> (\<lambda>s. feed m mem s (i + 1) (code q @ 93 # cs))"
    "room m (recd m i [91] b) (i + 1) (code q @ 93 # cs)"
    "recd m i (91 # code q @ 93 # cs) b = recd m (i + 1) (code q @ 93 # cs) (recd m i [91] b)"
    by (rule consume [OF b r, where mem = mem])
  let ?b1 = "recd m i [91] b" and ?j = "i + 1 + length (code q)"
  let ?s1 = "s1\<lparr>loopdepth := int (Suc D), jumpover := True, temploopdepth := int (Suc D)\<rparr>"
  have c1: "core s1 t" using s1(4) c(1) core_tape by blast
  then have cell: "bf_cell (s1\<lparr>loopdepth := loopdepth s1 + 1\<rparr>) = Some 0" using z bf_cell_core [of "s1\<lparr>loopdepth := loopdepth s1 + 1\<rparr>" t] by (simp add: core_def)
  have ld: "loopdepth s1 = int D" using s1(2) by (simp add: base_def)
  have "bf_symbol mem s1 91 = Some ?s1" using cell ld by (simp add: bf_symbol_def Let_def)
  moreover have "bf_repair mem ?s1 = Some ?s1" by (rule bf_repair_core [of _ t]) (use c1 in \<open>simp add: core_def\<close>)
  ultimately have "bf_run mem (Symbol 91) (at_pos m s i) = Some ?s1"
    using s1(1,5) c(2) by (subst bf_run.simps) simp
  with s1(9) have f1: "feed m mem s i (91 # code q @ 93 # cs) = feed m mem ?s1 (i + 1) (code q @ 93 # cs)" by simp
  have b1: "base ?s1 m (Suc D) ?b1 (i + 1)" using s1(2) by (auto simp: base_def split: bf_mode.splits)
  note rq = room_append [OF s1(10)]
  let ?b2 = "recd m (i + 1) (code q) ?b1"
  obtain s2 where s2: "feed m mem ?s1 (i + 1) (code q) = Some s2" "base s2 m (Suc D) ?b2 ?j" "jumpover s2"
    "temploopdepth s2 = int (Suc D)" "tape_of s2 = tape_of ?s1" "loop_marks s2 = loop_marks ?s1" "same m ?s1 s2"
    using skip [OF b1 _ _ _ q rq(1), where T = "Suc D" and mem = mem] by auto
  obtain s3 where s3: "feed m mem s2 ?j (93 # cs) = feed m mem (bf_jump s3 93) (?j + 1) cs"
    "base s3 m (Suc D) (recd m ?j [93] ?b2) (?j + 1)" "jumpover s3" "tape_of s3 = tape_of s2" "temploopdepth s3 = temploopdepth s2"
    "loop_marks s3 = loop_marks s2" "same m s2 s3" "room m (recd m ?j [93] ?b2) (?j + 1) cs"
    "recd m ?j (93 # cs) ?b2 = recd m (?j + 1) cs (recd m ?j [93] ?b2)"
    by (rule jump_step [OF s2(2) rq(2) s2(3), where mem = mem])
  have r1: "room m b i ((91 # code q @ [93]) @ cs)" and r3: "room m ?b1 (i + 1) ((code q @ [93]) @ cs)" using r s1(10) by simp_all
  have "room m b i ([91] @ code q @ [93])" using room_append(1) [OF r1] by simp
  from recd_append [OF this] recd_append [OF room_append(1) [OF r3]]
  have "recd m i (91 # code q @ [93]) b = recd m ?j [93] ?b2" by simp
  moreover have "base (bf_jump s3 93) m D (recd m ?j [93] ?b2) (?j + 1)"
    using s3(2,5,7) s2(4,7) s1(8) b by (auto simp: bf_jump_def base_def same_def split: bf_mode.splits)
  moreover have "core (bf_jump s3 93) t"
    using c1 s2(5) s3(4) by (simp add: core_def tape_of_def bf_jump_def)
  moreover have "\<not> jumpover (bf_jump s3 93)"
    using s3(2,5) s2(4) by (simp add: bf_jump_def base_def)
  moreover have mk: "loop_marks (bf_jump s3 93) = loop_marks s" using s3(6) s2(6) s1(7) by (simp add: bf_jump_def)
  moreover have "same m s (bf_jump s3 93)" using s1(8) s2(7) s3(7) by (auto simp: same_def bf_jump_def)
  ultimately have "good m s D (bf_jump s3 93) t (recd m i (91 # code q @ [93]) b) (?j + 1)" by (simp add: good_def)
  moreover have "feed m mem s i (91 # code q @ 93 # cs) = feed m mem (bf_jump s3 93) (?j + 1) cs"
    using f1 s2(1) s3(1) by (simp add: feed_append)
  moreover have "?j + 1 = i + length (code q) + 2" by simp
  ultimately show ?thesis using mk by (metis (no_types))
qed

lemma while_open:
  assumes b: "base s m D b i" and m: "m \<noteq> Top" and c: "core s t" "\<not> jumpover s" and nz: "t_cell t \<noteq> 0" and D: "Suc D < 50"
    and r: "room m b i (91 # cs)"
  shows "\<exists>s1. feed m mem s i (91 # cs) = feed m mem s1 (i + 1) cs \<and> base s1 m (Suc D) (recd m i [91] b) (i + 1) \<and>
    core s1 t \<and> \<not> jumpover s1 \<and> fst (loop_marks s1 ! Suc D) = int (i + 1) \<and> (\<forall>k\<le>D. loop_marks s1 ! k = loop_marks s ! k) \<and>
    same m s s1 \<and> room m (recd m i [91] b) (i + 1) cs \<and> recd m i (91 # cs) b = recd m (i + 1) cs (recd m i [91] b)"
proof -
  obtain s1 where s1: "bf_record (at_pos m s i) 91 = Some s1" "base s1 m D (recd m i [91] b) (i + 1)"
    "m \<noteq> Top \<longrightarrow> bf_buf_position s1 = int i" "tape_of s1 = tape_of s" "jumpover s1 = jumpover s"
    "temploopdepth s1 = temploopdepth s" "loop_marks s1 = loop_marks s" "same m s s1"
    "feed m mem s i (91 # cs) = bf_run mem (Symbol 91) (at_pos m s i) \<bind> (\<lambda>s. feed m mem s (i + 1) cs)"
    "room m (recd m i [91] b) (i + 1) cs" "recd m i (91 # cs) b = recd m (i + 1) cs (recd m i [91] b)"
    by (rule consume [OF b r, where mem = mem])
  let ?s1 = "s1\<lparr>loopdepth := int D + 1, loop_marks := (loop_marks s1)[Suc D := (int i + 1, snd (loop_marks s1 ! Suc D))]\<rparr>"
  have c1: "core s1 t" using s1(4) c(1) core_tape by blast
  then have cell: "bf_cell (s1\<lparr>loopdepth := loopdepth s1 + 1\<rparr>) = Some (t_cell t)" using bf_cell_core [of "s1\<lparr>loopdepth := loopdepth s1 + 1\<rparr>" t] by (simp add: core_def)
  have st: "loopdepth s1 = int D" "length (loop_marks s1) = 50" "bf_buffer s1 \<noteq> None"
    using s1(2) m by (auto simp: base_def split: bf_mode.splits)
  have n: "nat (int D + 1) = Suc D" by simp
  have "bf_symbol mem s1 91 = Some ?s1" using cell nz st s1(3) m D by (auto simp: bf_symbol_def Let_def get_mark_def set_mark_def n)
  moreover have "bf_repair mem ?s1 = Some ?s1" by (rule bf_repair_core [of _ t]) (use c1 in \<open>simp add: core_def\<close>)
  ultimately have "bf_run mem (Symbol 91) (at_pos m s i) = Some ?s1"
    using s1(1,5) c(2) by (subst bf_run.simps) simp
  with s1(9) have "feed m mem s i (91 # cs) = feed m mem ?s1 (i + 1) cs" by simp
  moreover have "base ?s1 m (Suc D) (recd m i [91] b) (i + 1)" using s1(2) by (auto simp: base_def split: bf_mode.splits)
  moreover have "core ?s1 t" using c1 by (simp add: core_def)
  moreover have "\<not> jumpover ?s1" using s1(5) c(2) by simp
  moreover have "fst (loop_marks ?s1 ! Suc D) = int (i + 1)" "\<forall>k\<le>D. loop_marks ?s1 ! k = loop_marks s ! k"
    using st D s1(7) by simp_all
  moreover have "same m s ?s1" using s1(8) by (simp add: same_def)
  ultimately show ?thesis using s1(10,11) by blast
qed

lemma while_close:
  assumes e: "at_end s' (Suc D) b a q t" and m: "m \<noteq> Top" and D: "0 < D" and b: "base s m D b0 i"
    and k: "if m = Rec then bf_buf_offset s' = a + length (code q) + 1 \<and> store_lock_level s' = (if store_lock s' then int (Suc D) else 0)
     else store_lock s' \<and> store_lock_level s' = store_lock_level s \<and> bf_buf_offset s' = bf_buf_offset s"
    and mk: "\<forall>k\<le>D. loop_marks s' ! k = loop_marks s ! k"
  shows "good m s D (bf_close_end s') t b (a + length (code q) + 1)"
proof -
  have "bf_close_end s' = (if loopdepth s' = store_lock_level s' then s'\<lparr>store_lock := False, store_lock_level := 0\<rparr> else s')
    \<lparr>loopdepth := int D\<rparr>"
    using e D by (simp add: bf_close_end_def at_end_def Let_def)
  then show ?thesis
    using e m b k mk by (cases m) (auto simp: good_def at_end_def base_def core_def same_def split: if_splits)
qed

section \<open>Programs\<close>

lemma feeds_Nil: "feeds mem [] t t"
  by (auto simp: feeds_def good_def recd_def same_def blit_def)

lemma feed_op:
  assumes b: "base s m D b i" and c: "core s t" "\<not> jumpover s" and st: "step_op c t = Some t1" "c \<noteq> 91" "c \<noteq> 93"
    and r: "room m b i (c # cs)"
  shows "\<exists>s1. feed m mem s i (c # cs) = feed m mem s1 (i + 1) cs \<and> good m s D s1 t1 (recd m i [c] b) (i + 1) \<and>
    room m (recd m i [c] b) (i + 1) cs \<and> recd m i (c # cs) b = recd m (i + 1) cs (recd m i [c] b) \<and>
    loop_marks s1 = loop_marks s"
proof -
  obtain s1 where s1: "bf_record (at_pos m s i) c = Some s1" "base s1 m D (recd m i [c] b) (i + 1)"
    "m \<noteq> Top \<longrightarrow> bf_buf_position s1 = int i" "tape_of s1 = tape_of s" "jumpover s1 = jumpover s"
    "temploopdepth s1 = temploopdepth s" "loop_marks s1 = loop_marks s" "same m s s1"
    "feed m mem s i (c # cs) = bf_run mem (Symbol c) (at_pos m s i) \<bind> (\<lambda>s. feed m mem s (i + 1) cs)"
    "room m (recd m i [c] b) (i + 1) cs" "recd m i (c # cs) b = recd m (i + 1) cs (recd m i [c] b)"
    by (rule consume [OF b r, where mem = mem])
  have "core s1 t" using s1(4) c(1) core_tape by blast
  from op_step [OF this st, of mem] obtain s2 where s2: "bf_symbol mem s1 c = Some s2" "core s2 t1" "ctl s2 = ctl s1"
    "jumpover s2 = jumpover s1" by blast
  have "bf_run mem (Symbol c) (at_pos m s i) = Some s2"
    using s1(1,5) s2(1,2) c(2) st(3) bf_repair_core by (subst bf_run.simps) simp
  then have "feed m mem s i (c # cs) = feed m mem s2 (i + 1) cs" using s1(9) by simp
  moreover have "base s2 m D (recd m i [c] b) (i + 1)" using base_ctl [OF s2(3)] s1(2) by simp
  moreover have "loop_marks s2 = loop_marks s" "same m s s2" using s2(3) s1(7,8) by (auto simp: ctl_def same_def)
  ultimately show ?thesis using s1(5,10,11) s2(2,4) c(2) unfolding good_def by metis
qed

lemma feeds_Op:
  assumes st: "step_op c t = Some t1" and f: "feeds mem p t1 t2"
  shows "feeds mem (Op c # p) t t2"
  unfolding feeds_def
proof (intro allI impI)
  fix m s D b i
  assume m: "m \<noteq> Top" and b: "base s m D b i" and c: "core s t" "\<not> jumpover s" and D: "0 < D" "D + nest (Op c # p) < 50"
    and q: "ok_prog (Op c # p)" and r: "room m b i (code (Op c # p))"
  have c': "c \<noteq> 91" "c \<noteq> 93" and r': "room m b i (c # code p)" using q r by simp_all
  obtain s1 where s1: "feed m mem s i (c # code p) = feed m mem s1 (i + 1) (code p)" "good m s D s1 t1 (recd m i [c] b) (i + 1)"
    "room m (recd m i [c] b) (i + 1) (code p)" "recd m i (c # code p) b = recd m (i + 1) (code p) (recd m i [c] b)"
    using feed_op [OF b c st c' r', of mem] by blast
  have "base s1 m D (recd m i [c] b) (i + 1)" "core s1 t1" "\<not> jumpover s1" using s1(2) by (simp_all add: good_def)
  from feedsD [OF f m this D(1) _ _ s1(3)] D(2) q obtain s' where s': "feed m mem s1 (i + 1) (code p) = Some s'"
    "good m s1 D s' t2 (recd m (i + 1) (code p) (recd m i [c] b)) (i + 1 + length (code p))" by auto
  have "good m s D s' t2 (recd m i (code (Op c # p)) b) (i + length (code (Op c # p)))"
    using good_trans [OF s1(2) s'(2)] s1(4) by simp
  then show "\<exists>s'. feed m mem s i (code (Op c # p)) = Some s' \<and>
      good m s D s' t2 (recd m i (code (Op c # p)) b) (i + length (code (Op c # p)))"
    using s1(1) s'(1) by auto
qed

text \<open>What is known of a loop: it is not entered, or there is a first round, and then the others.\<close>

definition entered :: "(nat \<Rightarrow> bytes) \<Rightarrow> instr list \<Rightarrow> tape \<Rightarrow> tape \<Rightarrow> bool" where
  "entered mem q t t' \<longleftrightarrow> loops mem q t t' \<and>
     (if t_cell t = 0 then t' = t else \<exists>t1. feeds mem q t t1 \<and> loops mem q t1 t')"

lemma feed_While:
  assumes m: "m \<noteq> Top" and b: "base s m D b i" and c: "core s t" "\<not> jumpover s" and D: "0 < D" "Suc D + nest q < 50"
    and q: "ok_prog q" and r: "room m b i (91 # code q @ 93 # cs)" and e: "entered mem q t t1"
  shows "\<exists>s1. feed m mem s i (91 # code q @ 93 # cs) = feed m mem s1 (i + length (code q) + 2) cs \<and>
    good m s D s1 t1 (recd m i (91 # code q @ [93]) b) (i + length (code q) + 2)"
proof (cases "t_cell t = 0")
  case True
  with e have "t1 = t" by (simp add: entered_def)
  then show ?thesis using while_skip [OF b c True q r, of mem] by blast
next
  case False
  with e obtain t0 where f: "feeds mem q t t0" and l: "loops mem q t0 t1" by (auto simp: entered_def)
  have D50: "Suc D < 50" using D(2) by simp
  obtain s1 where s1: "feed m mem s i (91 # code q @ 93 # cs) = feed m mem s1 (i + 1) (code q @ 93 # cs)"
    "base s1 m (Suc D) (recd m i [91] b) (i + 1)" "core s1 t" "\<not> jumpover s1" "fst (loop_marks s1 ! Suc D) = int (i + 1)"
    "\<forall>k\<le>D. loop_marks s1 ! k = loop_marks s ! k" "same m s s1" "room m (recd m i [91] b) (i + 1) (code q @ 93 # cs)"
    using while_open [OF b m c False D50 r, of mem] by blast
  let ?b = "recd m (i + 1) (code q @ [93]) (recd m i [91] b)"
  from first_round [OF s1(2) m s1(3,4,5) D(2) q s1(8) f l] obtain s2 where
    s2: "feed m mem s1 (i + 1) (code q @ 93 # cs) = feed m mem (bf_close_end s2) (i + 1 + length (code q) + 1) cs"
    "at_end s2 (Suc D) ?b (i + 1) q t1" "\<forall>k\<le>D. loop_marks s2 ! k = loop_marks s1 ! k"
    "if m = Rec then bf_buf_offset s2 = i + 1 + length (code q) + 1 \<and> store_lock_level s2 = (if store_lock s2 then int (Suc D) else 0)
     else store_lock s2 \<and> store_lock_level s2 = store_lock_level s1 \<and> bf_buf_offset s2 = bf_buf_offset s1"
    by blast
  have "if m = Rec then bf_buf_offset s2 = i + 1 + length (code q) + 1 \<and> store_lock_level s2 = (if store_lock s2 then int (Suc D) else 0)
     else store_lock s2 \<and> store_lock_level s2 = store_lock_level s \<and> bf_buf_offset s2 = bf_buf_offset s"
    using s2(4) s1(7) m by (cases m) (simp_all add: same_def)
  then have "good m s D (bf_close_end s2) t1 ?b (i + 1 + length (code q) + 1)"
    by (rule while_close [OF s2(2) m D(1) b]) (use s2(3) s1(6) in simp)
  moreover have r1: "room m b i ((91 # code q @ [93]) @ cs)" using r by simp
  have "room m b i ([91] @ code q @ [93])" using room_append(1) [OF r1] by simp
  from recd_append [OF this] have "?b = recd m i (91 # code q @ [93]) b" by simp
  moreover have "i + 1 + length (code q) + 1 = i + length (code q) + 2" by simp
  ultimately show ?thesis using s1(1) s2(1) by (metis (no_types))
qed

lemma feeds_While:
  assumes e: "entered mem q t t1" and f: "feeds mem p t1 t2"
  shows "feeds mem (While q # p) t t2"
  unfolding feeds_def
proof (intro allI impI)
  fix m s D b i
  assume m: "m \<noteq> Top" and b: "base s m D b i" and c: "core s t" "\<not> jumpover s" and D: "0 < D" "D + nest (While q # p) < 50"
    and q: "ok_prog (While q # p)" and r: "room m b i (code (While q # p))"
  have r': "room m b i (91 # code q @ 93 # code p)" "room m b i ((91 # code q @ [93]) @ code p)" and D': "Suc D + nest q < 50" "D + nest p < 50"
    and q': "ok_prog q" "ok_prog p" using r D q by simp_all
  let ?b = "recd m i (91 # code q @ [93]) b" and ?j = "i + length (code q) + 2"
  obtain s1 where s1: "feed m mem s i (91 # code q @ 93 # code p) = feed m mem s1 ?j (code p)" "good m s D s1 t1 ?b ?j"
    using feed_While [OF m b c D(1) D'(1) q'(1) r'(1) e] by blast
  have "base s1 m D ?b ?j" "core s1 t1" "\<not> jumpover s1" using s1(2) by (simp_all add: good_def)
  moreover have "room m ?b ?j (code p)" using room_append(2) [OF r'(2)] by simp
  ultimately obtain s' where s': "feed m mem s1 ?j (code p) = Some s'" "good m s1 D s' t2 (recd m ?j (code p) ?b) (?j + length (code p))"
    using feedsD [OF f m _ _ _ D(1) D'(2) q'(2)] by metis
  have "good m s D s' t2 (recd m i (code (While q # p)) b) (i + length (code (While q # p)))"
    using good_trans [OF s1(2) s'(2)] recd_append [OF r'(2)] by (simp add: ac_simps)
  then show "\<exists>s'. feed m mem s i (code (While q # p)) = Some s' \<and>
      good m s D s' t2 (recd m i (code (While q # p)) b) (i + length (code (While q # p)))"
    using s1(1) s'(1) by auto
qed

lemma exec_feeds: "exec p t t' \<Longrightarrow> feeds mem p t t'"
  and loop_entered: "loop q t t' \<Longrightarrow> entered mem q t t'"
proof (induction rule: exec_loop.inducts)
  case (exec_Nil t)
  show ?case by (rule feeds_Nil)
next
  case (exec_Op c t t1 p t2)
  then show ?case by (rule_tac feeds_Op)
next
  case (exec_While q t t1 p t2)
  then show ?case by (rule_tac feeds_While)
next
  case (loop_end t q)
  then show ?case by (simp add: entered_def loops_end)
next
  case (loop_round t q t1 t2)
  then have "loops mem q t1 t2" by (simp add: entered_def)
  with loop_round show ?case using loops_round [of t mem q t1 t2] by (auto simp: entered_def)
qed

section \<open>Outside of the loops\<close>

lemma exec_length: "exec p t t' \<Longrightarrow> length (t_cells t') = length (t_cells t)"
  and loop_length: "loop q t t' \<Longrightarrow> length (t_cells t') = length (t_cells t)"
  by (induction rule: exec_loop.inducts) (auto simp: step_op_def split: if_splits list.splits)

fun fits :: "nat \<Rightarrow> instr list \<Rightarrow> bool" where
  "fits n [] \<longleftrightarrow> True"
| "fits n (Op c # p) \<longleftrightarrow> fits n p"
| "fits n (While q # p) \<longleftrightarrow> length (code q) < n \<and> fits n p"

definition ready :: "bf_state \<Rightarrow> tape \<Rightarrow> bool" where
  "ready s t \<longleftrightarrow> base s Top 0 [] 0 \<and> core s t \<and> \<not> jumpover s \<and> fst (loop_marks s ! 1) = 0"

lemma base_Top: "base s Top D b i = base s Top D [] 0"
  by (simp add: base_def)

lemma top_open:
  assumes s: "ready s t" and nz: "t_cell t \<noteq> 0"
  shows "\<exists>s1. bf_run mem (Symbol 91) s = Some s1 \<and> base s1 Rec 1 (mem (length (t_cells t))) 0 \<and> core s1 t \<and> \<not> jumpover s1 \<and>
    fst (loop_marks s1 ! 1) = 0"
proof -
  let ?s1 = "s\<lparr>loopdepth := 1, bf_buffer := Some (mem (length (t_cells t)))\<rparr>"
  have c: "core (s\<lparr>loopdepth := 1\<rparr>) t" "loopdepth s = 0" "bf_buffer s = None" "maxlength s = int (length (t_cells t))"
    "\<not> jumpover s" using s by (simp_all add: ready_def base_def core_def)
  have "bf_symbol mem s 91 = Some ?s1" using bf_cell_core [OF c(1)] nz c by (simp add: bf_symbol_def Let_def)
  moreover have "bf_repair mem ?s1 = Some ?s1" by (rule bf_repair_core [of _ t]) (use c in \<open>simp add: core_def\<close>)
  ultimately have "bf_run mem (Symbol 91) s = Some ?s1" using c by (subst bf_run.simps) (simp add: bf_record_def)
  then show ?thesis using s by (auto simp: ready_def base_def core_def)
qed

lemma top_close:
  assumes e: "at_end s' 1 b 0 q t" and k: "store_lock_level s' = (if store_lock s' then 1 else 0)"
  shows "ready (bf_close_end s') t"
  using e k by (auto simp: ready_def at_end_def bf_close_end_def base_def core_def Let_def)

lemma top_While:
  assumes s: "ready s t" and q: "ok_prog q" "nest q < 49" "length (code q) < length (t_cells t)" and l: "loop q t t1"
    and mem: "\<forall>n. length (mem n) = n"
  shows "\<exists>s1. feed Top mem s 0 (91 # code q @ 93 # cs) = feed Top mem s1 0 cs \<and> ready s1 t1"
proof (cases "t_cell t = 0")
  case True
  have e: "t1 = t" using loop_entered [OF l, of mem] True by (simp add: entered_def)
  have b: "base s Top 0 [] 0" "core s t" "\<not> jumpover s" "fst (loop_marks s ! 1) = 0" using s by (simp_all add: ready_def)
  have r: "room Top [] 0 (91 # code q @ 93 # cs)" by (simp add: room_def)
  obtain s1 where s1: "feed Top mem s 0 (91 # code q @ 93 # cs) = feed Top mem s1 (0 + length (code q) + 2) cs"
    "good Top s 0 s1 t (recd Top 0 (91 # code q @ [93]) []) (0 + length (code q) + 2)" "loop_marks s1 = loop_marks s"
    using while_skip [OF b(1,2,3) True q(1) r, of mem] by blast
  have "ready s1 t" using s1(2,3) b(4) by (simp add: good_def ready_def base_def)
  then show ?thesis using s1(1) e by (auto simp: feed_interpret)
next
  case False
  let ?b = "mem (length (t_cells t))"
  obtain t0 where f: "feeds mem q t t0" and l: "loops mem q t0 t1"
    using loop_entered [OF l, of mem] False by (auto simp: entered_def)
  obtain s1 where s1: "bf_run mem (Symbol 91) s = Some s1" "base s1 Rec 1 ?b 0" "core s1 t" "\<not> jumpover s1" "fst (loop_marks s1 ! 1) = 0"
    using top_open [OF s False] by blast
  have r: "room Rec ?b 0 (code q @ 93 # [])" using q(3) mem by (simp add: room_def)
  obtain s2 where s2: "feed Rec mem s1 0 (code q @ 93 # []) = feed Rec mem (bf_close_end s2) (0 + length (code q) + 1) []"
    "at_end s2 (Suc 0) (recd Rec 0 (code q @ [93]) ?b) 0 q t1"
    "bf_buf_offset s2 = 0 + length (code q) + 1 \<and> store_lock_level s2 = (if store_lock s2 then int (Suc 0) else 0)"
    using first_round [of s1 Rec 0 ?b 0 t q "[]" mem t0 t1, OF _ _ s1(3,4) _ _ q(1) r f l] s1(2,5) q(2) by auto
  have "feed Top mem s 0 (91 # code q @ 93 # cs) = feed Top mem s1 (0 + 1) ((code q @ 93 # []) @ cs)"
    using s1(1) by (simp add: at_pos_def)
  also have "\<dots> = feed Rec mem s1 0 (code q @ 93 # []) \<bind> (\<lambda>s. feed Top mem s 0 cs)"
    unfolding feed_append by (simp only: feed_interpret bf_mode.distinct not_False_eq_True)
  also have "\<dots> = feed Top mem (bf_close_end s2) 0 cs" using s2(1) by simp
  finally show ?thesis using top_close [of s2 _ q t1] s2(2,3) by auto
qed

lemma top_exec:
  "exec p t t' \<Longrightarrow> ready s t \<Longrightarrow> ok_prog p \<Longrightarrow> nest p < 50 \<Longrightarrow> fits (length (t_cells t)) p \<Longrightarrow> \<forall>n. length (mem n) = n \<Longrightarrow>
   \<exists>s'. feed Top mem s 0 (code p) = Some s' \<and> ready s' t'"
  and "loop q t t' \<Longrightarrow> True"
proof (induction arbitrary: s rule: exec_loop.inducts)
  case (exec_Op c t t1 p t2)
  have b: "base s Top 0 [] 0" "core s t" "\<not> jumpover s" "fst (loop_marks s ! 1) = 0" using exec_Op.prems(1) by (simp_all add: ready_def)
  have r: "room Top [] 0 (c # code p)" by (simp add: room_def)
  have c: "c \<noteq> 91" "c \<noteq> 93" using exec_Op.prems(2) by simp_all
  obtain s1 where s1: "feed Top mem s 0 (c # code p) = feed Top mem s1 (0 + 1) (code p)" "good Top s 0 s1 t1 (recd Top 0 [c] []) (0 + 1)"
    "loop_marks s1 = loop_marks s"
    using feed_op [OF b(1,2,3) exec_Op.hyps(1) c r, of mem] by blast
  have "ready s1 t1" using s1(2,3) b(4) by (simp add: good_def ready_def base_def)
  moreover have "length (t_cells t1) = length (t_cells t)"
    using exec_Op.hyps(1) by (auto simp: step_op_def split: if_splits list.splits)
  ultimately obtain s' where "feed Top mem s1 0 (code p) = Some s'" "ready s' t2"
    using exec_Op.IH [of s1] exec_Op.prems by auto
  then show ?case using s1(1) by (auto simp: feed_interpret)
next
  case (exec_While q t t1 p t2)
  obtain s1 where s1: "feed Top mem s 0 (91 # code q @ 93 # code p) = feed Top mem s1 0 (code p)" "ready s1 t1"
    using top_While [OF exec_While.prems(1) _ _ _ exec_While.hyps(1) exec_While.prems(5)] exec_While.prems by auto
  have "length (t_cells t1) = length (t_cells t)" by (rule loop_length [OF exec_While.hyps(1)])
  then obtain s' where "feed Top mem s1 0 (code p) = Some s'" "ready s' t2"
    using exec_While.IH(2) [OF s1(2)] exec_While.prems by auto
  then show ?case using s1(1) by auto
qed simp_all

text \<open>
  C4. Feeding the interpreter the characters of a program one by one computes what the program means:
  for every program with loops nested at most 49 deep, whose outermost loops fit into the
  buffer of \<open>maxlength\<close> bytes, and every input for which the program ends without leaving the cells, the
  interpreter ends as well, with the same cells, the same position, the same output and the same rest of the input,
  and it is outside of all loops again.
\<close>

theorem interpret_all_correct:
  assumes "exec p \<lparr>t_cells = replicate 10000 0, t_ptr = 0, t_in = input, t_out = []\<rparr> t"
    "ok_prog p" "nest p < 50" "fits 10000 p" "\<forall>n. length (mem n) = n"
  shows "\<exists>s. interpret_all mem (init_bf input) (code p) = Some s \<and> bf_start s = t_cells t \<and> bf_ptr s = int (t_ptr t) \<and>
    bf_out s = t_out t \<and> bf_in s = t_in t \<and> loopdepth s = 0 \<and> bf_buffer s = None \<and> \<not> jumpover s"
proof -
  let ?t = "\<lparr>t_cells = replicate 10000 0, t_ptr = 0, t_in = input, t_out = []\<rparr> :: tape"
  have "ready (init_bf input) ?t" by (simp add: ready_def base_def core_def init_bf_def nth_replicate)
  then obtain s where s: "feed Top mem (init_bf input) 0 (code p) = Some s" "ready s t"
    using top_exec(1) [OF assms(1) _ assms(2,3) _ assms(5)] assms(4) by auto
  then have "interpret_all mem (init_bf input) (code p) = Some s" by (simp add: feed_interpret)
  with s(2) show ?thesis by (auto simp: ready_def base_def core_def)
qed

text \<open>The program \<open>,[[.-]]\<close> with the input 2 prints 2 and 1.\<close>

lemma exec_countdown:
  assumes "cs \<noteq> []"
  shows "exec [Op 44, While [While [Op 46, Op 45]]] \<lparr>t_cells = cs, t_ptr = 0, t_in = [2], t_out = []\<rparr>
    \<lparr>t_cells = cs[0 := 0], t_ptr = 0, t_in = [], t_out = [2, 1]\<rparr>"
proof -
  let ?t = "\<lambda>c xs. \<lparr>t_cells = cs[0 := c], t_ptr = 0, t_in = [], t_out = xs\<rparr> :: tape"
  have c: "t_cell (?t c xs) = c" for c xs using assms by (simp add: t_cell_def)
  have "step_op 46 (?t c xs) = Some (?t c (xs @ [c]))" "step_op 45 (?t c xs) = Some (?t (c - 1) xs)" for c xs
    using c [of c] by (simp_all add: step_op_def t_cell_def)
  then have rnd: "exec [Op 46, Op 45] (?t c xs) (?t (c - 1) (xs @ [c]))" for c xs
    by (blast intro: exec_Op exec_Nil)
  have e: "loop q (?t 0 xs) (?t 0 xs)" for q xs by (rule loop_end) (rule c)
  have "loop [Op 46, Op 45] (?t 2 []) (?t 0 [2, 1])"
    by (rule loop_round [OF _ rnd loop_round [OF _ rnd]]) (use e in \<open>simp_all add: c\<close>)
  from exec_While [OF this exec_Nil] have "loop [While [Op 46, Op 45]] (?t 2 []) (?t 0 [2, 1])"
    by (rule loop_round [OF _ _ e, rotated]) (simp add: c)
  from exec_While [OF this exec_Nil] show ?thesis
    by (rule exec_Op [rotated]) (use assms in \<open>simp add: step_op_def\<close>)
qed

theorem interpret_all_correct_witness:
  "\<exists>s. interpret_all (\<lambda>n. replicate n 7) (init_bf [2]) (code [Op 44, While [While [Op 46, Op 45]]]) = Some s \<and>
    bf_start s = (replicate 10000 0)[0 := 0] \<and> bf_ptr s = 0 \<and> bf_out s = [2, 1] \<and> bf_in s = [] \<and>
    loopdepth s = 0 \<and> bf_buffer s = None \<and> \<not> jumpover s"
proof -
  have ne: "replicate 10000 (0 :: u8) \<noteq> []" by simp
  show ?thesis
    using interpret_all_correct [OF exec_countdown [OF ne], of "\<lambda>n. replicate n 7"] by simp
qed

end
