(* ===== verification/FileData.thy ===== *)
theory FileData
  imports ReadWrite
begin

text \<open>
  The contents of a file as a function from positions to bytes, and \<open>fs_read\<close> and \<open>fs_write\<close> of theory
  \<open>ReadWrite\<close> on it: for a file whose blocks are allocated, over all three levels of indirection.
\<close>

section \<open>The blocks of a file\<close>

text \<open>Entry \<open>i\<close> of the block \<open>b\<close> of addresses, and the way to block \<open>k\<close> of a file: the blocks of addresses on it, and the block.\<close>

definition addr_at :: "sectors \<Rightarrow> u32 \<Rightarrow> nat \<Rightarrow> u32" where
  "addr_at d b i = dec_addrs 128 (d b) ! i"

definition blk_path :: "sectors \<Rightarrow> m_inode \<Rightarrow> nat \<Rightarrow> u32 list \<times> u32" where
  "blk_path d inode k =
     (if k < 30 then ([], i_direct inode ! k)
      else if k < 158 then ([i_single inode], addr_at d (i_single inode) (k - 30))
      else let sip = addr_at d (i_double inode) ((k - 158) div 128)
           in ([i_double inode, sip], addr_at d sip ((k - 158) mod 128)))"

abbreviation metas :: "sectors \<Rightarrow> m_inode \<Rightarrow> nat \<Rightarrow> u32 list" where
  "metas d inode k \<equiv> fst (blk_path d inode k)"

abbreviation data_at :: "sectors \<Rightarrow> m_inode \<Rightarrow> nat \<Rightarrow> u32" where
  "data_at d inode k \<equiv> snd (blk_path d inode k)"

text \<open>A block that exists and is on the disk.\<close>

definition real_block :: "fs_state \<Rightarrow> u32 \<Rightarrow> bool" where
  "real_block s b \<longleftrightarrow> b \<noteq> 0 \<and> unat b < unat (get_hdsize (fs_hd s)) \<and> length (fs_disk s b) = 512"

lemma real_blockD:
  assumes "real_block s b"
  shows "b \<noteq> 0" "unat b \<le> unat (get_hdsize (fs_hd s))" "length (fs_disk s b) = 512" "b \<noteq> NOT_FOUND"
proof -
  have "unat b < unat (get_hdsize (fs_hd s))" using assms by (simp add: real_block_def)
  moreover have "unat (get_hdsize (fs_hd s)) \<le> unat NOT_FOUND"
    unfolding NOT_FOUND_def by (simp flip: word_le_nat_alt)
  ultimately show "b \<noteq> NOT_FOUND" by auto
qed (use assms in \<open>simp_all add: real_block_def\<close>)

text \<open>The step from \<open>s\<close> to \<open>s'\<close> changes the block of the inode only.\<close>

definition inode_step :: "m_inode \<Rightarrow> fs_state \<Rightarrow> fs_state \<Rightarrow> bool" where
  "inode_step inode s s' \<longleftrightarrow> fs_hd s' = fs_hd s \<and> fs_time s' = fs_time s \<and>
     (\<forall>b. b \<noteq> i_adr inode \<longrightarrow> fs_disk s' b = fs_disk s b)"

definition inode_ok :: "fs_state \<Rightarrow> m_inode \<Rightarrow> bool" where
  "inode_ok s inode \<longleftrightarrow> length (i_direct inode) = 30 \<and> unat (i_adr inode) \<le> unat (get_hdsize (fs_hd s))"

lemma write_inode_step: "inode_ok s inode \<Longrightarrow> \<exists>s'. write_inode s inode = Some s' \<and> inode_step inode s s'"
  by (simp add: inode_ok_def write_inode_eq inode_step_def)

lemma rd_addrs_eq:
  "real_block s b \<Longrightarrow> rd_addrs s b = Some (s\<lparr>read_cache := \<lparr>bc_nr = b, bc_data = fs_disk s b\<rparr>, addr_cache := dec_addrs 128 (fs_disk s b)\<rparr>)"
  by (simp add: rd_addrs_def rd_block_eq real_blockD)

lemma cached_pointer_eq:
  "i < 128 \<Longrightarrow> addr_cache s = dec_addrs 128 (fs_disk s0 b) \<Longrightarrow> addr_at (fs_disk s0) b i \<noteq> 0 \<Longrightarrow>
   get_cached_pointer s i home start allow = Some (s, Some (addr_at (fs_disk s0) b i))"
  by (simp add: get_cached_pointer_def addr_at_def)

lemma pointer_eq: "ptr \<noteq> 0 \<Longrightarrow> get_pointer s ptr start allow = Some (s, Some ptr)"
  by (simp add: get_pointer_def)

lemma div_minus: "(x - n * 512) div 512 = x div 512 - n" for x :: nat
proof (cases "n * 512 \<le> x")
  case True
  then obtain y where "x = n * 512 + y" using le_Suc_ex by blast
  then show ?thesis by simp
next
  case False
  then have "x div 512 < n" by (simp add: less_mult_imp_div_less)
  with False show ?thesis by simp
qed

lemma get_data_block_mapped:
  assumes io: "inode_ok s inode" and p: "blk_path (fs_disk s) inode (unat pos div 512) = (ms, b)" and r: "real_block s b"
    and m: "\<forall>x \<in> set ms. real_block s x" and pos: "unat pos < 8469504"
  shows "\<exists>s'. get_data_block s inode pos allow = Some (s', inode, b) \<and> inode_step inode s s'"
proof -
  let ?k = "unat pos div 512"
  have c: "unat BYTES_DIRECT = 15360" "unat (BYTES_DIRECT + BYTES_SINGLE_INDIRECT) = 80896"
    "unat (BYTES_DIRECT + BYTES_SINGLE_INDIRECT + BYTES_DOUBLE_INDIRECT) = 8469504"
    by (simp_all add: BYTES_DIRECT_def BYTES_SINGLE_INDIRECT_def BYTES_DOUBLE_INDIRECT_def)
  have b0: "b \<noteq> 0" using real_blockD [OF r] by simp
  consider "?k < 30" | "30 \<le> ?k" "?k < 158" | "158 \<le> ?k" by linarith
  then show ?thesis
  proof cases
    case 1
    have lt: "pos < BYTES_DIRECT" using 1 c by (simp add: word_less_nat_alt)
    have b: "b = i_direct inode ! ?k" using p 1 by (simp add: blk_path_def)
    have k: "unat (pos div 512) = ?k" by (simp add: unat_div)
    have len: "?k < length (i_direct inode)" using io 1 by (simp add: inode_ok_def)
    obtain s' where "write_inode s inode = Some s'" "inode_step inode s s'" using write_inode_step [OF io] by blast
    moreover have "inode\<lparr>i_direct := (i_direct inode)[?k := b]\<rparr> = inode" using b by simp
    ultimately show ?thesis using lt len b0 b by (simp add: get_data_block_def k pointer_eq)
  next
    case 2
    have lt: "\<not> pos < BYTES_DIRECT" "pos < BYTES_DIRECT + BYTES_SINGLE_INDIRECT" using 2 c by (simp_all add: word_less_nat_alt)
    have b: "ms = [i_single inode]" "b = addr_at (fs_disk s) (i_single inode) (?k - 30)" using p 2 by (simp_all add: blk_path_def)
    have sip: "real_block s (i_single inode)" using m b by simp
    have k: "unat ((pos - BYTES_DIRECT) div 512) = ?k - 30"
    proof -
      have "unat (pos - BYTES_DIRECT) = unat pos - 30 * 512" using lt(1) c by (simp add: unat_sub word_le_nat_alt word_less_nat_alt)
      then show ?thesis by (simp only: unat_div div_minus) (simp add: div_minus)
    qed
    let ?s1 = "s\<lparr>read_cache := \<lparr>bc_nr = i_single inode, bc_data = fs_disk s (i_single inode)\<rparr>, addr_cache := dec_addrs 128 (fs_disk s (i_single inode))\<rparr>"
    have "inode_ok ?s1 inode" using io by (simp add: inode_ok_def)
    then obtain s' where s': "write_inode ?s1 inode = Some s'" "inode_step inode ?s1 s'" using write_inode_step by blast
    then have "inode_step inode s s'" by (simp add: inode_step_def)
    moreover have "get_cached_pointer ?s1 (?k - 30) (i_single inode) (i_single inode) allow = Some (?s1, Some b)"
      unfolding b(2) by (rule cached_pointer_eq) (use 2 b0 b in simp_all)
    moreover have "inode\<lparr>i_single := i_single inode\<rparr> = inode" by simp
    ultimately show ?thesis using lt s'(1) real_blockD(1) [OF sip]
      by (simp add: get_data_block_def k pointer_eq rd_addrs_eq [OF sip] del: m_inode.simps)
  next
    case 3
    have lt: "\<not> pos < BYTES_DIRECT" "\<not> pos < BYTES_DIRECT + BYTES_SINGLE_INDIRECT"
      "pos < BYTES_DIRECT + BYTES_SINGLE_INDIRECT + BYTES_DOUBLE_INDIRECT" using 3 pos c by (simp_all add: word_less_nat_alt)
    let ?i = "?k - 158" and ?dip = "i_double inode"
    define sip where "sip = addr_at (fs_disk s) ?dip (?i div 128)"
    have b: "ms = [?dip, sip]" "b = addr_at (fs_disk s) sip (?i mod 128)" using p 3 by (simp_all add: blk_path_def sip_def Let_def)
    have rd: "real_block s ?dip" "real_block s sip" using m b by simp_all
    have "BYTES_DIRECT + BYTES_SINGLE_INDIRECT \<le> pos" using lt(2) by simp
    then have "unat (pos - (BYTES_DIRECT + BYTES_SINGLE_INDIRECT)) = unat pos - unat (BYTES_DIRECT + BYTES_SINGLE_INDIRECT)"
      by (rule unat_sub)
    then have "unat (pos - BYTES_DIRECT - BYTES_SINGLE_INDIRECT) = unat pos - 158 * 512"
      by (simp only: diff_diff_eq c(2))
    then have k0: "unat ((pos - BYTES_DIRECT - BYTES_SINGLE_INDIRECT) div 512) = ?i" using div_minus [of "unat pos" 158] by (simp add: unat_div)
    then have k: "unat ((pos - BYTES_DIRECT - BYTES_SINGLE_INDIRECT) div 512 div 128) = ?i div 128"
      "unat ((pos - BYTES_DIRECT - BYTES_SINGLE_INDIRECT) div 512 mod 128) = ?i mod 128" by (simp_all only: unat_div unat_mod) simp_all
    have i: "?i div 128 < 128" using pos by (simp add: less_mult_imp_div_less div_minus)
    let ?s1 = "s\<lparr>read_cache := \<lparr>bc_nr = ?dip, bc_data = fs_disk s ?dip\<rparr>, addr_cache := dec_addrs 128 (fs_disk s ?dip)\<rparr>"
    let ?s2 = "s\<lparr>read_cache := \<lparr>bc_nr = sip, bc_data = fs_disk s sip\<rparr>, addr_cache := dec_addrs 128 (fs_disk s sip)\<rparr>"
    have c1: "get_cached_pointer ?s1 (?i div 128) ?dip ?dip allow = Some (?s1, Some sip)"
      unfolding sip_def by (rule cached_pointer_eq) (use i real_blockD(1) [OF rd(2)] in \<open>simp_all add: sip_def\<close>)
    have "real_block ?s1 sip" using rd(2) by (simp add: real_block_def)
    then have r2: "rd_addrs ?s1 sip = Some ?s2" by (simp add: rd_addrs_eq)
    have c2: "get_cached_pointer ?s2 (?i mod 128) sip ?dip allow = Some (?s2, Some b)"
      unfolding b(2) by (rule cached_pointer_eq) (use b0 b in simp_all)
    have "inode_ok ?s2 inode" using io by (simp add: inode_ok_def)
    then obtain s' where s': "write_inode ?s2 inode = Some s'" "inode_step inode ?s2 s'" using write_inode_step by blast
    then have "inode_step inode s s'" by (simp add: inode_step_def)
    moreover have "inode\<lparr>i_double := ?dip\<rparr> = inode" by simp
    ultimately show ?thesis using lt s'(1) real_blockD(1) [OF rd(1)] c1 c2 r2
      by (simp add: get_data_block_def Let_def k pointer_eq rd_addrs_eq [OF rd(1)] del: m_inode.simps diff_diff_eq diff_add_eq_diff_diff_swap)
  qed
qed

section \<open>The contents of a file\<close>

text \<open>
  The first \<open>n\<close> bytes of a file are mapped: every block of them is on the disk, no two positions share a block, and
  neither the blocks of addresses nor the block of the inode hold data.
\<close>

definition file_ok :: "fs_state \<Rightarrow> m_inode \<Rightarrow> nat \<Rightarrow> bool" where
  "file_ok s inode n \<longleftrightarrow> inode_ok s inode \<and> n \<le> 8469504 \<and>
     (\<forall>k. k * 512 < n \<longrightarrow> real_block s (data_at (fs_disk s) inode k) \<and> data_at (fs_disk s) inode k \<noteq> i_adr inode \<and>
        (\<forall>x \<in> set (metas (fs_disk s) inode k). real_block s x \<and> x \<noteq> i_adr inode) \<and>
        (\<forall>l. l * 512 < n \<longrightarrow> data_at (fs_disk s) inode k \<notin> set (metas (fs_disk s) inode l) \<and>
          (data_at (fs_disk s) inode k = data_at (fs_disk s) inode l \<longrightarrow> k = l)))"

definition file_byte :: "fs_state \<Rightarrow> m_inode \<Rightarrow> nat \<Rightarrow> u8" where
  "file_byte s inode p = fs_disk s (data_at (fs_disk s) inode (p div 512)) ! (p mod 512)"

definition same_ptrs :: "m_inode \<Rightarrow> m_inode \<Rightarrow> bool" where
  "same_ptrs inode inode' \<longleftrightarrow> i_adr inode' = i_adr inode \<and> i_direct inode' = i_direct inode \<and>
     i_single inode' = i_single inode \<and> i_double inode' = i_double inode"

lemma blk_path_cong:
  "same_ptrs inode inode' \<Longrightarrow> \<forall>x \<in> set (metas d inode k). d' x = d x \<Longrightarrow> blk_path d' inode' k = blk_path d inode k"
  by (auto simp: blk_path_def same_ptrs_def addr_at_def Let_def split: if_splits)

text \<open>What a step leaves behind that changes the block \<open>B\<close> of the file and the block of the inode only.\<close>

lemma file_step:
  assumes ok: "file_ok s inode n" and K: "K * 512 < n" and B: "B = data_at (fs_disk s) inode K" and pt: "same_ptrs inode inode'"
    and hd: "fs_hd s' = fs_hd s" and d: "\<And>b. b \<noteq> i_adr inode \<Longrightarrow> b \<noteq> B \<Longrightarrow> fs_disk s' b = fs_disk s b"
    and len: "length (fs_disk s' B) = 512"
  shows "file_ok s' inode' n \<and> (\<forall>k. k * 512 < n \<longrightarrow> blk_path (fs_disk s') inode' k = blk_path (fs_disk s) inode k)"
proof -
  have path: "blk_path (fs_disk s') inode' k = blk_path (fs_disk s) inode k" if "k * 512 < n" for k
  proof (rule blk_path_cong [OF pt], rule ballI)
    fix x assume "x \<in> set (metas (fs_disk s) inode k)"
    moreover have "x \<noteq> i_adr inode" "B \<notin> set (metas (fs_disk s) inode k)" using ok that K calculation by (simp_all add: file_ok_def B)
    ultimately show "fs_disk s' x = fs_disk s x" using d by auto
  qed
  have rb: "real_block s b \<Longrightarrow> b \<noteq> i_adr inode \<Longrightarrow> real_block s' b" for b
    using d [of b] hd len by (cases "b = B") (simp_all add: real_block_def)
  have "inode_ok s' inode'" using ok pt hd by (simp add: file_ok_def inode_ok_def same_ptrs_def)
  moreover have "i_adr inode' = i_adr inode" using pt by (simp add: same_ptrs_def)
  ultimately have "file_ok s' inode' n" using ok path rb by (simp add: file_ok_def)
  with path show ?thesis by simp
qed

definition wrote :: "fs_state \<Rightarrow> m_inode \<Rightarrow> fs_state \<Rightarrow> m_inode \<Rightarrow> nat \<Rightarrow> nat \<Rightarrow> bytes \<Rightarrow> bool" where
  "wrote s inode s' inode' n lo xs \<longleftrightarrow> file_ok s' inode' n \<and> same_ptrs inode inode' \<and> fs_hd s' = fs_hd s \<and>
     (\<forall>p < n. file_byte s' inode' p = (if lo \<le> p \<and> p < lo + length xs then xs ! (p - lo) else file_byte s inode p))"

lemma wrote_trans:
  "wrote s0 i0 s1 i1 n lo xs \<Longrightarrow> wrote s1 i1 s2 i2 n (lo + length xs) ys \<Longrightarrow> wrote s0 i0 s2 i2 n lo (xs @ ys)"
  by (auto simp: wrote_def same_ptrs_def nth_append)

lemma wrote_nothing:
  assumes ok: "file_ok s inode n" and st: "inode_step inode s s'" and pt: "same_ptrs inode inode'" and n: "0 < n"
  shows "wrote s inode s' inode' n lo []"
proof -
  have 0: "0 * 512 < n" using n by simp
  have "real_block s (data_at (fs_disk s) inode 0)" "data_at (fs_disk s) inode 0 \<noteq> i_adr inode" using ok n by (simp_all add: file_ok_def)
  then have "length (fs_disk s' (data_at (fs_disk s) inode 0)) = 512" using st by (simp add: inode_step_def real_block_def)
  from file_step [OF ok 0 refl pt _ _ this]
  have f: "file_ok s' inode' n" "\<And>k. k * 512 < n \<Longrightarrow> blk_path (fs_disk s') inode' k = blk_path (fs_disk s) inode k"
    using st by (simp_all add: inode_step_def)
  have "file_byte s' inode' p = file_byte s inode p" if "p < n" for p
  proof -
    have p: "p div 512 * 512 < n" using that by (simp add: order.strict_trans1 [OF div_times_less_eq_dividend])
    then have "data_at (fs_disk s) inode (p div 512) \<noteq> i_adr inode" using ok by (simp add: file_ok_def)
    with f(2) [OF p] st show ?thesis by (simp add: file_byte_def inode_step_def)
  qed
  with f(1) pt st show ?thesis by (auto simp: wrote_def inode_step_def)
qed

lemma put_cache_eq:
  assumes r: "real_block s B" and o: "unat off + unat num \<le> 512" "unat num \<le> length buf"
  shows "\<exists>s'. put_cache s B off buf num = Some s' \<and> fs_hd s' = fs_hd s \<and> fs_time s' = fs_time s \<and>
    fs_disk s' = (fs_disk s)(B := blit (unat off) (take (unat num) buf) (fs_disk s B))"
proof -
  have "length (blit (unat off) (take (unat num) buf) (fs_disk s B)) = 512" using o real_blockD(3) [OF r] by simp
  then show ?thesis
    using o real_blockD [OF r] by (simp add: put_cache_def cache_block_eq wrt_cache_def wrt_block_eq BLOCK_SIZE_def sub_bytes_def)
qed

lemma wrote_chunk:
  assumes ok: "file_ok s inode n" and K: "K * 512 < n" and B: "B = data_at (fs_disk s) inode K" and o: "off + length xs \<le> 512"
    and hd: "fs_hd s' = fs_hd s" and d: "fs_disk s' = (fs_disk s)(B := blit off xs (fs_disk s B))"
  shows "wrote s inode s' inode n (K * 512 + off) xs"
proof -
  have r: "real_block s B" using ok K B by (simp add: file_ok_def)
  have pt: "same_ptrs inode inode" by (simp add: same_ptrs_def)
  have "length (fs_disk s' B) = 512" using d o real_blockD(3) [OF r] by simp
  from file_step [OF ok K B pt hd _ this] d
  have f: "file_ok s' inode n" "\<And>k. k * 512 < n \<Longrightarrow> blk_path (fs_disk s') inode k = blk_path (fs_disk s) inode k" by simp_all
  have "file_byte s' inode p = (if K * 512 + off \<le> p \<and> p < K * 512 + off + length xs then xs ! (p - (K * 512 + off)) else file_byte s inode p)"
    if "p < n" for p
  proof -
    have p: "p div 512 * 512 < n" using that by (simp add: order.strict_trans1 [OF div_times_less_eq_dividend])
    have eq: "p = p div 512 * 512 + p mod 512" by simp
    show ?thesis
    proof (cases "p div 512 = K")
      case True
      then have m: "p = K * 512 + p mod 512" using eq by simp
      have "file_byte s' inode p = blit off xs (fs_disk s B) ! (p mod 512)"
        using f(2) [OF p] True by (simp add: file_byte_def d flip: B)
      also have "\<dots> = (if off \<le> p mod 512 \<and> p mod 512 < off + length xs then xs ! (p mod 512 - off) else fs_disk s B ! (p mod 512))"
        by (rule nth_blit) (use o real_blockD(3) [OF r] in simp_all)
      also have "fs_disk s B ! (p mod 512) = file_byte s inode p" using True B by (simp add: file_byte_def)
      moreover have "p - (K * 512 + off) = p mod 512 - off" "(K * 512 + off \<le> p) = (off \<le> p mod 512)"
        "(p < K * 512 + off + length xs) = (p mod 512 < off + length xs)" using m by linarith+
      ultimately show ?thesis by simp
    next
      case False
      then have "data_at (fs_disk s) inode (p div 512) \<noteq> B" using ok K p B by (metis file_ok_def)
      then have "file_byte s' inode p = file_byte s inode p" using f(2) [OF p] by (simp add: file_byte_def d)
      moreover have "\<not> (K * 512 + off \<le> p \<and> p < K * 512 + off + length xs)"
      proof
        assume "K * 512 + off \<le> p \<and> p < K * 512 + off + length xs"
        then have "K * 512 \<le> p" "p < (K + 1) * 512" using o by simp_all
        then have "p div 512 = K" by (simp add: div_nat_eqI)
        with False show False by simp
      qed
      ultimately show ?thesis by (simp only: if_False)
    qed
  qed
  with f(1) pt hd show ?thesis by (simp add: wrote_def)
qed

section \<open>Writing\<close>

lemma wrote_ok: "wrote s inode s' inode' n lo xs \<Longrightarrow> file_ok s' inode' n"
  by (simp add: wrote_def)

lemma inode_step_ok: "file_ok s inode n \<Longrightarrow> 0 < n \<Longrightarrow> inode_step inode s s' \<Longrightarrow> same_ptrs inode inode' \<Longrightarrow> file_ok s' inode' n"
  using wrote_nothing wrote_ok by blast

lemma get_data_block_ok:
  assumes ok: "file_ok s inode n" and p: "unat pos < n"
  shows "\<exists>s'. get_data_block s inode pos allow = Some (s', inode, data_at (fs_disk s) inode (unat pos div 512)) \<and>
    inode_step inode s s' \<and> file_ok s' inode n \<and> data_at (fs_disk s') inode (unat pos div 512) = data_at (fs_disk s) inode (unat pos div 512) \<and>
    data_at (fs_disk s) inode (unat pos div 512) \<noteq> NOT_FOUND \<and> real_block s' (data_at (fs_disk s) inode (unat pos div 512)) \<and>
    data_at (fs_disk s) inode (unat pos div 512) \<noteq> i_adr inode"
proof -
  let ?k = "unat pos div 512"
  obtain ms b where mb: "blk_path (fs_disk s) inode ?k = (ms, b)" by (cases "blk_path (fs_disk s) inode ?k")
  have k: "?k * 512 < n" using p by (simp add: order.strict_trans1 [OF div_times_less_eq_dividend])
  have r: "real_block s b" "\<forall>x \<in> set ms. real_block s x \<and> x \<noteq> i_adr inode" "b \<noteq> i_adr inode" "inode_ok s inode" "unat pos < 8469504"
    using ok k mb p by (auto simp: file_ok_def)
  obtain s' where s': "get_data_block s inode pos allow = Some (s', inode, b)" "inode_step inode s s'"
    using get_data_block_mapped [OF r(4) mb r(1) _ r(5)] r(2) by blast
  have pt: "same_ptrs inode inode" by (simp add: same_ptrs_def)
  have "blk_path (fs_disk s') inode ?k = blk_path (fs_disk s) inode ?k"
    by (rule blk_path_cong [OF pt]) (use r(2) mb s'(2) in \<open>simp add: inode_step_def\<close>)
  moreover have "real_block s' b" using r(1,3) s'(2) by (simp add: real_block_def inode_step_def)
  moreover have "file_ok s' inode n" by (rule inode_step_ok [OF ok _ s'(2) pt]) (use p in simp)
  ultimately show ?thesis using s' mb r(3) real_blockD(4) [OF r(1)] by auto
qed

text \<open>One block of a write.\<close>

lemma put_chunk:
  assumes ok: "file_ok s inode n" and p: "unat pos < n" and o: "unat pos mod 512 + unat num \<le> 512" "unat num \<le> length buf"
  obtains s1 b s2 where "get_data_block s inode pos allow = Some (s1, inode, b)" "b \<noteq> NOT_FOUND"
    "put_cache s1 b (pos mod 512) buf num = Some s2" "wrote s inode s2 inode n (unat pos) (take (unat num) buf)"
proof -
  let ?k = "unat pos div 512" let ?b = "data_at (fs_disk s) inode ?k"
  obtain s1 where s1: "get_data_block s inode pos allow = Some (s1, inode, ?b)" "inode_step inode s s1" "file_ok s1 inode n"
    "data_at (fs_disk s1) inode ?k = ?b" "?b \<noteq> NOT_FOUND" "real_block s1 ?b" using get_data_block_ok [OF ok p, of allow] by blast
  have m: "unat (pos mod 512) = unat pos mod 512" by (simp add: unat_mod)
  obtain s2 where s2: "put_cache s1 ?b (pos mod 512) buf num = Some s2" "fs_hd s2 = fs_hd s1"
    "fs_disk s2 = (fs_disk s1)(?b := blit (unat pos mod 512) (take (unat num) buf) (fs_disk s1 ?b))"
    using put_cache_eq [OF s1(6), of "pos mod 512" num buf] o unfolding m by blast
  have k: "?k * 512 < n" using p by (simp add: order.strict_trans1 [OF div_times_less_eq_dividend])
  have pt: "same_ptrs inode inode" by (simp add: same_ptrs_def)
  have "wrote s inode s1 inode n (unat pos) []" by (rule wrote_nothing [OF ok s1(2) pt]) (use p in simp)
  moreover have "wrote s1 inode s2 inode n (?k * 512 + unat pos mod 512) (take (unat num) buf)"
    by (rule wrote_chunk [OF s1(3) k s1(4) [symmetric] _ s2(2,3)]) (use o in simp)
  then have "wrote s1 inode s2 inode n (unat pos + length ([] :: bytes)) (take (unat num) buf)" by simp
  ultimately have "wrote s inode s2 inode n (unat pos) ([] @ take (unat num) buf)" by (rule wrote_trans)
  then show ?thesis using that s1(1,5) s2(1) by simp
qed

lemma edge_arith:
  fixes pos num :: u32
  assumes "unat pos + unat num \<le> 8469504"
  shows "(pos mod 512 + num \<le> 512) = (unat pos mod 512 + unat num \<le> 512)" "unat (512 - pos mod 512) = 512 - unat pos mod 512"
    "unat pos mod 512 + unat num > 512 \<Longrightarrow> unat (num - (512 - pos mod 512)) = unat num - (512 - unat pos mod 512)"
    "unat pos mod 512 + unat num > 512 \<Longrightarrow> unat (pos + (512 - pos mod 512)) = unat pos + (512 - unat pos mod 512)"
    "unat (pos + num) = unat pos + unat num"
proof -
  have m: "unat (pos mod 512) = unat pos mod 512" by (simp add: unat_mod)
  have l: "unat pos mod 512 < 512" "unat pos mod 512 \<le> unat pos" by simp_all
  have "unat (pos mod 512 + num) = unat pos mod 512 + unat num"
    by (subst unat_add_lem [THEN iffD1]) (use assms l in \<open>simp_all add: m\<close>)
  then show "(pos mod 512 + num \<le> 512) = (unat pos mod 512 + unat num \<le> 512)" by (simp add: word_le_nat_alt)
  show e: "unat (512 - pos mod 512) = 512 - unat pos mod 512"
    by (subst unat_sub) (use l in \<open>simp_all add: m word_le_nat_alt\<close>)
  show "unat (num - (512 - pos mod 512)) = unat num - (512 - unat pos mod 512)" if "unat pos mod 512 + unat num > 512"
    by (subst unat_sub) (use that e in \<open>simp_all add: word_le_nat_alt\<close>)
  show "unat (pos + (512 - pos mod 512)) = unat pos + (512 - unat pos mod 512)" if "unat pos mod 512 + unat num > 512"
    by (subst unat_add_lem [THEN iffD1]) (use assms in \<open>simp_all add: e\<close>)
  show "unat (pos + num) = unat pos + unat num"
    by (rule unat_add_lem [THEN iffD1]) (use assms in simp)
qed

lemma fs_write_wrote:
  "file_ok s inode n \<Longrightarrow> unat pos + unat num \<le> n \<Longrightarrow> unat num \<le> length buf \<Longrightarrow> 0 < unat num \<Longrightarrow>
   allow \<or> unat pos + unat num \<le> unat (i_size inode) \<Longrightarrow>
   \<exists>s' inode'. fs_write s inode buf num pos allow = Some (s', inode', num) \<and> wrote s inode s' inode' n (unat pos) (take (unat num) buf) \<and>
     unat (i_size inode') = max (unat (i_size inode)) (unat pos + unat num)"
proof (induction s inode buf num pos allow rule: fs_write.induct)
  case (1 s inode buf num pos allow)
  have n: "n \<le> 8469504" using "1.prems"(1) by (simp add: file_ok_def)
  have le: "unat pos + unat num \<le> 8469504" using "1.prems"(2) n by simp
  have p: "unat pos < n" using "1.prems"(2,4) by simp
  have go: "\<not> (pos > i_size inode \<and> \<not> allow \<or> num = 0)" using "1.prems"(4,5) by (auto simp: word_less_nat_alt)
  show ?case
  proof (cases "pos mod 512 + num \<le> 512")
    case True
    then have o: "unat pos mod 512 + unat num \<le> 512" using edge_arith(1) [OF le] by simp
    obtain s1 b s2 where s2: "get_data_block s inode pos allow = Some (s1, inode, b)" "b \<noteq> NOT_FOUND"
      "put_cache s1 b (pos mod 512) buf num = Some s2" "wrote s inode s2 inode n (unat pos) (take (unat num) buf)"
      by (rule put_chunk [OF "1.prems"(1) p o "1.prems"(3)])
    define inode' where "inode' = (if i_size inode < pos + num then inode\<lparr>i_size := pos + num\<rparr> else inode)\<lparr>i_modify_ts := fs_time s2\<rparr>"
    have pt: "same_ptrs inode inode'" by (simp add: inode'_def same_ptrs_def)
    have sz: "unat (i_size inode') = max (unat (i_size inode)) (unat pos + unat num)"
      using edge_arith(5) [OF le] by (auto simp: inode'_def word_less_nat_alt)
    have ok2: "file_ok s2 inode n" using s2(4) by (rule wrote_ok)
    then have "inode_ok s2 inode'" using pt by (simp add: file_ok_def inode_ok_def same_ptrs_def)
    then obtain s3 where s3: "write_inode s2 inode' = Some s3" "inode_step inode' s2 s3" using write_inode_step by blast
    have "inode_step inode s2 s3" using s3(2) pt by (simp add: inode_step_def same_ptrs_def)
    then have "wrote s2 inode s3 inode' n (unat pos + length (take (unat num) buf)) []"
      by (rule wrote_nothing [OF ok2 _ pt]) (use p in simp)
    from wrote_trans [OF s2(4) this] have w: "wrote s inode s3 inode' n (unat pos) (take (unat num) buf)" by simp
    have small: "(ucast (ucast num :: u16) :: u32) = num"
      by (rule word_unat_eq_iff [THEN iffD2], simp only: unat_ucast_up, rule unat_ucast_u16) (use o in simp)
    have "fs_write s inode buf num pos allow = Some (s3, inode', num)"
      using go s2(1,2,3) True s3(1) by (subst fs_write.simps) (simp add: Let_def small flip: inode'_def)
    with w sz show ?thesis by blast
  next
    case False
    then have o: "unat pos mod 512 + unat num > 512" using edge_arith(1) [OF le] by simp
    let ?w = "512 - pos mod 512" let ?wn = "512 - unat pos mod 512"
    note ar = edge_arith(2) [OF le] edge_arith(3,4) [OF le o]
    have m: "unat pos mod 512 < 512" by simp
    have o1: "unat pos mod 512 + unat ?w \<le> 512" "unat ?w \<le> length buf" using ar(1) m o "1.prems"(3) by linarith+
    obtain s1 b s2 where s2: "get_data_block s inode pos allow = Some (s1, inode, b)" "b \<noteq> NOT_FOUND"
      "put_cache s1 b (pos mod 512) buf ?w = Some s2" "wrote s inode s2 inode n (unat pos) (take (unat ?w) buf)"
      by (rule put_chunk [OF "1.prems"(1) p o1])
    have ok2: "file_ok s2 inode n" using s2(4) by (rule wrote_ok)
    have sum: "unat (pos + ?w) + unat (num - ?w) = unat pos + unat num" using ar o m by linarith
    have "\<exists>s' inode'. fs_write s2 inode (drop (unat ?w) buf) (num - ?w) (pos + ?w) allow = Some (s', inode', num - ?w) \<and>
       wrote s2 inode s' inode' n (unat (pos + ?w)) (take (unat (num - ?w)) (drop (unat ?w) buf)) \<and>
       unat (i_size inode') = max (unat (i_size inode)) (unat (pos + ?w) + unat (num - ?w))"
    proof (rule "1.IH" [OF go s2(1) refl refl s2(2) refl False refl s2(3) ok2])
      show "unat (num - ?w) \<le> length (drop (unat ?w) buf)" using ar o "1.prems"(3) unfolding length_drop by linarith
    qed (use sum "1.prems"(2,5) ar o in simp_all)
    then obtain s3 inode3 where s3: "fs_write s2 inode (drop (unat ?w) buf) (num - ?w) (pos + ?w) allow = Some (s3, inode3, num - ?w)"
       "wrote s2 inode s3 inode3 n (unat (pos + ?w)) (take (unat (num - ?w)) (drop (unat ?w) buf))"
       "unat (i_size inode3) = max (unat (i_size inode)) (unat pos + unat num)" unfolding sum by blast
    have "unat (pos + ?w) = unat pos + length (take (unat ?w) buf)" using ar o1 by simp
    with s3(2) have "wrote s2 inode s3 inode3 n (unat pos + length (take (unat ?w) buf)) (take (unat (num - ?w)) (drop (unat ?w) buf))" by simp
    from wrote_trans [OF s2(4) this]
    have "wrote s inode s3 inode3 n (unat pos) (take (unat ?w + unat (num - ?w)) buf)" by (simp only: take_add)
    moreover have "unat ?w + unat (num - ?w) = unat num" using ar o by linarith
    moreover have "fs_write s inode buf num pos allow = Some (s3, inode3, num)"
      using go s2(1,2,3) False s3(1) by (subst fs_write.simps) (simp add: Let_def)
    ultimately show ?thesis using s3(3) by auto
  qed
qed

section \<open>Reading\<close>

definition file_bytes :: "fs_state \<Rightarrow> m_inode \<Rightarrow> nat \<Rightarrow> nat \<Rightarrow> bytes" where
  "file_bytes s inode p n = map (file_byte s inode) [p..<p + n]"

lemma file_bytes_append: "file_bytes s inode p (m + n) = file_bytes s inode p m @ file_bytes s inode (p + m) n"
  using upt_add_eq_append [of p "p + m" n] by (simp add: file_bytes_def add.assoc)

lemma file_bytes_block:
  assumes "k = p div 512" "p mod 512 + m \<le> 512" "length (fs_disk s (data_at (fs_disk s) inode k)) = 512"
  shows "sub_bytes (p mod 512) m (fs_disk s (data_at (fs_disk s) inode k)) = file_bytes s inode p m"
proof (rule nth_equalityI)
  show "length (sub_bytes (p mod 512) m (fs_disk s (data_at (fs_disk s) inode k))) = length (file_bytes s inode p m)"
    using assms by (simp add: file_bytes_def)
next
  fix i assume "i < length (sub_bytes (p mod 512) m (fs_disk s (data_at (fs_disk s) inode k)))"
  then have i: "i < m" using assms by simp
  have e: "p + i = k * 512 + (p mod 512 + i)" unfolding assms(1) by simp
  have "p mod 512 + i < 512" using i assms(2) by simp
  then have "(p + i) div 512 = k" "(p + i) mod 512 = p mod 512 + i" unfolding e by simp_all
  then show "sub_bytes (p mod 512) m (fs_disk s (data_at (fs_disk s) inode k)) ! i = file_bytes s inode p m ! i"
    using i assms by (simp add: nth_sub_bytes file_bytes_def file_byte_def)
qed

lemma file_bytes_cong: "\<forall>q < n. file_byte s' inode' q = file_byte s inode q \<Longrightarrow> p + m \<le> n \<Longrightarrow> file_bytes s' inode' p m = file_bytes s inode p m"
  by (simp add: file_bytes_def)

lemma fs_read_bytes:
  "file_ok s inode n \<Longrightarrow> unat pos + unat num \<le> n \<Longrightarrow> 0 < unat num \<Longrightarrow> allow \<or> unat pos + unat num \<le> unat (i_size inode) \<Longrightarrow>
   \<exists>s'. fs_read s inode num pos allow = Some (s', inode, file_bytes s inode (unat pos) (unat num), num) \<and> wrote s inode s' inode n 0 []"
proof (induction s inode num pos allow rule: fs_read.induct)
  case (1 s inode num pos allow)
  have n: "n \<le> 8469504" using "1.prems"(1) by (simp add: file_ok_def)
  have le: "unat pos + unat num \<le> 8469504" using "1.prems"(2) n by simp
  have p: "unat pos < n" using "1.prems"(2,3) by simp
  have go: "\<not> (pos > i_size inode \<and> \<not> allow \<or> num = 0)" using "1.prems"(3,4) by (auto simp: word_less_nat_alt)
  let ?b = "data_at (fs_disk s) inode (unat pos div 512)"
  have pt: "same_ptrs inode inode" by (simp add: same_ptrs_def)
  obtain s1 where s1: "get_data_block s inode pos allow = Some (s1, inode, ?b)" "inode_step inode s s1" "file_ok s1 inode n"
    "data_at (fs_disk s1) inode (unat pos div 512) = ?b" "?b \<noteq> NOT_FOUND" "real_block s1 ?b"
    using get_data_block_ok [OF "1.prems"(1) p, of allow] by blast
  define s2 where "s2 = s1\<lparr>read_cache := \<lparr>bc_nr = ?b, bc_data = fs_disk s1 ?b\<rparr>\<rparr>"
  have cb: "cache_block s1 ?b = Some s2" using real_blockD [OF s1(6)] by (simp add: cache_block_eq s2_def)
  have rc: "bc_data (read_cache s2) = fs_disk s1 ?b" "length (fs_disk s1 ?b) = 512" using real_blockD [OF s1(6)] by (simp_all add: s2_def)
  have "inode_step inode s s2" using s1(2) by (simp add: s2_def inode_step_def)
  then have w: "wrote s inode s2 inode n 0 []" by (rule wrote_nothing [OF "1.prems"(1) _ pt]) (use p in simp)
  have same: "file_bytes s1 inode x y = file_bytes s2 inode x y" for x y by (simp add: file_bytes_def file_byte_def s2_def)
  have eq: "file_bytes s2 inode x y = file_bytes s inode x y" if "x + y \<le> n" for x y
    by (rule file_bytes_cong [OF _ that]) (use w in \<open>simp add: wrote_def\<close>)
  have m: "unat (pos mod 512) = unat pos mod 512" by (simp add: unat_mod)
  have run: "rd_run (unat (pos mod 512)) y (bc_data (read_cache s2)) = Some (file_bytes s inode (unat pos) y)"
    if "unat pos mod 512 + y \<le> 512" "unat pos + y \<le> n" for y
    using file_bytes_block [OF refl that(1), of s1 inode] that rc s1(4) same eq [OF that(2)] m by simp
  show ?case
  proof (cases "pos mod 512 + num \<le> 512")
    case True
    then have o: "unat pos mod 512 + unat num \<le> 512" using edge_arith(1) [OF le] by simp
    have small: "(ucast (ucast num :: u16) :: u32) = num"
      by (rule word_unat_eq_iff [THEN iffD2], simp only: unat_ucast_up, rule unat_ucast_u16) (use o in simp)
    have "fs_read s inode num pos allow = Some (s2, inode, file_bytes s inode (unat pos) (unat num), num)"
      using go s1(1,5) cb True run [OF o "1.prems"(2)] by (subst fs_read.simps) (simp add: Let_def small)
    with w show ?thesis by blast
  next
    case False
    then have o: "unat pos mod 512 + unat num > 512" using edge_arith(1) [OF le] by simp
    let ?w = "512 - pos mod 512"
    note ar = edge_arith(2) [OF le] edge_arith(3,4) [OF le o]
    have mm: "unat pos mod 512 < 512" by simp
    have ow: "unat pos mod 512 + unat ?w \<le> 512" "unat pos + unat ?w \<le> n" using ar(1) mm o "1.prems"(2) by linarith+
    have sum: "unat (pos + ?w) + unat (num - ?w) = unat pos + unat num" using ar o mm by linarith
    have "\<exists>s'. fs_read s2 inode (num - ?w) (pos + ?w) allow = Some (s', inode, file_bytes s2 inode (unat (pos + ?w)) (unat (num - ?w)), num - ?w) \<and>
      wrote s2 inode s' inode n 0 []"
      by (rule "1.IH" [OF go s1(1) refl refl s1(5) cb refl False refl])
        (use run [OF ow] wrote_ok [OF w] sum "1.prems"(2,4) ar o in simp_all)
    then obtain s3 where s3: "fs_read s2 inode (num - ?w) (pos + ?w) allow =
      Some (s3, inode, file_bytes s2 inode (unat (pos + ?w)) (unat (num - ?w)), num - ?w)" "wrote s2 inode s3 inode n 0 []" by blast
    have "file_bytes s2 inode (unat (pos + ?w)) (unat (num - ?w)) = file_bytes s inode (unat pos + unat ?w) (unat (num - ?w))"
      using eq [of "unat (pos + ?w)" "unat (num - ?w)"] sum "1.prems"(2) ar by simp
    moreover have "unat ?w + unat (num - ?w) = unat num" using ar o by linarith
    ultimately have "file_bytes s inode (unat pos) (unat ?w) @ file_bytes s2 inode (unat (pos + ?w)) (unat (num - ?w)) =
      file_bytes s inode (unat pos) (unat num)" by (metis file_bytes_append)
    then have "fs_read s inode num pos allow = Some (s3, inode, file_bytes s inode (unat pos) (unat num), num)"
      using go s1(1,5) cb False run [OF ow] s3(1) by (subst fs_read.simps) (simp add: Let_def)
    moreover have "wrote s inode s3 inode n 0 []" using wrote_trans [OF w] s3(2) by simp
    ultimately show ?thesis by blast
  qed
qed

section \<open>Properties\<close>


text \<open>Ten bytes over the border of the two blocks 5 and 6 of a file of 600 bytes.\<close>

definition file_example :: m_inode where
  "file_example = inode_example\<lparr>i_size := 600, i_direct := 5 # 6 # replicate 28 0\<rparr>"

lemma file_example_ok: "file_ok fs_example file_example 1024"
proof -
  have k: "k * 512 < 1024 \<longleftrightarrow> k = 0 \<or> k = 1" for k :: nat by auto
  have f: "i_adr file_example = 2" "i_direct file_example = 5 # 6 # replicate 28 0" by (simp_all add: file_example_def inode_example_def)
  have d: "blk_path d file_example 0 = ([], 5)" "blk_path d file_example 1 = ([], 6)" for d by (simp_all add: blk_path_def f)
  have r: "real_block fs_example 5" "real_block fs_example 6" by (simp_all add: real_block_def fs_example_hd) (simp_all add: fs_example_def)
  have "inode_ok fs_example file_example" by (simp add: inode_ok_def f fs_example_hd)
  then show ?thesis unfolding file_ok_def k using d r f by auto
qed


end
