(* ===== verification/DirData.thy ===== *)
theory DirData
  imports Dir
begin

text \<open>
  A block of a directory (theory \<open>Dir\<close>) as a map from names to blocks: searching, creating and deleting
  entries are lookup, update and removal in this map.
\<close>

section \<open>The names in a block\<close>

definition field_str :: "bytes \<Rightarrow> bytes" where
  "field_str mem = takeWhile (\<lambda>c. c \<noteq> 0) mem"

definition entry_name :: "bytes \<Rightarrow> nat \<Rightarrow> bytes" where
  "entry_name buf i = field_str (sub_bytes (32 * i + 4) 28 buf)"

text \<open>
  Every name ends within its 28 bytes, and no two entries have the same name, apart from the empty one, which
  marks a free entry.
\<close>

definition block_ok :: "bytes \<Rightarrow> bool" where
  "block_ok buf \<longleftrightarrow> length buf = 512 \<and> (\<forall>i < 16. 0 \<in> set (sub_bytes (32 * i + 4) 28 buf)) \<and>
     (\<forall>i < 16. \<forall>j < 16. entry_name buf i = entry_name buf j \<longrightarrow> entry_name buf i \<noteq> [] \<longrightarrow> i = j)"

definition entry_at :: "bytes \<Rightarrow> bytes \<Rightarrow> nat option" where
  "entry_at buf n = first_index (\<lambda>i. entry_name buf i = n) [0..<16]"

definition dir_map :: "bytes \<Rightarrow> bytes \<Rightarrow> u32 option" where
  "dir_map buf n = (if n = [] then None else map_option (entry_inode buf) (entry_at buf n))"

lemma name_eq_field_str: "0 \<in> set mem \<Longrightarrow> 0 \<notin> set n \<Longrightarrow> name_eq mem n = Some (field_str mem = n)"
proof (induction mem n rule: name_eq.induct)
  case (3 c cs d ds)
  then show ?case by (cases "c = d") (auto simp: field_str_def)
qed (auto simp: field_str_def)

lemma field_str_append: "0 \<in> set xs \<Longrightarrow> field_str (xs @ ys) = field_str xs"
  by (simp add: field_str_def)

lemma drop_entry:
  "drop (32 * i + 4) buf = sub_bytes (32 * i + 4) 28 buf @ drop (32 * i + 32) buf"
proof -
  have "drop 28 (drop (32 * i + 4) buf) = drop (32 * i + 32) buf" by (simp add: add.commute)
  then show ?thesis unfolding sub_bytes_def by (metis append_take_drop_id)
qed

lemma entry_is_eq:
  assumes "block_ok buf" "i < 16" "0 \<notin> set n"
  shows "entry_is buf i n = Some (entry_name buf i = n)"
proof -
  have z: "0 \<in> set (sub_bytes (32 * i + 4) 28 buf)" "length buf = 512" using assms by (simp_all add: block_ok_def)
  then have "0 \<in> set (drop (32 * i + 4) buf)" by (simp add: drop_entry)
  from name_eq_field_str [OF this assms(3)] show ?thesis
    unfolding entry_is_def entry_name_def by (simp add: drop_entry field_str_append [OF z(1)])
qed

lemma find_entry_from:
  assumes "block_ok buf" "0 \<notin> set n"
  shows "i + m = 16 \<Longrightarrow> find_entry buf n i m = Some (map_option ((+) i) (first_index (\<lambda>i. entry_name buf i = n) [i..<16]))"
proof (induction m arbitrary: i)
  case (Suc m)
  then have i: "i < 16" and u: "[i..<16] = i # [Suc i..<16]" by (simp_all add: upt_conv_Cons)
  have IH: "find_entry buf n (Suc i) m = Some (map_option ((+) (Suc i)) (first_index (\<lambda>i. entry_name buf i = n) [Suc i..<16]))"
    by (rule Suc.IH) (use Suc.prems in simp)
  have "(+) (Suc i) = (\<lambda>x. Suc (i + x))" by auto
  then show ?case unfolding u by (simp add: entry_is_eq [OF assms(1) i assms(2)] IH option.map_comp comp_def)
qed simp

lemma find_entry_eq: "block_ok buf \<Longrightarrow> 0 \<notin> set n \<Longrightarrow> find_entry buf n 0 DIR_ENTRIES_PER_BLOCK = Some (entry_at buf n)"
  using find_entry_from [of buf n 0 16]
  by (cases "entry_at buf n") (simp_all add: DIR_ENTRIES_PER_BLOCK_def entry_at_def)

lemma entry_at_Some: "entry_at buf n = Some i \<longleftrightarrow> i < 16 \<and> entry_name buf i = n \<and> (\<forall>j < i. entry_name buf j \<noteq> n)"
  by (auto simp: entry_at_def first_index_Some)

lemma entry_at_None: "entry_at buf n = None \<longleftrightarrow> (\<forall>i < 16. entry_name buf i \<noteq> n)"
  by (auto simp: entry_at_def first_index_None)

lemma names_unique:
  "block_ok buf \<Longrightarrow> i < 16 \<Longrightarrow> j < 16 \<Longrightarrow> entry_name buf i = entry_name buf j \<Longrightarrow> entry_name buf i \<noteq> [] \<Longrightarrow> i = j"
  by (simp add: block_ok_def)

lemma entry_atI:
  "block_ok buf \<Longrightarrow> i < 16 \<Longrightarrow> entry_name buf i = n \<Longrightarrow> n \<noteq> [] \<Longrightarrow> entry_at buf n = Some i"
proof -
  assume ok: "block_ok buf" and i: "i < 16" "entry_name buf i = n" "n \<noteq> []"
  have "entry_name buf j \<noteq> n" if "j < i" for j
  proof
    assume "entry_name buf j = n"
    moreover have "j < 16" using that i(1) by simp
    ultimately have "j = i" using names_unique [OF ok, of j i] i by simp
    with that show False by simp
  qed
  with i show ?thesis by (simp add: entry_at_Some)
qed

lemma dir_map_Some:
  "block_ok buf \<Longrightarrow> dir_map buf n = Some b \<longleftrightarrow> n \<noteq> [] \<and> (\<exists>i < 16. entry_name buf i = n \<and> entry_inode buf i = b)"
  using entry_atI [of buf _ n] by (auto simp: dir_map_def entry_at_Some)

lemma find_filename_eq:
  "block_ok buf \<Longrightarrow> 0 \<notin> set n \<Longrightarrow> n \<noteq> [] \<Longrightarrow> find_filename buf n = Some (case dir_map buf n of None \<Rightarrow> NOT_FOUND | Some b \<Rightarrow> b)"
  by (simp add: find_filename_def find_entry_eq dir_map_def split: option.split)

section \<open>Changing an entry\<close>

lemma sub_bytes_blit_sub:
  "off + length ys \<le> length xs \<Longrightarrow> off \<le> p \<Longrightarrow> p + m \<le> off + length ys \<Longrightarrow> sub_bytes p m (blit off ys xs) = sub_bytes (p - off) m ys"
  by (intro nth_equalityI) (simp_all add: nth_sub_bytes nth_blit)

text \<open>Entry \<open>i\<close> becomes the 32 bytes \<open>e\<close>.\<close>

lemma set_entry:
  assumes len: "length buf = 512" and i: "i < 16" and e: "length e = 32" and j: "j < 16"
  shows "sub_bytes (32 * j + 4) 28 (blit (32 * i) e buf) = (if j = i then drop 4 e else sub_bytes (32 * j + 4) 28 buf)"
    "sub_bytes (32 * j) 4 (blit (32 * i) e buf) = (if j = i then take 4 e else sub_bytes (32 * j) 4 buf)"
proof -
  have b: "32 * i + length e \<le> length buf" using len i e by simp
  show "sub_bytes (32 * j + 4) 28 (blit (32 * i) e buf) = (if j = i then drop 4 e else sub_bytes (32 * j + 4) 28 buf)"
  proof (cases "j = i")
    case True
    then show ?thesis using sub_bytes_blit_sub [OF b, of "32 * j + 4" 28] e by (simp add: sub_bytes_def)
  next
    case False
    then have "32 * j + 4 + 28 \<le> 32 * i \<or> 32 * i + length e \<le> 32 * j + 4" using e by linarith
    from sub_bytes_blit_other [OF b _ this] False len j show ?thesis by simp
  qed
  show "sub_bytes (32 * j) 4 (blit (32 * i) e buf) = (if j = i then take 4 e else sub_bytes (32 * j) 4 buf)"
  proof (cases "j = i")
    case True
    then show ?thesis using sub_bytes_blit_sub [OF b, of "32 * j" 4] e by (simp add: sub_bytes_def)
  next
    case False
    then have "32 * j + 4 \<le> 32 * i \<or> 32 * i + length e \<le> 32 * j" using e by linarith
    from sub_bytes_blit_other [OF b _ this] False len j show ?thesis by simp
  qed
qed

lemma set_entry_map:
  assumes ok: "block_ok buf" and i: "i < 16" and e: "length e = 32" "0 \<in> set (drop 4 e)"
    and new: "field_str (drop 4 e) \<noteq> [] \<Longrightarrow> \<forall>j < 16. j \<noteq> i \<longrightarrow> entry_name buf j \<noteq> field_str (drop 4 e)"
  shows "block_ok (blit (32 * i) e buf)"
    "dir_map (blit (32 * i) e buf) = (\<lambda>n. if n \<noteq> [] \<and> n = field_str (drop 4 e) then Some (un_le32 (take 4 e))
       else if n = entry_name buf i then None else dir_map buf n)"
proof -
  let ?b = "blit (32 * i) e buf"
  have len: "length buf = 512" using ok by (simp add: block_ok_def)
  have nm: "entry_name ?b j = (if j = i then field_str (drop 4 e) else entry_name buf j)" if "j < 16" for j
    using set_entry(1) [OF len i e(1) that] by (simp add: entry_name_def)
  have ino: "entry_inode ?b j = (if j = i then un_le32 (take 4 e) else entry_inode buf j)" if "j < 16" for j
    using set_entry(2) [OF len i e(1) that] by (simp add: entry_inode_def)
  show ok': "block_ok ?b"
    unfolding block_ok_def
  proof (intro conjI allI impI)
    show "length ?b = 512" using len i e by simp
    show "0 \<in> set (sub_bytes (32 * j + 4) 28 ?b)" if "j < 16" for j
      using set_entry(1) [OF len i e(1) that] e(2) ok that by (simp add: block_ok_def)
    show "j = k" if "j < 16" "k < 16" "entry_name ?b j = entry_name ?b k" "entry_name ?b j \<noteq> []" for j k
    proof -
      consider "j = i" "k = i" | "j = i" "k \<noteq> i" | "j \<noteq> i" "k = i" | "j \<noteq> i" "k \<noteq> i" by blast
      then show ?thesis
      proof cases
        case 4
        then have "entry_name buf j = entry_name buf k" "entry_name buf j \<noteq> []" using that nm by simp_all
        then show ?thesis using names_unique [OF ok that(1,2)] by simp
      qed (use that nm new in auto)
    qed
  qed
  have "dir_map ?b n = (if n \<noteq> [] \<and> n = field_str (drop 4 e) then Some (un_le32 (take 4 e))
       else if n = entry_name buf i then None else dir_map buf n)" for n
  proof (cases "n = []")
    case True
    then show ?thesis by (simp add: dir_map_def)
  next
    case nn: False
    show ?thesis
    proof (cases "n = field_str (drop 4 e)")
      case True
      then have "dir_map ?b n = Some (un_le32 (take 4 e))"
        unfolding dir_map_Some [OF ok'] using nn i nm [OF i] ino [OF i] by auto
      then show ?thesis using True nn by simp
    next
      case False
      have uq: "\<And>j. j < 16 \<Longrightarrow> entry_name buf j = entry_name buf i \<Longrightarrow> entry_name buf i \<noteq> [] \<Longrightarrow> j = i"
        using names_unique [OF ok _ i] by simp
      have "dir_map ?b n = Some b \<longleftrightarrow> n \<noteq> entry_name buf i \<and> dir_map buf n = Some b" for b
        unfolding dir_map_Some [OF ok'] dir_map_Some [OF ok] using nn False nm ino by (auto split: if_splits dest: uq)
      then show ?thesis using nn False by (metis not_Some_eq)
    qed
  qed
  then show "dir_map ?b = (\<lambda>n. if n \<noteq> [] \<and> n = field_str (drop 4 e) then Some (un_le32 (take 4 e))
       else if n = entry_name buf i then None else dir_map buf n)"
    by (rule ext)
qed

section \<open>Creating and deleting\<close>

lemma un_le32_le32_append: "un_le32 (take 4 (le32 b @ xs)) = b"
  by simp

lemma create_entry_eq:
  assumes ok: "block_ok buf" and i: "entry_at buf [] = Some i" and mem: "28 \<le> length mem"
  shows "create_entry buf b mem = Some (blit (32 * i) (le32 b @ take 28 mem) buf, word_of_nat (32 * i))"
proof -
  have i16: "i < 16" and len: "length buf = 512" using i ok by (simp_all add: entry_at_Some block_ok_def)
  have "blit (32 * i + 4) (take 28 mem) (blit (32 * i) (le32 b) buf) = blit (32 * i) (le32 b @ take 28 mem) buf"
    by (rule nth_equalityI) (use i16 len mem in \<open>auto simp: nth_blit nth_append\<close>)
  then show ?thesis
    using find_entry_eq [OF ok, of "[]"] i i16 len mem by (simp add: create_entry_def NAME_SIZE_def sub_bytes_def)
qed

lemma pos_found: "i < 16 \<Longrightarrow> (word_of_nat (32 * i) :: u32) \<noteq> NOT_FOUND"
proof
  assume i: "i < 16" and "(word_of_nat (32 * i) :: u32) = NOT_FOUND"
  then have "unat (word_of_nat (32 * i) :: u32) = unat (- 1 :: u32)" by (simp add: NOT_FOUND_def)
  moreover have "unat (word_of_nat (32 * i) :: u32) = 32 * i" by (subst unat_of_nat) (use i in simp)
  ultimately show False using i by (simp add: unsigned_minus_1_eq_mask mask_eq_exp_minus_1)
qed

text \<open>
  C15. A block of a directory implements a map from names to blocks. \<open>create_entry\<close> for a name that fits into its
  field and is not in the block adds exactly this name when an entry is free, and \<open>find_filename\<close> then finds it;
  in a full block it returns \<open>NOT_FOUND\<close> and changes nothing.
\<close>

theorem create_entry_refines:
  assumes ok: "block_ok buf" and mem: "28 \<le> length mem" "0 \<in> set (take 28 mem)" and n: "n = field_str (take 28 mem)" "n \<noteq> []"
    and new: "dir_map buf n = None"
  shows "\<exists>buf' pos. create_entry buf b mem = Some (buf', pos) \<and>
    (if \<exists>i < 16. entry_name buf i = [] then pos \<noteq> NOT_FOUND \<and> block_ok buf' \<and> dir_map buf' = (dir_map buf)(n \<mapsto> b) \<and>
       find_filename buf' n = Some b
     else pos = NOT_FOUND \<and> buf' = buf)"
proof (cases "entry_at buf []")
  case None
  then have "create_entry buf b mem = Some (buf, NOT_FOUND)" using find_entry_eq [OF ok, of "[]"] by (simp add: create_entry_def)
  with None show ?thesis by (auto simp: entry_at_None)
next
  case (Some i)
  then have i: "i < 16" "entry_name buf i = []" by (simp_all add: entry_at_Some)
  let ?e = "le32 b @ take 28 mem" and ?b = "blit (32 * i) (le32 b @ take 28 mem) buf"
  have e: "length ?e = 32" "drop 4 ?e = take 28 mem" "un_le32 (take 4 ?e) = b" using mem(1) by simp_all
  have "\<forall>j < 16. j \<noteq> i \<longrightarrow> entry_name buf j \<noteq> n" using new n(2) by (auto simp: dir_map_def entry_at_None)
  then have ok': "block_ok ?b" and "dir_map ?b = (\<lambda>m. if m \<noteq> [] \<and> m = n then Some b else if m = [] then None else dir_map buf m)"
    using set_entry_map [OF ok i(1) e(1)] mem(2) n(1) by (simp_all add: e i(2) cong: if_cong)
  then have m: "dir_map ?b = (dir_map buf)(n \<mapsto> b)" using n(2) by (auto simp: fun_eq_iff dir_map_def)
  have "0 \<notin> set n" unfolding n(1) field_str_def by (auto dest: set_takeWhileD)
  then have "find_filename ?b n = Some b" using find_filename_eq [OF ok', of n] n(2) m by simp
  then show ?thesis using create_entry_eq [OF ok Some mem(1)] ok' m i pos_found [OF i(1)] by auto
qed

lemma block_ok_empty: "block_ok (replicate 512 0)"
  by (simp add: block_ok_def entry_name_def field_str_def sub_bytes_def)

theorem create_entry_refines_witness:
  "\<exists>buf' pos. create_entry (replicate 512 0) 9 (97 # replicate 27 0) = Some (buf', pos) \<and>
    (if \<exists>i < 16. entry_name (replicate 512 0) i = [] then pos \<noteq> NOT_FOUND \<and> block_ok buf' \<and>
       dir_map buf' = (dir_map (replicate 512 0))([97] \<mapsto> 9) \<and> find_filename buf' [97] = Some 9
     else pos = NOT_FOUND \<and> buf' = replicate 512 0)"
  by (rule create_entry_refines [OF block_ok_empty])
    (auto simp: field_str_def dir_map_def entry_at_None entry_name_def sub_bytes_def)

lemma le_bytes_zero: "le_bytes n 0 = replicate n 0"
  by (induction n) simp_all

lemma le32_zero: "le32 0 = replicate 4 0"
  by (simp only: le32_def le_bytes_zero unsigned_0)

text \<open>
  C16. \<open>delete_entry\<close> removes exactly the name from the map and releases its block and no other; a name that is not in the
  block changes nothing, and the result is \<open>-1\<close>.
\<close>

theorem delete_entry_refines:
  assumes ok: "block_ok (dir_cache s)" and bm: "bmap_ok s" and n: "0 \<notin> set n" "n \<noteq> []"
    and b: "\<forall>b. dir_map (dir_cache s) n = Some b \<longrightarrow> unat b < unat (get_hdsize (fs_hd s))"
  shows "case dir_map (dir_cache s) n of
      None \<Rightarrow> delete_entry s n = Some (s, - 1)
    | Some b \<Rightarrow> \<exists>s' pos. delete_entry s n = Some (s', pos) \<and> pos \<noteq> - 1 \<and> block_ok (dir_cache s') \<and>
        dir_map (dir_cache s') = (dir_map (dir_cache s))(n := None) \<and>
        (\<forall>c. block_used s' c \<longleftrightarrow> c \<noteq> unat b \<and> block_used s c)"
proof (cases "entry_at (dir_cache s) n")
  case None
  then have "dir_map (dir_cache s) n = None" by (simp add: dir_map_def)
  moreover have "delete_entry s n = Some (s, - 1)" using find_entry_eq [OF ok n(1)] None by (simp add: delete_entry_def)
  ultimately show ?thesis by simp
next
  case (Some i)
  let ?buf = "dir_cache s" let ?b = "entry_inode ?buf i" and ?e = "replicate 32 (0 :: u8)"
  have i: "i < 16" "entry_name ?buf i = n" using Some by (simp_all add: entry_at_Some)
  have len: "length ?buf = 512" using ok by (simp add: block_ok_def)
  have dm: "dir_map ?buf n = Some ?b" using Some n(2) by (simp add: dir_map_def)
  then have bs: "unat ?b < unat (get_hdsize (fs_hd s))" using b by blast
  have f: "field_str (drop 4 ?e) = []" by (simp add: field_str_def)
  have e: "length ?e = 32" "0 \<in> set (drop 4 ?e)" by simp_all
  let ?buf' = "blit (32 * i) ?e ?buf"
  have ok': "block_ok ?buf'" and "dir_map ?buf' = (\<lambda>m. if m = n then None else dir_map ?buf m)"
    using set_entry_map [OF ok i(1) e] unfolding f i(2) by simp_all
  then have m: "dir_map ?buf' = (dir_map ?buf)(n := None)" by (simp add: fun_eq_iff)
  let ?c1 = "blit (32 * i + 4) (replicate 28 0) ?buf"
  have l1: "length ?c1 = 512" using i len by simp
  have "entry_inode ?c1 i = ?b" using i len by (simp add: entry_inode_def sub_bytes_blit_other)
  have c2: "blit (32 * i) (le32 0) ?c1 = ?buf'"
  proof (rule nth_equalityI)
    fix k assume "k < length (blit (32 * i) (le32 0) ?c1)"
    then have k: "k < 512" using i l1 by simp
    show "blit (32 * i) (le32 0) ?c1 ! k = ?buf' ! k" unfolding le32_zero using i(1) len k by (auto simp: nth_blit)
  qed (use i len l1 in simp)
  let ?s1 = "s\<lparr>dir_cache := ?c1\<rparr>"
  have bm1: "bmap_ok ?s1" using bm by (simp add: bmap_ok_def)
  have mk: "mark_block ?s1 ?b False = Some (marked ?s1 ?b False)" by (rule mark_block_eq [OF bm1]) (use bs in simp)
  let ?s' = "(marked ?s1 ?b False)\<lparr>dir_cache := ?buf'\<rparr>"
  have "delete_entry s n = Some (?s', word_of_nat (32 * i))"
    using find_entry_eq [OF ok n(1)] Some i len l1 mk c2 by (simp add: delete_entry_def NAME_SIZE_def)
  moreover have "block_used ?s' c \<longleftrightarrow> c \<noteq> unat ?b \<and> block_used s c" for c
    using block_used_marked [OF bm1, of ?b False c] bs by (simp add: block_used_def)
  ultimately show ?thesis using dm ok' m pos_found [OF i(1)] by (auto simp: NOT_FOUND_def)
qed

text \<open>A block with the entry \<open>a\<close> of the block 9.\<close>

definition dir_example :: fs_state where
  "dir_example = fs_example\<lparr>dir_cache := blit (32 * 0) (le32 9 @ 97 # replicate 27 0) (replicate 512 0)\<rparr>"

lemma dir_example_ok: "block_ok (dir_cache dir_example)" "dir_map (dir_cache dir_example) [97] = Some 9"
proof -
  let ?e = "le32 9 @ 97 # replicate 27 0"
  have e: "length ?e = 32" "drop 4 ?e = 97 # replicate 27 0" "take 4 ?e = le32 9" by simp_all
  have f: "field_str (97 # replicate 27 0) = [97]" by (simp add: field_str_def)
  have z: "(0 :: u8) \<in> set (97 # replicate 27 0)" by simp
  have n: "\<forall>j < 16. j \<noteq> 0 \<longrightarrow> entry_name (replicate 512 0) j \<noteq> [97]" by (simp add: entry_name_def field_str_def sub_bytes_def)
  have m: "block_ok (blit (32 * 0) ?e (replicate 512 0))" "dir_map (blit (32 * 0) ?e (replicate 512 0)) =
      (\<lambda>n. if n \<noteq> [] \<and> n = [97] then Some (un_le32 (le32 9))
       else if n = entry_name (replicate 512 0) 0 then None else dir_map (replicate 512 0) n)"
    using set_entry_map [OF block_ok_empty _ e(1), of 0] n z unfolding e(2,3) f by simp_all
  have dc: "dir_cache dir_example = blit (32 * 0) ?e (replicate 512 0)" by (simp add: dir_example_def)
  show "block_ok (dir_cache dir_example)" unfolding dc by (rule m(1))
  have "dir_map (dir_cache dir_example) [97] = (if [97 :: u8] \<noteq> [] \<and> [97 :: u8] = [97] then Some (un_le32 (le32 9))
       else if [97] = entry_name (replicate 512 0) 0 then None else dir_map (replicate 512 0) [97])"
    unfolding dc m(2) ..
  then show "dir_map (dir_cache dir_example) [97] = Some 9" by simp
qed

theorem delete_entry_refines_witness:
  "case dir_map (dir_cache dir_example) [97] of
      None \<Rightarrow> delete_entry dir_example [97] = Some (dir_example, - 1)
    | Some b \<Rightarrow> \<exists>s' pos. delete_entry dir_example [97] = Some (s', pos) \<and> pos \<noteq> - 1 \<and> block_ok (dir_cache s') \<and>
        dir_map (dir_cache s') = (dir_map (dir_cache dir_example))([97] := None) \<and>
        (\<forall>c. block_used s' c \<longleftrightarrow> c \<noteq> unat b \<and> block_used dir_example c)"
proof (rule delete_entry_refines)
  show "bmap_ok dir_example" using fs_example_ok by (simp add: bmap_ok_def dir_example_def)
  show "\<forall>b. dir_map (dir_cache dir_example) [97] = Some b \<longrightarrow> unat b < unat (get_hdsize (fs_hd dir_example))"
    using fs_example_hd by (simp add: dir_example_ok(2)) (simp add: dir_example_def)
qed (simp_all add: dir_example_ok(1))

end
