(* ===== verification/VMonSafe.thy ===== *)
theory VMonSafe
  imports VMonitor
begin

text \<open>
  Whatever is written to a virtual monitor (theory \<open>VMonitor\<close>), and however it is scrolled, the program stays
  inside of the monitor's memory.
\<close>

section \<open>The invariant\<close>

text \<open>
  The window starts at a line, at the end of the memory at most, and the cursor is inside of the window, which has
  1920 cells.
\<close>

definition vm_ok :: "vmonitor \<Rightarrow> bool" where
  "vm_ok vm \<longleftrightarrow> length (vm_mem vm) = 80000 \<and> vm_size vm = VIRTUAL_MONITOR_SIZE \<and> 80 dvd unat (vis_begin vm) \<and>
     unat (vis_begin vm) \<le> 80000 \<and> unat (vm_offset vm) < 1920"

lemma vm_consts: "VIRTUAL_MONITOR_SIZE div 2 = 80000" "VMONITOR_HEIGHT div 2 = 1920" "unat VMONITOR_HEIGHT = 3840"
  by (simp_all add: VIRTUAL_MONITOR_SIZE_def VMONITOR_HEIGHT_def)

lemma new_virt_monitor_ok:
  "length mon = 80000 \<Longrightarrow> \<exists>vm. new_virt_monitor mon name pid = Some vm \<and> vm_ok vm"
  by (simp add: new_virt_monitor_def vm_ok_def vm_consts)

text \<open>The start of a line, and the line below the window.\<close>

lemma line_fits: "80 dvd (n :: nat) \<Longrightarrow> n < 80000 \<Longrightarrow> n + 80 \<le> 80000"
proof -
  assume "80 dvd n" "n < 80000"
  then obtain k where "n = 80 * k" "k < 1000" by auto
  then show ?thesis by simp
qed

lemma scroll_ptr:
  fixes v :: u32
  assumes "80 dvd unat v" "unat v \<le> 80000"
  shows "unat ((v + 1920 - 80) mod 80000) + 80 \<le> 80000"
proof -
  have e: "v + 1920 - 80 = v + 1840" by simp
  have u: "unat (v + 1840) = unat v + 1840" by (subst unat_add_lem [THEN iffD1]) (use assms in simp_all)
  have "unat ((v + 1920 - 80) mod 80000) = (unat v + 1840) mod 80000" unfolding e unat_mod u by simp
  moreover have "80 dvd (unat v + 1840) mod 80000" using assms(1) by (simp add: dvd_mod)
  ultimately show ?thesis using line_fits [of "(unat v + 1840) mod 80000"] by simp
qed

lemma vm_scroll_ok:
  assumes "vm_ok vm"
  shows "\<exists>vm'. vm_scroll vm = Some vm' \<and> vm_ok vm' \<and> unat (vm_offset vm') < 1919"
proof (cases "vm_offset vm \<ge> VMONITOR_HEIGHT div 2 - 1")
  case False
  then have "unat (vm_offset vm) < 1919" by (simp add: vm_consts word_le_nat_alt)
  with False assms show ?thesis by (simp add: vm_scroll_def)
next
  case True
  have ok: "length (vm_mem vm) = 80000" "vm_size vm = VIRTUAL_MONITOR_SIZE" "80 dvd unat (vis_begin vm)"
    "unat (vis_begin vm) \<le> 80000" "unat (vm_offset vm) < 1920" using assms by (simp_all add: vm_ok_def)
  have o: "unat (vm_offset vm) = 1919" using True ok(5) by (simp add: vm_consts word_le_nat_alt)
  define v where "v = (if vis_begin vm + LINE_WIDTH \<ge> vm_size vm div 2 then 0 else vis_begin vm + LINE_WIDTH)"
  have a: "unat (vis_begin vm + 80) = unat (vis_begin vm) + 80" by (subst unat_add_lem [THEN iffD1]) (use ok(4) in simp_all)
  have v: "80 dvd unat v" "unat v \<le> 80000" using ok(3) a by (auto simp: v_def LINE_WIDTH_def ok(2) vm_consts word_le_nat_alt)
  have p: "unat ((v + VMONITOR_HEIGHT div 2 - LINE_WIDTH) mod (vm_size vm div 2)) + 80 \<le> 80000"
    using scroll_ptr [OF v] by (simp add: vm_consts ok(2) LINE_WIDTH_def)
  have "unat (vm_offset vm - LINE_WIDTH) = 1839" using o by (simp add: LINE_WIDTH_def unat_sub word_le_nat_alt)
  moreover define w where "w = (if scrollup_limit vm < (vm_size vm - VMONITOR_HEIGHT) div 0xA0 then vm\<lparr>scrollup_limit := scrollup_limit vm + 1\<rparr> else vm)"
  have w: "vm_mem w = vm_mem vm" "vm_size w = vm_size vm" "vis_begin w = vis_begin vm" "vm_offset w = vm_offset vm" by (simp_all add: w_def)
  let ?p = "unat ((v + VMONITOR_HEIGHT div 2 - LINE_WIDTH) mod (vm_size vm div 2))"
  have "vm_scroll vm = do { m \<leftarrow> wr_run ?p (replicate (unat LINE_WIDTH) 0xF00) (vm_mem vm);
      Some (w\<lparr>vis_begin := v, vm_mem := m, vm_offset := vm_offset vm - LINE_WIDTH\<rparr>) }"
    unfolding vm_scroll_def w_def [symmetric] Let_def if_P [OF True] w(3) vmonitor.select_convs
    by (simp add: v_def w)
  moreover have "wr_run ?p (replicate (unat LINE_WIDTH) 0xF00) (vm_mem vm) = Some (blit ?p (replicate (unat LINE_WIDTH) 0xF00) (vm_mem vm))"
    using p ok(1) by (simp add: LINE_WIDTH_def)
  ultimately show ?thesis using p ok(1,2) v w by (simp add: vm_ok_def LINE_WIDTH_def)
qed

lemma vm_put_ok: "vm_ok vm \<Longrightarrow> \<exists>vm'. vm_put vm c = Some vm' \<and> vm_ok vm' \<and> vm_offset vm' = vm_offset vm"
proof -
  assume ok: "vm_ok vm"
  have "unat ((vis_begin vm + vm_offset vm) mod 80000) < 80000" by (simp add: unat_mod)
  with ok show ?thesis by (simp add: vm_put_def vm_ok_def vm_consts)
qed

lemma vm_cputc_default_ok: "vm_ok vm \<Longrightarrow> \<exists>vm'. vm_cputc_default vm ch fg bg = Some vm' \<and> vm_ok vm'"
proof -
  assume "vm_ok vm"
  from vm_scroll_ok [OF this] obtain vm1 where 1: "vm_scroll vm = Some vm1" "vm_ok vm1" "unat (vm_offset vm1) < 1919" by blast
  from vm_put_ok [OF 1(2)] obtain vm2 where 2: "vm_put vm1 (vm_cell bg fg ch) = Some vm2" "vm_ok vm2" "vm_offset vm2 = vm_offset vm1" by blast
  have "unat (vm_offset vm2 + 1) = unat (vm_offset vm2) + 1" by (subst unat_add_lem [THEN iffD1]) (use 1 2 in simp_all)
  with 1 2 show ?thesis by (auto simp: vm_cputc_default_def vm_ok_def)
qed

lemma vm_fill_ok: "vm_ok vm \<Longrightarrow> \<exists>vm'. vm_fill vm fg bg n = Some vm' \<and> vm_ok vm'"
proof (induction n)
  case (Suc n)
  then obtain vm1 where 1: "vm_fill vm fg bg n = Some vm1" "vm_ok vm1" by blast
  from vm_cputc_default_ok [OF 1(2)] 1(1) show ?case by simp
qed simp

lemma cputc_ok: "vm_ok vm \<Longrightarrow> \<exists>vm'. virt_monitor_cputc vm ch fg bg = Some vm' \<and> vm_ok vm'"
proof -
  assume ok: "vm_ok vm"
  from vm_scroll_ok [OF ok] obtain vm1 where 1: "vm_scroll vm = Some vm1" "vm_ok vm1" "unat (vm_offset vm1) < 1919" by blast
  have "vm_ok (vm1\<lparr>vm_offset := vm_offset vm1 - 1\<rparr>)" if "vm_offset vm1 \<noteq> 0"
  proof -
    have "1 \<le> vm_offset vm1" using that by (simp add: word_le_nat_alt Suc_le_eq unat_gt_0)
    then have "unat (vm_offset vm1 - 1) = unat (vm_offset vm1) - 1" by (simp add: unat_sub)
    with 1 show ?thesis by (simp add: vm_ok_def)
  qed
  from vm_put_ok [OF this] have "vm_offset vm1 \<noteq> 0 \<Longrightarrow> \<exists>vm'. vm_put (vm1\<lparr>vm_offset := vm_offset vm1 - 1\<rparr>) c = Some vm' \<and> vm_ok vm'" for c
    by blast
  with vm_fill_ok [OF 1(2)] vm_cputc_default_ok [OF ok] 1 show ?thesis by (simp add: virt_monitor_cputc_def)
qed

lemma cputs_tag_ok: "vm_ok vm \<Longrightarrow> \<exists>vm' str' fg'. vm_cputs_tag vm str fg bg = Some (vm', str', fg') \<and> vm_ok vm'"
  using cputc_ok [of vm 35 fg bg] by (auto simp: vm_cputs_tag_def Let_def)

lemma cputs_ok: "vm_ok vm \<Longrightarrow> \<exists>vm' r. virt_monitor_cputs vm str fg bg res = Some (vm', r) \<and> vm_ok vm'"
proof (induction vm str fg bg res rule: virt_monitor_cputs.induct)
  case (2 vm c cs fg bg res)
  obtain vm1 str fg1 where t: "(if c = 35 then vm_cputs_tag vm cs fg bg else Some (vm, c # cs, fg)) = Some (vm1, str, fg1)" "vm_ok vm1"
    using cputs_tag_ok [OF "2.prems", of cs fg bg] "2.prems" that by (cases "c = 35") auto
  show ?case
  proof (cases "str = []")
    case True
    with t show ?thesis by simp
  next
    case False
    from cputc_ok [OF t(2)] obtain vm2 where 2: "virt_monitor_cputc vm1 (hd str) fg1 bg = Some vm2" "vm_ok vm2" by blast
    from "2.IH" [OF t(1) refl refl False 2] t(1) False 2(1) show ?thesis by simp
  qed
qed simp

section \<open>Cursor, scrolling and refresh\<close>

lemma cursor_ok: "vm_ok vm \<Longrightarrow> vm_ok (fst (virt_cursor_move vm d))"
proof -
  assume ok: "vm_ok vm"
  let ?o = "unat (vm_offset vm)"
  have o: "?o < 1920" using ok by (simp add: vm_ok_def)
  have m: "unat (x mod 1920) < 1920" "unat (x mod 80) < 80" for x :: u32 by (simp_all add: unat_mod)
  have le: "?o div 80 * 80 \<le> 1840" using o by simp
  have "?o - ?o mod 80 = ?o div 80 * 80" by (simp add: minus_mod_eq_div_mult)
  moreover have "unat (vm_offset vm - vm_offset vm mod 80) = ?o - ?o mod 80"
    by (subst unat_sub) (simp_all add: word_le_nat_alt unat_mod)
  ultimately have l: "unat (vm_offset vm - vm_offset vm mod 80) \<le> 1840" using le by simp
  have "unat (vm_offset vm - vm_offset vm mod 80 + x mod 80) < 1920" for x :: u32
    using l m(2) [of x] by (subst unat_add_lem [THEN iffD1]) simp_all
  with m(1) o ok show ?thesis
    by (simp add: virt_cursor_move_def vm_ok_def Let_def vm_consts LINE_WIDTH_def)
qed

lemma unat_pred_line:
  fixes v :: u32
  assumes "80 dvd unat v" "0 < v"
  shows "unat (v - 80) = unat v - 80" "80 dvd unat (v - 80)"
proof -
  have "unat v \<noteq> 0" using assms(2) by (simp add: word_less_nat_alt)
  then have "80 \<le> unat v" using assms(1) by (auto dest: dvd_imp_le)
  then show "unat (v - 80) = unat v - 80" by (subst unat_sub) (simp_all add: word_le_nat_alt)
  then show "80 dvd unat (v - 80)" using assms(1) by (simp add: dvd_minus_self)
qed

lemma scrollup_ok: "vm_ok vm \<Longrightarrow> vm_ok (virt_monitor_scrollup vm)"
  using unat_pred_line [of "vis_begin vm"]
  by (auto simp: vm_ok_def virt_monitor_scrollup_def LINE_WIDTH_def vm_consts)

lemma scrolldown_ok: "vm_ok vm \<Longrightarrow> vm_ok (virt_monitor_scrolldown vm)"
proof -
  assume ok: "vm_ok vm"
  have "80 dvd unat (vis_begin vm + 80) \<and> unat (vis_begin vm + 80) \<le> 80000" if "vis_begin vm < 80000"
  proof -
    have d: "80 dvd unat (vis_begin vm)" "unat (vis_begin vm) < 80000" using ok that by (simp_all add: vm_ok_def word_less_nat_alt)
    have "unat (vis_begin vm + 80) = unat (vis_begin vm) + 80" by (subst unat_add_lem [THEN iffD1]) (use d in simp_all)
    with d line_fits [OF d] show ?thesis by simp
  qed
  with ok show ?thesis by (auto simp: vm_ok_def virt_monitor_scrolldown_def LINE_WIDTH_def vm_consts)
qed

lemma length_cells_bytes: "length (cells_bytes cs) = 2 * length cs"
  by (induction cs) (simp_all add: cells_bytes_def)

lemma update_ok: "vm_ok vm \<Longrightarrow> \<exists>r. update_virt_monitor vm = Some r"
proof -
  assume ok: "vm_ok vm"
  let ?v = "unat (vis_begin vm)" and ?r = "80000 - vis_begin vm"
  have v: "?v \<le> 80000" "length (cells_bytes (vm_mem vm)) = 160000" using ok by (simp_all add: vm_ok_def length_cells_bytes)
  have r: "unat ?r = 80000 - ?v" by (subst unat_sub) (use v in \<open>simp_all add: word_le_nat_alt\<close>)
  have d: "unat (2 * ?r) = 2 * unat ?r" using v(1) r by (subst unat_mult_lem [THEN iffD1]) simp_all
  show ?thesis
  proof (cases "disable_refresh vm")
    case False
    show ?thesis
    proof (cases "?r \<ge> VMONITOR_HEIGHT")
      case True
      then have "2 * ?v + 3840 \<le> 160000" using r v(1) by (simp add: word_le_nat_alt vm_consts)
      with False True v ok show ?thesis by (simp add: update_virt_monitor_def vm_ok_def vm_consts Let_def)
    next
      case nr: False
      then have lt: "unat ?r < 3840" by (simp add: word_le_nat_alt vm_consts)
      have "unat (VMONITOR_HEIGHT - ?r) = 3840 - unat ?r" by (subst unat_sub) (use lt in \<open>simp_all add: word_le_nat_alt vm_consts\<close>)
      then have "unat (2 * (VMONITOR_HEIGHT - ?r)) = 2 * (3840 - unat ?r)" by (subst unat_mult_lem [THEN iffD1]) simp_all
      then have "unat (2 * (VMONITOR_HEIGHT - ?r)) \<le> 160000" by simp
      moreover have "2 * ?v + unat (2 * ?r) \<le> 160000" using d r v(1) by simp
      ultimately show ?thesis using False nr v ok by (simp add: update_virt_monitor_def vm_ok_def vm_consts Let_def del: unat_sub)
    qed
  qed (simp add: update_virt_monitor_def)
qed

section \<open>Any use of a monitor\<close>

datatype vm_op = Putc u8 u8 u8 | Puts bytes | Cursor u8 | Scrollup | Scrolldown | Refresh

fun vm_do :: "vmonitor \<Rightarrow> vm_op \<Rightarrow> vmonitor option" where
  "vm_do vm (Putc ch fg bg) = virt_monitor_cputc vm ch fg bg"
| "vm_do vm (Puts str) = map_option fst (virt_monitor_puts vm str)"
| "vm_do vm (Cursor d) = Some (fst (virt_cursor_move vm d))"
| "vm_do vm Scrollup = Some (virt_monitor_scrollup vm)"
| "vm_do vm Scrolldown = Some (virt_monitor_scrolldown vm)"
| "vm_do vm Refresh = map_option (\<lambda>_. vm) (update_virt_monitor vm)"

fun vm_run :: "vmonitor \<Rightarrow> vm_op list \<Rightarrow> vmonitor option" where
  "vm_run vm [] = Some vm"
| "vm_run vm (x # xs) = do { vm \<leftarrow> vm_do vm x; vm_run vm xs }"

lemma vm_do_ok: "vm_ok vm \<Longrightarrow> \<exists>vm'. vm_do vm x = Some vm' \<and> vm_ok vm'"
proof (cases x)
  case (Puts str)
  assume "vm_ok vm"
  from cputs_ok [OF this, of str WHITE BLACK 0] Puts show ?thesis by (auto simp: virt_monitor_puts_def)
qed (use cputc_ok cursor_ok scrollup_ok scrolldown_ok update_ok in \<open>auto simp: virt_monitor_putc_def\<close>)

lemma vm_run_ok: "vm_ok vm \<Longrightarrow> \<exists>vm'. vm_run vm xs = Some vm' \<and> vm_ok vm'"
proof (induction xs arbitrary: vm)
  case (Cons x xs)
  from vm_do_ok [OF Cons.prems] obtain vm1 where "vm_do vm x = Some vm1" "vm_ok vm1" by blast
  with Cons.IH [of vm1] show ?case by simp
qed simp



end
