(* ===== verification/Snake.thy ===== *)
theory Snake
  imports Pong Ringbuffer Numconv
begin

text \<open>
  The game of Snake (\<open>apps/snake.c\<close>) for one and two players. A snake is a ring buffer (\<open>lib/ringbuffer.c\<close>) of
  the cells that it covers, two bytes each, the head last: the high byte of a cell is its column, the low byte its
  row. Drawing a snake and looking for a collision read a copy of the ring buffer to its end; \<open>mem\<close> is the memory
  that the allocation of the copy returns. The main theorem says that the game keeps its board
  consistent, moves the snake by one cell and never loses a cell by an overflow of the queue.
\<close>

section \<open>State\<close>

record snake_game =
  snake1 :: ring_fifo
  snake2 :: ring_fifo
  direction1 :: u8
  direction2 :: u8
  snake_endbeep :: bool
  loser :: u8
  head1 :: u16
  head2 :: u16
  apple :: u16
  rnd :: s32
  snake_frame :: int
  snake_bbuf :: bytes

definition SNAKE_RIGHT :: u8 where "SNAKE_RIGHT = 1"
definition SNAKE_LEFT :: u8 where "SNAKE_LEFT = 2"
definition SNAKE_UP :: u8 where "SNAKE_UP = 3"
definition SNAKE_DOWN :: u8 where "SNAKE_DOWN = 4"

section \<open>Cells\<close>

text \<open>Reading two bytes into the variable \<open>ch\<close>: bytes that the buffer does not have leave it as it is.\<close>

definition read_cell :: "ring_fifo \<Rightarrow> u16 \<Rightarrow> (ring_fifo \<times> u16) option" where
  "read_cell f ch = do {
     (f, out, r) \<leftarrow> rf_read (Some f) True 2;
     f \<leftarrow> f;
     Some (f, un_le16 (out @ drop (length out) (le16 ch))) }"

definition write_cell :: "ring_fifo \<Rightarrow> u16 \<Rightarrow> ring_fifo option" where
  "write_cell f ch = do { (f, w) \<leftarrow> rf_write (Some f) (Some (le16 ch)) 2; f }"

definition set_cell_pixel :: "u16 \<Rightarrow> u8 \<Rightarrow> bytes \<Rightarrow> bytes option" where
  "set_cell_pixel ch cl bbuf = SET_PIXEL (uint (drop_bit 8 ch)) (uint (ch AND 0xFF)) cl bbuf"

text \<open>The loops run until exactly two bytes are left: on a copy of any other parity or on an empty one they do not end.\<close>

partial_function (option) draw_loop :: "ring_fifo \<Rightarrow> u16 \<Rightarrow> u8 \<Rightarrow> bytes \<Rightarrow> (ring_fifo \<times> u16 \<times> bytes) option" where
  "draw_loop temp ch color bbuf =
     (if rf_getlength temp \<noteq> 2 then do {
        (temp, ch) \<leftarrow> read_cell temp ch;
        bbuf \<leftarrow> set_cell_pixel ch color bbuf;
        draw_loop temp ch color bbuf }
      else Some (temp, ch, bbuf))"

definition draw_snake :: "bytes option \<Rightarrow> ring_fifo \<Rightarrow> u8 \<Rightarrow> u8 \<Rightarrow> bytes \<Rightarrow> (u16 \<times> bytes) option" where
  "draw_snake mem snake color headcolor bbuf = do {
     temp \<leftarrow> rf_copy True mem snake;
     (temp, ch, bbuf) \<leftarrow> draw_loop temp 0 color bbuf;
     (temp, ch) \<leftarrow> read_cell temp ch;
     bbuf \<leftarrow> set_cell_pixel ch headcolor bbuf;
     Some (ch, bbuf) }"

partial_function (option) collision_loop :: "ring_fifo \<Rightarrow> u16 \<Rightarrow> u16 \<Rightarrow> bool option" where
  "collision_loop temp ch pos =
     (if rf_getlength temp \<noteq> 2 then do {
        (temp, ch) \<leftarrow> read_cell temp ch;
        if ch = pos then Some True else collision_loop temp ch pos }
      else Some False)"

definition body_collision :: "bytes option \<Rightarrow> ring_fifo \<Rightarrow> u16 \<Rightarrow> bool option" where
  "body_collision mem snake pos = do { temp \<leftarrow> rf_copy True mem snake; collision_loop temp 0 pos }"

section \<open>The apple\<close>

text \<open>
  \<open>((rand() % 80) << 8) + (rand() % 25)\<close>; C leaves the order of the two calls open, the first is taken to
  be evaluated first.
\<close>

definition roll_apple :: "s32 \<Rightarrow> u16 \<times> s32" where
  "roll_apple seed =
     (let (x, seed) = rand seed; (y, seed) = rand seed
      in (ucast (push_bit 8 (x mod 80) + y mod 25), seed))"

partial_function (option) new_apple :: "bytes option \<Rightarrow> ring_fifo \<Rightarrow> u16 \<Rightarrow> u16 \<Rightarrow> s32 \<Rightarrow> (u16 \<times> s32) option" where
  "new_apple mem snake head a seed = do {
     again \<leftarrow> (if head = a then Some True else body_collision mem snake a);
     if again then (case roll_apple seed of (a, seed) \<Rightarrow> new_apple mem snake head a seed)
     else Some (a, seed) }"

section \<open>One round of the loop\<close>

text \<open>The new position of a head; the board wraps around at its borders.\<close>

definition next_head :: "u8 \<Rightarrow> u16 \<Rightarrow> u16" where
  "next_head dir h =
     (if dir = SNAKE_UP then (h AND 0xFF00) + ((h AND 0xFF) - 1 + 25) mod 25
      else if dir = SNAKE_RIGHT then push_bit 8 ((drop_bit 8 h + 1) mod 80) + (h AND 0xFF)
      else if dir = SNAKE_DOWN then (h AND 0xFF00) + ((h AND 0xFF) + 1) mod 25
      else push_bit 8 ((drop_bit 8 h - 1 + 80) mod 80) + (h AND 0xFF))"

definition is_direction :: "u8 \<Rightarrow> bool" where
  "is_direction dir \<longleftrightarrow> dir \<in> {SNAKE_UP, SNAKE_RIGHT, SNAKE_DOWN, SNAKE_LEFT}"

definition move_snake1 :: "bytes option \<Rightarrow> snake_game \<Rightarrow> snake_game option" where
  "move_snake1 mem g =
     (if \<not> is_direction (direction1 g) then Some g
      else do {
        g \<leftarrow> (if head1 g \<noteq> apple g then do {
                 (f, trash) \<leftarrow> read_cell (snake1 g) 0;
                 Some (g\<lparr>snake1 := f\<rparr>) }
               else do {
                 (a, seed) \<leftarrow> new_apple mem (snake1 g) (head1 g) (apple g) (rnd g);
                 Some (g\<lparr>snake_endbeep := True, apple := a, rnd := seed\<rparr>) });
        let g = g\<lparr>head1 := next_head (direction1 g) (head1 g)\<rparr>;
        f \<leftarrow> write_cell (snake1 g) (head1 g);
        Some (g\<lparr>snake1 := f\<rparr>) })"

definition move_snake2 :: "snake_game \<Rightarrow> snake_game option" where
  "move_snake2 g =
     (if \<not> is_direction (direction2 g) then Some g
      else do {
        g \<leftarrow> (if head2 g \<noteq> apple g then do {
                 (f, trash) \<leftarrow> read_cell (snake2 g) 0;
                 Some (g\<lparr>snake2 := f\<rparr>) }
               else (case roll_apple (rnd g) of (a, seed) \<Rightarrow> Some (g\<lparr>apple := a, rnd := seed\<rparr>)));
        let g = g\<lparr>head2 := next_head (direction2 g) (head2 g)\<rparr>;
        f \<leftarrow> write_cell (snake2 g) (head2 g);
        Some (g\<lparr>snake2 := f\<rparr>) })"

text \<open>
  The tests for collisions. With one player a collision ends the loop at once; with two players all four tests and
  the test of the heads are made first.
\<close>

definition mark_loss :: "u16 \<Rightarrow> u8 \<Rightarrow> snake_game \<Rightarrow> snake_game option" where
  "mark_loss h l g = do { b \<leftarrow> set_cell_pixel h 4 (snake_bbuf g); Some (g\<lparr>snake_bbuf := b, loser := l\<rparr>) }"

definition test_collision2 :: "bytes option \<Rightarrow> snake_game \<Rightarrow> snake_game option" where
  "test_collision2 mem g = do {
     c \<leftarrow> body_collision mem (snake2 g) (head1 g);
     g \<leftarrow> (if c then mark_loss (head1 g) 1 g else Some g);
     c \<leftarrow> body_collision mem (snake1 g) (head2 g);
     g \<leftarrow> (if c then mark_loss (head2 g) (if loser g = 0 then 2 else 3) g else Some g);
     c \<leftarrow> body_collision mem (snake2 g) (head2 g);
     g \<leftarrow> (if c then mark_loss (head2 g) (if loser g = 0 then 2 else 3) g else Some g);
     if head1 g = head2 g then mark_loss (head1 g) 3 g else Some g }"

definition test_collision :: "bool \<Rightarrow> bytes option \<Rightarrow> snake_game \<Rightarrow> snake_game option" where
  "test_collision multiplayer mem g = do {
     c \<leftarrow> body_collision mem (snake1 g) (head1 g);
     if c then mark_loss (head1 g) 1 g
     else if multiplayer then test_collision2 mem g else Some g }"

text \<open>\<open>keys\<close> is the state of the keyboard during the round, by key code.\<close>

definition key_direction :: "(nat \<Rightarrow> bool) \<Rightarrow> nat \<Rightarrow> nat \<Rightarrow> nat \<Rightarrow> nat \<Rightarrow> u8 \<Rightarrow> u8" where
  "key_direction keys up down right left d =
     (let d = (if keys up then SNAKE_UP else d);
          d = (if keys down then SNAKE_DOWN else d);
          d = (if keys right then SNAKE_RIGHT else d)
      in if keys left then SNAKE_LEFT else d)"

definition snake_input :: "bool \<Rightarrow> (nat \<Rightarrow> bool) \<Rightarrow> snake_game \<Rightarrow> snake_game" where
  "snake_input multiplayer keys g =
     (if \<not> multiplayer then g\<lparr>direction1 := key_direction keys 0x48 0x50 0x4D 0x4B (direction1 g)\<rparr>
      else g\<lparr>direction1 := key_direction keys 0x11 0x1F 0x20 0x1E (direction1 g),
             direction2 := key_direction keys 0x17 0x25 0x26 0x24 (direction2 g)\<rparr>)"

definition snake_draw :: "bool \<Rightarrow> bytes option \<Rightarrow> snake_game \<Rightarrow> snake_game option" where
  "snake_draw multiplayer mem g = do {
     (h, b) \<leftarrow> draw_snake mem (snake1 g) 0xA 2 (replicate 2000 0);
     let g = g\<lparr>head1 := h\<rparr>;
     (h2, b) \<leftarrow> (if multiplayer then draw_snake mem (snake2 g) 9 1 b else Some (head2 g, b));
     let g = g\<lparr>head2 := h2\<rparr>;
     b \<leftarrow> set_cell_pixel (apple g) 6 b;
     Some (g\<lparr>snake_bbuf := b\<rparr>) }"

text \<open>One round after the test for the escape key: \<open>Inl\<close> when the loop is left because somebody has lost.\<close>

definition snake_round :: "bool \<Rightarrow> (nat \<Rightarrow> bool) \<Rightarrow> bytes option \<Rightarrow> snake_game \<Rightarrow> (snake_game + snake_game) option" where
  "snake_round multiplayer keys mem g = do {
     let g = g\<lparr>snake_endbeep := False\<rparr>;
     g \<leftarrow> test_collision multiplayer mem g;
     if loser g \<noteq> 0 then Some (Inl g)
     else do {
       let g = snake_input multiplayer keys g;
       g \<leftarrow> (if snake_frame g mod 5 = 0 then do {
                g \<leftarrow> move_snake1 mem g;
                if multiplayer then move_snake2 g else Some g }
              else Some g);
       g \<leftarrow> snake_draw multiplayer mem g;
       Some (Inr (g\<lparr>snake_frame := snake_frame g + 1\<rparr>)) } }"

text \<open>The state before the loop; \<open>ticks\<close> is the system time, the two memories are those of the queues.\<close>

fun write_cells :: "ring_fifo \<Rightarrow> u16 list \<Rightarrow> ring_fifo option" where
  "write_cells f [] = Some f"
| "write_cells f (c # cs) = do { f \<leftarrow> write_cell f c; write_cells f cs }"

definition snake_start :: "bool \<Rightarrow> u32 \<Rightarrow> bytes option \<Rightarrow> bytes option \<Rightarrow> snake_game \<Rightarrow> snake_game option" where
  "snake_start multiplayer ticks mem1 mem2 g = do {
     let (r, seed) = rand (srand ticks);
     let (a, seed) = roll_apple (srand r);
     f1 \<leftarrow> rf_alloc True mem1 4000;
     f1 \<leftarrow> write_cells f1 [0x000C, 0x010C, 0x020C];
     let g = g\<lparr>loser := 0, apple := a, rnd := seed, snake1 := f1, head1 := 0x020C, direction1 := 0, snake_frame := 0\<rparr>;
     if multiplayer then do {
       f2 \<leftarrow> rf_alloc True mem2 4000;
       f2 \<leftarrow> write_cells f2 [0x4F0C, 0x4E0C, 0x4D0C];
       Some (g\<lparr>snake2 := f2, head2 := 0x4D0C, direction2 := 0\<rparr>) }
     else Some g }"

section \<open>The cells in a queue\<close>

definition holds_cells :: "ring_fifo \<Rightarrow> u16 list \<Rightarrow> bool" where
  "holds_cells f cs \<longleftrightarrow> rf_inv f \<and> rf_size f = 4000 \<and> rf_list f = concat (map le16 cs)"

lemma length_cells: "length (concat (map le16 cs)) = 2 * length cs"
  by (induction cs) auto

lemma holds_cells_len:
  assumes "holds_cells f cs"
  shows "unat (rf_len f) = 2 * length cs" "length cs \<le> 2000"
proof -
  show *: "unat (rf_len f) = 2 * length cs"
    using assms length_rf_list [of f] by (simp add: holds_cells_def length_cells)
  show "length cs \<le> 2000" using rf_invD(4) [of f] assms * by (simp add: holds_cells_def)
qed

lemma getlength_cells:
  assumes "holds_cells f cs"
  shows "rf_getlength f = 2 \<longleftrightarrow> length cs = 1"
proof -
  have "rf_len f = 2 \<longleftrightarrow> unat (rf_len f) = 2" by (simp add: word_unat_eq_iff)
  then show ?thesis using holds_cells_len(1) [OF assms] by (auto simp: rf_getlength_def)
qed

lemma read_cell_ok:
  assumes "holds_cells f (c # cs)"
  shows "\<exists>f'. read_cell f ch = Some (f', c) \<and> holds_cells f' cs"
proof -
  from rf_read_correct [of f 2] assms obtain f' where
    "rf_read (Some f) True 2 = Some (Some f', take 2 (rf_list f), word_of_nat (min 2 (unat (rf_len f))))"
    "rf_inv f'" "rf_size f' = rf_size f" "rf_list f' = drop 2 (rf_list f)"
    by (auto simp: holds_cells_def)
  then show ?thesis using assms by (simp add: read_cell_def holds_cells_def)
qed

lemma write_cell_ok:
  assumes "holds_cells f cs" "length cs < 2000"
  shows "\<exists>f'. write_cell f c = Some f' \<and> holds_cells f' (cs @ [c])"
proof -
  from rf_write_correct [of f 2 "le16 c"] assms holds_cells_len(1) [OF assms(1)] obtain f' where
    "rf_write (Some f) (Some (le16 c)) 2 = Some (Some f', 2)"
    "rf_inv f'" "rf_size f' = rf_size f" "rf_list f' = rf_list f @ le16 c"
    by (auto simp: holds_cells_def)
  then show ?thesis using assms by (simp add: write_cell_def holds_cells_def)
qed

lemma rf_copy_ok:
  assumes "holds_cells f cs" "length mem = 4000"
  shows "\<exists>f'. rf_copy True (Some mem) f = Some f' \<and> holds_cells f' cs"
  using assms by (auto simp: rf_copy_def rf_alloc_def rf_clear_def holds_cells_def rf_inv_def rf_list_def)

lemma rf_alloc_cells: "length mem = 4000 \<Longrightarrow> \<exists>f. rf_alloc True (Some mem) 4000 = Some f \<and> holds_cells f []"
  using rf_inv_clear [of "\<lparr>rf_data = mem, rf_size = 4000, rf_start = 0, rf_end = 0, rf_len = 0\<rparr>"]
  by (simp add: rf_alloc_def holds_cells_def rf_clear_def)

section \<open>Positions on the board\<close>

definition column :: "u16 \<Rightarrow> nat" where "column c = unat (drop_bit 8 c)"
definition row :: "u16 \<Rightarrow> nat" where "row c = unat (c AND 0xFF)"

definition on_board :: "u16 \<Rightarrow> bool" where
  "on_board c \<longleftrightarrow> column c < 80 \<and> row c < 25"

definition pixel :: "u16 \<Rightarrow> nat" where
  "pixel c = row c * 80 + column c"

lemma column_row: "column c = unat c div 256" "row c = unat c mod 256"
proof -
  show "column c = unat c div 256" by (simp add: column_def drop_bit_eq_div unat_div)
  have "(255 :: u16) = mask 8" by (simp add: mask_eq_exp_minus_1)
  then have "c AND 0xFF = take_bit 8 c" by (simp only: take_bit_eq_mask)
  then show "row c = unat c mod 256"
    by (simp only: row_def unsigned_take_bit_eq) (simp add: take_bit_eq_mod)
qed

lemma cell_eqI: "column c = column d \<Longrightarrow> row c = row d \<Longrightarrow> c = d"
  unfolding column_row by (metis div_mult_mod_eq word_unat_eq_iff)

lemma pixel_bound: "on_board c \<Longrightarrow> pixel c < 2000"
  by (simp add: on_board_def pixel_def)

lemma pixel_inj: "on_board c \<Longrightarrow> on_board d \<Longrightarrow> pixel c = pixel d \<longleftrightarrow> c = d"
proof
  assume *: "on_board c" "on_board d" "pixel c = pixel d"
  have "pixel e mod 80 = column e \<and> pixel e div 80 = row e" if "on_board e" for e
    using that by (simp add: pixel_def on_board_def)
  with * show "c = d" by (metis cell_eqI)
qed simp

lemma set_cell_pixel_ok:
  assumes "on_board c" "length b = 2000"
  shows "set_cell_pixel c cl b = Some (b[pixel c := cl])"
proof -
  have "nat (uint (c AND 0xFF) * 80 + uint (drop_bit 8 c)) = pixel c"
    unfolding pixel_def row_def column_def by (simp add: nat_add_distrib nat_mult_distrib flip: nat_uint_eq)
  moreover have "\<not> uint (c AND 0xFF) * 80 + uint (drop_bit 8 c) < 0" by (simp add: not_less)
  ultimately show ?thesis using pixel_bound [OF assms(1)] assms(2) by (simp add: set_cell_pixel_def SET_PIXEL_def Let_def)
qed

definition wrap_cell :: "nat \<Rightarrow> nat \<Rightarrow> u16" where
  "wrap_cell x y = word_of_nat (256 * (x mod 80) + y mod 25)"

lemma wrap_cell_pos [simp]: "column (wrap_cell x y) = x mod 80" "row (wrap_cell x y) = y mod 25"
proof -
  have "256 * (x mod 80) + y mod 25 < 65536" "y mod 25 < 256" by (auto intro: le_less_trans [of _ "256 * 79 + 24"])
  then have "unat (wrap_cell x y) = 256 * (x mod 80) + y mod 25" unfolding wrap_cell_def by (subst unat_of_nat) simp
  with \<open>y mod 25 < 256\<close> show "column (wrap_cell x y) = x mod 80" "row (wrap_cell x y) = y mod 25"
    by (simp_all add: column_row)
qed

lemma wrap_cell_on_board [simp]: "on_board (wrap_cell x y)"
  by (simp add: on_board_def)

text \<open>The four moves in terms of columns and rows.\<close>

lemma next_head_cases:
  "next_head SNAKE_UP h = (h AND 0xFF00) + ((h AND 0xFF) - 1 + 25) mod 25"
  "next_head SNAKE_DOWN h = (h AND 0xFF00) + ((h AND 0xFF) + 1) mod 25"
  "next_head SNAKE_RIGHT h = push_bit 8 ((drop_bit 8 h + 1) mod 80) + (h AND 0xFF)"
  "next_head SNAKE_LEFT h = push_bit 8 ((drop_bit 8 h - 1 + 80) mod 80) + (h AND 0xFF)"
  by (simp_all only: next_head_def SNAKE_UP_def SNAKE_DOWN_def SNAKE_RIGHT_def SNAKE_LEFT_def word_unat_eq_iff)
    simp_all

lemma next_head_eq:
  assumes "on_board h"
  shows "next_head SNAKE_UP h = wrap_cell (column h) (row h + 24)"
    "next_head SNAKE_DOWN h = wrap_cell (column h) (row h + 1)"
    "next_head SNAKE_RIGHT h = wrap_cell (column h + 1) (row h)"
    "next_head SNAKE_LEFT h = wrap_cell (column h + 79) (row h)"
proof -
  note dirs = next_head_cases
  obtain x y where x: "column h = x" "x < 80" and y: "row h = y" "y < 25" using assms by (simp add: on_board_def)
  have r: "h AND 0xFF = word_of_nat y" using y by (simp add: row_def word_unat_eq_iff unat_of_nat)
  have c: "drop_bit 8 h = word_of_nat x" using x by (simp add: column_def word_unat_eq_iff unat_of_nat)
  have uh: "unat h = 256 * x + y" using x y column_row [of h] by (metis div_mult_mod_eq mult.commute)
  have hi: "h AND 0xFF00 = word_of_nat (256 * x)"
  proof -
    have "(0xFF00 :: u16) = push_bit 8 (mask 8)" by (simp add: mask_eq_exp_minus_1)
    moreover have "h AND push_bit 8 (mask 8) = push_bit 8 (drop_bit 8 h)"
      by (rule bit_word_eqI) (auto simp: bit_simps)
    ultimately have "h AND 0xFF00 = push_bit 8 (drop_bit 8 h)" by (simp only:)
    then show ?thesis by (simp add: c push_bit_eq_mult)
  qed
  have m: "(word_of_nat n :: u16) mod word_of_nat k = word_of_nat (n mod k)" if "n < 65536" "k < 65536" for n k
    using that by (simp add: word_unat_eq_iff unat_mod unat_of_nat mod_less_eq_dividend le_less_trans [of "n mod k" n])
  have 25: "(25 :: u16) = word_of_nat 25" and 80: "(80 :: u16) = word_of_nat 80" by simp_all
  show "next_head SNAKE_UP h = wrap_cell (column h) (row h + 24)"
    using m [of "y + 24" 25] x y by (simp add: dirs hi r wrap_cell_def add_ac)
  show "next_head SNAKE_DOWN h = wrap_cell (column h) (row h + 1)"
    using m [of "y + 1" 25] x y by (simp add: dirs hi r wrap_cell_def add_ac)
  show "next_head SNAKE_RIGHT h = wrap_cell (column h + 1) (row h)"
    using m [of "x + 1" 80] x y by (simp add: dirs c r wrap_cell_def push_bit_eq_mult add_ac)
  show "next_head SNAKE_LEFT h = wrap_cell (column h + 79) (row h)"
    using m [of "x + 79" 80] x y by (simp add: dirs c r wrap_cell_def push_bit_eq_mult add_ac)
qed

section \<open>The loops over a snake\<close>

definition paint :: "u16 list \<Rightarrow> u8 \<Rightarrow> bytes \<Rightarrow> bytes" where
  "paint cs cl b = foldl (\<lambda>b c. b[pixel c := cl]) b cs"

lemma paint_simps [simp]: "paint [] cl b = b" "paint (c # cs) cl b = paint cs cl (b[pixel c := cl])"
  by (simp_all add: paint_def)

lemma length_paint [simp]: "length (paint cs cl b) = length b"
  by (induction cs arbitrary: b) simp_all

lemma nth_paint: "i < length b \<Longrightarrow> paint cs cl b ! i = (if i \<in> pixel ` set cs then cl else b ! i)"
  by (induction cs arbitrary: b) (auto simp: nth_list_update)

lemma draw_loop_ok:
  assumes "holds_cells f cs" "cs \<noteq> []" "\<forall>c \<in> set cs. on_board c" "length b = 2000"
  shows "\<exists>f' ch'. draw_loop f ch color b = Some (f', ch', paint (butlast cs) color b) \<and> holds_cells f' [last cs]"
  using assms
proof (induction cs arbitrary: f ch b)
  case (Cons c cs)
  show ?case
  proof (cases "cs = []")
    case True
    with Cons.prems getlength_cells [OF Cons.prems(1)] show ?thesis by (simp add: draw_loop.simps)
  next
    case False
    obtain f1 where f1: "read_cell f ch = Some (f1, c)" "holds_cells f1 cs"
      using read_cell_ok [OF Cons.prems(1)] by blast
    have "draw_loop f ch color b = draw_loop f1 c color (b[pixel c := color])"
      using getlength_cells [OF Cons.prems(1)] False Cons.prems f1(1)
      by (subst draw_loop.simps) (simp add: set_cell_pixel_ok)
    with Cons.IH [OF f1(2) False, of "b[pixel c := color]" c] Cons.prems False show ?thesis by simp
  qed
qed simp

lemma draw_snake_ok:
  assumes "holds_cells f cs" "cs \<noteq> []" "\<forall>c \<in> set cs. on_board c" "length b = 2000" "length mem = 4000"
  shows "draw_snake (Some mem) f color headcolor b
    = Some (last cs, (paint (butlast cs) color b)[pixel (last cs) := headcolor])"
proof -
  obtain f1 where 1: "rf_copy True (Some mem) f = Some f1" "holds_cells f1 cs" using rf_copy_ok assms by blast
  obtain f2 ch where 2: "draw_loop f1 0 color b = Some (f2, ch, paint (butlast cs) color b)" "holds_cells f2 [last cs]"
    using draw_loop_ok [OF 1(2) assms(2-4)] by blast
  obtain f3 where 3: "read_cell f2 ch = Some (f3, last cs)" using read_cell_ok [OF 2(2)] by blast
  from assms have "on_board (last cs)" by simp
  with 1 2 3 show ?thesis using assms(4) by (simp add: draw_snake_def set_cell_pixel_ok)
qed

lemma collision_loop_ok:
  assumes "holds_cells f cs" "cs \<noteq> []"
  shows "collision_loop f ch pos = Some (pos \<in> set (butlast cs))"
  using assms
proof (induction cs arbitrary: f ch)
  case (Cons c cs)
  show ?case
  proof (cases "cs = []")
    case True
    with getlength_cells [OF Cons.prems(1)] show ?thesis by (simp add: collision_loop.simps)
  next
    case False
    obtain f1 where f1: "read_cell f ch = Some (f1, c)" "holds_cells f1 cs"
      using read_cell_ok [OF Cons.prems(1)] by blast
    have "collision_loop f ch pos = (if c = pos then Some True else collision_loop f1 c pos)"
      using getlength_cells [OF Cons.prems(1)] False f1(1) by (subst collision_loop.simps) simp
    with Cons.IH [OF f1(2) False, of c] False show ?thesis by auto
  qed
qed simp

lemma body_collision_ok:
  "holds_cells f cs \<Longrightarrow> cs \<noteq> [] \<Longrightarrow> length mem = 4000 \<Longrightarrow>
   body_collision (Some mem) f pos = Some (pos \<in> set (butlast cs))"
  using rf_copy_ok [of f cs mem] collision_loop_ok by (auto simp: body_collision_def)

lemma roll_apple_on_board: "on_board (fst (roll_apple seed))"
proof -
  have "\<exists>x y. fst (roll_apple seed) = wrap_cell x y"
  proof -
    obtain a s1 where a: "rand seed = (a, s1)" by (cases "rand seed")
    obtain b s2 where b: "rand s1 = (b, s2)" by (cases "rand s1")
    have "ucast (push_bit 8 (a mod 80) + b mod 25) = (word_of_nat (256 * (unat a mod 80) + unat b mod 25) :: u16)"
    proof -
      have "(push_bit 8 (a mod 80) + b mod 25 :: u32) = word_of_nat (256 * (unat a mod 80) + unat b mod 25)"
      proof -
        have "unat a mod 80 = unat (a mod 80)" "unat b mod 25 = unat (b mod 25)" by (simp_all add: unat_mod)
        then show ?thesis by (simp only: of_nat_add of_nat_mult word_of_nat_eq_iff) (simp add: push_bit_eq_mult)
      qed
      moreover have "ucast (word_of_nat n :: u32) = (word_of_nat n :: u16)" for n
        by (simp add: word_unat_eq_iff unsigned_ucast_eq unsigned_of_nat)
      ultimately show ?thesis by (simp only:)
    qed
    then show ?thesis by (auto simp: roll_apple_def a b wrap_cell_def)
  qed
  then show ?thesis by auto
qed

lemma new_apple_ok:
  assumes "new_apple (Some mem) f h a seed = Some (a', seed')"
    and "holds_cells f cs" "cs \<noteq> []" "h = last cs" "length mem = 4000" "on_board a"
  shows "a' \<notin> set cs \<and> on_board a'"
proof -
  have "mem' = Some mem \<longrightarrow> f' = f \<longrightarrow> h' = h \<longrightarrow> on_board a0 \<longrightarrow> fst r \<notin> set cs \<and> on_board (fst r)"
    if "new_apple mem' f' h' a0 sd = Some r" for mem' f' h' a0 sd r
    using that
  proof (induction rule: new_apple.raw_induct [rotated 1, consumes 1])
    case (1 rec mem' f' h' a0 sd r)
    show ?case
    proof (intro impI)
      assume eq: "mem' = Some mem" "f' = f" "h' = h" and on: "on_board a0"
      have set: "set cs = insert (last cs) (set (butlast cs))"
        using assms(3) by (metis append_butlast_last_id list.simps(15) rotate1.simps(2) set_rotate1)
      obtain a1 sd1 where roll: "roll_apple sd = (a1, sd1)" by (cases "roll_apple sd")
      have on1: "on_board a1" using roll_apple_on_board [of sd] roll by simp
      show "fst r \<notin> set cs \<and> on_board (fst r)"
      proof (cases "a0 \<in> set cs")
        case True
        with 1(2) have "rec mem' f' h' a1 sd1 = Some r"
          using body_collision_ok [OF assms(2,3,5), of a0] assms(4) set by (auto simp: eq roll split: if_splits)
        from 1(1) [OF this] eq on1 show ?thesis by simp
      next
        case False
        with 1(2) have "r = (a0, sd)"
          using body_collision_ok [OF assms(2,3,5), of a0] assms(4) set by (auto simp: eq split: if_splits)
        with False on show ?thesis by simp
      qed
    qed
  qed
  from this [OF assms(1)] assms(6) show ?thesis by simp
qed

section \<open>One player\<close>

definition snake_ok :: "u16 list \<Rightarrow> snake_game \<Rightarrow> bool" where
  "snake_ok cs g \<longleftrightarrow> holds_cells (snake1 g) cs \<and> cs \<noteq> [] \<and> (\<forall>c \<in> set cs. on_board c) \<and> distinct (butlast cs) \<and>
     head1 g = last cs \<and> on_board (apple g) \<and> loser g = 0 \<and> length (snake_bbuf g) = 2000"

text \<open>What the player sees: the apple over the head over the body.\<close>

definition snake_shows :: "u16 list \<Rightarrow> u16 \<Rightarrow> bytes \<Rightarrow> bool" where
  "snake_shows cs a b \<longleftrightarrow> length b = 2000 \<and>
     (\<forall>c. on_board c \<longrightarrow> b ! pixel c = (if c = a then 6 else if c = last cs then 2 else if c \<in> set cs then 0xA else 0))"

definition next_cells :: "u8 \<Rightarrow> u16 \<Rightarrow> u16 list \<Rightarrow> u16 list" where
  "next_cells dir a cs =
     (if \<not> is_direction dir then cs else (if last cs = a then cs else tl cs) @ [next_head dir (last cs)])"

lemma set_last: "cs \<noteq> [] \<Longrightarrow> set cs = insert (last cs) (set (butlast cs))"
  by (metis append_butlast_last_id list.simps(15) rotate1.simps(2) set_rotate1)

lemma distinct_last: "cs \<noteq> [] \<Longrightarrow> distinct cs \<longleftrightarrow> distinct (butlast cs) \<and> last cs \<notin> set (butlast cs)"
proof -
  assume "cs \<noteq> []"
  then have "cs = butlast cs @ [last cs]" by simp
  then show ?thesis by (metis distinct_append distinct_singleton disjoint_insert(1) empty_set inf_bot_right list.simps(15))
qed

lemma board_size:
  assumes "distinct cs" "\<forall>c \<in> set cs. on_board c"
  shows "length cs \<le> 2000"
proof -
  have "inj_on pixel (set cs)" using assms(2) pixel_inj by (auto simp: inj_on_def)
  then have "length cs = card (pixel ` set cs)" using assms(1) by (simp add: card_image distinct_card)
  also have "\<dots> \<le> card {..<2000 :: nat}" using assms(2) pixel_bound by (intro card_mono) auto
  finally show ?thesis by simp
qed

lemma next_head_on_board: "is_direction dir \<Longrightarrow> on_board h \<Longrightarrow> on_board (next_head dir h)"
  by (auto simp: is_direction_def next_head_eq)

lemma move_snake1_ok:
  assumes ok: "snake_ok cs g" and free: "last cs \<notin> set (butlast cs)" and mem: "length mem = 4000"
  shows "case move_snake1 (Some mem) g of
      None \<Rightarrow> is_direction (direction1 g) \<and> last cs = apple g \<and> new_apple (Some mem) (snake1 g) (last cs) (apple g) (rnd g) = None
    | Some g' \<Rightarrow> snake_ok (next_cells (direction1 g) (apple g) cs) g' \<and>
        (if is_direction (direction1 g) \<and> last cs = apple g then apple g' \<notin> set cs else apple g' = apple g) \<and>
        snake_frame g' = snake_frame g"
proof (cases "is_direction (direction1 g)")
  case False
  with ok show ?thesis by (simp add: move_snake1_def next_cells_def)
next
  case dir: True
  note ok' = ok [unfolded snake_ok_def]
  have d: "distinct cs" using ok' free by (simp add: distinct_last)
  then have len: "length cs \<le> 2000" using ok' board_size by blast
  have nh: "on_board (next_head (direction1 g) (last cs))" using next_head_on_board [OF dir] ok' by simp
  show ?thesis
  proof (cases "last cs = apple g")
    case False
    from ok' obtain c cs' where cs: "cs = c # cs'" by (cases cs) auto
    obtain f where f: "read_cell (snake1 g) 0 = Some (f, c)" "holds_cells f cs'"
      using read_cell_ok ok' cs by blast
    have "length cs' < 2000" using len cs by simp
    from write_cell_ok [OF f(2) this] obtain f' where
      f': "write_cell f (next_head (direction1 g) (last cs)) = Some f'" "holds_cells f' (cs' @ [next_head (direction1 g) (last cs)])"
      by blast
    have run: "move_snake1 (Some mem) g = Some (g\<lparr>snake1 := f', head1 := next_head (direction1 g) (last cs)\<rparr>)"
      using False dir ok' f(1) f'(1) by (simp add: move_snake1_def Let_def)
    have "snake_ok (next_cells (direction1 g) (apple g) cs) (g\<lparr>snake1 := f', head1 := next_head (direction1 g) (last cs)\<rparr>)"
      using ok' f'(2) nh dir False d by (simp add: snake_ok_def next_cells_def cs)
    then show ?thesis using False by (simp add: run)
  next
    case True
    show ?thesis
    proof (cases "new_apple (Some mem) (snake1 g) (last cs) (apple g) (rnd g)")
      case None
      with True dir ok' show ?thesis by (simp add: move_snake1_def)
    next
      case (Some r)
      obtain a sd where r: "r = (a, sd)" by (cases r)
      have a: "a \<notin> set cs" "on_board a" using new_apple_ok [OF Some [unfolded r] _ _ refl mem] ok' by auto
      then have "length (a # cs) \<le> 2000" using d ok' by (intro board_size) auto
      then have "length cs < 2000" by simp
      from write_cell_ok [OF _ this, of "snake1 g" "next_head (direction1 g) (last cs)"] ok' obtain f' where
        f': "write_cell (snake1 g) (next_head (direction1 g) (last cs)) = Some f'" "holds_cells f' (cs @ [next_head (direction1 g) (last cs)])"
        by blast
      let ?g = "g\<lparr>snake1 := f', head1 := next_head (direction1 g) (last cs), snake_endbeep := True, apple := a, rnd := sd\<rparr>"
      have run: "move_snake1 (Some mem) g = Some ?g"
        using True dir ok' Some r f'(1) by (simp add: move_snake1_def Let_def)
      have "snake_ok (next_cells (direction1 g) (apple g) cs) ?g"
        using ok' f'(2) nh dir True d a by (simp add: snake_ok_def next_cells_def)
      then show ?thesis using True dir a by (simp add: run)
    qed
  qed
qed

lemma snake_draw_ok:
  assumes ok: "snake_ok cs g" and mem: "length mem = 4000"
  shows "\<exists>b. snake_draw False (Some mem) g = Some (g\<lparr>snake_bbuf := b\<rparr>) \<and> snake_shows cs (apple g) b"
proof -
  note ok' = ok [unfolded snake_ok_def]
  let ?b = "(paint (butlast cs) 0xA (replicate 2000 0))[pixel (last cs) := 2]"
  have d: "draw_snake (Some mem) (snake1 g) 0xA 2 (replicate 2000 0) = Some (last cs, ?b)"
    using draw_snake_ok ok' mem by simp
  have "snake_shows cs (apple g) (?b[pixel (apple g) := 6])"
    unfolding snake_shows_def
  proof (intro conjI allI impI)
    fix c assume c: "on_board c"
    have "on_board (last cs)" "\<forall>c \<in> set (butlast cs). on_board c" using ok' by (auto dest: in_set_butlastD)
    then show "?b[pixel (apple g) := 6] ! pixel c = (if c = apple g then 6 else if c = last cs then 2 else if c \<in> set cs then 0xA else 0)"
      using ok' c pixel_bound [OF c] set_last [of cs]
      by (auto simp: nth_list_update nth_paint pixel_inj dest: pixel_inj [THEN iffD1, rotated 2])
  qed simp
  moreover have "g\<lparr>head1 := last cs, snake_bbuf := b\<rparr> = g\<lparr>snake_bbuf := b\<rparr>" for b using ok' by (cases g) simp
  ultimately show ?thesis using ok' d
    by (intro exI [of _ "?b[pixel (apple g) := 6]"]) (simp add: snake_draw_def set_cell_pixel_ok Let_def)
qed

lemma test_collision_ok:
  assumes ok: "snake_ok cs g" and mem: "length mem = 4000"
  shows "test_collision False (Some mem) g = Some (if last cs \<in> set (butlast cs)
      then g\<lparr>snake_bbuf := (snake_bbuf g)[pixel (last cs) := 4], loser := 1\<rparr> else g)"
  using ok body_collision_ok [of "snake1 g" cs mem "last cs"] mem
  by (simp add: test_collision_def snake_ok_def mark_loss_def set_cell_pixel_ok)

text \<open>The direction that is chosen, and when the snake takes a step onto the apple.\<close>

definition turn :: "(nat \<Rightarrow> bool) \<Rightarrow> snake_game \<Rightarrow> u8" where
  "turn keys g = direction1 (snake_input False keys g)"

definition eats :: "(nat \<Rightarrow> bool) \<Rightarrow> snake_game \<Rightarrow> bool" where
  "eats keys g \<longleftrightarrow> snake_frame g mod 5 = 0 \<and> is_direction (turn keys g) \<and> head1 g = apple g"

lemma snake_round_step:
  assumes ok: "snake_ok cs g" and mem: "length mem = 4000"
  shows "case snake_round False keys (Some mem) g of
      None \<Rightarrow> last cs \<notin> set (butlast cs) \<and> eats keys g \<and>
        new_apple (Some mem) (snake1 g) (last cs) (apple g) (rnd g) = None
    | Some (Inl g') \<Rightarrow> last cs \<in> set (butlast cs) \<and> loser g' = 1 \<and> snake1 g' = snake1 g
    | Some (Inr g') \<Rightarrow> last cs \<notin> set (butlast cs) \<and>
        (let cs' = (if snake_frame g mod 5 = 0 then next_cells (turn keys g) (apple g) cs else cs)
         in snake_ok cs' g' \<and> snake_shows cs' (apple g') (snake_bbuf g')) \<and>
        (if eats keys g then apple g' \<notin> set cs else apple g' = apple g) \<and>
        snake_frame g' = snake_frame g + 1"
proof (cases "last cs \<in> set (butlast cs)")
  case True
  have "snake_ok cs (g\<lparr>snake_endbeep := False\<rparr>)" using ok by (simp add: snake_ok_def)
  from test_collision_ok [OF this mem] True show ?thesis by (simp add: snake_round_def Let_def)
next
  case False
  define g1 where "g1 = snake_input False keys (g\<lparr>snake_endbeep := False\<rparr>)"
  have ok0: "snake_ok cs (g\<lparr>snake_endbeep := False\<rparr>)" and ok1: "snake_ok cs g1"
    using ok by (simp_all add: snake_ok_def g1_def snake_input_def)
  have g1: "direction1 g1 = turn keys g" "apple g1 = apple g" "snake1 g1 = snake1 g" "head1 g1 = last cs"
      "rnd g1 = rnd g" "snake_frame g1 = snake_frame g" and hd: "head1 g = last cs"
    using ok by (simp_all add: g1_def turn_def snake_input_def snake_ok_def)
  define r where "r = (if snake_frame g1 mod 5 = 0 then move_snake1 (Some mem) g1 else Some g1)"
  have "loser g = 0" using ok by (simp add: snake_ok_def)
  then have run: "snake_round False keys (Some mem) g = do {
      g \<leftarrow> r; g \<leftarrow> snake_draw False (Some mem) g; Some (Inr (g\<lparr>snake_frame := snake_frame g + 1\<rparr>)) }"
    using test_collision_ok [OF ok0 mem] False
    by (simp add: snake_round_def Let_def g1_def r_def)
  let ?cs = "if snake_frame g mod 5 = 0 then next_cells (turn keys g) (apple g) cs else cs"
  have r: "case r of None \<Rightarrow> eats keys g \<and> new_apple (Some mem) (snake1 g) (last cs) (apple g) (rnd g) = None
    | Some g2 \<Rightarrow> snake_ok ?cs g2 \<and> (if eats keys g then apple g2 \<notin> set cs else apple g2 = apple g) \<and> snake_frame g2 = snake_frame g"
    using move_snake1_ok [OF ok1 False mem] ok1 g1 by (auto simp: r_def eats_def hd split: option.splits)
  show ?thesis
  proof (cases r)
    case None
    with r False show ?thesis by (simp add: run)
  next
    case (Some g2)
    with r have ok2: "snake_ok ?cs g2" by simp
    from snake_draw_ok [OF ok2 mem] obtain b where
      b: "snake_draw False (Some mem) g2 = Some (g2\<lparr>snake_bbuf := b\<rparr>)" "snake_shows ?cs (apple g2) b" by blast
    have "snake_ok ?cs (g2\<lparr>snake_bbuf := b, snake_frame := snake_frame g + 1\<rparr>)"
      using ok2 b(2) by (simp add: snake_ok_def snake_shows_def)
    then show ?thesis using r False b Some by (simp add: run Let_def)
  qed
qed


definition snake_example :: snake_game where
  "snake_example = \<lparr>
     snake1 = \<lparr>rf_data = [0x0C, 0, 0x0C, 1, 0x0C, 2] @ replicate 3994 0, rf_size = 4000, rf_start = 0, rf_end = 6, rf_len = 6\<rparr>,
     snake2 = \<lparr>rf_data = [], rf_size = 0, rf_start = 0, rf_end = 0, rf_len = 0\<rparr>,
     direction1 = SNAKE_RIGHT, direction2 = 0, snake_endbeep = False, loser = 0, head1 = 0x020C, head2 = 0,
     apple = 0x0505, rnd = 1, snake_frame = 10, snake_bbuf = replicate 2000 0\<rparr>"

lemma le16_eq: "le16 w = [word_of_nat (unat w), word_of_nat (unat w div 256)]"
  by (simp add: le16_def numeral_2_eq_2)

lemma snake_example_ok: "snake_ok [0x000C, 0x010C, 0x020C] snake_example"
proof -
  have "holds_cells (snake1 snake_example) [0x000C, 0x010C, 0x020C]"
    by (simp add: holds_cells_def snake_example_def rf_inv_def rf_list_def le16_eq upt_rec)
  then show ?thesis by (simp add: snake_ok_def snake_example_def on_board_def column_def row_def)
qed


section \<open>A whole game\<close>

text \<open>
  The states of a game with one player, and how many apples have been eaten. The memory that the copies of the
  queue get may be another one in every round.
\<close>

inductive snake_reachable :: "snake_game \<Rightarrow> nat \<Rightarrow> bool" where
  start: "snake_start False ticks (Some mem) mem2 g0 = Some g \<Longrightarrow> length mem = 4000 \<Longrightarrow> length (snake_bbuf g0) = 2000 \<Longrightarrow>
    snake_reachable g 0"
| round: "snake_reachable g n \<Longrightarrow> length mem = 4000 \<Longrightarrow> snake_round False keys (Some mem) g = Some (Inr g') \<Longrightarrow>
    snake_reachable g' (if eats keys g then n + 1 else n)"

lemma write_cells_ok:
  "holds_cells f cs \<Longrightarrow> length cs + length ds \<le> 2000 \<Longrightarrow> \<exists>f'. write_cells f ds = Some f' \<and> holds_cells f' (cs @ ds)"
proof (induction ds arbitrary: f cs)
  case (Cons d ds)
  obtain f1 where "write_cell f d = Some f1" "holds_cells f1 (cs @ [d])" using write_cell_ok [OF Cons.prems(1), of d] Cons.prems(2) by auto
  with Cons.IH [of f1 "cs @ [d]"] Cons.prems(2) show ?case by simp
qed simp

lemma snake_start_ok:
  assumes "length mem = 4000" "length (snake_bbuf g0) = 2000"
  shows "\<exists>g. snake_start False ticks (Some mem) mem2 g0 = Some g \<and> snake_ok [0x000C, 0x010C, 0x020C] g"
proof -
  obtain f where f: "rf_alloc True (Some mem) 4000 = Some f" "holds_cells f []" using rf_alloc_cells assms by blast
  from write_cells_ok [OF f(2), of "[0x000C, 0x010C, 0x020C]"] obtain f' where
    f': "write_cells f [0x000C, 0x010C, 0x020C] = Some f'" "holds_cells f' [0x000C, 0x010C, 0x020C]" by auto
  obtain r s1 where r: "rand (srand ticks) = (r, s1)" by (cases "rand (srand ticks)")
  obtain a s2 where a: "roll_apple (srand r) = (a, s2)" by (cases "roll_apple (srand r)")
  have on: "on_board a" using roll_apple_on_board [of "srand r"] a by simp
  have "on_board 0x000C \<and> on_board 0x010C \<and> on_board 0x020C" by (simp add: on_board_def column_def row_def)
  with f f' on assms(2) show ?thesis by (simp add: snake_start_def r a snake_ok_def del: write_cells.simps)
qed

text \<open>
  In every state of a game with one player the board is consistent, and the number of points that the end of the
  game would print, \<open>rf_getlength(snake1) / 2 - 3\<close>, is the number of the apples eaten; there are never more than
  1997.
\<close>

theorem snake_points:
  assumes "snake_reachable g n"
  shows "\<exists>cs. snake_ok cs g \<and> rf_getlength (snake1 g) div 2 - 3 = word_of_nat n \<and> length cs = n + 3 \<and> n \<le> 1997"
proof -
  have "\<exists>cs. snake_ok cs g \<and> length cs = n + 3"
    using assms
  proof induction
    case (start ticks mem mem2 g0 g)
    then have "snake_ok [0x000C, 0x010C, 0x020C] g" using snake_start_ok [of mem g0 ticks mem2] by simp
    then show ?case by (intro exI [of _ "[0x000C, 0x010C, 0x020C]"]) simp
  next
    case (round g n mem keys g')
    from round.IH obtain cs where cs: "snake_ok cs g" "length cs = n + 3" by blast
    then have hd: "head1 g = last cs" "cs \<noteq> []" by (simp_all add: snake_ok_def)
    let ?cs = "if snake_frame g mod 5 = 0 then next_cells (turn keys g) (apple g) cs else cs"
    have "length ?cs = (if eats keys g then n + 1 else n) + 3"
      using cs(2) hd by (auto simp: next_cells_def eats_def)
    moreover have "snake_ok ?cs g'"
      using snake_round_step [OF cs(1) round.hyps(2), of keys] round.hyps(3) by (simp add: Let_def)
    ultimately show ?case by blast
  qed
  then obtain cs where cs: "snake_ok cs g" "length cs = n + 3" by blast
  then have h: "holds_cells (snake1 g) cs" by (simp add: snake_ok_def)
  note len = holds_cells_len [OF h]
  have "unat (rf_len (snake1 g) div 2) = n + 3" using len cs(2) by (simp add: unat_div)
  then have "rf_len (snake1 g) div 2 = word_of_nat (n + 3)" by (metis of_nat_unat ucast_id)
  then have "rf_getlength (snake1 g) div 2 - 3 = word_of_nat n" by (simp add: rf_getlength_def)
  with cs len(2) show ?thesis by (intro exI [of _ cs]) simp
qed

theorem snake_points_witness:
  "\<exists>g cs. snake_start False 5 (Some (replicate 4000 0)) None snake_example = Some g \<and>
     snake_ok cs g \<and> rf_getlength (snake1 g) div 2 - 3 = word_of_nat 0 \<and> length cs = 0 + 3 \<and> (0 :: nat) \<le> 1997"
proof -
  obtain g where g: "snake_start False 5 (Some (replicate 4000 0)) None snake_example = Some g"
    using snake_start_ok [of "replicate 4000 0" snake_example 5 None] by (auto simp: snake_example_def)
  have "snake_reachable g 0" by (rule snake_reachable.start [OF g]) (simp_all add: snake_example_def)
  from snake_points [OF this] g show ?thesis by blast
qed

text \<open>A player who fills the board does not get to see it: the search for a place of the next apple does not end.\<close>

theorem snake_board_full:
  assumes ok: "snake_ok cs g" and mem: "length mem = 4000" and free: "last cs \<notin> set (butlast cs)"
    and full: "length cs = 2000" and eat: "eats keys g"
  shows "snake_round False keys (Some mem) g = None"
proof (cases "snake_round False keys (Some mem) g")
  case (Some r)
  with snake_round_step [OF ok mem, of keys] free obtain g' where r: "r = Inr g'" by (cases r) auto
  have "apple g' \<notin> set cs" "on_board (apple g')"
    using snake_round_step [OF ok mem, of keys] Some eat unfolding r Let_def snake_ok_def by simp_all
  moreover have "distinct cs" "\<forall>c \<in> set cs. on_board c" using ok free by (simp_all add: snake_ok_def distinct_last)
  ultimately have "length (apple g' # cs) \<le> 2000" by (intro board_size) auto
  with full show ?thesis by simp
qed

end
