(* ===== verification/Synth.thy ===== *)
theory Synth
  imports Numconv
begin

text \<open>
  The synthesizer (\<open>apps/synthesizer.c\<close>): \<open>parse_sound\<close>, which reads a melody from a string, with the tables of
  \<open>io/io_sound.c\<close>, and the text that \<open>handle_note\<close> prints while the user plays. The array of the tones is the
  memory behind the pointer, eight bytes for each tone. \<open>fresh n\<close> is the memory of \<open>n\<close> bytes that an
  allocation returns.
\<close>

section \<open>Tables\<close>

definition notes_table :: "u32 list list" where
  "notes_table = [
     [16, 33, 65, 131, 262, 523, 1046, 2093],
     [17, 35, 69, 139, 277, 554, 1109, 2217],
     [18, 37, 73, 147, 294, 587, 1175, 2349],
     [19, 39, 78, 155, 311, 622, 1244, 2489],
     [21, 41, 82, 165, 330, 659, 1328, 2637],
     [22, 44, 87, 175, 349, 698, 1397, 2794],
     [23, 46, 92, 185, 370, 740, 1480, 2960],
     [24, 49, 98, 196, 392, 784, 1568, 3136],
     [26, 52, 104, 208, 415, 831, 1661, 3322],
     [27, 55, 110, 220, 440, 880, 1760, 3520],
     [29, 58, 116, 233, 466, 932, 1865, 3729],
     [31, 62, 123, 245, 494, 988, 1975, 3951]]"

text \<open>C, CSH, D, DSH, E, F, FSH, G, GSH, A, ASH, B.\<close>

definition note_names :: "bytes list" where
  "note_names = [[67], [67, 83, 72], [68], [68, 83, 72], [69], [70], [70, 83, 72], [71], [71, 83, 72], [65], [65, 83, 72], [66]]"

section \<open>Parsing\<close>

record tone =
  frequency :: s32
  duration :: s32

definition put_tone :: "bytes \<Rightarrow> nat \<Rightarrow> tone \<Rightarrow> bytes option" where
  "put_tone ret k t = wr_run (8 * k) (le32 (frequency t) @ le32 (duration t)) ret"

definition get_tone :: "bytes \<Rightarrow> nat \<Rightarrow> tone" where
  "get_tone ret k = \<lparr>frequency = un_le32 (sub_bytes (8 * k) 4 ret), duration = un_le32 (sub_bytes (8 * k + 4) 4 ret)\<rparr>"

partial_function (option) eat_space :: "mem \<Rightarrow> addr \<Rightarrow> addr option" where
  "eat_space m str = (if m str \<noteq> 0 \<and> isspace (m str) then eat_space m (str + 1) else Some str)"

text \<open>How far a name agrees with the text, and the first name that agrees furthest.\<close>

fun match_len :: "mem \<Rightarrow> addr \<Rightarrow> bytes \<Rightarrow> nat" where
  "match_len m str [] = 0"
| "match_len m str (c # cs) = (if m str \<noteq> 0 \<and> c = m str then Suc (match_len m (str + 1) cs) else 0)"

fun best_match :: "mem \<Rightarrow> addr \<Rightarrow> bytes list \<Rightarrow> nat \<Rightarrow> nat \<times> nat \<Rightarrow> nat \<times> nat" where
  "best_match m str [] note best = best"
| "best_match m str (name # names) note best =
     best_match m str names (note + 1) (if match_len m str name > fst best then (match_len m str name, note) else best)"

text \<open>
  One round: \<open>Some None\<close> when the loop is left, else the tone and the rest of the text. The result
  of \<open>strtol\<close> has been tested before it is used as an index.
\<close>

definition parse_tone :: "mem \<Rightarrow> addr \<Rightarrow> (tone \<times> addr) option option" where
  "parse_tone m str = do {
     str \<leftarrow> eat_space m str;
     let (best_match_length, best_note) = best_match m str note_names 0 (0, 0);
     let str = str + best_match_length;
     if sint (m str) < 48 \<or> sint (m str) > 57 then Some None
     else do {
       f \<leftarrow> (if best_match_length = 0 then Some (Some (0, str))
             else do {
               (octave, str) \<leftarrow> strtol m str 10;
               if sint octave < 0 \<or> sint octave > 7 then Some None
               else Some (Some (notes_table ! best_note ! unat octave, str)) });
       (case f of
          None \<Rightarrow> Some None
        | Some (freq, str) \<Rightarrow> do {
            (d, str) \<leftarrow> strtol m str 0;
            if sint d < 0 then Some None else Some (Some (\<lparr>frequency = freq, duration = d\<rparr>, str)) }) } }"

text \<open>The array grows by a new one, into which \<open>length\<close> bytes are copied.\<close>

definition grow_tones :: "(nat \<Rightarrow> bytes) \<Rightarrow> bytes \<Rightarrow> nat \<Rightarrow> nat \<Rightarrow> (bytes \<times> nat) option" where
  "grow_tones fresh ret len max_length =
     (if len + 2 \<ge> max_length then do {
        let max_length = max_length * 2;
        old \<leftarrow> rd_run 0 len ret;
        ret \<leftarrow> wr_run 0 old (fresh (max_length * 2 * 8));
        Some (ret, max_length) }
      else Some (ret, max_length))"

partial_function (option) parse_loop :: "(nat \<Rightarrow> bytes) \<Rightarrow> mem \<Rightarrow> addr \<Rightarrow> bytes \<Rightarrow> nat \<Rightarrow> nat \<Rightarrow> (bytes \<times> nat) option" where
  "parse_loop fresh m str ret len max_length = do {
     r \<leftarrow> parse_tone m str;
     (case r of
        None \<Rightarrow> Some (ret, len)
      | Some (t, str) \<Rightarrow> do {
          (ret, max_length) \<leftarrow> grow_tones fresh ret len max_length;
          ret \<leftarrow> put_tone ret len t;
          parse_loop fresh m str ret (len + 1) max_length }) }"

definition parse_sound :: "(nat \<Rightarrow> bytes) \<Rightarrow> mem \<Rightarrow> addr \<Rightarrow> bytes option" where
  "parse_sound fresh m str = do {
     (ret, len) \<leftarrow> parse_loop fresh m str (fresh (16 * 8)) 0 16;
     put_tone ret len \<lparr>frequency = 0, duration = - 1\<rparr> }"

text \<open>The loop of \<open>shell_cmd_synth\<close> plays the tones up to the first with a negative duration.\<close>

function played :: "bytes \<Rightarrow> nat \<Rightarrow> tone list option" where
  "played ret k =
     (if length ret < 8 * k + 8 then None
      else if sint (duration (get_tone ret k)) \<ge> 0 then map_option ((#) (get_tone ret k)) (played ret (k + 1))
      else Some [])"
  by pat_completeness auto

termination played
  by (relation "measure (\<lambda>(ret, k). length ret + 8 - 8 * k)") auto

text \<open>\<open>handle_note\<close> prints \<open>"%s%d %d "\<close>.\<close>

definition note_text :: "nat \<times> s32 \<times> s32 \<Rightarrow> bytes" where
  "note_text nod = (case nod of (note, octave, note_length) \<Rightarrow>
     note_names ! note @ itoa_str octave 10 @ [32] @ itoa_str note_length 10 @ [32])"

section \<open>Numerals inside of a text\<close>

text \<open>The bytes \<open>s\<close> are in memory at \<open>p\<close>, followed by anything.\<close>

primrec text_at :: "mem \<Rightarrow> addr \<Rightarrow> bytes \<Rightarrow> bool" where
  "text_at m p [] \<longleftrightarrow> True"
| "text_at m p (c # cs) \<longleftrightarrow> m p = c \<and> text_at m (p + 1) cs"

lemma text_at_append [simp]: "text_at m p (s @ t) \<longleftrightarrow> text_at m p s \<and> text_at m (p + length s) t"
  by (induction s arbitrary: p) auto

lemma strtol_loop_text:
  assumes "text_at m p (map digit_char ds)" "\<forall>d \<in> set ds. int d < sint base \<and> d < 36" "m (p + length ds) = 32"
  shows "strtol_loop m p ret base = Some (foldl (\<lambda>r d. r * base - word_of_nat d) ret ds, p + length ds)"
  using assms
proof (induction ds arbitrary: p ret)
  case Nil
  have "sint (digit_value 32) < 0" by (simp add: digit_value_def)
  with Nil show ?case by (subst strtol_loop.simps) simp
next
  case (Cons d ds)
  then show ?case by (subst strtol_loop.simps) (simp add: digit_char)
qed

lemma strtol_loop_num:
  assumes "text_at m p (num_str 10 num)" "m (p + length (num_str 10 num)) = 32"
  shows "strtol_loop m p 0 10 = Some (- num, p + length (num_str 10 num))"
proof -
  have b: "2 \<le> unat (10 :: u32)" "unat (10 :: u32) \<le> 36" by simp_all
  have "\<forall>d \<in> set (rev (num_digits (unat (10 :: u32)) (unat num))). int d < sint (10 :: u32) \<and> d < 36"
    using num_digits_bound [OF b] by simp
  with assms have "strtol_loop m p 0 10 =
      Some (foldl (\<lambda>r d. r * 10 - word_of_nat d) 0 (rev (num_digits (unat (10 :: u32)) (unat num))),
        p + length (rev (num_digits (unat (10 :: u32)) (unat num))))"
    unfolding num_str_def by (intro strtol_loop_text) simp_all
  then show ?thesis using foldl_num_digits [OF b(1)] by (simp add: num_str_def)
qed

lemma last_num_digits: "2 \<le> b \<Longrightarrow> 0 < n \<Longrightarrow> last (num_digits b n) \<noteq> 0"
proof (induction b n rule: num_digits.induct)
  case (1 b n)
  then show ?case by (subst num_digits.simps) (auto simp: div_greater_zero_iff)
qed

lemma num_str_first:
  obtains d cs where "num_str 10 num = digit_char d # cs" "d < 10" "num \<noteq> 0 \<longrightarrow> d \<noteq> 0"
proof -
  let ?ds = "num_digits 10 (unat num)"
  have ds: "rev ?ds = last ?ds # rev (butlast ?ds)" by (metis append_butlast_last_id num_digits_nonempty rev_eq_Cons_iff rev_rev_ident)
  have "num_str 10 num = map digit_char (rev ?ds)" by (simp add: num_str_def)
  then have "num_str 10 num = digit_char (last ?ds) # map digit_char (rev (butlast ?ds))" by (simp only: ds list.map)
  moreover have "last ?ds < 10" using num_digits_less [of 10 _ "unat num"] by simp
  moreover have "num \<noteq> 0 \<longrightarrow> last ?ds \<noteq> 0" using last_num_digits [of 10 "unat num"] by (auto simp: unat_gt_0)
  ultimately show thesis by (rule that)
qed

lemma digit_code:
  assumes "d < 10"
  shows "sint (digit_char d) = int d + 48" "unat (digit_char d) = d + 48"
proof -
  have "\<forall>d \<in> set [0..<10]. sint (digit_char d) = int d + 48 \<and> unat (digit_char d) = d + 48"
    by (simp add: upt_rec digit_char_def itoa_digit_def)
  then show "sint (digit_char d) = int d + 48" "unat (digit_char d) = d + 48" using assms by auto
qed

text \<open>\<open>strtol\<close> with base 10 and with base 0 reads a decimal numeral before a space.\<close>

lemma strtol_num_text:
  assumes t: "text_at m p (num_str 10 num)" "m (p + length (num_str 10 num)) = 32" and b: "base = 10 \<or> base = 0"
  shows "strtol m p base = Some (num, p + length (num_str 10 num))"
proof -
  obtain d cs where d: "num_str 10 num = digit_char d # cs" "d < 10" "num \<noteq> 0 \<longrightarrow> d \<noteq> 0" by (rule num_str_first [of num])
  with t have mp: "m p = digit_char d" by simp
  note dc = digit_char [of d]
  from d(2) mp have start: "strtol m p base = (let (base, p) = (if base \<noteq> 0 then (base, p)
                      else if m p \<noteq> 48 then (10, p)
                      else if m (p + 1) = 88 \<or> m (p + 1) = 120 then (16, p + 2)
                      else (8, p + 1)) in do { (ret, p) \<leftarrow> strtol_loop m p 0 base; Some (ret * - 1, p) })"
    using dc by (simp add: strtol_def skip_space.simps [of m p] Let_def)
  show ?thesis
  proof (cases "base = 0 \<and> num = 0")
    case True
    have z: "num_str 10 0 = [48]" by (simp add: num_str_def num_digits.simps digit_char_def itoa_digit_def)
    have "m p = 48" "m (p + 1) = 32" using t True by (simp_all add: z)
    moreover have "strtol_loop m (p + 1) 0 8 = Some (0, p + 1)"
      using strtol_loop_text [of m "p + 1" "[]" 8 0] \<open>m (p + 1) = 32\<close> by simp
    ultimately show ?thesis unfolding start using True by (simp add: z)
  next
    case False
    have "m p \<noteq> 48 \<or> base \<noteq> 0"
    proof (cases "base = 0")
      case True
      with False d(3) have "d \<noteq> 0" by simp
      then have "unat (m p) \<noteq> unat (48 :: u8)" using digit_code(2) [OF d(2)] by (simp add: mp)
      then show ?thesis by auto
    qed simp
    with b have "(if base \<noteq> 0 then (base, p) else if m p \<noteq> 48 then (10, p)
        else if m (p + 1) = 88 \<or> m (p + 1) = 120 then (16, p + 2) else (8, p + 1)) = (10, p)" by auto
    with strtol_loop_num [OF t] show ?thesis by (simp add: start)
  qed
qed

section \<open>Reading what was played\<close>

definition playable :: "nat \<times> s32 \<times> s32 \<Rightarrow> bool" where
  "playable nod = (case nod of (note, octave, len) \<Rightarrow> note < 12 \<and> unat octave \<le> 7 \<and> unat len < 2 ^ 31)"

definition tone_of :: "nat \<times> s32 \<times> s32 \<Rightarrow> tone" where
  "tone_of nod = (case nod of (note, octave, len) \<Rightarrow> \<lparr>frequency = notes_table ! note ! unat octave, duration = len\<rparr>)"

lemma itoa_str_small: "unat n < 2 ^ 31 \<Longrightarrow> itoa_str n 10 = num_str 10 n"
  using sint_small [of n] by (simp add: itoa_str_def)

lemma note_name_start: "note < 12 \<Longrightarrow> \<exists>c cs. note_names ! note = c # cs \<and> c \<in> {65..71} \<and> length (c # cs) \<in> {1, 3}"
proof -
  have "\<forall>note \<in> set [0..<12]. \<exists>c cs. note_names ! note = c # cs \<and> c \<in> {65..71} \<and> length (c # cs) \<in> {1, 3}"
    by (simp add: upt_rec note_names_def)
  then show "note < 12 \<Longrightarrow> ?thesis" by auto
qed

lemma best_match_names:
  assumes "note < 12" "text_at m p (note_names ! note)" "m (p + length (note_names ! note)) = d" "d < 65"
  shows "best_match m p note_names 0 (0, 0) = (length (note_names ! note), note)"
proof -
  have d: "d \<noteq> 83" using assms(4) by auto
  have "note = 0 \<or> note = 1 \<or> note = 2 \<or> note = 3 \<or> note = 4 \<or> note = 5 \<or> note = 6 \<or> note = 7 \<or> note = 8 \<or>
      note = 9 \<or> note = 10 \<or> note = 11"
    using assms(1) by presburger
  then show ?thesis using assms(2,3) d
    by (elim disjE) (simp_all add: note_names_def)
qed

lemma eat_space_nonspace: "\<not> isspace (m p) \<Longrightarrow> eat_space m p = Some p"
  by (simp add: eat_space.simps)

lemma eat_space_one: "m p = 32 \<Longrightarrow> eat_space m p = eat_space m (p + 1)"
  by (subst eat_space.simps) (simp add: isspace_def)

lemma parse_tone_space: "m p = 32 \<Longrightarrow> parse_tone m p = parse_tone m (p + 1)"
  by (simp add: parse_tone_def eat_space_one)

lemma parse_tone_end: "m p = 0 \<Longrightarrow> parse_tone m p = Some None"
proof -
  assume m: "m p = 0"
  have "match_len m p cs = 0" for cs using m by (cases cs) simp_all
  then have "best_match m p names k (0, 0) = (0, 0)" for names k by (induction names arbitrary: k) simp_all
  with m show ?thesis by (simp add: parse_tone_def eat_space.simps [of m p])
qed

text \<open>One note is read back, up to the space behind it.\<close>

lemma parse_tone_note:
  assumes p: "playable nod" and t: "text_at m p (note_text nod)"
  shows "parse_tone m p = Some (Some (tone_of nod, p + length (note_text nod) - 1))"
proof -
  obtain nt oct len where nod: "nod = (nt, oct, len)" by (cases nod)
  note pl = p [unfolded playable_def nod prod.case]
  let ?name = "note_names ! nt"
  let ?q = "p + length ?name"
  let ?r = "?q + length (num_str 10 oct)"
  have "unat oct < 2 ^ 31" using pl by simp
  then have ntx: "note_text nod = ?name @ num_str 10 oct @ [32] @ num_str 10 len @ [32]"
    using pl by (simp add: nod note_text_def itoa_str_small)
  with t have tx: "text_at m p ?name" "text_at m ?q (num_str 10 oct)" "m ?r = 32"
    "text_at m (?r + 1) (num_str 10 len)" "m (?r + 1 + length (num_str 10 len)) = 32"
    by (simp_all add: add.assoc)
  obtain c cs where c: "?name = c # cs" "c \<in> {65..71}" "length (c # cs) \<in> {1, 3}" using note_name_start pl by blast
  obtain d ds where d: "num_str 10 oct = digit_char d # ds" "d < 10" by (rule num_str_first [of oct])
  have q: "m ?q = digit_char d" using tx(2) d by simp
  have d65: "digit_char d < 65" using digit_code(2) [OF d(2)] d(2) by (simp add: word_less_nat_alt)
  have bm: "best_match m p note_names 0 (0, 0) = (length ?name, nt)"
    using best_match_names [OF _ tx(1) q d65] pl by simp
  have "m p = c" using tx(1) c(1) by simp
  moreover have "\<not> isspace c" using c(2) by (auto simp: isspace_def)
  ultimately have es: "eat_space m p = Some p" by (simp add: eat_space_nonspace)
  have s1: "strtol m ?q 10 = Some (oct, ?r)" using strtol_num_text [OF tx(2,3)] by simp
  have "strtol m (?r + 1) 0 = Some (len, ?r + 1 + length (num_str 10 len))"
    using strtol_num_text [OF tx(4,5)] by simp
  moreover have "strtol m ?r 0 = strtol m (?r + 1) 0"
    using tx(3) by (simp add: strtol_def skip_space.simps [of m ?r] isspace_def)
  ultimately have s2: "strtol m ?r 0 = Some (len, ?r + 1 + length (num_str 10 len))" by simp
  have dq: "\<not> (sint (m ?q) < 48 \<or> 57 < sint (m ?q))" using digit_code(1) [OF d(2)] d(2) q by simp
  have "sint oct = int (unat oct)" "sint len = int (unat len)"
    by (rule sint_small, use pl in simp)+
  then have oct: "\<not> (sint oct < 0 \<or> 7 < sint oct)" and len: "\<not> sint len < 0" using pl by linarith+
  have n0: "length ?name \<noteq> 0" using c by simp
  show ?thesis
    using es bm s1 s2 dq oct len n0
    by (simp add: parse_tone_def tone_of_def nod ntx [unfolded nod] add.assoc)
qed

section \<open>The array of tones\<close>

definition tone_bytes :: "tone \<Rightarrow> bytes" where
  "tone_bytes t = le32 (frequency t) @ le32 (duration t)"

lemma length_tone_bytes [simp]: "length (tone_bytes t) = 8"
  by (simp add: tone_bytes_def)

lemma get_put_tone:
  assumes "put_tone ret k t = Some ret'" "8 * j + 8 \<le> length ret"
  shows "get_tone ret' j = (if j = k then t else get_tone ret j)" "length ret' = length ret"
proof -
  from assms have r: "8 * k + 8 \<le> length ret" "ret' = blit (8 * k) (tone_bytes t) ret"
    by (auto simp: put_tone_def tone_bytes_def)
  then show "length ret' = length ret" by simp
  show "get_tone ret' j = (if j = k then t else get_tone ret j)"
  proof (cases "j = k")
    case True
    have "sub_bytes (8 * k) 8 ret' = tone_bytes t" using r by simp
    moreover have "sub_bytes (8 * k) 4 ret' = take 4 (sub_bytes (8 * k) 8 ret')"
      "sub_bytes (8 * k + 4) 4 ret' = drop 4 (sub_bytes (8 * k) 8 ret')"
      by (simp_all add: sub_bytes_def drop_take add.commute)
    ultimately show ?thesis using True by (simp add: get_tone_def tone_bytes_def)
  next
    case False
    then have "8 * j + 8 \<le> 8 * k \<or> 8 * k + 8 \<le> 8 * j" by linarith
    then have "sub_bytes q 4 ret' = sub_bytes q 4 ret" if "q = 8 * j \<or> q = 8 * j + 4" for q
      unfolding r(2) using that r(1) assms(2) by (intro sub_bytes_blit_other) auto
    with False show ?thesis by (simp add: get_tone_def)
  qed
qed

text \<open>While at most 14 tones are stored, the array does not grow.\<close>

lemma parse_loop_small:
  assumes "\<forall>nod \<in> set ts. playable nod" "text_at m p (concat (map note_text ts))"
    and "len + length ts \<le> 14" "length ret = 128"
  shows "\<exists>ret'. parse_loop fresh m p ret len 16
      = parse_loop fresh m (p + length (concat (map note_text ts))) ret' (len + length ts) 16 \<and> length ret' = 128 \<and>
    (\<forall>j < 16. get_tone ret' j = (if len \<le> j \<and> j < len + length ts then tone_of (ts ! (j - len)) else get_tone ret j))"
  using assms
proof (induction ts arbitrary: p ret len)
  case Nil
  then show ?case by auto
next
  case (Cons t ts)
  let ?p = "p + length (note_text t)"
  have sp: "note_text t \<noteq> []" "last (note_text t) = 32" by (simp_all add: note_text_def split: prod.split)
  have "text_at m (p + (length (note_text t) - 1)) [32]"
    using Cons.prems(2) sp append_butlast_last_id [OF sp(1)] text_at_append [of m p "butlast (note_text t)" "[32]"] by simp
  then have sp32: "m (?p - 1) = 32" using sp(1) by (cases "note_text t") simp_all
  have pt: "parse_tone m p = Some (Some (tone_of t, ?p - 1))" using parse_tone_note [of t m p] Cons.prems by simp
  have "8 * len + 8 \<le> length ret" using Cons.prems by simp
  then obtain ret1 where r1: "put_tone ret len (tone_of t) = Some ret1" by (auto simp: put_tone_def)
  have len1: "length ret1 = 128" using get_put_tone(2) [OF r1 \<open>8 * len + 8 \<le> length ret\<close>] Cons.prems by simp
  have g: "grow_tones fresh ret len 16 = Some (ret, 16)" using Cons.prems by (simp add: grow_tones_def)
  have step: "parse_loop fresh m p ret len 16 = parse_loop fresh m (?p - 1) ret1 (len + 1) 16"
    using pt r1 g by (subst parse_loop.simps) simp
  have skip: "parse_loop fresh m (?p - 1) ret1 (len + 1) 16 = parse_loop fresh m ?p ret1 (len + 1) 16"
  proof -
    have "parse_tone m (?p - 1) = parse_tone m ?p" using parse_tone_space [of m "?p - 1", OF sp32] sp(1) by (cases "note_text t") simp_all
    then show ?thesis by (subst (1 2) parse_loop.simps) simp
  qed
  from Cons.IH [of ?p "len + 1" ret1] Cons.prems len1 obtain ret' where
    r': "parse_loop fresh m ?p ret1 (len + 1) 16
        = parse_loop fresh m (?p + length (concat (map note_text ts))) ret' (len + 1 + length ts) 16" "length ret' = 128"
    "\<forall>j < 16. get_tone ret' j = (if len + 1 \<le> j \<and> j < len + 1 + length ts then tone_of (ts ! (j - (len + 1))) else get_tone ret1 j)"
    by auto
  have all: "get_tone ret' j = (if len \<le> j \<and> j < len + length (t # ts) then tone_of ((t # ts) ! (j - len)) else get_tone ret j)" if "j < 16" for j
    using r'(3) that get_put_tone(1) [OF r1, of j] Cons.prems(4) by (auto simp: nth_Cons dest: diff_Suc_eqD split: nat.split)
  have "parse_loop fresh m p ret len 16
      = parse_loop fresh m (p + length (concat (map note_text (t # ts)))) ret' (len + length (t # ts)) 16"
    unfolding step skip r'(1) by (simp add: add.assoc)
  with r'(2) all show ?case by blast
qed

lemma played_upto:
  "k \<le> n \<Longrightarrow> 8 * n + 8 \<le> length ret \<Longrightarrow> \<forall>j. k \<le> j \<and> j < n \<longrightarrow> 0 \<le> sint (duration (get_tone ret j)) \<Longrightarrow>
   sint (duration (get_tone ret n)) < 0 \<Longrightarrow> played ret k = Some (map (get_tone ret) [k..<n])"
proof (induction ret k rule: played.induct)
  case (1 ret k)
  then show ?case by (cases "k = n") (subst played.simps, auto simp: upt_conv_Cons)+
qed

lemma cstr_text: "cstr m p s \<Longrightarrow> text_at m p s \<and> m (p + length s) = 0"
proof
  show "text_at m p s" if "cstr m p s" using that by (induction s arbitrary: p) auto
qed (rule cstr_end)

lemma parse_loop_end: "m p = 0 \<Longrightarrow> parse_loop fresh m p ret len mx = Some (ret, len)"
  by (subst parse_loop.simps) (simp add: parse_tone_end)

lemma tone_of_duration: "playable nod \<Longrightarrow> 0 \<le> sint (duration (tone_of nod))"
  using sint_small by (auto simp: playable_def tone_of_def split: prod.splits)

text \<open>
  C30. The synthesizer reads back what it prints: a text of up to 14 notes, as \<open>handle_note\<close> prints them, is parsed
  to an array from which exactly these notes are played, with the frequencies of the table and
  the lengths that were printed, and then the sentinel stops.
\<close>

theorem parse_sound_roundtrip:
  assumes ts: "\<forall>nod \<in> set ts. playable nod" "length ts \<le> 14"
    and m: "cstr m p (concat (map note_text ts))" and fresh: "length (fresh 128) = 128"
  shows "\<exists>ret. parse_sound fresh m p = Some ret \<and> played ret 0 = Some (map tone_of ts)"
proof -
  note c = cstr_text [OF m]
  from parse_loop_small [of ts m p 0 "fresh 128" fresh] ts c fresh obtain ret where
    r: "parse_loop fresh m p (fresh 128) 0 16 = parse_loop fresh m (p + length (concat (map note_text ts))) ret (length ts) 16" "length ret = 128"
      "\<forall>j < 16. get_tone ret j = (if j < length ts then tone_of (ts ! j) else get_tone (fresh 128) j)"
    by auto
  have r1: "parse_loop fresh m p (fresh 128) 0 16 = Some (ret, length ts)" unfolding r(1) using c by (intro parse_loop_end) simp
  have fit: "8 * length ts + 8 \<le> length ret" using r(2) ts by simp
  then obtain ret' where r': "put_tone ret (length ts) \<lparr>frequency = 0, duration = - 1\<rparr> = Some ret'" by (auto simp: put_tone_def)
  note g = get_put_tone [OF r']
  have tones: "get_tone ret' j = tone_of (ts ! j)" if "j < length ts" for j using g(1) [of j] r(2,3) ts(2) that by simp
  have stop: "sint (duration (get_tone ret' (length ts))) < 0" using g(1) [OF fit] by simp
  have "played ret' 0 = Some (map (get_tone ret') [0..<length ts])"
    using played_upto [OF _ _ _ stop, of 0] g(2) [OF fit] r(2) ts tones tone_of_duration by simp
  also have "map (get_tone ret') [0..<length ts] = map tone_of ts" using tones by (intro nth_equalityI) simp_all
  finally show ?thesis using r1 r' by (simp add: parse_sound_def)
qed

theorem parse_sound_roundtrip_witness:
  "\<exists>ret. parse_sound (\<lambda>n. replicate n 7) (put_bytes (\<lambda>_. 9) 100 (concat (map note_text [(0, 4, 20), (10, 7, 0)]) @ [0])) 100 = Some ret \<and>
     played ret 0 = Some (map tone_of [(0, 4, 20), (10, 7, 0)])"
proof (rule parse_sound_roundtrip)
  show "cstr (put_bytes (\<lambda>_. 9) 100 (concat (map note_text [(0, 4, 20), (10, 7, 0)]) @ [0])) 100 (concat (map note_text [(0, 4, 20), (10, 7, 0)]))"
    by (rule cstr_put) (simp add: note_text_def itoa_str_nz note_names_def)
qed (simp_all add: playable_def)

text \<open>
  With a fifteenth note the array grows, and the notes from the third to the fourteenth are lost: at
  their places in the result is what the new memory happened to contain.
\<close>

theorem parse_sound_loses_tones:
  assumes ts: "\<forall>nod \<in> set ts. playable nod" "length ts = 15"
    and m: "cstr m p (concat (map note_text ts))" and fresh: "length (fresh 128) = 128" "length (fresh 512) = 512"
  shows "\<exists>ret. parse_sound fresh m p = Some ret \<and> (\<forall>j. 2 \<le> j \<and> j < 14 \<longrightarrow> get_tone ret j = get_tone (fresh 512) j)"
proof -
  obtain us u where us: "ts = us @ [u]" "length us = 14" using ts(2) by (cases ts rule: rev_cases) auto
  note c = cstr_text [OF m]
  let ?p = "p + length (concat (map note_text us))"
  from parse_loop_small [of us m p 0 "fresh 128" fresh] ts c fresh us obtain ret where
    r: "parse_loop fresh m p (fresh 128) 0 16 = parse_loop fresh m ?p ret 14 16" "length ret = 128"
    by auto
  have u: "playable u" "text_at m ?p (note_text u)" "m (?p + length (note_text u)) = 0" using ts(1) c us by (simp_all add: add.assoc)
  have last: "note_text u \<noteq> []" "last (note_text u) = 32" by (simp_all add: note_text_def split: prod.split)
  have "text_at m (?p + (length (note_text u) - 1)) [32]"
    using u(2) last append_butlast_last_id [OF last(1)] text_at_append [of m ?p "butlast (note_text u)" "[32]"] by simp
  then have sp32: "m (?p + length (note_text u) - 1) = 32" using last(1) by (cases "note_text u") simp_all
  let ?q = "?p + length (note_text u) - 1"
  have pt: "parse_tone m ?p = Some (Some (tone_of u, ?q))" by (rule parse_tone_note [OF u(1,2)])
  have pend: "parse_tone m ?q = Some None"
  proof -
    have "parse_tone m ?q = parse_tone m (?p + length (note_text u))" using parse_tone_space [of m ?q, OF sp32] last(1) by (cases "note_text u") simp_all
    then show ?thesis using parse_tone_end [of m "?p + length (note_text u)", OF u(3)] by simp
  qed
  define new where "new = blit 0 (sub_bytes 0 14 ret) (fresh 512)"
  have g: "grow_tones fresh ret 14 16 = Some (new, 32)" using r(2) fresh(2) by (simp add: grow_tones_def new_def)
  have len: "length new = 512" using r(2) fresh(2) by (simp add: new_def)
  then obtain r1 where r1: "put_tone new 14 (tone_of u) = Some r1" by (auto simp: put_tone_def)
  have len1: "length r1 = 512" using get_put_tone(2) [OF r1, of 0] len by simp
  then obtain r2 where r2: "put_tone r1 15 \<lparr>frequency = 0, duration = - 1\<rparr> = Some r2" by (auto simp: put_tone_def)
  have "parse_loop fresh m ?p ret 14 16 = parse_loop fresh m ?q r1 15 32"
    using pt g r1 by (subst parse_loop.simps) simp
  moreover have "parse_loop fresh m ?q r1 15 32 = Some (r1, 15)" using pend by (subst parse_loop.simps) simp
  ultimately have "parse_sound fresh m p = Some r2" using r(1) r2 by (simp add: parse_sound_def)
  moreover have "get_tone r2 j = get_tone (fresh 512) j" if "2 \<le> j \<and> j < 14" for j
  proof -
    have "get_tone r2 j = get_tone new j"
      using get_put_tone(1) [OF r2, of j] get_put_tone(1) [OF r1, of j] len len1 that by simp
    moreover have "sub_bytes q 4 new = sub_bytes q 4 (fresh 512)" if "q = 8 * j \<or> q = 8 * j + 4" for q
      unfolding new_def using that \<open>2 \<le> j \<and> j < 14\<close> r(2) fresh(2) by (intro sub_bytes_blit_other) auto
    ultimately show ?thesis by (simp add: get_tone_def)
  qed
  ultimately show ?thesis by blast
qed

theorem parse_sound_loses_tones_witness:
  "\<exists>ret. parse_sound (\<lambda>n. replicate n 7) (put_bytes (\<lambda>_. 9) 100 (concat (map note_text (replicate 15 (2, 3, 5))) @ [0])) 100 = Some ret \<and>
     (\<forall>j. 2 \<le> j \<and> j < 14 \<longrightarrow> get_tone ret j = get_tone (replicate 512 7) j)"
proof (rule parse_sound_loses_tones)
  show "cstr (put_bytes (\<lambda>_. 9) 100 (concat (map note_text (replicate 15 (2, 3, 5))) @ [0])) 100 (concat (map note_text (replicate 15 (2, 3, 5))))"
    by (rule cstr_put) (simp add: note_text_def itoa_str_nz note_names_def)
qed (simp_all add: playable_def)

end
