(* ===== verification/Stubs.thy ===== *)
theory Stubs
  imports Syscalls
begin

text \<open>
  The client side of the system calls (\<open>pm/syscalls_cli.c\<close>): each stub fills an argument structure and raises
  interrupt 0x42, which runs \<open>pm_syscall\<close> with the number of the call (\<open>pm/syscalls_shared.h\<close>); its result is the
  field that the handler has set. The names are those of the C functions without the leading underscore, with the
  suffix \<open>_call\<close>.
\<close>

definition SYS_LOG :: u32 where "SYS_LOG = 0"
definition SYS_EXIT :: u32 where "SYS_EXIT = 1"
definition SYS_GETPID :: u32 where "SYS_GETPID = 2"
definition SYS_OPEN :: u32 where "SYS_OPEN = 3"
definition SYS_CLOSE :: u32 where "SYS_CLOSE = 4"
definition SYS_READ :: u32 where "SYS_READ = 5"
definition SYS_WRITE :: u32 where "SYS_WRITE = 6"
definition SYS_SEEK :: u32 where "SYS_SEEK = 7"
definition SYS_MALLOC :: u32 where "SYS_MALLOC = 8"
definition SYS_FREE :: u32 where "SYS_FREE = 9"
definition SYS_UNLINK :: u32 where "SYS_UNLINK = 10"
definition SYS_STAT :: u32 where "SYS_STAT = 11"
definition SYS_KILL :: u32 where "SYS_KILL = 12"

lemmas sys_numbers = SYS_LOG_def SYS_EXIT_def SYS_GETPID_def SYS_OPEN_def SYS_CLOSE_def SYS_READ_def SYS_WRITE_def SYS_SEEK_def
  SYS_MALLOC_def SYS_FREE_def SYS_UNLINK_def SYS_STAT_def SYS_KILL_def

section \<open>The stubs\<close>

text \<open>The result fields; a result of another kind cannot come back.\<close>

fun int_result :: "kernel \<times> sys_result \<Rightarrow> (kernel \<times> s32) option" where
  "int_result (k, RInt r) = Some (k, r)"
| "int_result _ = None"

definition log_call :: "sys_env \<Rightarrow> kernel \<Rightarrow> bytes \<Rightarrow> kernel option" where
  "log_call e k msg = map_option fst (pm_syscall e k SYS_LOG (ArgStr msg))"

text \<open>After the call \<open>_exit\<close> waits for interrupts for ever: the result is the state in which it waits.\<close>

definition exit_call :: "sys_env \<Rightarrow> kernel \<Rightarrow> kernel option" where
  "exit_call e k = map_option fst (pm_syscall e k SYS_EXIT ArgNone)"

definition getpid_call :: "sys_env \<Rightarrow> kernel \<Rightarrow> (kernel \<times> s32) option" where
  "getpid_call e k = pm_syscall e k SYS_GETPID ArgNone \<bind> int_result"

definition open_call :: "sys_env \<Rightarrow> kernel \<Rightarrow> bytes \<Rightarrow> s32 \<Rightarrow> (kernel \<times> s32) option" where
  "open_call e k path oflag = pm_syscall e k SYS_OPEN (ArgOpen path oflag) \<bind> int_result"

definition close_call :: "sys_env \<Rightarrow> kernel \<Rightarrow> s32 \<Rightarrow> (kernel \<times> s32) option" where
  "close_call e k fd = pm_syscall e k SYS_CLOSE (ArgFd fd) \<bind> int_result"

text \<open>Reading from the standard input may wait: \<open>Inl\<close>.\<close>

definition read_call :: "sys_env \<Rightarrow> kernel \<Rightarrow> s32 \<Rightarrow> bytes \<Rightarrow> s32 \<Rightarrow> (kernel \<times> (unit + bytes \<times> s32)) option" where
  "read_call e k fd buf sz = do {
     (k, r) \<leftarrow> pm_syscall e k SYS_READ (ArgBuf fd buf sz);
     (case r of RBuf b n \<Rightarrow> Some (k, Inr (b, n)) | RWait \<Rightarrow> Some (k, Inl ()) | _ \<Rightarrow> None) }"

definition write_call :: "sys_env \<Rightarrow> kernel \<Rightarrow> s32 \<Rightarrow> bytes \<Rightarrow> s32 \<Rightarrow> (kernel \<times> s32) option" where
  "write_call e k fd buf sz = pm_syscall e k SYS_WRITE (ArgBuf fd buf sz) \<bind> int_result"

definition seek_call :: "sys_env \<Rightarrow> kernel \<Rightarrow> s32 \<Rightarrow> s32 \<Rightarrow> s32 \<Rightarrow> (kernel \<times> s32) option" where
  "seek_call e k fd offset whence = pm_syscall e k SYS_SEEK (ArgSeek fd offset whence) \<bind> int_result"

definition malloc_call :: "sys_env \<Rightarrow> kernel \<Rightarrow> u32 \<Rightarrow> (kernel \<times> u32) option" where
  "malloc_call e k sz = pm_syscall e k SYS_MALLOC (ArgWord sz) \<bind> int_result"

definition free_call :: "sys_env \<Rightarrow> kernel \<Rightarrow> u32 \<Rightarrow> kernel option" where
  "free_call e k block = map_option fst (pm_syscall e k SYS_FREE (ArgWord block))"

definition unlink_call :: "sys_env \<Rightarrow> kernel \<Rightarrow> bytes \<Rightarrow> (kernel \<times> s32) option" where
  "unlink_call e k path = pm_syscall e k SYS_UNLINK (ArgStr path) \<bind> int_result"

definition stat_call :: "sys_env \<Rightarrow> kernel \<Rightarrow> bytes \<Rightarrow> (kernel \<times> file_info option \<times> s32) option" where
  "stat_call e k path = do {
     (k, r) \<leftarrow> pm_syscall e k SYS_STAT (ArgStr path);
     (case r of RStat info n \<Rightarrow> Some (k, info, n) | _ \<Rightarrow> None) }"

definition kill_call :: "sys_env \<Rightarrow> kernel \<Rightarrow> u32 \<Rightarrow> kernel option" where
  "kill_call e k pid = map_option fst (pm_syscall e k SYS_KILL (ArgWord pid))"

section \<open>Every stub reaches its handler\<close>

lemma map_fst_bind: "map_option fst (do { k \<leftarrow> m; Some (k, r) }) = m"
  by (cases m) auto

text \<open>
  The numbers of the calls, the kinds of their arguments and the order of the handlers in the table fit
  together: each stub returns exactly what its handler does on the state of the kernel, and no call
  is refused.
\<close>

theorem stubs_reach_handlers:
  "log_call e k str = sys_log k str \<and> exit_call e k = sys_exit k \<and>
   getpid_call e k = map_option (\<lambda>pid. (k, pid)) (sys_getpid k) \<and>
   open_call e k path oflag = sys_open k path oflag (env_mem e) \<and> close_call e k fd = sys_close k fd \<and>
   read_call e k fd buf n = sys_read (env_bf e) (env_clock e) k fd buf n \<and>
   write_call e k fd buf n = sys_write (env_bf e) k fd buf n \<and> seek_call e k fd off whence = sys_seek k fd off whence \<and>
   malloc_call e k a = sys_malloc k a \<and> free_call e k a = sys_free k a \<and> unlink_call e k path = sys_unlink k path (env_mem e) \<and>
   stat_call e k path = sys_stat k path \<and> kill_call e k a = sys_kill k a"
proof (intro conjI)
  have call: "pm_syscall e k nr args = syscall_table e k (unat nr) args" if "unat nr \<le> 12" for nr args
  proof -
    have "\<not> nr > MAX_SYSCALL" using that by (simp add: MAX_SYSCALL_def word_less_nat_alt)
    then show ?thesis by (simp add: pm_syscall_def)
  qed
  show "log_call e k str = sys_log k str" by (simp add: log_call_def call sys_numbers syscall_table_def map_fst_bind)
  show "exit_call e k = sys_exit k" by (simp add: exit_call_def call sys_numbers syscall_table_def map_fst_bind)
  show "getpid_call e k = map_option (\<lambda>pid. (k, pid)) (sys_getpid k)"
    by (cases "sys_getpid k") (simp_all add: getpid_call_def call sys_numbers syscall_table_def)
  show "open_call e k path oflag = sys_open k path oflag (env_mem e)"
    by (cases "sys_open k path oflag (env_mem e)") (auto simp: open_call_def call sys_numbers syscall_table_def)
  show "close_call e k fd = sys_close k fd"
    by (cases "sys_close k fd") (auto simp: close_call_def call sys_numbers syscall_table_def)
  show "read_call e k fd buf n = sys_read (env_bf e) (env_clock e) k fd buf n"
    by (cases "sys_read (env_bf e) (env_clock e) k fd buf n")
      (auto simp: read_call_def call sys_numbers syscall_table_def split: sum.split)
  show "write_call e k fd buf n = sys_write (env_bf e) k fd buf n"
    by (cases "sys_write (env_bf e) k fd buf n") (auto simp: write_call_def call sys_numbers syscall_table_def)
  show "seek_call e k fd off whence = sys_seek k fd off whence"
    by (cases "sys_seek k fd off whence") (auto simp: seek_call_def call sys_numbers syscall_table_def)
  show "malloc_call e k a = sys_malloc k a"
    by (cases "sys_malloc k a") (auto simp: malloc_call_def call sys_numbers syscall_table_def)
  show "free_call e k a = sys_free k a" by (simp add: free_call_def call sys_numbers syscall_table_def map_fst_bind)
  show "unlink_call e k path = sys_unlink k path (env_mem e)"
    by (cases "sys_unlink k path (env_mem e)") (auto simp: unlink_call_def call sys_numbers syscall_table_def)
  show "stat_call e k path = sys_stat k path"
    by (cases "sys_stat k path") (auto simp: stat_call_def call sys_numbers syscall_table_def)
  show "kill_call e k a = sys_kill k a" by (simp add: kill_call_def call sys_numbers syscall_table_def map_fst_bind)
qed

end
