(* ===== verification/ShellUtils.thy ===== *)
theory ShellUtils
  imports Stubs Stdio
begin

text \<open>
  The shell's helpers (\<open>apps/shell_utils.c\<close>): reading a line with the backspace key, printing to the standard output
  and making paths absolute. The arrays \<open>cwd\<close> and \<open>path_buf\<close> of 255 bytes hold C strings and are represented
  by them; storing one that does not fit has no result. \<open>exited\<close> holds after \<open>_exit\<close>, which does not return.
\<close>

definition ascii :: "string \<Rightarrow> bytes" where
  "ascii s = map of_char s"

record shell =
  sh_k :: kernel
  cwd :: bytes
  path_buf :: bytes
  STDIN :: s32
  STDOUT :: s32
  exited :: bool

text \<open>
  \<open>se_stack n\<close> are the contents of a local array of \<open>n\<close> bytes before it is written, \<open>se_ticks i\<close> what \<open>get_ticks\<close> returns
  when it is called for the \<open>i\<close>-th time, \<open>se_bmap\<close> and \<open>se_new\<close> the results of the allocations in \<open>fs_init\<close>.
\<close>

record shell_env =
  se_sys :: sys_env
  se_stack :: "nat \<Rightarrow> bytes"
  se_ticks :: "nat \<Rightarrow> s32"
  se_bmap :: "bytes option"
  se_new :: "bytes option \<times> bool \<times> u32 \<times> u32"

section \<open>Output\<close>

definition fputch :: "shell_env \<Rightarrow> shell \<Rightarrow> u8 \<Rightarrow> s32 \<Rightarrow> (shell \<times> s32) option" where
  "fputch e sh ch fd = do { (k, r) \<leftarrow> write_call (se_sys e) (sh_k sh) fd [ch] 1; Some (sh\<lparr>sh_k := k\<rparr>, r) }"

definition fputs :: "shell_env \<Rightarrow> shell \<Rightarrow> bytes \<Rightarrow> s32 \<Rightarrow> (shell \<times> s32) option" where
  "fputs e sh s fd = do {
     (k, r) \<leftarrow> write_call (se_sys e) (sh_k sh) fd (s @ [0]) (word_of_nat (length s));
     Some (sh\<lparr>sh_k := k\<rparr>, r) }"

text \<open>The whole buffer is written, not only the string in it.\<close>

definition shell_printf :: "shell_env \<Rightarrow> shell \<Rightarrow> bytes \<Rightarrow> fmt_arg list \<Rightarrow> shell option" where
  "shell_printf e sh fmt args = do {
     buf \<leftarrow> snprintf (se_stack e 255) 255 (Some fmt) args;
     (k, r) \<leftarrow> write_call (se_sys e) (sh_k sh) (STDOUT sh) buf 255;
     Some (sh\<lparr>sh_k := k\<rparr>) }"

section \<open>Reading a line\<close>

text \<open>
  The loop of \<open>_fgets\<close>. \<open>s\<close> is the position in the buffer, \<open>n\<close> the number of characters that may still be read,
  \<open>count\<close> and \<open>ch\<close> as in the code; \<open>inp\<close> are the characters that \<open>_fgetch\<close> will return, one after the other (waiting
  for more of them has no result), \<open>echo\<close> those that are written to the standard output.
\<close>

fun fgets_loop :: "bytes \<Rightarrow> nat \<Rightarrow> nat \<Rightarrow> nat \<Rightarrow> u8 \<Rightarrow> bytes \<Rightarrow> bytes \<Rightarrow> (bytes \<times> nat \<times> bytes \<times> bytes) option" where
  "fgets_loop buf s 0 count ch inp echo = Some (buf, s, inp, echo)"
| "fgets_loop buf s (Suc n) count ch inp echo =
     (if ch = 10 then Some (buf, s, inp, echo)
      else case inp of
        [] \<Rightarrow> None
      | c # inp \<Rightarrow>
          if c = 9 then do { buf \<leftarrow> wr_at buf s c; Some (buf, s + 1, inp, echo) }
          else if c \<noteq> 8 then do {
            buf \<leftarrow> wr_at buf s c;
            fgets_loop buf (s + 1) n (count + 1) c inp (echo @ [c]) }
          else if count > 0 then do {
            buf \<leftarrow> wr_at buf s 0;
            fgets_loop buf (s - 1) n (count - 1) c inp (echo @ [c]) }
          else fgets_loop buf s n count c inp echo)"

definition fgets :: "bytes \<Rightarrow> nat \<Rightarrow> nat \<Rightarrow> bytes \<Rightarrow> (bytes \<times> nat \<times> bytes \<times> bytes) option" where
  "fgets buf s n inp = fgets_loop buf s n 0 0 inp []"

section \<open>Paths\<close>

definition fits :: "nat \<Rightarrow> bytes \<Rightarrow> bytes option" where
  "fits n s = (if length s < n then Some s else None)"

text \<open>With an empty \<open>cwd\<close> the byte before the array would be read.\<close>

definition shell_makepath :: "shell \<Rightarrow> bytes \<Rightarrow> shell option" where
  "shell_makepath sh path =
     (if path \<noteq> [] \<and> hd path = 47 then do { p \<leftarrow> fits 255 path; Some (sh\<lparr>path_buf := p\<rparr>) }
      else do {
        p \<leftarrow> fits 255 (cwd sh);
        p \<leftarrow> (if p = [] then None else if last p \<noteq> 47 then fits 255 (p @ [47]) else Some p);
        p \<leftarrow> fits 255 (p @ path);
        Some (sh\<lparr>path_buf := p\<rparr>) })"

section \<open>Lines\<close>

text \<open>What a line with backspaces means: a backspace takes the last character back, if there is one.\<close>

fun edit_line :: "bytes \<Rightarrow> bytes \<Rightarrow> bytes" where
  "edit_line acc [] = acc"
| "edit_line acc (c # cs) = edit_line (if c = 8 then butlast acc else acc @ [c]) cs"

lemma edit_line_length: "length (edit_line acc cs) \<le> length acc + length cs"
proof (induction acc cs rule: edit_line.induct)
  case (2 acc c cs)
  then show ?case by (cases "c = 8") auto
qed simp

lemma take_update_next: "s < length buf \<Longrightarrow> take (s + 1) (buf[s := c]) = take s buf @ [c]"
  by (simp add: take_Suc_conv_app_nth)

lemma fgets_loop_line:
  assumes "10 \<notin> set cs" "9 \<notin> set cs" "length cs < n" "count \<le> s" "s + length cs < length buf" "ch \<noteq> 10"
    and "drop (s + 1) buf = replicate (length buf - (s + 1)) 0"
  shows "\<exists>echo'. fgets_loop buf s n count ch (cs @ 10 # inp) echo =
    (let line = edit_line (drop (s - count) (take s buf)) cs; e = s - count + length line + 1 in
     Some (take (s - count) buf @ line @ 10 # replicate (length buf - e) 0, e, inp, echo'))"
  using assms
proof (induction cs arbitrary: buf s n count ch echo)
  case Nil
  then obtain k where n: "n = Suc k" by (cases n) auto
  have e: "fgets_loop b t j c 10 i x = Some (b, t, i, x)" for b t j c i x by (cases j) simp_all
  have "fgets_loop buf s n count ch (10 # inp) echo = Some (buf[s := 10], s + 1, inp, echo @ [10])"
    using Nil n e by simp
  moreover have "buf[s := 10] = take s buf @ 10 # drop (s + 1) buf"
    using Nil.prems(5) by (simp add: upd_conv_take_nth_drop)
  moreover have "take s buf = take (s - count) buf @ drop (s - count) (take s buf)"
    by (metis append_take_drop_id diff_le_self min.absorb1 take_take)
  ultimately show ?case using Nil.prems by (simp only: Let_def edit_line.simps append_Nil) (simp add: Suc_diff_le)
next
  case (Cons c cs)
  then obtain k where n: "n = Suc k" by (cases n) auto
  show ?case
  proof (cases "c = 8")
    case False
    have step: "fgets_loop buf s n count ch ((c # cs) @ 10 # inp) echo = fgets_loop (buf[s := c]) (s + 1) k (count + 1) c (cs @ 10 # inp) (echo @ [c])"
      using Cons.prems False n by simp
    have d: "drop (s + 1 - (count + 1)) (take (s + 1) (buf[s := c])) = drop (s - count) (take s buf) @ [c]"
      using Cons.prems take_update_next [of s buf c] by simp
    have t: "take (s + 1 - (count + 1)) (buf[s := c]) = take (s - count) buf" by simp
    have z: "drop (s + 1 + 1) (buf[s := c]) = replicate (length (buf[s := c]) - (s + 1 + 1)) 0"
      using arg_cong [OF Cons.prems(7), of "drop 1"] by (simp add: add.commute)
    from Cons.IH [of k "count + 1" "s + 1" "buf[s := c]" c "echo @ [c]"] Cons.prems n z
    show ?thesis unfolding step d t using False by simp
  next
    case True
    show ?thesis
    proof (cases count)
      case 0
      have "fgets_loop buf s n count ch ((c # cs) @ 10 # inp) echo = fgets_loop buf s k 0 c (cs @ 10 # inp) echo"
        using Cons.prems True n 0 by simp
      with Cons.IH [of k 0 s buf c echo] Cons.prems n True 0 show ?thesis by simp
    next
      case (Suc j)
      have step: "fgets_loop buf s n count ch ((c # cs) @ 10 # inp) echo = fgets_loop (buf[s := 0]) (s - 1) k j c (cs @ 10 # inp) (echo @ [c])"
        using Cons.prems True n Suc by simp
      have d: "drop (s - 1 - j) (take (s - 1) (buf[s := 0])) = butlast (drop (s - count) (take s buf))"
        using Cons.prems Suc by (simp add: butlast_drop butlast_take min_def)
      have t: "take (s - 1 - j) (buf[s := 0]) = take (s - count) buf" using Suc by simp
      have sj: "s - 1 - j = s - count" using Suc by simp
      have "drop s (buf[s := 0]) = 0 # drop (s + 1) buf" using Cons.prems(5) by (simp add: Cons_nth_drop_Suc [symmetric])
      then have z: "drop (s - 1 + 1) (buf[s := 0]) = replicate (length (buf[s := 0]) - (s - 1 + 1)) 0"
        using Cons.prems(4,5,7) Suc by (simp add: Suc_diff_Suc replicate_Suc [symmetric] del: replicate_Suc)
      from Cons.IH [of k j "s - 1" "buf[s := 0]" c "echo @ [c]"] Cons.prems n Suc z
      show ?thesis unfolding step d t using True sj by simp
    qed
  qed
qed

lemma fgets_line:
  assumes "10 \<notin> set cs" "9 \<notin> set cs" "length cs < n" "length cs < m"
  shows "\<exists>echo. fgets (pre @ replicate m 0) (length pre) n (cs @ 10 # inp) =
    Some (pre @ edit_line [] cs @ 10 # replicate (m - (length (edit_line [] cs) + 1)) 0, length pre + length (edit_line [] cs) + 1, inp, echo)"
  using fgets_loop_line [of cs n 0 "length pre" "pre @ replicate m 0" 0 inp "[]"] assms by (simp add: fgets_def Let_def)

text \<open>
  C40. A line that is typed without tabs ends up in a zeroed buffer as the user edited it: \<open>_fgets\<close> stores, from the
  position it is called with, the characters that are left after every backspace has taken one back, and the line feed,
  leaves the bytes before them and zeroes behind them, and takes the line from the input.
\<close>

theorem fgets_edits:
  assumes "10 \<notin> set cs" "9 \<notin> set cs" "length cs < n" "length cs < m"
  shows "\<exists>echo. fgets (pre @ replicate m 0) (length pre) n (cs @ 10 # inp) =
    Some (pre @ edit_line [] cs @ 10 # replicate (m - (length (edit_line [] cs) + 1)) 0, length pre + length (edit_line [] cs) + 1, inp, echo)"
  using fgets_line [OF assms] .

theorem fgets_edits_witness:
  "\<exists>echo. fgets ([108, 115] @ replicate 510 0) (length [108, 115 :: u8]) 510 ([97, 98, 8, 8, 8, 99, 100] @ 10 # [7]) =
    Some ([108, 115] @ edit_line [] [97, 98, 8, 8, 8, 99, 100] @ 10 # replicate (510 - (length (edit_line [] [97, 98, 8, 8, 8, 99, 100]) + 1)) 0,
      length [108, 115 :: u8] + length (edit_line [] [97, 98, 8, 8, 8, 99, 100]) + 1, [7], echo)"
  by (rule fgets_edits) simp_all

text \<open>
  \<open>shell_makepath\<close> makes a path absolute: from a path that begins with a slash it makes the path itself, from any
  other one the working directory, a slash unless there is one, and the path. It has a result unless the path
  does not fit in the buffer, and it touches nothing but the buffer.
\<close>

lemma shell_makepath_absolute:
  assumes "cwd sh \<noteq> []" "hd (cwd sh) = 47" "length (cwd sh) < 254"
  shows "case shell_makepath sh path of
      None \<Rightarrow> length path + length (cwd sh) \<ge> 254
    | Some sh' \<Rightarrow> \<exists>p. sh' = sh\<lparr>path_buf := p\<rparr> \<and> hd p = 47 \<and> length p < 255 \<and>
        (if path \<noteq> [] \<and> hd path = 47 then p = path
         else p = cwd sh @ path \<and> last (cwd sh) = 47 \<or> p = cwd sh @ [47] @ path \<and> last (cwd sh) \<noteq> 47)"
  using assms by (auto simp: shell_makepath_def fits_def)

end
