(* ===== verification/ShellCmds.thy ===== *)
theory ShellCmds
  imports ShellUtils
begin

text \<open>
  The commands of the shell (\<open>apps/shell_cmds.c\<close>). A command gets its arguments as a list, so \<open>argc\<close> is its length
  and reading \<open>argv\<close> behind it has no result. The memory dump, the process list, the editor, the memory viewer,
  the snapshot viewer, the games and the synthesizer are started by \<open>shell_main\<close> through a parameter.
\<close>

type_synonym command = "shell_env \<Rightarrow> shell \<Rightarrow> bytes list \<Rightarrow> shell option"

section \<open>System calls of the shell\<close>

definition sh_open :: "shell_env \<Rightarrow> shell \<Rightarrow> bytes \<Rightarrow> s32 \<Rightarrow> (shell \<times> s32) option" where
  "sh_open e sh path oflag = do { (k, fd) \<leftarrow> open_call (se_sys e) (sh_k sh) path oflag; Some (sh\<lparr>sh_k := k\<rparr>, fd) }"

definition sh_close :: "shell_env \<Rightarrow> shell \<Rightarrow> s32 \<Rightarrow> shell option" where
  "sh_close e sh fd = do { (k, r) \<leftarrow> close_call (se_sys e) (sh_k sh) fd; Some (sh\<lparr>sh_k := k\<rparr>) }"

text \<open>A read that waits for input has no result here.\<close>

definition sh_read :: "shell_env \<Rightarrow> shell \<Rightarrow> s32 \<Rightarrow> bytes \<Rightarrow> s32 \<Rightarrow> (shell \<times> bytes \<times> s32) option" where
  "sh_read e sh fd buf n = do {
     (k, r) \<leftarrow> read_call (se_sys e) (sh_k sh) fd buf n;
     (case r of Inl _ \<Rightarrow> None | Inr (b, got) \<Rightarrow> Some (sh\<lparr>sh_k := k\<rparr>, b, got)) }"

definition sh_write :: "shell_env \<Rightarrow> shell \<Rightarrow> s32 \<Rightarrow> bytes \<Rightarrow> s32 \<Rightarrow> (shell \<times> s32) option" where
  "sh_write e sh fd buf n = do { (k, r) \<leftarrow> write_call (se_sys e) (sh_k sh) fd buf n; Some (sh\<lparr>sh_k := k\<rparr>, r) }"

definition sh_malloc :: "shell_env \<Rightarrow> shell \<Rightarrow> u32 \<Rightarrow> (shell \<times> u32) option" where
  "sh_malloc e sh n = do { (k, a) \<leftarrow> malloc_call (se_sys e) (sh_k sh) n; Some (sh\<lparr>sh_k := k\<rparr>, a) }"

definition sh_free :: "shell_env \<Rightarrow> shell \<Rightarrow> u32 \<Rightarrow> shell option" where
  "sh_free e sh a = do { k \<leftarrow> free_call (se_sys e) (sh_k sh) a; Some (sh\<lparr>sh_k := k\<rparr>) }"

fun sh_free_all :: "shell_env \<Rightarrow> shell \<Rightarrow> u32 list \<Rightarrow> shell option" where
  "sh_free_all e sh [] = Some sh"
| "sh_free_all e sh (a # as) = do { sh \<leftarrow> sh_free e sh a; sh_free_all e sh as }"

text \<open>A message with strings as arguments, and the one that most commands share.\<close>

definition say :: "shell_env \<Rightarrow> shell \<Rightarrow> string \<Rightarrow> bytes list \<Rightarrow> shell option" where
  "say e sh fmt args = shell_printf e sh (ascii fmt @ [10]) (map (\<lambda>s. StrArg (Some s)) args)"

definition say_missing :: "shell_env \<Rightarrow> shell \<Rightarrow> bytes list \<Rightarrow> shell option" where
  "say_missing e sh argv = do {
     a0 \<leftarrow> rd_at argv 0;
     a1 \<leftarrow> rd_at argv 1;
     say e sh ''%s: %s: No such file or directory'' [a0, a1] }"

section \<open>Printing\<close>

fun test_args :: "shell_env \<Rightarrow> shell \<Rightarrow> nat \<Rightarrow> bytes list \<Rightarrow> shell option" where
  "test_args e sh i [] = Some sh"
| "test_args e sh i (a # as) = do {
     sh \<leftarrow> shell_printf e sh (ascii ''argv[%d] = '' @ [39, 37, 115, 39, 10]) [IntArg (word_of_nat i), StrArg (Some a)];
     test_args e sh (i + 1) as }"

definition shell_cmd_test :: command where
  "shell_cmd_test e sh argv = test_args e sh 0 argv"

text \<open>\<open>cmds\<close> are the names and the descriptions in the table of the commands.\<close>

fun list_cmds :: "shell_env \<Rightarrow> shell \<Rightarrow> (bytes \<times> bytes) list \<Rightarrow> shell option" where
  "list_cmds e sh [] = Some sh"
| "list_cmds e sh ((name, desc) # cmds) = do {
     sh \<leftarrow> shell_printf e sh ([9] @ ascii ''%s'' @ [9, 9] @ ascii ''- %s'' @ [10]) [StrArg (Some name), StrArg (Some desc), IntArg (STDOUT sh)];
     list_cmds e sh cmds }"

definition shell_cmd_cmdlist :: "(bytes \<times> bytes) list \<Rightarrow> command" where
  "shell_cmd_cmdlist cmds e sh argv = do {
     sh \<leftarrow> shell_printf e sh (ascii ''Available commands are:'' @ [10]) [IntArg (STDOUT sh)];
     list_cmds e sh cmds }"

fun echo_args :: "shell_env \<Rightarrow> shell \<Rightarrow> bytes list \<Rightarrow> shell option" where
  "echo_args e sh [] = Some sh"
| "echo_args e sh (a # as) = do {
     sh \<leftarrow> shell_printf e sh (ascii ''%s '') [StrArg (Some a)];
     echo_args e sh as }"

definition shell_cmd_echo :: command where
  "shell_cmd_echo e sh argv = do { sh \<leftarrow> echo_args e sh (tl argv); shell_printf e sh [10] [] }"

definition shell_cmd_pwd :: command where
  "shell_cmd_pwd e sh argv = say e sh ''%s'' [cwd sh]"

text \<open>The block is filled with blanks, written, filled with backspaces and written again.\<close>

definition shell_cmd_clear :: command where
  "shell_cmd_clear e sh argv = do {
     (sh, a) \<leftarrow> sh_malloc e sh 1921;
     if a = 0 then None
     else do {
       (sh, r) \<leftarrow> fputs e sh (replicate 1920 32) (STDOUT sh);
       (sh, r) \<leftarrow> fputs e sh (replicate 1920 8) (STDOUT sh);
       sh_free e sh a } }"

text \<open>The buffer is printed up to the first zero.\<close>

definition shell_cmd_date :: command where
  "shell_cmd_date e sh argv = do {
     (sh, fd) \<leftarrow> sh_open e sh (ascii ''/dev/clock'') 0;
     (sh, buf, n) \<leftarrow> sh_read e sh fd (se_stack e 100) 100;
     sh \<leftarrow> sh_close e sh fd;
     str \<leftarrow> buf_str buf;
     say e sh ''%s'' [str] }"

section \<open>Files\<close>

definition shell_cmd_touch :: command where
  "shell_cmd_touch e sh argv =
     (if length argv < 2 then say e sh ''Usage: touch [file]'' []
      else do {
        sh \<leftarrow> shell_makepath sh (argv ! 1);
        (sh, fd) \<leftarrow> sh_open e sh (path_buf sh) O_CREAT;
        sh \<leftarrow> (if 0 \<le>s fd then say e sh ''Created regular file %s'' [path_buf sh]
               else say e sh ''Failed to create regular file %s'' [path_buf sh]);
        sh_close e sh fd })"

text \<open>A slash at the end makes \<open>open\<close> create a directory; it is appended in \<open>path_buf\<close>.\<close>

definition shell_cmd_mkdir :: command where
  "shell_cmd_mkdir e sh argv =
     (if length argv < 2 then shell_printf e sh (ascii ''Usage: mkdir [path]'' @ [10]) [IntArg (STDOUT sh)]
      else do {
        sh \<leftarrow> shell_makepath sh (argv ! 1);
        sh \<leftarrow> (if last (path_buf sh) \<noteq> 47 then do { p \<leftarrow> fits 255 (path_buf sh @ [47]); Some (sh\<lparr>path_buf := p\<rparr>) } else Some sh);
        (sh, fd) \<leftarrow> sh_open e sh (path_buf sh) O_CREAT;
        sh \<leftarrow> (if 0 \<le>s fd then say e sh ''Created directory %s'' [argv ! 1]
               else say e sh ''Failed to create directory %s'' [argv ! 1]);
        sh_close e sh fd })"

text \<open>
  The loop that copies from one descriptor to another one, in blocks of 512 bytes as long as whole blocks come; it
  returns what is left in the buffer and the sum of the numbers of bytes.
\<close>

partial_function (option) copy_loop ::
  "shell_env \<Rightarrow> shell \<Rightarrow> s32 \<Rightarrow> s32 \<Rightarrow> bytes \<Rightarrow> s32 \<Rightarrow> (shell \<times> bytes \<times> s32) option" where
  "copy_loop e sh src dst buf tot = do {
     (sh, buf, n) \<leftarrow> sh_read e sh src buf 512;
     (sh, r) \<leftarrow> sh_write e sh dst buf n;
     if n = 512 then copy_loop e sh src dst buf (tot + n) else Some (sh, buf, tot + n) }"

declare copy_loop.simps [code]

definition shell_cmd_cat :: command where
  "shell_cmd_cat e sh argv =
     (if length argv < 2 then say e sh ''Usage: cat [file]'' []
      else do {
        sh \<leftarrow> shell_makepath sh (argv ! 1);
        (sh, fd) \<leftarrow> sh_open e sh (path_buf sh) 0;
        if fd <s 0 then say_missing e sh argv
        else do {
          (sh, buf, n) \<leftarrow> copy_loop e sh fd (STDOUT sh) (se_stack e 512) 0;
          (sh, r) \<leftarrow> fputch e sh 10 (STDOUT sh);
          sh_close e sh fd } })"

text \<open>The words from the third argument on, with blanks between them.\<close>

fun write_words :: "shell_env \<Rightarrow> shell \<Rightarrow> s32 \<Rightarrow> bytes list \<Rightarrow> s32 \<Rightarrow> (shell \<times> s32) option" where
  "write_words e sh fd [] count = Some (sh, count)"
| "write_words e sh fd (w # ws) count = do {
     (sh, n) \<leftarrow> fputs e sh w fd;
     let count = count + n;
     if ws \<noteq> [] then do {
       (sh, n) \<leftarrow> sh_write e sh fd [32, 0] 1;
       write_words e sh fd ws (count + n) }
     else write_words e sh fd ws count }"

definition shell_cmd_write :: command where
  "shell_cmd_write e sh argv =
     (if length argv < 3 then say e sh ''Usage: write [file] [text]'' []
      else do {
        sh \<leftarrow> shell_makepath sh (argv ! 1);
        (sh, fd) \<leftarrow> sh_open e sh (path_buf sh) 0;
        if fd <s 0 then say_missing e sh argv
        else do {
          (sh, count) \<leftarrow> write_words e sh fd (drop 2 argv) 0;
          sh \<leftarrow> (if count <s 0 then say e sh ''%s: %s: Cannot write'' [argv ! 0, argv ! 1]
                 else shell_printf e sh (ascii ''wrote %d bytes.'' @ [10]) [IntArg count]);
          sh_close e sh fd } })"

definition shell_cmd_cd :: command where
  "shell_cmd_cd e sh argv =
     (if length argv < 2 then say e sh ''Usage: cd [path]'' []
      else do {
        sh \<leftarrow> shell_makepath sh (argv ! 1);
        (sh, fd) \<leftarrow> sh_open e sh (path_buf sh) 0;
        if fd <s 0 then say_missing e sh argv
        else sh_close e (sh\<lparr>cwd := path_buf sh\<rparr>) fd })"

text \<open>After the second \<open>_open\<close> the code tests \<open>src_fd\<close> again, so a target that cannot be created is not noticed.\<close>

definition shell_cmd_cp :: command where
  "shell_cmd_cp e sh argv =
     (if length argv < 3 then say e sh ''Usage: cp [source] [target]'' []
      else do {
        sh \<leftarrow> shell_makepath sh (argv ! 1);
        (sh, src_fd) \<leftarrow> sh_open e sh (path_buf sh) 0;
        if src_fd <s 0 then say_missing e sh argv
        else do {
          sh \<leftarrow> shell_makepath sh (argv ! 2);
          (sh, target_fd) \<leftarrow> sh_open e sh (path_buf sh) O_CREAT;
          if src_fd <s 0 then do {
            sh \<leftarrow> say e sh ''%s: %s: Could not create target file'' [argv ! 0, argv ! 2];
            sh_close e sh src_fd }
          else do {
            (sh, buf, tot) \<leftarrow> copy_loop e sh src_fd target_fd (se_stack e 512) 0;
            sh \<leftarrow> shell_printf e sh (ascii ''%d bytes copied.'' @ [10]) [IntArg tot];
            sh \<leftarrow> sh_close e sh src_fd;
            sh_close e sh target_fd } } })"

definition shell_cmd_rm :: command where
  "shell_cmd_rm e sh argv =
     (if length argv < 2 then say e sh ''Usage: rm [path]'' []
      else do {
        sh \<leftarrow> shell_makepath sh (argv ! 1);
        (k, success) \<leftarrow> unlink_call (se_sys e) (sh_k sh) (path_buf sh);
        let sh = sh\<lparr>sh_k := k\<rparr>;
        if success = - 1 then shell_printf e sh (ascii ''%s: cannot remove '' @ [39, 37, 115, 39, 10]) [StrArg (Some (argv ! 0)), StrArg (Some (argv ! 1))]
        else Some sh })"

definition shell_cmd_sync :: command where
  "shell_cmd_sync e sh argv = do {
     fs \<leftarrow> fs_shutdown (k_fs (sh_k sh));
     let (mem, heap_ok, bmap, root) = se_new e;
     fs \<leftarrow> fs_init fs (se_bmap e) mem heap_ok bmap root;
     Some (sh\<lparr>sh_k := (sh_k sh)\<lparr>k_fs := fs\<rparr>\<rparr>) }"

section \<open>Directory listings\<close>

text \<open>
  One entry of the 512 bytes that \<open>_read\<close> delivers of a directory. The modification time becomes a string of 24 bytes
  on the stack; 0 stands for the address of the literal that \<open>time2str\<close> returns for a wrong weekday.
\<close>

definition time_text :: "shell_env \<Rightarrow> time_t \<Rightarrow> bytes option" where
  "time_text e ts = do {
     (m, a) \<leftarrow> time2str (put_bytes (\<lambda>_. 0) 0 (ascii ''Date error              '' @ [0])) 0 ts 0x1000;
     buf_str (get_bytes m a 25) }"

definition ls_entry :: "shell_env \<Rightarrow> shell \<Rightarrow> bytes \<Rightarrow> bytes \<Rightarrow> nat \<Rightarrow> s32 \<Rightarrow> (shell \<times> s32) option" where
  "ls_entry e sh path buf i tot =
     (if entry_inode buf i = 0 then Some (sh, tot)
      else do {
        name \<leftarrow> buf_str (drop (32 * i + 4) buf);
        abs_path \<leftarrow> fits 255 (path @ name);
        (k, info, r) \<leftarrow> stat_call (se_sys e) (sh_k sh) abs_path;
        let sh = sh\<lparr>sh_k := k\<rparr>;
        (case info of
           Some st \<Rightarrow> do {
             time \<leftarrow> time_text e (fi_modify_ts st);
             sh \<leftarrow> shell_printf e sh (ascii ''%d'' @ [9] @ ascii ''%s '') [IntArg (fi_size st), StrArg (Some time)];
             sh \<leftarrow> (if fi_mode st = DIRECTORY then say e sh ''#{GRE}%s/'' [name] else say e sh ''%s'' [name]);
             Some (sh, tot + fi_size st) }
         | None \<Rightarrow> do { sh \<leftarrow> say e sh ''%s ERROR: stat() failed.'' [name]; Some (sh, tot) }) })"

fun ls_entries :: "shell_env \<Rightarrow> shell \<Rightarrow> bytes \<Rightarrow> bytes \<Rightarrow> nat \<Rightarrow> nat \<Rightarrow> s32 \<Rightarrow> (shell \<times> s32) option" where
  "ls_entries e sh path buf i 0 tot = Some (sh, tot)"
| "ls_entries e sh path buf i (Suc n) tot = do {
     (sh, tot) \<leftarrow> ls_entry e sh path buf i tot;
     ls_entries e sh path buf (i + 1) n tot }"

partial_function (option) ls_loop :: "shell_env \<Rightarrow> shell \<Rightarrow> bytes \<Rightarrow> s32 \<Rightarrow> bytes \<Rightarrow> s32 \<Rightarrow> (shell \<times> s32) option" where
  "ls_loop e sh path fd buf tot = do {
     (sh, buf, n) \<leftarrow> sh_read e sh fd buf 512;
     if n = 0 then Some (sh, tot)
     else do {
       (sh, tot) \<leftarrow> ls_entries e sh path buf 0 DIR_ENTRIES_PER_BLOCK tot;
       ls_loop e sh path fd buf tot } }"

declare ls_loop.simps [code]

definition shell_cmd_ls :: command where
  "shell_cmd_ls e sh argv = do {
     (sh, path, fd) \<leftarrow>
       (if length argv < 2 then do { (sh, fd) \<leftarrow> sh_open e sh (cwd sh) 0; Some (sh, cwd sh, fd) }
        else do {
          sh \<leftarrow> shell_makepath sh (argv ! 1);
          let path = path_buf sh;
          (sh, fd) \<leftarrow> sh_open e sh path 0;
          Some (sh, path, fd) });
     path \<leftarrow> (if path = [] then None else if last path \<noteq> 47 then fits 255 (path @ [47]) else Some path);
     if fd <s 0 then say_missing e sh argv
     else do {
       (sh, tot) \<leftarrow> ls_loop e sh path fd (replicate 512 0) 0;
       sh \<leftarrow> shell_printf e sh (ascii ''total %d bytes'' @ [10]) [IntArg tot];
       sh_close e sh fd } }"

section \<open>Programs and processes\<close>

definition sh_reset_bf :: "shell \<Rightarrow> shell" where
  "sh_reset_bf sh = sh\<lparr>sh_k := (sh_k sh)\<lparr>k_bf := reset_bf (k_bf (sh_k sh))\<rparr>\<rparr>"

text \<open>\<open>UINT32_MAX\<close> is -1 in 32 bits. A file that is missing leaves \<open>bf\<close> open.\<close>

definition shell_cmd_bf :: command where
  "shell_cmd_bf e sh argv = do {
     (sh, bf) \<leftarrow> sh_open e sh (ascii ''/dev/brainfuck'') 0;
     a1 \<leftarrow> rd_at argv 1;
     if str_cmp a1 (ascii ''-i'') = 0 then do {
       a2 \<leftarrow> rd_at argv 2;
       (sh, r) \<leftarrow> fputs e sh a2 bf;
       sh_close e sh bf }
     else do {
       let sh = sh_reset_bf sh;
       sh \<leftarrow> shell_makepath sh a1;
       (sh, fd) \<leftarrow> sh_open e sh (path_buf sh) 0;
       if fd <s 0 then say_missing e sh argv
       else do {
         (sh, buf, n) \<leftarrow> copy_loop e sh fd bf (se_stack e 512) 0;
         let temp = se_ticks e 1 - se_ticks e 0;
         let temp = (if temp <s 0 then temp + 0xFFFFFFFF else temp);
         sh \<leftarrow> shell_printf e sh (ascii ''time elapsed: %d ticks'' @ [10]) [IntArg temp];
         sh \<leftarrow> sh_close e sh fd;
         sh_close e (sh_reset_bf sh) bf } } }"

text \<open>\<open>ptrs\<close> are the addresses of the arguments, which are freed before the process ends.\<close>

definition shell_cmd_exit :: "u32 list \<Rightarrow> command" where
  "shell_cmd_exit ptrs e sh argv = do {
     sh \<leftarrow> say e sh ''Bye.'' [];
     sh \<leftarrow> sh_free_all e sh ptrs;
     k \<leftarrow> exit_call (se_sys e) (sh_k sh);
     Some (sh\<lparr>sh_k := k, exited := True\<rparr>) }"

definition arg_int :: "bytes \<Rightarrow> s32 option" where
  "arg_int s = atoi (put_bytes (\<lambda>_. 0) 0x1000 (s @ [0])) 0x1000"

definition shell_cmd_kill :: command where
  "shell_cmd_kill e sh argv =
     (if length argv < 2 then say e sh ''Usage: kill [pid]'' []
      else do {
        pid \<leftarrow> arg_int (argv ! 1);
        sh \<leftarrow> shell_printf e sh (ascii ''attempting to kill process with pid %d'' @ [10]) [IntArg pid];
        k \<leftarrow> kill_call (se_sys e) (sh_k sh) pid;
        Some (sh\<lparr>sh_k := k\<rparr>) })"

definition shell_cmd_nice :: command where
  "shell_cmd_nice e sh argv =
     (if length argv < 3 then say e sh ''Usage: nice [pid] [priority]'' []
      else do {
        pid \<leftarrow> arg_int (argv ! 1);
        prio \<leftarrow> arg_int (argv ! 2);
        sh \<leftarrow> shell_printf e sh (ascii ''nice: setting priority of process with pid %u to %u'' @ [10]) [IntArg pid, IntArg prio];
        pm \<leftarrow> pm_set_thread_priority (k_pm (sh_k sh)) pid prio;
        Some (sh\<lparr>sh_k := (sh_k sh)\<lparr>k_pm := pm\<rparr>\<rparr>) })"

section \<open>Batch files\<close>

text \<open>
  \<open>exec_loop\<close> is the loop of \<open>shell_cmd_exec\<close>; \<open>str\<close> are the 81 bytes and \<open>i\<close> is \<open>temp - str\<close>. \<open>run\<close> handles
  one line. The last test is made after the next character has been read.
\<close>

partial_function (option) exec_loop ::
  "(shell \<Rightarrow> bytes \<Rightarrow> shell option) \<Rightarrow> shell_env \<Rightarrow> shell \<Rightarrow> s32 \<Rightarrow> bytes \<Rightarrow> nat \<Rightarrow> (shell \<times> bytes) option" where
  "exec_loop run e sh fd str i = do {
     (sh, rest, n) \<leftarrow> sh_read e sh fd (drop i str) 1;
     let str = take i str @ rest;
     let i = i + 1;
     if 0 <s n \<and> i < 80 then
       (if str ! (i - 1) = 10 then do {
          line \<leftarrow> buf_str str;
          sh \<leftarrow> run sh line;
          if exited sh then Some (sh, str) else exec_loop run e sh fd (replicate 81 0) 0 }
        else exec_loop run e sh fd str i)
     else Some (sh, str) }"

declare exec_loop.simps [code]

text \<open>The byte behind the string is never a line feed, so one is always put there, for a full buffer into its last byte.\<close>

definition shell_cmd_exec :: "(shell \<Rightarrow> bytes \<Rightarrow> shell option) \<Rightarrow> command" where
  "shell_cmd_exec run e sh argv =
     (if length argv < 2 then say e sh ''Usage: run [path]'' []
      else do {
        sh \<leftarrow> shell_makepath sh (argv ! 1);
        (sh, fd) \<leftarrow> sh_open e sh (path_buf sh) 0;
        if fd <s 0 then say_missing e sh argv
        else do {
          (sh, a) \<leftarrow> sh_malloc e sh 81;
          if a = 0 then None
          else do {
            (sh, str) \<leftarrow> exec_loop run e sh fd (replicate 81 0) 0;
            if exited sh then Some sh
            else do {
              line \<leftarrow> buf_str str;
              str \<leftarrow> wr_at str (length line) 10;
              line \<leftarrow> buf_str str;
              sh \<leftarrow> run sh line;
              if exited sh then Some sh
              else do { sh \<leftarrow> sh_close e sh fd; sh_free e sh a } } } } })"

end
