(* ===== verification/ShellMain.thy ===== *)
theory ShellMain
  imports ShellCmds
begin

text \<open>
  The command table and the main loop of the shell (\<open>apps/shell_main.c\<close>, the table from \<open>apps/shell_cmds.c\<close>). A
  function pointer in the table is an element of \<open>cmd_id\<close>. The copies of the words are in the kernel's heap; their
  addresses and their contents are two lists. Batch files may run batch files: the model is given a number of
  levels, and a line that needs more has no result.
\<close>

section \<open>The table of the commands\<close>

datatype cmd_id = ShCmdlist | ShTest | ShSync | ShExec | ShExit | ShMemdump | ShPs | ShEcho | ShClear | ShSnapshot | ShDate
  | ShPwd | ShLs | ShCd | ShMkdir | ShTouch | ShCp | ShRm | ShCat | ShWrite | ShSpeed | ShBf | ShPong | ShSnake | ShSynth
  | ShKill | ShNice | ShMemview

definition shell_cmds :: "(bytes \<times> cmd_id \<times> bytes) list" where
  "shell_cmds =
    [(ascii ''cmdlist'', ShCmdlist, ascii ''List available commands'' @ [10]),
     (ascii ''test'', ShTest, ascii ''Test argument parsing''),
     (ascii ''sync'', ShSync, ascii ''Writes the filesystem to disk''),
     (ascii ''exec'', ShExec, ascii ''Executes a '' @ [34] @ ascii ''batch'' @ [34] @ ascii '' file''),
     (ascii ''exit'', ShExit, ascii ''Quit the shell'' @ [10]),
     (ascii ''memdump'', ShMemdump, ascii ''Dump allocated blocks''),
     (ascii ''ps'', ShPs, ascii ''List processes'' @ [10]),
     (ascii ''echo'', ShEcho, ascii ''Print text to STDOUT''),
     (ascii ''clear'', ShClear, ascii ''Clear the screen''),
     (ascii ''view'', ShSnapshot, ascii ''Displays an POTATOES snapshot''),
     (ascii ''date'', ShDate, ascii ''Display date and time'' @ [10]),
     (ascii ''pwd'', ShPwd, ascii ''Print working directory''),
     (ascii ''ls'', ShLs, ascii ''List directory''),
     (ascii ''cd'', ShCd, ascii ''Change directory''),
     (ascii ''mkdir'', ShMkdir, ascii ''Create directory''),
     (ascii ''touch'', ShTouch, ascii ''Create regular file''),
     (ascii ''cp'', ShCp, ascii ''Copy files''),
     (ascii ''rm'', ShRm, ascii ''Removes a file'' @ [10]),
     (ascii ''cat'', ShCat, ascii ''Print file contents''),
     (ascii ''write'', ShWrite, ascii ''Write text to file'' @ [10]),
     (ascii ''speed'', ShSpeed, ascii ''Simple POTATOES/etiOS editor''),
     (ascii ''bf'', ShBf, ascii ''Brainfuck interpreter''),
     (ascii ''pong'', ShPong, ascii ''A classic video game''),
     (ascii ''snake'', ShSnake, ascii ''Another classic video game''),
     (ascii ''synth'', ShSynth, ascii ''Synthesizer tool''),
     (ascii ''kill'', ShKill, ascii ''Terminates the given process''),
     (ascii ''nice'', ShNice, ascii ''Modifies thread priorities''),
     (ascii ''memview'', ShMemview, ascii ''Memory viewer tool'')]"

fun find_cmd :: "bytes \<Rightarrow> (bytes \<times> cmd_id \<times> bytes) list \<Rightarrow> cmd_id option" where
  "find_cmd name [] = None"
| "find_cmd name ((n, c, desc) # cmds) = (if str_cmp name n = 0 then Some c else find_cmd name cmds)"

section \<open>Handling a command\<close>

definition sh_strdup :: "shell \<Rightarrow> bytes \<Rightarrow> (shell \<times> u32) option" where
  "sh_strdup sh s = do {
     (mm, hp, a) \<leftarrow> heap_mallocn (k_mm (sh_k sh)) (k_heap (sh_k sh)) (word_of_nat (length s) + 1) (ascii ''strdup()'');
     if a = 0 then None else Some (sh\<lparr>sh_k := (sh_k sh)\<lparr>k_mm := mm, k_heap := hp\<rparr>\<rparr>, a) }"

text \<open>One call of \<open>strsep\<close> with a blank as delimiter: the token and, unless it is the last one, what is left.\<close>

definition sep_space :: "bytes \<Rightarrow> bytes \<times> bytes option" where
  "sep_space s = (takeWhile (\<lambda>c. c \<noteq> 32) s, if 32 \<in> set s then Some (tl (dropWhile (\<lambda>c. c \<noteq> 32) s)) else None)"

lemma sep_space_length: "sep_space s = (t, Some r) \<Longrightarrow> length r < length s"
  by (cases s) (auto simp: sep_space_def length_dropWhile_le less_Suc_eq_le le_diff_conv le_SucI split: if_splits)

text \<open>The tokens that the loop gets, one after the other.\<close>

function words :: "bytes \<Rightarrow> bytes list" where
  "words s = (case sep_space s of (t, None) \<Rightarrow> [t] | (t, Some r) \<Rightarrow> t # words r)"
  by auto
termination by (relation "measure length") (auto dest: sep_space_length [OF sym])

declare words.simps [simp del]

fun args_loop :: "shell_env \<Rightarrow> shell \<Rightarrow> bytes list \<Rightarrow> bytes list \<Rightarrow> u32 list \<Rightarrow> (shell \<times> bytes list \<times> u32 list) option" where
  "args_loop e sh [] argv ptrs = Some (sh, argv, ptrs)"
| "args_loop e sh (tok # toks) argv ptrs =
     (if length argv \<ge> 16 then do {
        sh \<leftarrow> say e sh ''- shell: argument overflow. Last argument: %s'' [last argv];
        Some (sh, argv, ptrs) }
      else do {
        (sh, a) \<leftarrow> sh_strdup sh tok;
        args_loop e sh toks (argv @ [tok]) (ptrs @ [a]) })"

text \<open>\<open>ext\<close> are the commands from other files, \<open>run\<close> handles the lines of a batch file.\<close>

definition run_cmd :: "(cmd_id \<Rightarrow> command) \<Rightarrow> (shell \<Rightarrow> bytes \<Rightarrow> shell option) \<Rightarrow> u32 list \<Rightarrow> cmd_id \<Rightarrow> command" where
  "run_cmd ext run ptrs c = (case c of
       ShCmdlist \<Rightarrow> shell_cmd_cmdlist (map (\<lambda>(n, c, d). (n, d)) shell_cmds)
     | ShTest \<Rightarrow> shell_cmd_test | ShSync \<Rightarrow> shell_cmd_sync | ShExec \<Rightarrow> shell_cmd_exec run
     | ShExit \<Rightarrow> shell_cmd_exit ptrs | ShEcho \<Rightarrow> shell_cmd_echo | ShClear \<Rightarrow> shell_cmd_clear | ShDate \<Rightarrow> shell_cmd_date
     | ShPwd \<Rightarrow> shell_cmd_pwd | ShLs \<Rightarrow> shell_cmd_ls | ShCd \<Rightarrow> shell_cmd_cd | ShMkdir \<Rightarrow> shell_cmd_mkdir
     | ShTouch \<Rightarrow> shell_cmd_touch | ShCp \<Rightarrow> shell_cmd_cp | ShRm \<Rightarrow> shell_cmd_rm | ShCat \<Rightarrow> shell_cmd_cat
     | ShWrite \<Rightarrow> shell_cmd_write | ShBf \<Rightarrow> shell_cmd_bf | ShKill \<Rightarrow> shell_cmd_kill | ShNice \<Rightarrow> shell_cmd_nice
     | _ \<Rightarrow> ext c)"

text \<open>An empty string would be written before its start.\<close>

fun shell_handle_command :: "nat \<Rightarrow> (cmd_id \<Rightarrow> command) \<Rightarrow> shell_env \<Rightarrow> shell \<Rightarrow> bytes \<Rightarrow> shell option" where
  "shell_handle_command 0 ext e sh cmd = None"
| "shell_handle_command (Suc levels) ext e sh cmd =
     (if length cmd = 1 then Some sh
      else if cmd = [] then None
      else do {
        let cmd = butlast cmd;
        (sh, copy) \<leftarrow> sh_strdup sh cmd;
        (sh, argv, ptrs) \<leftarrow> args_loop e sh (words cmd) [] [];
        sh \<leftarrow> sh_free e sh copy;
        sh \<leftarrow> (case find_cmd (argv ! 0) shell_cmds of
                Some c \<Rightarrow> run_cmd ext (shell_handle_command levels ext e) ptrs c e sh argv
              | None \<Rightarrow> say e sh ''- shell: %s: command not found'' [argv ! 0]);
        if exited sh then Some sh else sh_free_all e sh ptrs })"

section \<open>Completion\<close>

text \<open>The first command whose name begins with the string; \<open>cmd_name\<close> has 16 bytes, the first ones from \<open>strncpy\<close>.\<close>

fun complete_loop :: "bytes \<Rightarrow> (bytes \<times> cmd_id \<times> bytes) list \<Rightarrow> bytes option" where
  "complete_loop partial [] = None"
| "complete_loop partial ((name, c, desc) # cmds) =
     (if str_cmp partial (take (length partial) name) = 0 then Some (drop (length partial) name)
      else complete_loop partial cmds)"

definition shell_autocomplete :: "shell_env \<Rightarrow> shell \<Rightarrow> bytes \<Rightarrow> (shell \<times> bytes) option" where
  "shell_autocomplete e sh partial =
     (if partial = [] then None
      else do {
        let partial = butlast partial;
        if length partial > 15 then Some (sh, partial)
        else (case complete_loop partial shell_cmds of
            None \<Rightarrow> Some (sh, partial)
          | Some rest \<Rightarrow> do { (sh, r) \<leftarrow> fputs e sh rest (STDOUT sh); Some (sh, partial @ rest) }) })"

section \<open>The main loop\<close>

fun echo_all :: "shell_env \<Rightarrow> shell \<Rightarrow> bytes \<Rightarrow> shell option" where
  "echo_all e sh [] = Some sh"
| "echo_all e sh (c # cs) = do { (sh, r) \<leftarrow> fputch e sh c (STDOUT sh); echo_all e sh cs }"

text \<open>
  The loop that reads one command into the 512 bytes \<open>cmd\<close>. For an empty string the test reads the byte before the array,
  \<open>below\<close>. \<open>inp\<close> are the characters that will be typed.
\<close>

partial_function (option) read_cmd :: "shell_env \<Rightarrow> u8 \<Rightarrow> shell \<Rightarrow> bytes \<Rightarrow> bytes \<Rightarrow> (shell \<times> bytes \<times> bytes) option" where
  "read_cmd e below sh cmd inp = do {
     str \<leftarrow> buf_str cmd;
     if (if str = [] then below else last str) = 10 then Some (sh, str, inp)
     else do {
       (cmd, s, inp, echo) \<leftarrow> fgets cmd (length str) (512 - length str) inp;
       sh \<leftarrow> echo_all e sh echo;
       str \<leftarrow> buf_str cmd;
       if (if str = [] then below else last str) = 9 then do {
         (sh, str) \<leftarrow> shell_autocomplete e sh str;
         cmd \<leftarrow> wr_run 0 (str @ [0]) cmd;
         read_cmd e below sh cmd inp }
       else read_cmd e below sh cmd inp } }"

declare read_cmd.simps [code]

definition open_std :: "shell_env \<Rightarrow> shell \<Rightarrow> shell option" where
  "open_std e sh = do {
     (sh, fd) \<leftarrow> sh_open e sh (ascii ''/dev/stdin'') 0;
     (sh, fd') \<leftarrow> sh_open e (sh\<lparr>STDIN := fd\<rparr>) (ascii ''/dev/stdout'') 0;
     Some (sh\<lparr>STDOUT := fd'\<rparr>) }"

text \<open>What \<open>shell_main\<close> does before its loop, and one round of the loop.\<close>

definition shell_start :: "shell_env \<Rightarrow> shell \<Rightarrow> shell option" where
  "shell_start e sh = do {
     sh \<leftarrow> open_std e sh;
     sh \<leftarrow> say e sh ''#{LGR}Welcome to #{RED}P#{GRE}O#{BLU}T#{RED}A#{GRE}T#{BLU}O#{RED}E#{GRE}S!##'' [];
     sh \<leftarrow> shell_printf e sh (ascii ''#{LGR}Try '' @ [34] @ ascii ''cmdlist'' @ [34] @ ascii '' for a list of commands.##'' @ [10, 10]) [];
     Some (sh\<lparr>cwd := [47]\<rparr>) }"

definition shell_round :: "nat \<Rightarrow> (cmd_id \<Rightarrow> command) \<Rightarrow> shell_env \<Rightarrow> u8 \<Rightarrow> shell \<Rightarrow> bytes \<Rightarrow> (shell \<times> bytes) option" where
  "shell_round levels ext e below sh inp = do {
     sh \<leftarrow> open_std e sh;
     sh \<leftarrow> shell_printf e sh (ascii ''#{YEL}%s#{LBL}$## '') [StrArg (Some (cwd sh))];
     (sh, cmd, inp) \<leftarrow> read_cmd e below sh (replicate 512 0) inp;
     sh \<leftarrow> sh_close e sh (STDIN sh);
     sh \<leftarrow> sh_close e sh (STDOUT sh);
     sh \<leftarrow> shell_handle_command levels ext e sh cmd;
     Some (sh, inp) }"

text \<open>The rounds for an input: as long as there are characters left and the shell has not been left.\<close>

fun shell_main :: "nat \<Rightarrow> nat \<Rightarrow> (cmd_id \<Rightarrow> command) \<Rightarrow> shell_env \<Rightarrow> u8 \<Rightarrow> shell \<Rightarrow> bytes \<Rightarrow> (shell \<times> bytes) option" where
  "shell_main 0 levels ext e below sh inp = Some (sh, inp)"
| "shell_main (Suc n) levels ext e below sh inp =
     (if exited sh \<or> inp = [] then Some (sh, inp)
      else do {
        (sh, inp) \<leftarrow> shell_round levels ext e below sh inp;
        shell_main n levels ext e below sh inp })"

text \<open>\<open>shellnum\<close> is the static counter, \<open>entry\<close> the address of \<open>shell_main\<close>. The 5 characters that \<open>strncat\<close> copies end
  with a terminator only if the number has less than 5 digits.\<close>

definition new_shell :: "sys_env \<Rightarrow> kernel \<Rightarrow> s32 \<Rightarrow> thread_mem \<Rightarrow> u32 \<Rightarrow> (kernel \<times> s32) option" where
  "new_shell e k shellnum mem entry = do {
     (k, a) \<leftarrow> malloc_call e k 12;
     (k, b) \<leftarrow> malloc_call e k 12;
     if a = 0 \<or> b = 0 \<or> length (itoa_str shellnum 10) \<ge> 5 then None
     else do {
       (pm, pid) \<leftarrow> pm_create_thread (k_pm k) mem (Some (ascii ''SHELL '' @ itoa_str shellnum 10)) entry 4096;
       k \<leftarrow> free_call e (k\<lparr>k_pm := pm\<rparr>) a;
       k \<leftarrow> free_call e k b;
       Some (k, shellnum + 1) } }"

section \<open>Words\<close>

text \<open>The loop of \<open>shell_handle_command\<close> on the memory of the copy at \<open>p\<close>: what the calls of \<open>strdup\<close> find.\<close>

partial_function (option) strsep_words :: "mem \<Rightarrow> addr \<Rightarrow> addr \<Rightarrow> bytes list option" where
  "strsep_words m p delims = do {
     (m, p, tok) \<leftarrow> strsep m p delims;
     if tok = NULL then Some []
     else do {
       n \<leftarrow> strlen m tok;
       ws \<leftarrow> strsep_words m p delims;
       Some (get_bytes m tok (unat n) # ws) } }"

declare strsep_words.simps [code]

fun join_words :: "bytes list \<Rightarrow> bytes" where
  "join_words [] = []"
| "join_words [w] = w"
| "join_words (w # ws) = w @ 32 # join_words ws"

lemma words_no_space: "32 \<notin> set s \<Longrightarrow> words s = [s]"
  by (subst words.simps) (auto simp: sep_space_def takeWhile_eq_all_conv)

lemma words_cut:
  assumes "32 \<notin> set w"
  shows "words (w @ 32 # s) = w # words s"
proof -
  have "takeWhile (\<lambda>c. c \<noteq> 32) w = w" using assms by (auto simp: takeWhile_eq_all_conv)
  then have "takeWhile (\<lambda>c. c \<noteq> 32) (w @ 32 # s) = w" "dropWhile (\<lambda>c. c \<noteq> 32) (w @ 32 # s) = 32 # s"
    using assms by (auto simp: takeWhile_append dropWhile_append)
  then have "sep_space (w @ 32 # s) = (w, Some s)" by (simp add: sep_space_def)
  then show ?thesis by (subst words.simps) simp
qed

lemma words_nonempty: "words s \<noteq> []"
  by (subst words.simps) (auto split: prod.split option.split)

lemma space_cases:
  fixes s :: bytes
  obtains (one) "32 \<notin> set s" | (more) w r where "s = w @ 32 # r" "32 \<notin> set w"
  by (meson in_set_conv_decomp_first)

lemma join_words_cons: "ws \<noteq> [] \<Longrightarrow> join_words (w # ws) = w @ 32 # join_words ws"
  by (cases ws) auto

lemma words_join: "ws \<noteq> [] \<Longrightarrow> \<forall>w\<in>set ws. 32 \<notin> set w \<Longrightarrow> words (join_words ws) = ws"
proof (induction ws rule: join_words.induct)
  case (3 w v ws)
  then show ?case by (simp add: words_cut)
qed (simp_all add: words_no_space)

lemma join_of_words: "join_words (words s) = s \<and> (\<forall>w\<in>set (words s). 32 \<notin> set w)"
proof (induction s rule: length_induct)
  case (1 s)
  show ?case
  proof (cases s rule: space_cases)
    case one
    then show ?thesis by (simp add: words_no_space)
  next
    case (more w r)
    then have "join_words (words r) = r \<and> (\<forall>w\<in>set (words r). 32 \<notin> set w)" by (intro 1 [rule_format, of r]) simp
    moreover have "words s = w # words r" using more by (simp add: words_cut)
    ultimately show ?thesis using more by (simp add: join_words_cons words_nonempty)
  qed
qed

lemma strsep_words_eq:
  assumes "cstr m p s" "p \<noteq> NULL" "m delims = 32" "delims < p \<or> p + length s < delims" "length s < 2 ^ 32"
  shows "strsep_words m p delims = Some (words s)"
  using assms
proof (induction s arbitrary: m p rule: length_induct)
  case (1 s)
  have len: "unat (word_of_nat n :: u32) = n" if "n \<le> length s" for n
    using that "1.prems"(5) by (simp add: unat_of_nat)
  show ?case
  proof (cases s rule: space_cases)
    case one
    have get: "get_bytes m p (length s) = s" using cstr_append [of m p s "[]"] "1.prems"(1) by simp
    have nul: "strsep_words m NULL delims = Some []"
      by (subst strsep_words.simps) (simp add: strsep_def)
    have "strsep m p delims = Some (m, NULL, p)"
      using "1.prems" one by (simp add: strsep_def strchr_cstr)
    then have "strsep_words m p delims = Some [s]"
      using "1.prems"(1,2) len [of "length s"] nul get by (subst strsep_words.simps) (simp add: strlen_cstr)
    with one show ?thesis by (simp add: words_no_space)
  next
    case (more w r)
    let ?m = "m(p + length w := 0)"
    have tw: "takeWhile (\<lambda>c. c \<noteq> 32) s = w" "dropWhile (\<lambda>c. c \<noteq> 32) s = 32 # r"
      using more by (auto simp: takeWhile_append dropWhile_append takeWhile_eq_all_conv)
    have mem: "32 \<in> set s" using more by simp
    note c = cstr_dropWhile [OF "1.prems"(1) mem refl, unfolded tw]
    from c have r: "cstr ?m (p + length w + 1) r" by simp
    from c have w: "cstr ?m p w" "get_bytes ?m p (length w) = w"
      using cstr_append [of ?m p w "[]"] by (simp_all add: get_bytes_upd_out)
    have sep: "strsep m p delims = Some (?m, p + length w + 1, p)"
      using "1.prems" mem tw by (simp add: strsep_def strchr_cstr)
    have "strsep_words ?m (p + length w + 1) delims = Some (words r)"
      using "1.IH" [rule_format, of r ?m "p + length w + 1"] more "1.prems" r by auto
    then have "strsep_words m p delims = Some (w # words r)"
      using "1.prems"(2) w len [of "length w"] more by (subst strsep_words.simps) (simp add: sep strlen_cstr)
    with more show ?thesis by (simp add: words_cut)
  qed
qed



section \<open>The arguments\<close>

lemma args_loop_argv:
  "args_loop e sh toks argv ptrs = Some (sh', argv', ptrs') \<Longrightarrow> length argv \<le> 16 \<Longrightarrow> length ptrs = length argv \<Longrightarrow>
   argv' = take 16 (argv @ toks) \<and> length ptrs' = length argv'"
proof (induction e sh toks argv ptrs rule: args_loop.induct)
  case (2 e sh tok toks argv ptrs)
  show ?case
  proof (cases "length argv \<ge> 16")
    case True
    with "2.prems" show ?thesis by (auto split: bind_splits)
  next
    case False
    with "2.prems"(1) obtain s a where d: "sh_strdup sh tok = Some (s, a)"
      and r: "args_loop e s toks (argv @ [tok]) (ptrs @ [a]) = Some (sh', argv', ptrs')"
      by (auto split: bind_splits)
    from "2.IH" [OF False d refl r] False "2.prems"(3) show ?thesis by simp
  qed
qed simp

text \<open>The copies of a list of words.\<close>

fun strdup_all :: "shell \<Rightarrow> bytes list \<Rightarrow> (shell \<times> u32 list) option" where
  "strdup_all sh [] = Some (sh, [])"
| "strdup_all sh (w # ws) = do {
     (sh, a) \<leftarrow> sh_strdup sh w;
     (sh, as) \<leftarrow> strdup_all sh ws;
     Some (sh, a # as) }"

lemma args_loop_all:
  "length argv + length toks \<le> 16 \<Longrightarrow> args_loop e sh toks argv ptrs =
   map_option (\<lambda>(sh, as). (sh, argv @ toks, ptrs @ as)) (strdup_all sh toks)"
proof (induction e sh toks argv ptrs rule: args_loop.induct)
  case (2 e sh tok toks argv ptrs)
  show ?case
  proof (cases "sh_strdup sh tok")
    case None
    with "2.prems" show ?thesis by simp
  next
    case (Some x)
    obtain s a where d: "sh_strdup sh tok = Some (s, a)" using Some by (cases x) auto
    have "\<not> length argv \<ge> 16" using "2.prems" by simp
    with "2.IH" [OF this d refl] "2.prems" d show ?thesis by (cases "strdup_all s toks") auto
  qed
qed simp

lemma find_cmd_map_of:
  "\<forall>(n, c, d) \<in> set cmds. 0 \<notin> set n \<Longrightarrow> 0 \<notin> set n \<Longrightarrow> find_cmd n cmds = map_of (map (\<lambda>(n, c, d). (n, c)) cmds) n"
  by (induction n cmds rule: find_cmd.induct) (auto simp: str_cmp_eq_0)

lemma shell_cmds_fit:
  "\<forall>(n, c, desc) \<in> set shell_cmds. 0 \<notin> set n \<and> 32 \<notin> set n \<and> 2 \<le> length n \<and> length n < 16 \<and> length desc < 100"
  by (simp add: shell_cmds_def ascii_def)

lemma shell_cmds_distinct: "distinct (map fst shell_cmds)"
  by (simp add: shell_cmds_def ascii_def)

lemma shell_cmds_names:
  assumes "(n, c, desc) \<in> set shell_cmds"
  shows "0 \<notin> set n" "32 \<notin> set n" "2 \<le> length n" "find_cmd n shell_cmds = Some c"
proof -
  show n: "0 \<notin> set n" "32 \<notin> set n" "2 \<le> length n" using shell_cmds_fit assms by auto
  let ?l = "map (\<lambda>(n, c, d). (n, c)) shell_cmds"
  have "map fst ?l = map fst shell_cmds" by (simp add: case_prod_beta comp_def)
  then have "distinct (map fst ?l)" using shell_cmds_distinct by (simp only:)
  moreover have "(n, c) \<in> set ?l" using assms by force
  ultimately have "map_of ?l n = Some c" by (rule map_of_is_SomeI)
  moreover have "find_cmd n shell_cmds = map_of ?l n"
    using shell_cmds_fit n by (intro find_cmd_map_of) auto
  ultimately show "find_cmd n shell_cmds = Some c" by simp
qed

text \<open>
  C28. A line that is made of the name of a command in the table and of up to 15 arguments runs the function of that command,
  with exactly these words as \<open>argv\<close>: they are copied to the heap before the command runs, the copy of the line is
  freed before and the words are freed after it, unless the command has ended the process.
\<close>

theorem shell_dispatch:
  assumes "(n, c, desc) \<in> set shell_cmds" "\<forall>w\<in>set args. 32 \<notin> set w" "length args \<le> 15"
  shows "shell_handle_command (Suc levels) ext e sh (join_words (n # args) @ [10]) = do {
      (sh, copy) \<leftarrow> sh_strdup sh (join_words (n # args));
      (sh, ptrs) \<leftarrow> strdup_all sh (n # args);
      sh \<leftarrow> sh_free e sh copy;
      sh \<leftarrow> run_cmd ext (shell_handle_command levels ext e) ptrs c e sh (n # args);
      if exited sh then Some sh else sh_free_all e sh ptrs }"
proof -
  note n = shell_cmds_names [OF assms(1)]
  have w: "words (join_words (n # args)) = n # args" using n assms(2) by (intro words_join) auto
  have "join_words (n # args) \<noteq> []" using n by (cases args) auto
  moreover have "length (join_words (n # args) @ [10]) \<noteq> 1" using calculation by (cases "join_words (n # args)") auto
  moreover have "args_loop e sh (n # args) [] [] = map_option (\<lambda>(sh, as). (sh, n # args, as)) (strdup_all sh (n # args))" for sh
    using args_loop_all [of "[]" "n # args" e sh "[]"] assms(3) by simp
  ultimately show ?thesis
    using n by (simp add: w bind_map_option split_def comp_def del: strdup_all.simps args_loop.simps cong: if_cong)
qed

theorem shell_dispatch_witness:
  "\<forall>levels ext e sh. shell_handle_command (Suc levels) ext e sh (join_words ([99, 112] # [[97], [98]]) @ [10]) = do {
      (sh, copy) \<leftarrow> sh_strdup sh (join_words ([99, 112] # [[97], [98]]));
      (sh, ptrs) \<leftarrow> strdup_all sh ([99, 112] # [[97], [98]]);
      sh \<leftarrow> sh_free e sh copy;
      sh \<leftarrow> run_cmd ext (shell_handle_command levels ext e) ptrs ShCp e sh ([99, 112] # [[97], [98]]);
      if exited sh then Some sh else sh_free_all e sh ptrs }"
proof (intro allI shell_dispatch)
  show "([99, 112], ShCp, ascii ''Copy files'') \<in> set shell_cmds" by (simp add: shell_cmds_def ascii_def)
qed simp_all

section \<open>Completion and nesting\<close>

lemma complete_loop_first:
  assumes "\<forall>(n, c, d) \<in> set cmds. 0 \<notin> set n" "0 \<notin> set p"
  shows "complete_loop p cmds =
    (case filter (\<lambda>n. take (length p) n = p) (map fst cmds) of [] \<Rightarrow> None | n # _ \<Rightarrow> Some (drop (length p) n))"
  using assms(1)
proof (induction cmds)
  case (Cons x cmds)
  obtain n c d where x: "x = (n, c, d)" by (cases x)
  with Cons.prems have "0 \<notin> set (take (length p) n)" by (auto dest: in_set_takeD)
  with Cons x assms(2) show ?case by (auto simp: str_cmp_eq_0)
qed simp

text \<open>
  The tab key completes what has been typed to the first name in the table that begins with it, and writes the rest of
  the name to the screen; without such a name only the tab is taken away.
\<close>

theorem autocomplete_first:
  assumes "0 \<notin> set p" "length p \<le> 15"
  shows "shell_autocomplete e sh (p @ [9]) =
    (case filter (\<lambda>n. take (length p) n = p) (map fst shell_cmds) of
       [] \<Rightarrow> Some (sh, p)
     | n # _ \<Rightarrow> do { (sh, r) \<leftarrow> fputs e sh (drop (length p) n) (STDOUT sh); Some (sh, n) })"
proof -
  have "complete_loop p shell_cmds = (case filter (\<lambda>n. take (length p) n = p) (map fst shell_cmds) of
      [] \<Rightarrow> None | n # _ \<Rightarrow> Some (drop (length p) n))"
    using assms(1) by (intro complete_loop_first) (auto dest: shell_cmds_names)
  moreover have "p @ drop (length p) n = n" if "filter (\<lambda>n. take (length p) n = p) (map fst shell_cmds) = n # ns" for n ns
  proof -
    have "n \<in> set (filter (\<lambda>n. take (length p) n = p) (map fst shell_cmds))" using that by simp
    then show ?thesis by (metis (mono_tags, lifting) append_take_drop_id mem_Collect_eq set_filter)
  qed
  ultimately show ?thesis using assms(2) by (simp add: shell_autocomplete_def split: list.split)
qed

theorem autocomplete_first_witness:
  "\<forall>e sh. shell_autocomplete e sh ([99] @ [9]) =
    (case filter (\<lambda>n. take (length [99 :: u8]) n = [99]) (map fst shell_cmds) of
       [] \<Rightarrow> Some (sh, [99])
     | n # _ \<Rightarrow> do { (sh, r) \<leftarrow> fputs e sh (drop (length [99 :: u8]) n) (STDOUT sh); Some (sh, n) })"
  by (intro allI autocomplete_first) simp_all

lemma exec_loop_mono:
  "exec_loop run e sh fd str i = Some r \<Longrightarrow> (\<And>sh l r. run sh l = Some r \<Longrightarrow> run' sh l = Some r) \<Longrightarrow>
   exec_loop run' e sh fd str i = Some r"
proof (induction run e sh fd str i r rule: exec_loop.raw_induct [rotated 1, consumes 1])
  case (1 rec run e sh fd str i r)
  note IH = 1(1) and body = 1(2) and mono = 1(3)
  from body obtain sh1 rest n where rd: "sh_read e sh fd (drop i str) 1 = Some (sh1, rest, n)"
    by (auto split: bind_splits)
  let ?str = "take i str @ rest"
  show ?case
  proof (cases "0 <s n \<and> i + 1 < 80")
    case False
    with body rd show ?thesis by (subst exec_loop.simps) (auto simp: Let_def)
  next
    case go: True
    show ?thesis
    proof (cases "?str ! i = 10")
      case False
      with body rd go have "rec run e sh1 fd ?str (i + 1) = Some r" by (simp add: Let_def)
      then have "exec_loop run' e sh1 fd ?str (i + 1) = Some r" by (rule IH) (rule mono)
      with rd go False show ?thesis by (subst exec_loop.simps) (simp add: Let_def)
    next
      case True
      with body rd go obtain line sh2 where l: "buf_str ?str = Some line" "run sh1 line = Some sh2"
        and r: "(if exited sh2 then Some (sh2, ?str) else rec run e sh2 fd (replicate 81 0) 0) = Some r"
        by (auto simp: Let_def split: bind_splits)
      have "(if exited sh2 then Some (sh2, ?str) else exec_loop run' e sh2 fd (replicate 81 0) 0) = Some r"
        using r IH [of run e sh2 fd "replicate 81 0" 0 r] mono by (auto split: if_splits)
      moreover have "run' sh1 line = Some sh2" by (rule mono) (rule l)
      ultimately show ?thesis using rd go True l(1) by (subst exec_loop.simps) (simp add: Let_def)
    qed
  qed
qed

lemma exec_mono:
  assumes mono: "\<And>sh l r. run sh l = Some r \<Longrightarrow> run' sh l = Some r" and r: "shell_cmd_exec run e sh argv = Some r"
  shows "shell_cmd_exec run' e sh argv = Some r"
proof (cases "length argv < 2")
  case True
  with r show ?thesis by (simp add: shell_cmd_exec_def)
next
  case argc: False
  with r obtain sh1 sh2 fd where o: "shell_makepath sh (argv ! 1) = Some sh1" "sh_open e sh1 (path_buf sh1) 0 = Some (sh2, fd)"
    by (auto simp: shell_cmd_exec_def split: bind_splits)
  show ?thesis
  proof (cases "fd <s 0")
    case True
    with r argc o show ?thesis by (simp add: shell_cmd_exec_def)
  next
    case fd: False
    from r argc o fd obtain sh3 a where m: "sh_malloc e sh2 81 = Some (sh3, a)" "a \<noteq> 0"
      by (auto simp: shell_cmd_exec_def split: bind_splits if_splits)
    from r argc o fd m obtain sh4 str where l: "exec_loop run e sh3 fd (replicate 81 0) 0 = Some (sh4, str)"
      by (auto simp: shell_cmd_exec_def split: bind_splits)
    have l': "exec_loop run' e sh3 fd (replicate 81 0) 0 = Some (sh4, str)"
      using l mono by (rule exec_loop_mono)
    show ?thesis
    proof (cases "exited sh4")
      case True
      with r argc o fd m l l' show ?thesis by (simp add: shell_cmd_exec_def)
    next
      case False
      with r argc o fd m l obtain line str1 line1 sh5 where x: "buf_str str = Some line" "wr_at str (length line) 10 = Some str1"
        "buf_str str1 = Some line1" "run sh4 line1 = Some sh5"
        by (auto simp: shell_cmd_exec_def split: bind_splits)
      have "run' sh4 line1 = Some sh5" using x(4) by (rule mono)
      with r argc o fd m l l' x False show ?thesis by (simp add: shell_cmd_exec_def)
    qed
  qed
qed

lemma run_cmd_mono:
  assumes mono: "\<And>sh l r. run sh l = Some r \<Longrightarrow> run' sh l = Some r" and r: "run_cmd ext run ptrs c e sh argv = Some r"
  shows "run_cmd ext run' ptrs c e sh argv = Some r"
proof (cases "c = ShExec")
  case True
  with r exec_mono [OF mono] show ?thesis by (simp add: run_cmd_def)
next
  case False
  with r show ?thesis by (cases c) (simp_all add: run_cmd_def)
qed

text \<open>
  The number of levels only bounds how deep batch files nest: a command that has a result with some number of levels
  has the same result with every greater one.
\<close>

lemma shell_levels_enough:
  assumes "shell_handle_command levels ext e sh cmd = Some r" "levels \<le> levels'"
  shows "shell_handle_command levels' ext e sh cmd = Some r"
  using assms
proof (induction levels arbitrary: levels' sh cmd r)
  case (Suc levels)
  then obtain l where l: "levels' = Suc l" "levels \<le> l" by (cases levels') auto
  have run: "run_cmd ext (shell_handle_command l ext e) ptrs c e sh argv = Some r"
    if "run_cmd ext (shell_handle_command levels ext e) ptrs c e sh argv = Some r" for ptrs c sh argv r
    using that by (rule run_cmd_mono [rotated]) (rule Suc.IH [OF _ l(2)])
  show ?case
  proof (cases "length cmd = 1 \<or> cmd = []")
    case True
    with Suc.prems(1) l(1) show ?thesis by auto
  next
    case False
    with Suc.prems(1) obtain sh1 copy sh2 argv ptrs sh3 sh4 where s: "sh_strdup sh (butlast cmd) = Some (sh1, copy)"
      "args_loop e sh1 (words (butlast cmd)) [] [] = Some (sh2, argv, ptrs)" "sh_free e sh2 copy = Some sh3"
      and c: "(case find_cmd (argv ! 0) shell_cmds of
                Some c \<Rightarrow> run_cmd ext (shell_handle_command levels ext e) ptrs c e sh3 argv
              | None \<Rightarrow> say e sh3 ''- shell: %s: command not found'' [argv ! 0]) = Some sh4"
      and f: "(if exited sh4 then Some sh4 else sh_free_all e sh4 ptrs) = Some r"
      by (auto simp: Let_def split: bind_splits)
    have "(case find_cmd (argv ! 0) shell_cmds of
                Some c \<Rightarrow> run_cmd ext (shell_handle_command l ext e) ptrs c e sh3 argv
              | None \<Rightarrow> say e sh3 ''- shell: %s: command not found'' [argv ! 0]) = Some sh4"
      using c run by (cases "find_cmd (argv ! 0) shell_cmds") simp_all
    with False s f l(1) show ?thesis by (simp add: Let_def)
  qed
qed simp

end
