(* ===== verification/Memview.thy ===== *)
theory Memview
  imports ShellCmds "HOL-Library.Signed_Division"
begin

text \<open>
  The memory viewer (\<open>apps/memview.c\<close>), which allocates dummy blocks and draws the kernel's heap: each of the 25 * 80
  cells of the screen stands for \<open>mv_bytes_per_block\<close> bytes. The percentage in the statistics is computed with
  \<open>float\<close>; that function is an argument.
\<close>

section \<open>State\<close>

definition MEMVIEW_MAX_DUMMY_BLOCKS :: nat where "MEMVIEW_MAX_DUMMY_BLOCKS = 10000"

definition DARKGREY :: u8 where "DARKGREY = 8"
definition PINK :: u8 where "PINK = 0xC"

record memview =
  mv_sh :: shell
  mv_allocated_blocks :: "u32 list"
  mv_framebuf :: s32
  mv_total_mem :: u32
  mv_bytes_per_block :: u32

abbreviation mv_heap :: "memview \<Rightarrow> heap" where
  "mv_heap v \<equiv> k_heap (sh_k (mv_sh v))"

section \<open>Dummy blocks\<close>

fun free_slot_loop :: "u32 list \<Rightarrow> s32 \<Rightarrow> s32" where
  "free_slot_loop [] i = - 1"
| "free_slot_loop (b # bs) i = (if b = 0 then i else free_slot_loop bs (i + 1))"

definition get_free_dummy_slot :: "memview \<Rightarrow> s32" where
  "get_free_dummy_slot v = free_slot_loop (mv_allocated_blocks v) 0"

definition release_slot :: "shell_env \<Rightarrow> memview \<Rightarrow> nat \<Rightarrow> memview option" where
  "release_slot e v i = do {
     sh \<leftarrow> sh_free e (mv_sh v) (mv_allocated_blocks v ! i);
     Some (v\<lparr>mv_sh := sh, mv_allocated_blocks := (mv_allocated_blocks v)[i := 0]\<rparr>) }"

fun free_all_loop :: "shell_env \<Rightarrow> memview \<Rightarrow> nat \<Rightarrow> nat \<Rightarrow> memview option" where
  "free_all_loop e v i 0 = Some v"
| "free_all_loop e v i (Suc n) = do {
     v \<leftarrow> (if mv_allocated_blocks v ! i \<noteq> 0 then release_slot e v i else Some v);
     free_all_loop e v (i + 1) n }"

definition free_all_dummy_blocks :: "shell_env \<Rightarrow> memview \<Rightarrow> memview option" where
  "free_all_dummy_blocks e v = free_all_loop e v 0 MEMVIEW_MAX_DUMMY_BLOCKS"

definition allocate_dummy_block :: "shell_env \<Rightarrow> memview \<Rightarrow> u32 \<Rightarrow> memview option" where
  "allocate_dummy_block e v sz =
     (let alloc_slot = get_free_dummy_slot v in
      if 0 \<le>s alloc_slot then do {
        (sh, a) \<leftarrow> sh_malloc e (mv_sh v) sz;
        b \<leftarrow> wr_at (mv_allocated_blocks v) (unat alloc_slot) a;
        Some (v\<lparr>mv_sh := sh, mv_allocated_blocks := b\<rparr>) }
      else Some v)"

fun free_dummy_loop :: "shell_env \<Rightarrow> memview \<Rightarrow> nat \<Rightarrow> nat \<Rightarrow> (memview \<times> bool) option" where
  "free_dummy_loop e v i 0 = Some (v, False)"
| "free_dummy_loop e v i (Suc n) =
     (if mv_allocated_blocks v ! i \<noteq> 0 then do { v \<leftarrow> release_slot e v i; Some (v, True) }
      else free_dummy_loop e v (i + 1) n)"

definition free_dummy_block :: "shell_env \<Rightarrow> memview \<Rightarrow> (memview \<times> bool) option" where
  "free_dummy_block e v = free_dummy_loop e v 0 MEMVIEW_MAX_DUMMY_BLOCKS"

section \<open>The picture of the heap\<close>

text \<open>The loop of \<open>mark_visual_block\<close>; \<open>disp\<close> are the 2000 cells.\<close>

function mark_loop :: "u32 \<Rightarrow> bytes \<Rightarrow> u32 \<Rightarrow> u32 \<Rightarrow> bytes" where
  "mark_loop bpb disp block_pos sz =
     (if block_pos < 2000 then
        (if sz < bpb then disp[unat block_pos := PINK]
         else mark_loop bpb (disp[unat block_pos := RED]) (block_pos + 1) (sz - bpb))
      else disp)"
  by auto
termination
  by (relation "measure (\<lambda>(bpb, disp, pos, sz). 2000 - unat pos)")
    (auto simp: word_less_nat_alt unat_word_ariths)

declare mark_loop.simps [simp del]

definition mark_visual_block :: "heap \<Rightarrow> u32 \<Rightarrow> bytes \<Rightarrow> u32 \<Rightarrow> u32 \<Rightarrow> bytes option" where
  "mark_visual_block hp bpb disp start sz =
     (if bpb = 0 then None else Some (mark_loop bpb disp ((start - hp_start hp) div bpb) sz))"

text \<open>The cells of the heap; a cell behind the end of the array is written when the heap has too many.\<close>

fun green_loop :: "bytes \<Rightarrow> nat \<Rightarrow> nat \<Rightarrow> bytes option" where
  "green_loop disp i 0 = Some disp"
| "green_loop disp i (Suc n) = do { disp \<leftarrow> wr_at disp i GREEN; green_loop disp (i + 1) n }"

partial_function (option) view_blocks :: "heap \<Rightarrow> u32 \<Rightarrow> u32 \<Rightarrow> u32 \<Rightarrow> bytes \<Rightarrow> bytes option" where
  "view_blocks hp bpb stop blk disp =
     (if blk = stop then Some disp
      else do {
        h \<leftarrow> hp_store hp blk;
        disp \<leftarrow> mark_visual_block hp bpb disp blk (hd_size h);
        view_blocks hp bpb stop (hd_next h) disp })"

declare view_blocks.simps [code]

text \<open>What \<open>update_view\<close> puts into \<open>mv_disp\<close>.\<close>

definition heap_picture :: "heap \<Rightarrow> u32 \<Rightarrow> bytes option" where
  "heap_picture hp bpb =
     (if bpb = 0 then None
      else do {
        disp \<leftarrow> green_loop (replicate 2000 DARKGREY) 0 (unat (heap_get_size hp div bpb));
        st \<leftarrow> hp_store hp (hp_start hp);
        en \<leftarrow> hp_store hp (hp_end hp);
        view_blocks hp bpb (hd_next en) (hd_next st) disp })"

definition update_view :: "shell_env \<Rightarrow> memview \<Rightarrow> memview option" where
  "update_view e v = do {
     disp \<leftarrow> heap_picture (mv_heap v) (mv_bytes_per_block v);
     (sh, r) \<leftarrow> sh_write e (mv_sh v) (mv_framebuf v) disp 2000;
     Some (v\<lparr>mv_sh := sh, mv_total_mem := heap_get_size (mv_heap v)\<rparr>) }"

section \<open>Statistics\<close>

fun print_lines :: "shell_env \<Rightarrow> shell \<Rightarrow> nat \<Rightarrow> shell option" where
  "print_lines e sh 0 = Some sh"
| "print_lines e sh (Suc n) = do { sh \<leftarrow> shell_printf e sh [10] []; print_lines e sh n }"

definition mv_switch_to_textmode :: "shell_env \<Rightarrow> memview \<Rightarrow> memview option" where
  "mv_switch_to_textmode e v = do {
     sh \<leftarrow> sh_close e (mv_sh v) (mv_framebuf v);
     sh \<leftarrow> print_lines e sh 25;
     Some (v\<lparr>mv_sh := sh\<rparr>) }"

definition mv_switch_to_graphicsmode :: "shell_env \<Rightarrow> memview \<Rightarrow> memview option" where
  "mv_switch_to_graphicsmode e v = do {
     (sh, fd) \<leftarrow> sh_open e (mv_sh v) (ascii ''/dev/framebuffer'') 0;
     Some (v\<lparr>mv_sh := sh, mv_framebuf := fd\<rparr>) }"

text \<open>The number of blocks and of their bytes, the number of holes and of their bytes.\<close>

record mv_stats =
  total_blocks :: s32
  total_bytes :: s32
  total_free_blocks :: s32
  total_free_bytes :: s32

partial_function (option) stats_loop :: "heap \<Rightarrow> u32 \<Rightarrow> u32 \<Rightarrow> mv_stats \<Rightarrow> mv_stats option" where
  "stats_loop hp stop p st =
     (if p = stop then Some st
      else do {
        h \<leftarrow> hp_store hp p;
        q \<leftarrow> hp_store hp (hd_prev h);
        let position = hd_prev h + HDR + hd_size q;
        let st = st\<lparr>total_blocks := total_blocks st + 1, total_bytes := total_bytes st + hd_size h\<rparr>;
        let st = (if p \<noteq> position \<and> p \<noteq> hp_end hp
                  then st\<lparr>total_free_blocks := total_free_blocks st + 1,
                          total_free_bytes := total_free_bytes st + (p - position - HDR)\<rparr>
                  else st);
        stats_loop hp stop (hd_next h) st })"

declare stats_loop.simps [code]

definition int_div :: "s32 \<Rightarrow> s32 \<Rightarrow> s32 option" where
  "int_div a b = (if b = 0 then None else Some (word_of_int (sint a sdiv sint b)))"

text \<open>The last statement waits for a key, the first character of the input.\<close>

definition mv_show_stats :: "(s32 \<Rightarrow> u32 \<Rightarrow> s32) \<Rightarrow> shell_env \<Rightarrow> memview \<Rightarrow> bytes \<Rightarrow> (memview \<times> bytes) option" where
  "mv_show_stats percent e v inp = do {
     let hp = mv_heap v;
     st \<leftarrow> hp_store hp (hp_start hp);
     en \<leftarrow> hp_store hp (hp_end hp);
     s \<leftarrow> stats_loop hp (hd_next en) (hd_next st) \<lparr>total_blocks = 0, total_bytes = 0, total_free_blocks = 0, total_free_bytes = 0\<rparr>;
     sh \<leftarrow> shell_printf e (mv_sh v) (ascii ''#{YEL}MEMVIEW STATS##'' @ [10] @ replicate 80 45 @ [10]) [];
     sh \<leftarrow> shell_printf e sh (ascii ''Kernel heap from 0x%x to 0x%x'' @ [10]) [IntArg (hp_start hp), IntArg (hp_end hp + HDR)];
     sh \<leftarrow> shell_printf e sh (ascii ''Heap size: %dkb (%d%% full)'' @ [10])
       [IntArg (mv_total_mem v div 1024), IntArg (percent (total_bytes s) (mv_total_mem v))];
     sh \<leftarrow> shell_printf e sh (ascii ''Display resolution: 1 block = %d bytes'' @ [10, 10]) [IntArg (mv_bytes_per_block v)];
     sh \<leftarrow> shell_printf e sh (ascii ''%d bytes in %d blocks'' @ [10]) [IntArg (total_bytes s), IntArg (total_blocks s)];
     a \<leftarrow> int_div (total_bytes s) (total_blocks s);
     sh \<leftarrow> shell_printf e sh (ascii ''Average block size: %d bytes'' @ [10]) [IntArg a];
     f \<leftarrow> int_div (total_free_bytes s) (total_free_blocks s);
     sh \<leftarrow> shell_printf e sh (ascii ''Average free block size: %d bytes'' @ [10]) [IntArg f];
     (sh, fd) \<leftarrow> sh_open e sh (ascii ''/dev/stdin'') 0;
     (case inp of [] \<Rightarrow> None | c # inp \<Rightarrow> Some (v\<lparr>mv_sh := sh\<rparr>, inp)) }"

section \<open>The benchmark\<close>

datatype mv_op = MAlloc u32 | MFree | MDot

fun mv_do_op :: "shell_env \<Rightarrow> memview \<Rightarrow> mv_op \<Rightarrow> memview option" where
  "mv_do_op e v (MAlloc sz) = allocate_dummy_block e v sz"
| "mv_do_op e v MFree = map_option fst (free_dummy_block e v)"
| "mv_do_op e v MDot = map_option (\<lambda>sh. v\<lparr>mv_sh := sh\<rparr>) (shell_printf e (mv_sh v) [46] [])"

fun mv_do_ops :: "shell_env \<Rightarrow> memview \<Rightarrow> mv_op list \<Rightarrow> memview option" where
  "mv_do_ops e v [] = Some v"
| "mv_do_ops e v (x # xs) = do { v \<leftarrow> mv_do_op e v x; mv_do_ops e v xs }"

text \<open>The calls of \<open>mv_do_benchmark\<close>, in three parts.\<close>

definition mv_benchmark1 :: "mv_op list" where
  "mv_benchmark1 =
    [MAlloc 17472, MFree, MAlloc 69382, MFree, MAlloc 20947, MAlloc 65895, MFree, MAlloc 43560, MFree, MAlloc 28139,
     MFree, MAlloc 17117, MAlloc 55948, MAlloc 17951, MAlloc 8243, MFree, MDot, MAlloc 24158, MAlloc 47781,
     MAlloc 15789, MAlloc 69879, MFree, MAlloc 40557, MFree, MAlloc 5569, MFree, MAlloc 65439, MFree, MAlloc 12880,
     MFree, MAlloc 60621, MAlloc 48204, MDot, MAlloc 52526, MAlloc 21711, MFree, MAlloc 62688, MAlloc 7254,
     MAlloc 4656, MFree, MAlloc 60099, MFree, MAlloc 37330, MAlloc 9118, MAlloc 39687, MAlloc 60146, MFree, MDot,
     MAlloc 22928, MAlloc 45517, MAlloc 60317, MFree, MAlloc 49194, MFree, MAlloc 31617, MAlloc 2595, MAlloc 50396,
     MAlloc 59238, MAlloc 21389, MFree, MAlloc 21303, MDot, MAlloc 43855, MAlloc 43437, MFree, MAlloc 53731,
     MAlloc 50861, MFree, MAlloc 4981, MFree, MAlloc 69027, MFree, MAlloc 9028, MFree, MAlloc 51008, MAlloc 14172,
     MFree, MAlloc 54422, MFree, MDot, MAlloc 53012, MAlloc 66210, MFree, MAlloc 17541, MAlloc 58399, MFree,
     MAlloc 66961, MFree, MAlloc 38290, MFree, MAlloc 4254, MFree, MAlloc 38766, MAlloc 50011, MFree, MAlloc 9156,
     MDot, MAlloc 62414, MFree, MAlloc 941, MAlloc 13312, MAlloc 20971, MFree, MAlloc 61601, MAlloc 57586,
     MAlloc 2635, MFree, MAlloc 4320, MFree, MAlloc 32261, MFree, MAlloc 29424, MDot, MAlloc 11554, MAlloc 67462,
     MFree, MAlloc 61240, MAlloc 40092]"

definition mv_benchmark2 :: "mv_op list" where
  "mv_benchmark2 =
    [MAlloc 24957, MFree, MAlloc 25519, MAlloc 3448, MFree, MAlloc 21001, MAlloc 16907, MAlloc 3914, MDot,
     MAlloc 13526, MFree, MAlloc 60148, MFree, MAlloc 39712, MAlloc 46512, MAlloc 18333, MAlloc 12187, MAlloc 53490,
     MAlloc 57685, MAlloc 33760, MFree, MAlloc 40235, MFree, MDot, MAlloc 26018, MFree, MAlloc 46493, MFree,
     MAlloc 25334, MFree, MAlloc 43774, MAlloc 11781, MFree, MAlloc 48102, MFree, MAlloc 31576, MFree, MAlloc 42199,
     MAlloc 39590, MAlloc 62127, MDot, MAlloc 61081, MFree, MAlloc 34432, MAlloc 1325, MFree, MAlloc 19254,
     MAlloc 25880, MAlloc 12250, MAlloc 35156, MAlloc 507, MAlloc 9324, MFree, MAlloc 9085, MFree, MDot,
     MAlloc 39726, MFree, MAlloc 34627, MFree, MAlloc 47041, MAlloc 18106, MFree, MAlloc 57891, MAlloc 47589,
     MAlloc 24744, MAlloc 54181, MAlloc 69695, MFree, MAlloc 23159, MFree, MDot, MAlloc 36191, MFree, MAlloc 14695,
     MFree, MAlloc 10709, MAlloc 52911, MFree, MAlloc 38169, MAlloc 51211, MFree, MAlloc 56271, MFree, MAlloc 5852,
     MAlloc 64613, MAlloc 25953, MDot, MAlloc 3462, MFree, MAlloc 12668, MAlloc 50838, MAlloc 3888, MFree,
     MAlloc 20956, MAlloc 34583, MAlloc 13365, MAlloc 37252, MFree, MAlloc 23603, MFree, MAlloc 31510, MDot,
     MAlloc 7629, MAlloc 46032, MFree, MAlloc 6266, MAlloc 31463, MAlloc 17271, MFree, MAlloc 67031, MFree,
     MAlloc 47562, MFree, MAlloc 24622, MAlloc 44097, MAlloc 17173, MFree, MDot]"

definition mv_benchmark3 :: "mv_op list" where
  "mv_benchmark3 =
    [MAlloc 6047, MAlloc 42198, MFree, MAlloc 60994, MAlloc 23242, MAlloc 15868, MAlloc 61315, MAlloc 56594,
     MAlloc 1844, MFree, MAlloc 63912, MFree, MAlloc 51708, MFree, MDot, MAlloc 16476, MAlloc 54679, MAlloc 40373,
     MAlloc 64791, MFree, MAlloc 69415, MFree, MAlloc 7057, MAlloc 61891, MFree, MAlloc 35963, MFree, MAlloc 34982,
     MAlloc 57250, MDot, MAlloc 13686, MFree, MAlloc 443, MFree, MAlloc 61564, MAlloc 49817, MFree, MAlloc 43223,
     MFree, MAlloc 29908, MAlloc 25401, MAlloc 27598, MFree, MAlloc 67139, MAlloc 1217, MDot, MAlloc 8509,
     MAlloc 8493, MFree, MAlloc 29680, MFree, MAlloc 66064, MAlloc 49141, MFree, MAlloc 9762, MAlloc 53706, MFree,
     MAlloc 43400, MAlloc 52494, MAlloc 49456, MFree, MDot, MAlloc 28986, MFree, MAlloc 7658, MAlloc 63519, MFree,
     MAlloc 50000, MAlloc 19462, MFree, MAlloc 21363, MAlloc 52638, MAlloc 23953, MAlloc 737, MAlloc 59796, MFree,
     MDot, MAlloc 47873, MAlloc 62679, MFree, MAlloc 64813, MFree, MAlloc 43155, MAlloc 33502, MFree, MAlloc 7542,
     MAlloc 38342, MAlloc 57685, MAlloc 31085, MAlloc 40941, MDot, MAlloc 7169, MFree, MAlloc 17585, MAlloc 10004,
     MFree, MAlloc 68086, MFree, MAlloc 62341, MAlloc 49040, MFree, MAlloc 18844, MFree, MAlloc 18668, MFree,
     MAlloc 4527, MAlloc 63873, MDot, MAlloc 30009, MFree, MAlloc 65669, MAlloc 48814, MAlloc 8192, MAlloc 44603,
     MAlloc 8415, MAlloc 34657, MFree, MAlloc 44710, MAlloc 47316]"

definition mv_do_benchmark :: "shell_env \<Rightarrow> memview \<Rightarrow> memview option" where
  "mv_do_benchmark e v = do {
     sh \<leftarrow> shell_printf e (mv_sh v) (ascii ''BENCHMARKING: '') [];
     v \<leftarrow> free_all_dummy_blocks e (v\<lparr>mv_sh := sh\<rparr>);
     mv_do_ops e v (mv_benchmark1 @ mv_benchmark2 @ mv_benchmark3) }"

section \<open>The keys\<close>

definition mv_key :: "(s32 \<Rightarrow> u32 \<Rightarrow> s32) \<Rightarrow> shell_env \<Rightarrow> memview \<Rightarrow> u8 \<Rightarrow> bytes \<Rightarrow> (memview \<times> bytes) option" where
  "mv_key percent e v c inp =
     (if c = 97 then do {
        v \<leftarrow> allocate_dummy_block e v (mv_bytes_per_block v);
        v \<leftarrow> update_view e v; Some (v, inp) }
      else if c = 102 then do {
        (v, r) \<leftarrow> free_dummy_block e v;
        v \<leftarrow> update_view e v; Some (v, inp) }
      else if c = 105 then
        (if mv_bytes_per_block v > 512 then do {
           v \<leftarrow> update_view e (v\<lparr>mv_bytes_per_block := mv_bytes_per_block v - 512\<rparr>); Some (v, inp) }
         else Some (v, inp))
      else if c = 111 then do {
        v \<leftarrow> update_view e (v\<lparr>mv_bytes_per_block := mv_bytes_per_block v + 512\<rparr>); Some (v, inp) }
      else if c = 117 then do { v \<leftarrow> update_view e v; Some (v, inp) }
      else if c = 115 then do {
        v \<leftarrow> mv_switch_to_textmode e v;
        (v, inp) \<leftarrow> mv_show_stats percent e v inp;
        v \<leftarrow> mv_switch_to_graphicsmode e v;
        v \<leftarrow> update_view e v; Some (v, inp) }
      else if c = 98 then do {
        v \<leftarrow> mv_switch_to_textmode e v;
        v \<leftarrow> mv_do_benchmark e v;
        v \<leftarrow> mv_switch_to_graphicsmode e v;
        v \<leftarrow> update_view e v; Some (v, inp) }
      else Some (v, inp))"

text \<open>The loop for the characters that are typed before the escape key is held.\<close>

partial_function (option) mv_keys :: "(s32 \<Rightarrow> u32 \<Rightarrow> s32) \<Rightarrow> shell_env \<Rightarrow> memview \<Rightarrow> bytes \<Rightarrow> memview option" where
  "mv_keys percent e v inp =
     (if inp = [] then Some v
      else do {
        (v, inp) \<leftarrow> mv_key percent e v (hd inp) (tl inp);
        mv_keys percent e v inp })"

declare mv_keys.simps [code]

text \<open>The scale at the start: as many bytes for a cell as make the whole heap 2000 cells.\<close>

definition mv_init :: "memview \<Rightarrow> memview" where
  "mv_init v =
     (let hp = mv_heap v; total = hp_end hp + HDR - hp_start hp in
      v\<lparr>mv_allocated_blocks := replicate MEMVIEW_MAX_DUMMY_BLOCKS 0, mv_total_mem := total, mv_bytes_per_block := total div 2000\<rparr>)"

text \<open>The descriptors are opened first; the texts that are printed before the first key are left out.\<close>

definition memview_main :: "(s32 \<Rightarrow> u32 \<Rightarrow> s32) \<Rightarrow> shell_env \<Rightarrow> memview \<Rightarrow> bytes \<Rightarrow> memview option" where
  "memview_main percent e v inp = do {
     (sh, keyboard) \<leftarrow> sh_open e (mv_sh v) (ascii ''/dev/keyboard'') 0;
     (sh, stdin) \<leftarrow> sh_open e sh (ascii ''/dev/stdin'') 0;
     let v = mv_init (v\<lparr>mv_sh := sh\<rparr>);
     (case inp of
        [] \<Rightarrow> None
      | c # inp \<Rightarrow> do {
          v \<leftarrow> mv_switch_to_graphicsmode e v;
          v \<leftarrow> update_view e v;
          v \<leftarrow> mv_keys percent e v inp;
          sh \<leftarrow> sh_close e (mv_sh v) (mv_framebuf v);
          v \<leftarrow> free_all_dummy_blocks e (v\<lparr>mv_sh := sh\<rparr>);
          sh \<leftarrow> sh_close e (mv_sh v) stdin;
          sh \<leftarrow> sh_close e sh keyboard;
          k \<leftarrow> exit_call (se_sys e) (sh_k sh);
          Some (v\<lparr>mv_sh := sh\<lparr>sh_k := k, exited := True\<rparr>\<rparr>) }) }"

section \<open>What the picture shows\<close>

lemma mark_loop_length [simp]: "length (mark_loop bpb disp pos sz) = length disp"
proof (induction bpb disp pos sz rule: mark_loop.induct)
  case (1 bpb disp pos sz)
  then show ?case by (subst mark_loop.simps) simp
qed

lemma mark_loop_nth:
  "bpb \<noteq> 0 \<Longrightarrow> length disp = 2000 \<Longrightarrow> i < 2000 \<Longrightarrow> mark_loop bpb disp pos sz ! i =
   (if unat pos \<le> i \<and> i < unat pos + unat sz div unat bpb then RED
    else if i = unat pos + unat sz div unat bpb then PINK else disp ! i)"
proof (induction bpb disp pos sz rule: mark_loop.induct)
  case (1 bpb disp pos sz)
  have b: "0 < unat bpb" using "1.prems"(1) by (simp add: unat_gt_0)
  show ?case
  proof (cases "pos < 2000")
    case False
    then have "2000 \<le> unat pos" by (simp add: word_less_nat_alt)
    with False "1.prems"(3) show ?thesis by (subst mark_loop.simps) simp
  next
    case pos: True
    then have p: "unat pos < 2000" "unat (pos + 1) = unat pos + 1" by (simp_all add: word_less_nat_alt unat_word_ariths)
    show ?thesis
    proof (cases "sz < bpb")
      case True
      then have "unat sz div unat bpb = 0" by (simp add: word_less_nat_alt)
      with True pos p "1.prems" show ?thesis by (subst mark_loop.simps) (auto simp: nth_list_update)
    next
      case False
      then have le: "unat bpb \<le> unat sz" by (simp add: word_less_nat_alt)
      then have "unat (sz - bpb) = unat sz - unat bpb" by (simp add: unat_sub word_le_nat_alt)
      then have d: "unat sz div unat bpb = Suc (unat (sz - bpb) div unat bpb)" using le b by (simp add: le_div_geq)
      have "mark_loop bpb disp pos sz = mark_loop bpb (disp[unat pos := RED]) (pos + 1) (sz - bpb)"
        using pos False by (subst mark_loop.simps) simp
      then show ?thesis using "1.IH" [OF pos False] "1.prems" p d by (auto simp: nth_list_update)
    qed
  qed
qed

text \<open>The first cell of a block and the number of cells that it fills.\<close>

definition cell_of :: "heap \<Rightarrow> u32 \<Rightarrow> u32 \<Rightarrow> nat" where
  "cell_of hp bpb a = (unat a - unat (hp_start hp)) div unat bpb"

definition in_block :: "heap \<Rightarrow> u32 \<Rightarrow> nat \<Rightarrow> u32 \<Rightarrow> bool" where
  "in_block hp bpb i a \<longleftrightarrow> cell_of hp bpb a \<le> i \<and> i \<le> cell_of hp bpb a + hsize (hp_store hp) a div unat bpb"

definition shown :: "heap \<Rightarrow> u32 \<Rightarrow> u32 list \<Rightarrow> bytes \<Rightarrow> bytes \<Rightarrow> bool" where
  "shown hp bpb as old disp \<longleftrightarrow> length disp = 2000 \<and>
     (\<forall>i < 2000. if \<exists>a \<in> set as. in_block hp bpb i a then disp ! i \<in> {RED, PINK} else disp ! i = old ! i)"

lemma view_blocks_walk:
  assumes "successively (adj (hp_store hp)) (cs @ [stop])" "stop \<notin> set cs" "bpb \<noteq> 0" "length disp = 2000"
    and "\<forall>a \<in> set cs. unat (hp_start hp) \<le> unat a"
  shows "\<exists>disp'. view_blocks hp bpb stop (hd (cs @ [stop])) disp = Some disp' \<and> shown hp bpb cs disp disp'"
  using assms
proof (induction cs arbitrary: disp)
  case Nil
  then show ?case by (subst view_blocks.simps) (simp add: shown_def)
next
  case (Cons a cs)
  obtain h where h: "hp_store hp a = Some h" "hd_next h = hd (cs @ [stop])"
    using Cons.prems(1) by (cases cs) (auto simp: adj_def)
  have ring: "successively (adj (hp_store hp)) (cs @ [stop])"
    using Cons.prems(1) by (cases cs) simp_all
  let ?d = "mark_loop bpb disp ((a - hp_start hp) div bpb) (hd_size h)"
  from Cons.IH [OF ring, of ?d] Cons.prems obtain disp' where
    d: "view_blocks hp bpb stop (hd (cs @ [stop])) ?d = Some disp'" "shown hp bpb cs ?d disp'" by auto
  have c: "unat ((a - hp_start hp) div bpb) = cell_of hp bpb a"
    using Cons.prems(5) by (simp add: cell_of_def unat_div unat_sub word_le_nat_alt)
  have nth: "?d ! i = (if cell_of hp bpb a \<le> i \<and> i < cell_of hp bpb a + hsize (hp_store hp) a div unat bpb then RED
      else if i = cell_of hp bpb a + hsize (hp_store hp) a div unat bpb then PINK else disp ! i)" if "i < 2000" for i
    using mark_loop_nth [OF Cons.prems(3,4) that, of "(a - hp_start hp) div bpb" "hd_size h"] h(1)
    by (simp add: c hsize_Some)
  have "view_blocks hp bpb stop a disp = Some disp'"
    using d(1) h Cons.prems(2,3) by (subst view_blocks.simps) (auto simp: mark_visual_block_def)
  moreover have "shown hp bpb (a # cs) disp disp'"
    unfolding shown_def
  proof (intro conjI allI impI)
    show "length disp' = 2000" using d(2) by (simp add: shown_def)
    fix i :: nat assume i: "i < 2000"
    show "if \<exists>b\<in>set (a # cs). in_block hp bpb i b then disp' ! i \<in> {RED, PINK} else disp' ! i = disp ! i"
      using d(2) i nth [OF i] by (auto simp: shown_def in_block_def split: if_splits)
  qed
  ultimately show ?case by auto
qed

lemma green_loop_eq:
  "i + n \<le> length disp \<Longrightarrow> green_loop disp i n = Some (take i disp @ replicate n GREEN @ drop (i + n) disp)"
proof (induction n arbitrary: disp i)
  case (Suc n)
  then have "green_loop (disp[i := GREEN]) (i + 1) n = Some (take (i + 1) (disp[i := GREEN]) @ replicate n GREEN @ drop (i + 1 + n) (disp[i := GREEN]))"
    by simp
  with Suc.prems show ?case by (simp add: wr_at_def take_update_next [of i disp GREEN, simplified])
qed simp

lemma green_loop_None: "length disp < i + n \<Longrightarrow> i \<le> length disp \<Longrightarrow> green_loop disp i n = None"
proof (induction n arbitrary: disp i)
  case (Suc n)
  show ?case
  proof (cases "i < length disp")
    case True
    then have "green_loop (disp[i := GREEN]) (i + 1) n = None" using Suc.prems by (intro Suc.IH) simp_all
    with True show ?thesis by (simp add: wr_at_def)
  next
    case False
    then show ?thesis by (simp add: wr_at_def)
  qed
qed simp



text \<open>
  On the heap as the kernel creates it, of 5 megabytes, the first picture fits, but after one key to zoom in
  the array overflows.
\<close>

lemma zoom_overflows:
  assumes "hp_start (mv_heap v) = 0xC0000000" "hp_end (mv_heap v) = 0xC0000000 + 0x500000 - HDR"
  shows "mv_bytes_per_block (mv_init v) = 2621 \<and> unat (heap_get_size (mv_heap v)) div 2621 = 2000 \<and>
    mv_key percent e (mv_init v) 105 inp = None"
proof -
  have "heap_get_size (mv_heap v) = 0x500001" using assms by (simp add: heap_get_size_def)
  moreover from this have "green_loop (replicate 2000 DARKGREY) 0 (unat (heap_get_size (mv_heap v) div 2109)) = None"
    by (intro green_loop_None) simp_all
  ultimately show ?thesis
    using assms by (simp add: mv_init_def Let_def mv_key_def update_view_def heap_picture_def)
qed

end
