(* ===== verification/Alloc.thy ===== *)
theory Alloc
  imports Heap CString
begin

text \<open>
  The allocation functions of \<open>lib/stdlib.c\<close> (\<open>mallocn\<close>, \<open>malloc\<close>, \<open>callocn\<close>, \<open>calloc\<close>, \<open>free\<close>, \<open>realloc\<close>) and
  \<open>memmove\<close> with the block that it allocates. Here the bytes of the blocks matter too: \<open>mem\<close> is the memory, the
  headers in it are those of the heap's store. The name in a header is a debugging aid and a C string.
\<close>

section \<open>Operations\<close>

definition mallocn :: "mm_state \<Rightarrow> heap \<Rightarrow> u32 \<Rightarrow> bytes \<Rightarrow> (mm_state \<times> heap \<times> u32) option" where
  "mallocn mm hp sz name = heap_mallocn mm hp sz name"

definition malloc :: "mm_state \<Rightarrow> heap \<Rightarrow> u32 \<Rightarrow> (mm_state \<times> heap \<times> u32) option" where
  "malloc mm hp sz = mallocn mm hp sz [110, 111, 110, 97, 109, 101]"

definition free :: "heap \<Rightarrow> u32 \<Rightarrow> heap option" where
  "free hp start = heap_free start hp"

definition callocn :: "mm_state \<Rightarrow> heap \<Rightarrow> mem \<Rightarrow> u32 \<Rightarrow> u32 \<Rightarrow> bytes \<Rightarrow> (mm_state \<times> heap \<times> mem \<times> u32) option" where
  "callocn mm hp m n sz name = do {
     (mm, hp, ret) \<leftarrow> mallocn mm hp (n * sz) name;
     if ret = 0 then Some (mm, hp, m, 0)
     else Some (mm, hp, bzero m (unat ret) (n * sz), ret) }"

definition calloc :: "mm_state \<Rightarrow> heap \<Rightarrow> mem \<Rightarrow> u32 \<Rightarrow> u32 \<Rightarrow> (mm_state \<times> heap \<times> mem \<times> u32) option" where
  "calloc mm hp m n sz = callocn mm hp m n sz [110, 111, 110, 97, 109, 101]"

text \<open>\<open>memmove\<close> does not test the result of \<open>mallocn\<close>.\<close>

definition heap_memmove :: "mm_state \<Rightarrow> heap \<Rightarrow> mem \<Rightarrow> u32 \<Rightarrow> u32 \<Rightarrow> u32 \<Rightarrow> (mm_state \<times> heap \<times> mem) option" where
  "heap_memmove mm hp m dest src count = do {
     (mm, hp, temp) \<leftarrow> mallocn mm hp count [109, 101, 109, 109, 111, 118, 101];
     let m = fst (memmove m (unat temp) (unat dest) (unat src) count);
     hp \<leftarrow> free hp temp;
     Some (mm, hp, m) }"

definition realloc :: "mm_state \<Rightarrow> heap \<Rightarrow> mem \<Rightarrow> u32 \<Rightarrow> u32 \<Rightarrow> (mm_state \<times> heap \<times> mem \<times> u32) option" where
  "realloc mm hp m pointer sz = do {
     let hdr = pointer - HDR;
     h \<leftarrow> hp_store hp hdr;
     if hd_next h \<ge> pointer + sz then do {
       s \<leftarrow> upd_hdr hdr (hd_size_update (\<lambda>_. sz)) (hp_store hp);
       Some (mm, hp\<lparr>hp_store := s\<rparr>, m, pointer) }
     else do {
       (mm, hp, new) \<leftarrow> mallocn mm hp sz (hd_name h);
       if new = 0 then Some (mm, hp, m, 0)
       else do {
         h \<leftarrow> hp_store hp hdr;
         (mm, hp, m) \<leftarrow> heap_memmove mm hp m new pointer (hd_size h);
         hp \<leftarrow> free hp pointer;
         Some (mm, hp, m, new) } } }"

section \<open>The contents of the blocks\<close>

definition block :: "mem \<Rightarrow> u32 \<Rightarrow> nat \<Rightarrow> bytes" where
  "block m q n = get_bytes m (unat q + 44) n"

lemma heap_resize_inv:
  assumes inv: "heap_inv hp (b1 @ q # b2)" and h: "hp_store hp q = Some h" "unat q + 44 + unat sz \<le> unat (hd_next h)"
    and s: "upd_hdr q (hd_size_update (\<lambda>_. sz)) (hp_store hp) = Some s"
  shows "heap_inv (hp\<lparr>hp_store := s\<rparr>) (b1 @ q # b2) \<and> (\<forall>a. hsize s a = (if a = q then unat sz else hsize (hp_store hp) a))"
proof -
  from inv obtain us x y vs hx hq hy where l: "heads hp (b1 @ q # b2) = us @ x # q # y # vs"
    "hp_store hp x = Some hx" "hp_store hp q = Some hq" "hp_store hp y = Some hy" "hd_next hq = y"
    by (rule heap_free_link)
  note inv' = heap_invD [OF inv]
  have s': "s = (hp_store hp)(q := Some (h\<lparr>hd_size := sz\<rparr>))" using s h(1) by (auto simp: upd_hdr_def)
  have sz: "hsize s a = (if a = q then unat sz else hsize (hp_store hp) a)" for a by (simp add: s' hsize_def)
  have "successively (adj s) (heads hp (b1 @ q # b2) @ [hp_start hp])"
    by (rule adj_mono [OF inv'(1)]) (use h(1) in \<open>auto simp: adj_def s'\<close>)
  moreover have "sorted_wrt (before s) (us @ x # q # y # vs)"
  proof -
    have o: "sorted_wrt (before (hp_store hp)) (us @ x # q # y # vs)" using inv'(2) l(1) by simp
    have d: "distinct (us @ x # q # y # vs)" using inv'(4) l(1) by simp
    have "unat y \<le> unat v" if "v \<in> set (y # vs)" for v
      using o that by (auto simp: sorted_wrt_append before_def)
    then have "before s q v" if "v \<in> set (y # vs)" for v
      using h l(3,5) that by (force simp: before_def sz)
    moreover have "\<forall>u\<in>set (us @ x # y # vs). \<forall>v. before s u v = before (hp_store hp) u v"
      using d by (auto simp: before_def sz)
    moreover have "sorted_wrt (before s) (us @ [x])"
      by (rule sorted_before_cong [where s = "hp_store hp"]) (use o d in \<open>auto simp: sorted_wrt_append sz\<close>)
    moreover have "sorted_wrt (before s) (y # vs)"
      by (rule sorted_before_cong [where s = "hp_store hp"]) (use o d in \<open>auto simp: sorted_wrt_append sz\<close>)
    ultimately show ?thesis using o d by (auto simp: sorted_wrt_append)
  qed
  ultimately show ?thesis using inv'(3) sz by (simp add: heap_inv_heads l(1))
qed

lemma blocks_apart:
  assumes "heap_inv hp bs" "a \<in> set bs" "b \<in> set bs" "a \<noteq> b"
  shows "unat a + 44 + hsize (hp_store hp) a \<le> unat b \<or> unat b + 44 + hsize (hp_store hp) b \<le> unat a"
proof -
  have "{unat a ..< unat a + 44 + hsize (hp_store hp) a} \<inter> {unat b ..< unat b + 44 + hsize (hp_store hp) b} = {}"
    using blocks_disjoint [OF assms] by blast
  moreover have "unat a \<in> {unat a ..< unat a + 44 + hsize (hp_store hp) a}" "unat b \<in> {unat b ..< unat b + 44 + hsize (hp_store hp) b}"
    by simp_all
  ultimately have "unat a \<notin> {unat b ..< unat b + 44 + hsize (hp_store hp) b}" "unat b \<notin> {unat a ..< unat a + 44 + hsize (hp_store hp) a}"
    by blast+
  then show ?thesis by simp linarith
qed

text \<open>Where a largest hole has room for two blocks the second one fits behind the first.\<close>

lemma fit_behind:
  assumes inv: "heap_inv hp bs" and n: "unat n = unat x + 44 + hsize (hp_store hp) x" "hsize (hp_store hp') n = unat sz"
    and g: "unat sz + k + 88 \<le> gap (hp_store hp) x y"
  shows "k + 44 \<le> gap (hp_store hp') n y"
  using n g by (simp add: gap_def)

lemma heap_memmove_blocks:
  assumes inv: "heap_inv hp bs" and ab: "a \<in> set bs" "q \<in> set bs" "a \<noteq> q"
    and count: "unat count = hsize (hp_store hp) q" "unat count \<le> hsize (hp_store hp) a"
    and room: "(u, v) \<in> set (pairs (heads hp bs))" "unat count + 44 \<le> gap (hp_store hp) u v"
  shows "\<exists>hp' m'. heap_memmove mm hp m (a + HDR) (q + HDR) count = Some (mm, hp', m') \<and> heap_inv hp' bs \<and>
    (\<forall>c \<in> set bs. hsize (hp_store hp') c = hsize (hp_store hp) c) \<and>
    block m' a (unat count) = block m q (unat count) \<and>
    (\<forall>c \<in> set bs. c \<noteq> a \<longrightarrow> block m' c (hsize (hp_store hp) c) = block m c (hsize (hp_store hp) c))"
proof -
  have c44: "unat count + 44 < 2 ^ 32"
    using block_bounds(2) [OF inv ab(2)] count(1) unat_u32_lt [of "hp_end hp"] by simp
  obtain hp1 c1 c2 t where f: "heap_mallocn mm hp count [109, 101, 109, 109, 111, 118, 101] = Some (mm, hp1, t + HDR)"
    "bs = c1 @ c2" "heap_inv hp1 (c1 @ t # c2)" "hsize (hp_store hp1) t = unat count"
    "\<forall>c \<in> set bs. hsize (hp_store hp1) c = hsize (hp_store hp) c"
    using heap_mallocn_fit [OF inv c44 room] by blast
  obtain s where s: "heap_free (t + HDR) hp1 = Some (hp1\<lparr>hp_store := s\<rparr>)" "heap_inv (hp1\<lparr>hp_store := s\<rparr>) (c1 @ c2)"
    "\<forall>c. hsize s c = hsize (hp_store hp1) c"
    using heap_free_inv [OF f(3)] by blast
  have dst: "distinct (c1 @ t # c2)" using heap_invD(4) [OF f(3)] by (simp add: heads_def)
  have t: "t \<in> set (c1 @ t # c2)" "t \<notin> set bs" using dst f(2) by auto
  have sub: "c \<in> set (c1 @ t # c2)" if "c \<in> set bs" for c using that f(2) by auto
  have addr: "unat (c + HDR) = unat c + 44" if "c \<in> insert t (set bs)" for c
    using that sub t block_bounds(3) [OF f(3), of c] by auto
  have apart: "unat t + 44 + unat count \<le> unat c \<or> unat c + 44 + hsize (hp_store hp) c \<le> unat t" if "c \<in> set bs" for c
    using blocks_apart [OF f(3) t(1) sub [OF that]] that t(2) f(4,5) by auto
  have apart': "unat a + 44 + hsize (hp_store hp) a \<le> unat c \<or> unat c + 44 + hsize (hp_store hp) c \<le> unat a"
    if "c \<in> set bs" "c \<noteq> a" for c
    using blocks_apart [OF inv ab(1) that(1)] that(2) by auto
  define T where "T = unat t + 44"
  define bytes where "bytes = get_bytes m (unat q + 44) (unat count)"
  have "fst (memcpy m T (unat q + 44) count) = put_bytes m T bytes"
    using apart [OF ab(2)] count(1) unfolding bytes_def T_def by (subst memcpy_eq) auto
  moreover have "fst (memcpy (put_bytes m T bytes) (unat a + 44) T count) = put_bytes (put_bytes m T bytes) (unat a + 44) bytes"
  proof -
    have "unat a + 44 \<le> T \<or> T + unat count \<le> unat a + 44"
      using apart [OF ab(1)] by (auto simp: T_def)
    moreover have "get_bytes (put_bytes m T bytes) T (unat count) = bytes"
      by (simp add: bytes_def)
    ultimately show ?thesis by (simp add: memcpy_eq)
  qed
  ultimately have mv: "fst (memmove m T (unat a + 44) (unat q + 44) count) = put_bytes (put_bytes m T bytes) (unat a + 44) bytes"
    by (simp add: memmove_def Let_def)
  let ?m = "put_bytes (put_bytes m T bytes) (unat a + 44) bytes"
  have lb: "length bytes = unat count" by (simp add: bytes_def)
  have "heap_memmove mm hp m (a + HDR) (q + HDR) count = Some (mm, hp1\<lparr>hp_store := s\<rparr>, ?m)"
    using f(1) s(1) mv addr [of a] addr [of q] addr [of t] ab
    by (simp add: heap_memmove_def mallocn_def free_def T_def [symmetric])
  moreover have "block ?m a (unat count) = block m q (unat count)"
    using lb by (simp add: block_def bytes_def)
  moreover have "block ?m c (hsize (hp_store hp) c) = block m c (hsize (hp_store hp) c)" if c: "c \<in> set bs" "c \<noteq> a" for c
  proof -
    have "get_bytes ?m (unat c + 44) (hsize (hp_store hp) c) = get_bytes (put_bytes m T bytes) (unat c + 44) (hsize (hp_store hp) c)"
      by (rule get_put_bytes_other) (use apart' [OF c] count(2) lb in auto)
    also have "\<dots> = get_bytes m (unat c + 44) (hsize (hp_store hp) c)"
      by (rule get_put_bytes_other) (use apart [OF c(1)] lb in \<open>auto simp: T_def\<close>)
    finally show ?thesis by (simp add: block_def)
  qed
  ultimately show ?thesis using s(2,3) f(2,5)
    by (intro exI [of _ "hp1\<lparr>hp_store := s\<rparr>"] exI [of _ ?m]) simp
qed

section \<open>Reallocation\<close>

lemma realloc_in_place:
  assumes inv: "heap_inv hp (b1 @ q # b2)" and wrap: "unat (hp_end hp) + unat sz < 2 ^ 32"
    and h: "hp_store hp q = Some h" "unat q + 44 + unat sz \<le> unat (hd_next h)"
  shows "\<exists>s. realloc mm hp m (q + HDR) sz = Some (mm, hp\<lparr>hp_store := s\<rparr>, m, q + HDR) \<and>
    heap_inv (hp\<lparr>hp_store := s\<rparr>) (b1 @ q # b2) \<and> (\<forall>a. hsize s a = (if a = q then unat sz else hsize (hp_store hp) a))"
proof -
  obtain s where s: "upd_hdr q (hd_size_update (\<lambda>_. sz)) (hp_store hp) = Some s" using h(1) by (simp add: upd_hdr_def)
  have b: "unat (q + HDR) = unat q + 44" "unat q + 44 + hsize (hp_store hp) q \<le> unat (hp_end hp)"
    using block_bounds [OF inv, of q] by simp_all
  then have "unat (q + HDR + sz) = unat q + 44 + unat sz" using wrap by (simp add: unat_word_ariths)
  then have "q + HDR + sz \<le> hd_next h" using h(2) by (simp add: word_le_nat_alt)
  then have "realloc mm hp m (q + HDR) sz = Some (mm, hp\<lparr>hp_store := s\<rparr>, m, q + HDR)"
    using h(1) s by (simp add: realloc_def)
  with heap_resize_inv [OF inv h s] show ?thesis by blast
qed

lemma realloc_moved:
  assumes inv: "heap_inv hp (b1 @ q # b2)" and wrap: "unat (hp_end hp) + unat sz < 2 ^ 32"
    and h: "hp_store hp q = Some h" "unat (hd_next h) < unat q + 44 + unat sz"
    and room: "(u, v) \<in> set (pairs (heads hp (b1 @ q # b2)))" "unat sz + hsize (hp_store hp) q + 88 \<le> gap (hp_store hp) u v"
  shows "\<exists>hp' m' a bs'. realloc mm hp m (q + HDR) sz = Some (mm, hp', m', a + HDR) \<and> heap_inv hp' bs' \<and>
    set bs' = insert a (set (b1 @ b2)) \<and> hsize (hp_store hp') a = unat sz \<and> a \<notin> set (b1 @ b2) \<and>
    block m' a (hsize (hp_store hp) q) = block m q (hsize (hp_store hp) q) \<and> hsize (hp_store hp) q \<le> unat sz \<and>
    (\<forall>c \<in> set (b1 @ b2). hsize (hp_store hp') c = hsize (hp_store hp) c \<and>
       block m' c (hsize (hp_store hp) c) = block m c (hsize (hp_store hp) c))"
proof -
  let ?bs = "b1 @ q # b2" and ?S = "hsize (hp_store hp) q"
  have qb: "unat (q + HDR) = unat q + 44" "unat q + 44 + ?S \<le> unat (hp_end hp)"
    using block_bounds [OF inv, of q] by simp_all
  then have "unat (q + HDR + sz) = unat q + 44 + unat sz" using wrap by (simp add: unat_word_ariths)
  then have no: "\<not> q + HDR + sz \<le> hd_next h" using h(2) by (simp add: word_le_nat_alt)
  have le: "?S \<le> unat sz"
  proof -
    from inv obtain us x y vs hx hq hy where l: "heads hp ?bs = us @ x # q # y # vs"
      "hp_store hp q = Some hq" "hd_next hq = y" by (rule heap_free_link)
    have "before (hp_store hp) q y" using heap_invD(2) [OF inv] l(1) by (auto simp: sorted_wrt_append)
    then show ?thesis using h l by (simp add: before_def)
  qed
  have c44: "unat sz + 44 < 2 ^ 32" using qb(2) wrap by simp
  have fit: "unat sz + 44 \<le> gap (hp_store hp) u v" using room(2) by simp
  obtain hp1 c1 c2 a x y where f: "heap_mallocn mm hp sz (hd_name h) = Some (mm, hp1, a + HDR)" "?bs = c1 @ c2"
    "heap_inv hp1 (c1 @ a # c2)" "hsize (hp_store hp1) a = unat sz"
    "\<forall>c \<in> set ?bs. hsize (hp_store hp1) c = hsize (hp_store hp) c" "(x, y) \<in> set (pairs (heads hp ?bs))"
    "unat a = unat x + 44 + hsize (hp_store hp) x"
    "\<forall>(x', y') \<in> set (pairs (heads hp ?bs)). gap (hp_store hp) x' y' \<le> gap (hp_store hp) x y"
    "(a, y) \<in> set (pairs (heads hp1 (c1 @ a # c2)))"
    using heap_mallocn_fit [OF inv c44 room(1) fit] by blast
  have "unat sz + ?S + 88 \<le> gap (hp_store hp) x y" using bspec [OF f(8) room(1)] room(2) by simp
  then have room2: "?S + 44 \<le> gap (hp_store hp1) a y" by (rule fit_behind [OF inv f(7,4)])
  have set1: "set (c1 @ a # c2) = insert a (set ?bs)" using f(2) by auto
  have "distinct (c1 @ a # c2)" using heap_invD(4) [OF f(3)] by (simp add: heads_def)
  then have anew: "a \<notin> set ?bs" using f(2) by auto
  have dbs: "distinct ?bs" using heap_invD(4) [OF inv] by (simp add: heads_def)
  have S1: "hsize (hp_store hp1) q = ?S" using f(5) by simp
  have q1: "q \<in> set (c1 @ a # c2)" using set1 by simp
  then obtain h1 where h1: "hp_store hp1 q = Some h1"
  proof -
    from split_list [OF q1] obtain d1 d2 where "c1 @ a # c2 = d1 @ q # d2" by blast
    with f(3) have "heap_inv hp1 (d1 @ q # d2)" by simp
    then show ?thesis by (rule heap_free_link) (rule that)
  qed
  have cnt: "unat (hd_size h1) = hsize (hp_store hp1) q" using h1 by (simp add: hsize_def)
  have aq: "a \<noteq> q" "a \<in> set (c1 @ a # c2)" using anew by auto
  have cnt_le: "unat (hd_size h1) \<le> hsize (hp_store hp1) a" "unat (hd_size h1) + 44 \<le> gap (hp_store hp1) a y"
    using cnt S1 le f(4) room2 by simp_all
  obtain hp2 m2 where mv: "heap_memmove mm hp1 m (a + HDR) (q + HDR) (hd_size h1) = Some (mm, hp2, m2)"
    "heap_inv hp2 (c1 @ a # c2)" "\<forall>c \<in> set (c1 @ a # c2). hsize (hp_store hp2) c = hsize (hp_store hp1) c"
    "block m2 a ?S = block m q ?S"
    "\<forall>c \<in> set (c1 @ a # c2). c \<noteq> a \<longrightarrow> block m2 c (hsize (hp_store hp1) c) = block m c (hsize (hp_store hp1) c)"
    using heap_memmove_blocks [OF f(3) aq(2) q1 aq(1) cnt cnt_le(1) f(9) cnt_le(2), where m = m and mm = mm]
    unfolding cnt S1 by blast
  from split_list [OF q1] obtain d1 d2 where d: "c1 @ a # c2 = d1 @ q # d2" by blast
  obtain s where s: "heap_free (q + HDR) hp2 = Some (hp2\<lparr>hp_store := s\<rparr>)" "heap_inv (hp2\<lparr>hp_store := s\<rparr>) (d1 @ d2)"
    "\<forall>c. hsize s c = hsize (hp_store hp2) c"
    using heap_free_inv [of hp2 d1 q d2] mv(2) d by auto
  have "unat (a + HDR) = unat a + 44" using block_bounds(3) [OF f(3), of a] by simp
  then have "a + HDR \<noteq> 0" by auto
  then have "realloc mm hp m (q + HDR) sz = Some (mm, hp2\<lparr>hp_store := s\<rparr>, m2, a + HDR)"
    using no h(1) f(1) h1 mv(1) s(1) by (simp add: realloc_def mallocn_def free_def)
  moreover have "set (d1 @ d2) = insert a (set (b1 @ b2))"
  proof -
    have "distinct (d1 @ q # d2)" using heap_invD(4) [OF f(3)] d by (simp add: heads_def)
    then have "set (d1 @ d2) = set (d1 @ q # d2) - {q}" by auto
    also have "\<dots> = insert a (set ?bs) - {q}" using set1 d by simp
    also have "\<dots> = insert a (set (b1 @ b2))" using anew dbs by auto
    finally show ?thesis .
  qed
  moreover have "hsize s c = hsize (hp_store hp) c \<and> block m2 c (hsize (hp_store hp) c) = block m c (hsize (hp_store hp) c)"
    if "c \<in> set (b1 @ b2)" for c
    using that s(3) mv(3,5) f(5) set1 anew by auto
  moreover have "hsize s a = unat sz" using s(3) mv(3) f(4) by simp
  ultimately show ?thesis using s(2) mv(4) le anew
    by (intro exI [of _ "hp2\<lparr>hp_store := s\<rparr>"] exI [of _ m2] exI [of _ a] exI [of _ "d1 @ d2"]) simp
qed

text \<open>
  C26. With room for the block and for the temporary copy, \<open>realloc\<close> returns a block of the new size that begins with the
  bytes of the old one as far as they fit; the heap stays well formed, the old block is gone unless it has
  been resized in place, and all other blocks keep their addresses, sizes and bytes.
\<close>

theorem realloc_correct:
  assumes inv: "heap_inv hp (b1 @ q # b2)" and wrap: "unat (hp_end hp) + unat sz < 2 ^ 32"
    and room: "(u, v) \<in> set (pairs (heads hp (b1 @ q # b2)))" "unat sz + hsize (hp_store hp) q + 88 \<le> gap (hp_store hp) u v"
  shows "\<exists>hp' m' a bs'. realloc mm hp m (q + HDR) sz = Some (mm, hp', m', a + HDR) \<and> heap_inv hp' bs' \<and>
    set bs' = insert a (set (b1 @ b2)) \<and> a \<notin> set (b1 @ b2) \<and> hsize (hp_store hp') a = unat sz \<and>
    block m' a (min (hsize (hp_store hp) q) (unat sz)) = block m q (min (hsize (hp_store hp) q) (unat sz)) \<and>
    (\<forall>c \<in> set (b1 @ b2). hsize (hp_store hp') c = hsize (hp_store hp) c \<and>
       block m' c (hsize (hp_store hp) c) = block m c (hsize (hp_store hp) c))"
proof -
  obtain us x y vs hx h hy where h: "hp_store hp q = Some h" using inv by (rule heap_free_link)
  have d: "q \<notin> set (b1 @ b2)" using heap_invD(4) [OF inv] by (auto simp: heads_def)
  show ?thesis
  proof (cases "unat q + 44 + unat sz \<le> unat (hd_next h)")
    case True
    obtain s where "realloc mm hp m (q + HDR) sz = Some (mm, hp\<lparr>hp_store := s\<rparr>, m, q + HDR)"
      "heap_inv (hp\<lparr>hp_store := s\<rparr>) (b1 @ q # b2)" "\<forall>a. hsize s a = (if a = q then unat sz else hsize (hp_store hp) a)"
      using realloc_in_place [OF inv wrap h True] by blast
    with d show ?thesis
      by (intro exI [of _ "hp\<lparr>hp_store := s\<rparr>"] exI [of _ m] exI [of _ q] exI [of _ "b1 @ q # b2"]) auto
  next
    case False
    then have lt: "unat (hd_next h) < unat q + 44 + unat sz" by simp
    obtain hp' m' a bs' where r: "realloc mm hp m (q + HDR) sz = Some (mm, hp', m', a + HDR)" "heap_inv hp' bs'"
      "set bs' = insert a (set (b1 @ b2))" "hsize (hp_store hp') a = unat sz" "a \<notin> set (b1 @ b2)"
      "block m' a (hsize (hp_store hp) q) = block m q (hsize (hp_store hp) q)" "hsize (hp_store hp) q \<le> unat sz"
      "\<forall>c \<in> set (b1 @ b2). hsize (hp_store hp') c = hsize (hp_store hp) c \<and>
         block m' c (hsize (hp_store hp) c) = block m c (hsize (hp_store hp) c)"
      using realloc_moved [OF inv wrap h lt room, where m = m and mm = mm] by blast
    from r(7) have "min (hsize (hp_store hp) q) (unat sz) = hsize (hp_store hp) q" by simp
    with r show ?thesis by (intro exI [of _ hp'] exI [of _ m'] exI [of _ a] exI [of _ bs']) simp
  qed
qed

theorem realloc_correct_witness:
  "\<exists>hp' m' a bs'. realloc mm_example heap_example2 (\<lambda>i. word_of_nat i) (0x1002C + HDR) 1000 = Some (mm_example, hp', m', a + HDR) \<and> heap_inv hp' bs' \<and>
    set bs' = insert a (set ([] @ [0x10100])) \<and> a \<notin> set ([] @ [0x10100]) \<and> hsize (hp_store hp') a = unat (1000 :: u32) \<and>
    block m' a (min (hsize (hp_store heap_example2) 0x1002C) (unat (1000 :: u32))) =
      block (\<lambda>i. word_of_nat i) 0x1002C (min (hsize (hp_store heap_example2) 0x1002C) (unat (1000 :: u32))) \<and>
    (\<forall>c \<in> set ([] @ [0x10100]). hsize (hp_store hp') c = hsize (hp_store heap_example2) c \<and>
       block m' c (hsize (hp_store heap_example2) c) = block (\<lambda>i. word_of_nat i) c (hsize (hp_store heap_example2) c))"
proof (rule realloc_correct)
  show "heap_inv heap_example2 ([] @ 0x1002C # [0x10100])" using heap_example2_inv by simp
  show "(0x10100, 0x1FFD4) \<in> set (pairs (heads heap_example2 ([] @ 0x1002C # [0x10100])))"
    "unat (1000 :: u32) + hsize (hp_store heap_example2) 0x1002C + 88 \<le> gap (hp_store heap_example2) 0x10100 0x1FFD4"
    "unat (hp_end heap_example2) + unat (1000 :: u32) < 2 ^ 32"
    by (simp_all add: heap_example2_def heap_example_def create_heap_def round_page_def Let_def heads_def gap_def hsize_def)
qed

text \<open>
  \<open>callocn\<close> returns a block of zeroes of \<open>n * sz\<close> bytes in 32 bits: when the product does not fit it is smaller than
  the array.
\<close>

theorem callocn_zeroes:
  assumes inv: "heap_inv hp bs" and sz: "unat (n * sz) + 44 < 2 ^ 32"
    and fit: "(u, v) \<in> set (pairs (heads hp bs))" "unat (n * sz) + 44 \<le> gap (hp_store hp) u v"
  shows "\<exists>hp' m' b1 b2 q. callocn mm hp m n sz name = Some (mm, hp', m', q + HDR) \<and> bs = b1 @ b2 \<and> heap_inv hp' (b1 @ q # b2) \<and>
    hsize (hp_store hp') q = (unat n * unat sz) mod 2 ^ 32 \<and>
    block m' q ((unat n * unat sz) mod 2 ^ 32) = replicate ((unat n * unat sz) mod 2 ^ 32) 0"
proof -
  obtain hp' b1 b2 q where f: "heap_mallocn mm hp (n * sz) name = Some (mm, hp', q + HDR)" "bs = b1 @ b2"
    "heap_inv hp' (b1 @ q # b2)" "hsize (hp_store hp') q = unat (n * sz)"
    using heap_mallocn_fit [OF inv sz fit] by blast
  have a: "unat (q + HDR) = unat q + 44" using block_bounds(3) [OF f(3), of q] by simp
  then have "q + HDR \<noteq> 0" by auto
  moreover have "unat (n * sz) = (unat n * unat sz) mod 2 ^ 32" by (simp add: unat_word_ariths)
  ultimately show ?thesis using f a by (auto simp: callocn_def mallocn_def bzero_eq block_def)
qed

end
