(* ===== verification/Editor.thy ===== *)
theory Editor
  imports ShellCmds "HOL-Library.Signed_Division"
begin

text \<open>
  The text editor (\<open>speed\<close> in \<open>apps/editor.c\<close>, \<open>apps/editor.h\<close>) as a function of the bytes of the file and of the
  keys that are typed before the escape key: the text in its growing and shrinking buffer, the list of the lines,
  which only serves the cursor, and the characters that go to the screen. \<open>_malloc\<close> is taken to succeed. The size of the
  buffer is an \<open>int\<close> that must not overflow; the fields of a line are words.
\<close>

section \<open>State\<close>

record eline =
  num_chars :: s32
  offset :: s32
  linewidth :: u8

text \<open>
  \<open>ed_above\<close> are the lines before \<open>actualline\<close>, the nearest one first: \<open>startline\<close> is the last of them or \<open>actualline\<close>
  itself.
\<close>

record editor =
  ed_str :: bytes
  ed_size :: int
  ed_pos :: nat
  ed_above :: "eline list"
  ed_line :: eline
  ed_out :: bytes

text \<open>
  \<open>null_line\<close> is what lies at address 0, where the code looks for the line before the first one; \<open>fresh_width\<close> is
  the width in a new structure, which is not initialised.
\<close>

record editor_env =
  null_line :: eline
  fresh_width :: u8

section \<open>The buffer\<close>

definition int_ok :: "int \<Rightarrow> int option" where
  "int_ok x = (if - (2 ^ 31) \<le> x \<and> x < 2 ^ 31 then Some x else None)"

definition resize_buf :: "int \<Rightarrow> bytes \<Rightarrow> bytes option" where
  "resize_buf newsize buf = do {
     run \<leftarrow> rd_run 0 (nat (newsize div 2)) buf;
     Some (run @ replicate (nat newsize - nat (newsize div 2)) 0) }"

text \<open>The buffer is doubled when only the place for the terminator is left.\<close>

definition ed_grow :: "editor \<Rightarrow> editor option" where
  "ed_grow ed =
     (if int (ed_pos ed) = ed_size ed - 1 then do {
        n \<leftarrow> int_ok (ed_size ed * 2);
        str \<leftarrow> resize_buf n (ed_str ed);
        Some (ed\<lparr>ed_size := n, ed_str := str\<rparr>) }
      else Some ed)"

section \<open>Lines\<close>

text \<open>\<open>NEXT_LINE\<close> for the character \<open>c = str[pos]\<close>.\<close>

definition NEXT_LINE :: "editor_env \<Rightarrow> editor \<Rightarrow> u8 \<Rightarrow> editor" where
  "NEXT_LINE e ed c =
     (let prev = (case ed_above ed of [] \<Rightarrow> null_line e | p # _ \<Rightarrow> p); l = ed_line ed;
          l = (if c = 10 then (let l = l\<lparr>linewidth := 80\<rparr> in if linewidth prev = 8 then l\<lparr>offset := offset prev\<rparr> else l)
               else l\<lparr>linewidth := 8,
                      offset := offset prev + num_chars l + 8 - word_of_int (sint (num_chars l) smod 8)\<rparr>)
      in ed\<lparr>ed_above := l # ed_above ed, ed_line := \<lparr>num_chars = 0, offset = 0, linewidth = fresh_width e\<rparr>\<rparr>)"

text \<open>\<open>PREV_LINE\<close>: the cursor goes back to the end of the line above.\<close>

definition PREV_LINE :: "editor \<Rightarrow> editor option" where
  "PREV_LINE ed = (case ed_above ed of
       [] \<Rightarrow> None
     | l # ls \<Rightarrow>
         let l = (if linewidth l = 8 then l\<lparr>offset := 0\<rparr> else l); w = uint (linewidth l) in
         if w = 0 then None
         else Some (ed\<lparr>ed_above := ls, ed_line := l,
                       ed_out := ed_out ed @ replicate (nat (w - sint (offset l) - sint (num_chars l) smod w)) 8\<rparr>))"

definition is_line_end :: "u8 \<Rightarrow> bool" where
  "is_line_end c \<longleftrightarrow> c = 10 \<or> c = 9"

definition count_char :: "editor_env \<Rightarrow> editor \<Rightarrow> u8 \<Rightarrow> editor" where
  "count_char e ed c =
     (if is_line_end c then NEXT_LINE e ed c
      else ed\<lparr>ed_line := (ed_line ed)\<lparr>num_chars := num_chars (ed_line ed) + 1\<rparr>\<rparr>)"

section \<open>The keys\<close>

definition ed_backspace :: "editor \<Rightarrow> editor option" where
  "ed_backspace ed =
     (if ed_above ed = [] \<and> num_chars (ed_line ed) = 0 then Some ed
      else if ed_pos ed = 0 then None
      else do {
        c \<leftarrow> rd_at (ed_str ed) (ed_pos ed - 1);
        ed \<leftarrow> (if is_line_end c then PREV_LINE ed
               else Some (ed\<lparr>ed_line := (ed_line ed)\<lparr>num_chars := num_chars (ed_line ed) - 1\<rparr>, ed_out := ed_out ed @ [8]\<rparr>));
        str \<leftarrow> wr_at (ed_str ed) (ed_pos ed - 1) 0;
        let ed = ed\<lparr>ed_str := str, ed_pos := ed_pos ed - 1\<rparr>;
        if int (ed_pos ed) = ed_size ed div 4 - 1 then do {
          str \<leftarrow> resize_buf (ed_size ed div 2) (ed_str ed);
          Some (ed\<lparr>ed_size := ed_size ed div 2, ed_str := str\<rparr>) }
        else Some ed })"

definition ed_insert :: "editor_env \<Rightarrow> editor \<Rightarrow> u8 \<Rightarrow> editor option" where
  "ed_insert e ed c = do {
     str \<leftarrow> wr_at (ed_str ed) (ed_pos ed) c;
     let ed = count_char e (ed\<lparr>ed_str := str, ed_out := ed_out ed @ [c]\<rparr>) c;
     Some (ed\<lparr>ed_pos := ed_pos ed + 1\<rparr>) }"

definition ed_key :: "editor_env \<Rightarrow> editor \<Rightarrow> u8 \<Rightarrow> editor option" where
  "ed_key e ed c = do {
     ed \<leftarrow> ed_grow ed;
     if c = 7 then Some ed
     else if c = 8 then ed_backspace ed
     else ed_insert e ed c }"

fun ed_keys :: "editor_env \<Rightarrow> editor \<Rightarrow> bytes \<Rightarrow> editor option" where
  "ed_keys e ed [] = Some ed"
| "ed_keys e ed (c # cs) = do { ed \<leftarrow> ed_key e ed c; ed_keys e ed cs }"

section \<open>The program\<close>

text \<open>The loop that shows the file; it ends at the first zero.\<close>

partial_function (option) ed_load :: "editor_env \<Rightarrow> editor \<Rightarrow> editor option" where
  "ed_load e ed = do {
     c \<leftarrow> rd_at (ed_str ed) (ed_pos ed);
     if c = 0 then Some ed
     else do {
       let ed = count_char e (ed\<lparr>ed_out := ed_out ed @ [c]\<rparr>) c;
       ed \<leftarrow> ed_grow (ed\<lparr>ed_pos := ed_pos ed + 1\<rparr>);
       ed_load e ed } }"

declare ed_load.simps [code]

definition ed_start :: "editor_env \<Rightarrow> bytes \<Rightarrow> editor" where
  "ed_start e file = \<lparr>ed_str = file @ [0], ed_size = int (length file) + 1, ed_pos = 0, ed_above = [],
     ed_line = \<lparr>num_chars = 0, offset = 0, linewidth = fresh_width e\<rparr>, ed_out = []\<rparr>"

text \<open>What is written to the new file, and to the screen.\<close>

definition speed :: "editor_env \<Rightarrow> bytes \<Rightarrow> bytes \<Rightarrow> (bytes \<times> bytes) option" where
  "speed e file keys = do {
     ed \<leftarrow> ed_load e (ed_start e file);
     ed \<leftarrow> ed_keys e ed keys;
     text \<leftarrow> buf_str (ed_str ed);
     Some (text, ed_out ed) }"

text \<open>The command: it creates the file if it is missing and starts \<open>speed\<close>, whose address is \<open>entry\<close>, in a thread with its path as name.\<close>

definition shell_cmd_speed :: "thread_mem \<Rightarrow> u32 \<Rightarrow> command" where
  "shell_cmd_speed mem entry e sh argv =
     (if length argv < 2 then say e sh ''Usage: speed [path]'' []
      else do {
        sh \<leftarrow> shell_makepath sh (argv ! 1);
        (sh, fd) \<leftarrow> sh_open e sh (path_buf sh) O_CREAT;
        if fd <s 0 then say e sh ''Failed to create regular file %s'' [path_buf sh]
        else do {
          sh \<leftarrow> sh_close e sh fd;
          (pm, pid) \<leftarrow> pm_create_thread (k_pm (sh_k sh)) mem (Some (path_buf sh)) entry 4096;
          Some (sh\<lparr>sh_k := (sh_k sh)\<lparr>k_pm := pm\<rparr>\<rparr>) } })"

section \<open>The invariant\<close>

text \<open>The lengths of the lines of a text, the last line first.\<close>

fun next_lens :: "u8 \<Rightarrow> nat list \<Rightarrow> nat list" where
  "next_lens c (n # ns) = (if is_line_end c then 0 # n # ns else (n + 1) # ns)"
| "next_lens c [] = []"

definition line_lens :: "bytes \<Rightarrow> nat list" where
  "line_lens t = fold next_lens t [0]"

lemma line_lens_snoc: "line_lens (t @ [c]) = next_lens c (line_lens t)"
  by (simp add: line_lens_def)

lemma line_lens_props:
  "line_lens t \<noteq> [] \<and> (\<forall>n \<in> set (line_lens t). n \<le> length t) \<and> (line_lens t = [0] \<longleftrightarrow> t = [])"
proof (induction t rule: rev_induct)
  case Nil
  then show ?case by (simp add: line_lens_def)
next
  case (snoc c t)
  then show ?case by (cases "line_lens t") (auto simp: line_lens_snoc le_Suc_eq)
qed

definition lines_ok :: "editor \<Rightarrow> bytes \<Rightarrow> bool" where
  "lines_ok ed t \<longleftrightarrow> map num_chars (ed_line ed # ed_above ed) = map word_of_nat (line_lens t) \<and>
     (\<forall>l \<in> set (ed_above ed). linewidth l = 8 \<or> linewidth l = 80)"

definition ed_ok :: "editor \<Rightarrow> bytes \<Rightarrow> nat \<Rightarrow> bool" where
  "ed_ok ed t k \<longleftrightarrow> ed_str ed = t @ replicate k 0 \<and> 0 < k \<and> ed_size ed = int (length t + k) \<and>
     ed_pos ed = length t \<and> lines_ok ed t"

lemma count_char_fields [simp]:
  "ed_str (count_char e ed c) = ed_str ed" "ed_pos (count_char e ed c) = ed_pos ed" "ed_size (count_char e ed c) = ed_size ed"
  by (simp_all add: count_char_def NEXT_LINE_def Let_def)

lemma count_char_lines:
  assumes "lines_ok ed t" shows "lines_ok (count_char e ed c) (t @ [c])"
proof -
  obtain n ns where l: "line_lens t = n # ns" using line_lens_props [of t] by (cases "line_lens t") auto
  with assms have m: "num_chars (ed_line ed) = word_of_nat n" "map num_chars (ed_above ed) = map word_of_nat ns"
    by (simp_all add: lines_ok_def)
  show ?thesis
  proof (cases "is_line_end c")
    case False
    with assms l m show ?thesis by (simp add: lines_ok_def line_lens_snoc count_char_def)
  next
    case True
    with assms l m show ?thesis by (auto simp: lines_ok_def line_lens_snoc count_char_def NEXT_LINE_def Let_def)
  qed
qed

lemma grow_ok:
  assumes "ed_ok ed t k" "length t < 2 ^ 28"
  shows "\<exists>ed' k'. ed_grow ed = Some ed' \<and> ed_ok ed' t k' \<and> 2 \<le> k'"
proof (cases "k = 1")
  case False
  with assms(1) have "ed_grow ed = Some ed" "2 \<le> k" by (auto simp: ed_grow_def ed_ok_def)
  with assms(1) show ?thesis by blast
next
  case True
  let ?n = "2 * length t + 2"
  have "int_ok (ed_size ed * 2) = Some (int ?n)" using assms True by (simp add: int_ok_def ed_ok_def)
  moreover have "resize_buf (int ?n) (ed_str ed) = Some (t @ replicate (length t + 2) 0)"
  proof -
    have "nat (int ?n div 2) = length t + 1" "nat (int ?n) = ?n" by simp_all
    moreover have "rd_run 0 (length t + 1) (ed_str ed) = Some (t @ [0])" using assms(1) True by (simp add: rd_run_def ed_ok_def sub_bytes_def)
    ultimately show ?thesis by (simp add: resize_buf_def del: nat_int_add)
  qed
  ultimately have "ed_grow ed = Some (ed\<lparr>ed_size := int ?n, ed_str := t @ replicate (length t + 2) 0\<rparr>)"
    using assms(1) True by (simp add: ed_grow_def ed_ok_def)
  moreover have "ed_ok (ed\<lparr>ed_size := int ?n, ed_str := t @ replicate (length t + 2) 0\<rparr>) t (length t + 2)"
    using assms(1) by (simp add: ed_ok_def lines_ok_def)
  ultimately show ?thesis by fastforce
qed

lemma insert_ok:
  assumes "ed_ok ed t k" "2 \<le> k"
  shows "\<exists>ed' k'. ed_insert e ed c = Some ed' \<and> ed_ok ed' (t @ [c]) k'"
proof -
  let ?ed = "ed\<lparr>ed_str := t @ c # replicate (k - 1) 0, ed_out := ed_out ed @ [c]\<rparr>"
  have "(t @ replicate k 0)[length t := c] = t @ c # replicate (k - 1) (0 :: u8)"
    using assms(2) by (cases k) (simp_all add: list_update_append)
  then have "wr_at (ed_str ed) (ed_pos ed) c = Some (t @ c # replicate (k - 1) 0)"
    using assms by (simp add: ed_ok_def wr_at_def)
  then have "ed_insert e ed c = Some ((count_char e ?ed c)\<lparr>ed_pos := ed_pos ed + 1\<rparr>)" by (simp add: ed_insert_def)
  moreover have "lines_ok ?ed t" using assms(1) by (simp add: ed_ok_def lines_ok_def)
  then have "lines_ok (count_char e ?ed c) (t @ [c])" by (rule count_char_lines)
  then have "ed_ok ((count_char e ?ed c)\<lparr>ed_pos := ed_pos ed + 1\<rparr>) (t @ [c]) (k - 1)"
    using assms by (simp add: ed_ok_def lines_ok_def)
  ultimately show ?thesis by blast
qed

lemma rd_run_prefix: "n \<le> length xs \<Longrightarrow> rd_run 0 n xs = Some (take n xs)"
  by (simp add: rd_run_def sub_bytes_def)

text \<open>The lines after the last character has been taken back.\<close>

lemma backspace_lines:
  assumes "lines_ok ed (t @ [c])" "length t < 2 ^ 28"
  shows "(ed_above ed = [] \<and> num_chars (ed_line ed) = 0) = False"
    "is_line_end c \<Longrightarrow> \<exists>ed'. PREV_LINE ed = Some ed' \<and> lines_ok ed' t \<and> ed_str ed' = ed_str ed \<and> ed_pos ed' = ed_pos ed \<and> ed_size ed' = ed_size ed"
    "\<not> is_line_end c \<Longrightarrow> lines_ok (ed\<lparr>ed_line := (ed_line ed)\<lparr>num_chars := num_chars (ed_line ed) - 1\<rparr>, ed_out := x\<rparr>) t"
proof -
  obtain n ns where l: "line_lens t = n # ns" using line_lens_props [of t] by (cases "line_lens t") auto
  then have n: "n \<le> length t" using line_lens_props [of t] by auto
  have nz: "(word_of_nat (n + 1) :: u32) \<noteq> 0"
  proof -
    have "\<not> 2 ^ 32 dvd n + 1" using n assms(2) by (auto dest!: dvd_imp_le)
    then show ?thesis by (simp only: word_of_nat_eq_0_iff) simp
  qed
  show "(ed_above ed = [] \<and> num_chars (ed_line ed) = 0) = False"
    using assms(1) l nz by (cases "is_line_end c") (auto simp: lines_ok_def line_lens_snoc)
  show "lines_ok (ed\<lparr>ed_line := (ed_line ed)\<lparr>num_chars := num_chars (ed_line ed) - 1\<rparr>, ed_out := x\<rparr>) t" if "\<not> is_line_end c"
    using assms(1) l that by (simp add: lines_ok_def line_lens_snoc)
  show "\<exists>ed'. PREV_LINE ed = Some ed' \<and> lines_ok ed' t \<and> ed_str ed' = ed_str ed \<and> ed_pos ed' = ed_pos ed \<and> ed_size ed' = ed_size ed"
    if "is_line_end c"
    using assms(1) l that by (cases "ed_above ed") (auto simp: lines_ok_def line_lens_snoc PREV_LINE_def Let_def)
qed

text \<open>The buffer after the last character has been taken back; \<open>shrink\<close> is the end of \<open>ed_backspace\<close>.\<close>

lemma shrink_ok:
  assumes "ed_str ed = t @ replicate k 0" "0 < k" "ed_size ed = int (length t + k)" "ed_pos ed = length t" "lines_ok ed t"
  shows "\<exists>ed' k'. (if int (ed_pos ed) = ed_size ed div 4 - 1 then do {
          str \<leftarrow> resize_buf (ed_size ed div 2) (ed_str ed);
          Some (ed\<lparr>ed_size := ed_size ed div 2, ed_str := str\<rparr>) }
        else Some ed) = Some ed' \<and> ed_ok ed' t k'"
proof (cases "int (ed_pos ed) = ed_size ed div 4 - 1")
  case False
  with assms show ?thesis by (auto simp: ed_ok_def)
next
  case True
  let ?s = "length t + k"
  have q: "?s div 4 = length t + 1"
  proof -
    have "int (?s div 4) = int ?s div 4" by (simp only: zdiv_int of_nat_numeral)
    also have "\<dots> = int (length t + 1)" using True assms(3,4) by simp
    finally show ?thesis by (simp only: of_nat_eq_iff)
  qed
  have h: "?s div 2 div 2 = length t + 1" using q by (simp add: div_mult2_eq [symmetric])
  have n: "nat (ed_size ed div 2) = ?s div 2" "nat (ed_size ed div 2 div 2) = length t + 1"
    using assms(3) h by (simp_all add: zdiv_int [symmetric, of _ 2, simplified] nat_div_distrib)
  have "take (length t + 1) (ed_str ed) = t @ [0]" using assms(1,2) by (cases k) simp_all
  then have "rd_run 0 (nat (ed_size ed div 2 div 2)) (ed_str ed) = Some (t @ [0])"
    unfolding n(2) using assms(1,2) by (subst rd_run_prefix) auto
  then have r: "resize_buf (ed_size ed div 2) (ed_str ed) = Some (t @ replicate (?s div 2 - length t) 0)"
  proof -
    have "length t + 1 \<le> ?s div 2" using h by linarith
    then have "?s div 2 - length t = Suc (?s div 2 - (length t + 1))" by simp
    then show ?thesis using \<open>rd_run 0 _ _ = _\<close> n by (simp add: resize_buf_def)
  qed
  let ?ed = "ed\<lparr>ed_size := ed_size ed div 2, ed_str := t @ replicate (?s div 2 - length t) 0\<rparr>"
  have "ed_ok ?ed t (?s div 2 - length t)"
    using assms h by (auto simp: ed_ok_def lines_ok_def zdiv_int)
  with True r show ?thesis by auto
qed

lemma backspace_ok:
  assumes "ed_ok ed t k" "length t < 2 ^ 28"
  shows "\<exists>ed' k'. ed_backspace ed = Some ed' \<and> ed_ok ed' (butlast t) k'"
proof (cases t rule: rev_cases)
  case Nil
  then have "ed_above ed = []" "num_chars (ed_line ed) = 0"
    using assms(1) by (simp_all add: ed_ok_def lines_ok_def line_lens_def)
  with assms(1) Nil show ?thesis by (auto simp: ed_backspace_def)
next
  case (snoc u c)
  have L: "lines_ok ed (u @ [c])" and u: "length u < 2 ^ 28" using assms snoc by (simp_all add: ed_ok_def)
  note bl = backspace_lines [OF L u]
  have rd: "rd_at (ed_str ed) (ed_pos ed - 1) = Some c" using assms(1) snoc by (simp add: ed_ok_def rd_at_def nth_append)
  have wr: "wr_at (ed_str ed) (ed_pos ed - 1) 0 = Some (u @ replicate (k + 1) 0)"
    using assms(1) snoc by (simp add: ed_ok_def wr_at_def list_update_append)
  obtain ed1 where e: "(if is_line_end c then PREV_LINE ed
               else Some (ed\<lparr>ed_line := (ed_line ed)\<lparr>num_chars := num_chars (ed_line ed) - 1\<rparr>, ed_out := ed_out ed @ [8]\<rparr>)) = Some ed1"
    "lines_ok ed1 u" "ed_str ed1 = ed_str ed" "ed_pos ed1 = ed_pos ed" "ed_size ed1 = ed_size ed"
  proof (cases "is_line_end c")
    case True
    with bl(2) that show ?thesis by auto
  next
    case False
    with bl(3) that show ?thesis by simp
  qed
  let ?ed = "ed1\<lparr>ed_str := u @ replicate (k + 1) 0, ed_pos := ed_pos ed1 - 1\<rparr>"
  have "\<exists>ed' k'. (if int (ed_pos ?ed) = ed_size ?ed div 4 - 1 then do {
          str \<leftarrow> resize_buf (ed_size ?ed div 2) (ed_str ?ed);
          Some (?ed\<lparr>ed_size := ed_size ?ed div 2, ed_str := str\<rparr>) }
        else Some ?ed) = Some ed' \<and> ed_ok ed' u k'"
    by (rule shrink_ok [where k = "k + 1"]) (use assms(1) snoc e in \<open>simp_all add: ed_ok_def lines_ok_def\<close>)
  moreover have wr1: "wr_at (ed_str ed1) (ed_pos ed1 - 1) 0 = Some (u @ replicate (k + 1) 0)" using wr e(3,4) by simp
  moreover have pos: "(ed_pos ed = 0) = False" using assms(1) snoc by (simp add: ed_ok_def)
  have "ed_backspace ed = (if int (ed_pos ?ed) = ed_size ?ed div 4 - 1 then do {
          str \<leftarrow> resize_buf (ed_size ?ed div 2) (ed_str ?ed);
          Some (?ed\<lparr>ed_size := ed_size ?ed div 2, ed_str := str\<rparr>) }
        else Some ?ed)"
    by (simp only: ed_backspace_def bl(1) pos if_False rd e(1) wr1 bind.bind_lunit Let_def)
  ultimately show ?thesis using snoc by simp
qed

section \<open>The text is saved as it was edited\<close>

definition edited :: "bytes \<Rightarrow> bytes \<Rightarrow> bytes" where
  "edited t keys = edit_line t (filter (\<lambda>c. c \<noteq> 7) keys)"

lemma keys_ok:
  "ed_ok ed t k \<Longrightarrow> length t + length keys < 2 ^ 28 \<Longrightarrow> \<exists>ed' k'. ed_keys e ed keys = Some ed' \<and> ed_ok ed' (edited t keys) k'"
proof (induction keys arbitrary: ed t k)
  case Nil
  then show ?case by (auto simp: edited_def)
next
  case (Cons c keys)
  obtain ed1 k1 where g: "ed_grow ed = Some ed1" "ed_ok ed1 t k1" "2 \<le> k1"
    using grow_ok [OF Cons.prems(1)] Cons.prems(2) by auto
  let ?t = "if c = 7 then t else if c = 8 then butlast t else t @ [c]"
  have "\<exists>ed2 k2. ed_key e ed c = Some ed2 \<and> ed_ok ed2 ?t k2"
  proof -
    consider "c = 7" | "c = 8" | "c \<noteq> 7" "c \<noteq> 8" by blast
    then show ?thesis
    proof cases
      case 1
      with g show ?thesis by (auto simp: ed_key_def)
    next
      case 2
      with g backspace_ok [OF g(2)] Cons.prems(2) show ?thesis by (auto simp: ed_key_def)
    next
      case 3
      with g insert_ok [OF g(2,3), of e c] show ?thesis by (auto simp: ed_key_def)
    qed
  qed
  then obtain ed2 k2 where s: "ed_key e ed c = Some ed2" "ed_ok ed2 ?t k2" by blast
  have "length ?t + length keys < 2 ^ 28" using Cons.prems(2) by auto
  from Cons.IH [OF s(2) this] obtain ed' k' where "ed_keys e ed2 keys = Some ed'" "ed_ok ed' (edited ?t keys) k'" by blast
  moreover have "edited ?t keys = edited t (c # keys)" by (simp add: edited_def)
  ultimately show ?case using s(1) by auto
qed

lemma load_ok:
  assumes "ed_str ed = done @ rest @ replicate k 0" "0 < k" "ed_size ed = int (length (done @ rest) + k)" "ed_pos ed = length done"
    "lines_ok ed done" "0 \<notin> set rest" "length (done @ rest) < 2 ^ 28"
  shows "\<exists>ed' k'. ed_load e ed = Some ed' \<and> ed_ok ed' (done @ rest) k'"
  using assms
proof (induction rest arbitrary: ed "done" k)
  case Nil
  then have "rd_at (ed_str ed) (ed_pos ed) = Some 0" by (simp add: rd_at_def nth_append)
  then have "ed_load e ed = Some ed" by (subst ed_load.simps) simp
  with Nil show ?case by (auto simp: ed_ok_def)
next
  case (Cons c rest)
  let ?ed = "(count_char e (ed\<lparr>ed_out := ed_out ed @ [c]\<rparr>) c)\<lparr>ed_pos := ed_pos ed + 1\<rparr>"
  have "lines_ok (ed\<lparr>ed_out := ed_out ed @ [c]\<rparr>) done" using Cons.prems(5) by (simp add: lines_ok_def)
  from count_char_lines [OF this, of e c] have L: "lines_ok ?ed (done @ [c])" by (simp add: lines_ok_def)
  have rd: "rd_at (ed_str ed) (ed_pos ed) = Some c" "c \<noteq> 0"
    using Cons.prems by (auto simp: rd_at_def nth_append)
  have "\<exists>ed1 k1. ed_grow ?ed = Some ed1 \<and> ed_str ed1 = (done @ [c]) @ rest @ replicate k1 0 \<and> 0 < k1 \<and>
    ed_size ed1 = int (length ((done @ [c]) @ rest) + k1) \<and> ed_pos ed1 = length (done @ [c]) \<and> lines_ok ed1 (done @ [c])"
  proof (cases "rest = []")
    case True
    have "ed_ok ?ed (done @ [c]) k" using Cons.prems True L by (simp add: ed_ok_def)
    from grow_ok [OF this] Cons.prems(7) obtain ed1 k1 where "ed_grow ?ed = Some ed1" "ed_ok ed1 (done @ [c]) k1" "2 \<le> k1" by auto
    with True show ?thesis by (intro exI [of _ ed1] exI [of _ k1]) (auto simp: ed_ok_def)
  next
    case False
    then have "0 < length rest" by simp
    then have "int (length rest) + int k \<noteq> 1" using Cons.prems(2) by linarith
    then have "ed_grow ?ed = Some ?ed" using Cons.prems by (simp add: ed_grow_def)
    with L Cons.prems show ?thesis by (intro exI [of _ ?ed] exI [of _ k]) simp
  qed
  then obtain ed1 k1 where s: "ed_grow ?ed = Some ed1" "ed_str ed1 = (done @ [c]) @ rest @ replicate k1 0" "0 < k1"
    "ed_size ed1 = int (length ((done @ [c]) @ rest) + k1)" "ed_pos ed1 = length (done @ [c])" "lines_ok ed1 (done @ [c])" by blast
  have "ed_load e ed = ed_load e ed1"
    using rd s(1) by (subst ed_load.simps) (simp add: Let_def)
  moreover have "\<exists>ed' k'. ed_load e ed1 = Some ed' \<and> ed_ok ed' ((done @ [c]) @ rest) k'"
    by (rule Cons.IH [OF s(2-6)]) (use Cons.prems in auto)
  ultimately show ?case by simp
qed

lemma edit_line_nz: "0 \<notin> set t \<Longrightarrow> 0 \<notin> set keys \<Longrightarrow> 0 \<notin> set (edit_line t keys)"
  by (induction t keys rule: edit_line.induct) (fastforce dest: in_set_butlastD split: if_splits)+

text \<open>
  C27. The editor saves what the user has typed: the file ends up with the text it had, changed by the keys in their order, a
  backspace taking the last character away and the bell nothing. However the buffer grows and shrinks on the way,
  no access leaves it and no character is lost.
\<close>

theorem speed_saves:
  assumes "0 \<notin> set file" "0 \<notin> set keys" "length file + length keys < 2 ^ 28"
  shows "\<exists>out. speed e file keys = Some (edited file keys, out)"
proof -
  let ?ed = "ed_start e file"
  have "\<exists>ed k. ed_load e ?ed = Some ed \<and> ed_ok ed ([] @ file) k"
    by (rule load_ok [where k = 1]) (use assms in \<open>simp_all add: ed_start_def lines_ok_def line_lens_def\<close>)
  then obtain ed k where l: "ed_load e ?ed = Some ed" "ed_ok ed file k" by auto
  from keys_ok [OF l(2) assms(3)] obtain ed' k' where r: "ed_keys e ed keys = Some ed'" "ed_ok ed' (edited file keys) k'" by blast
  have "0 \<notin> set (edited file keys)" unfolding edited_def by (rule edit_line_nz) (use assms in auto)
  then have "takeWhile (\<lambda>c. c \<noteq> 0) (edited file keys) = edited file keys" by (auto simp: takeWhile_eq_all_conv)
  with r(2) have "buf_str (ed_str ed') = Some (edited file keys)"
    by (cases k') (auto simp: buf_str_def ed_ok_def takeWhile_append)
  with l r show ?thesis by (simp add: speed_def)
qed

theorem speed_saves_witness:
  "\<exists>out. speed \<lparr>null_line = \<lparr>num_chars = 5, offset = 7, linewidth = 3\<rparr>, fresh_width = 0\<rparr> [72, 105, 10] [65, 9, 8, 8, 8, 7, 33] =
    Some (edited [72, 105, 10] [65, 9, 8, 8, 8, 7, 33], out)"
  by (rule speed_saves) simp_all

end
