(* ===== verification/Snapshot.thy ===== *)
theory Snapshot
  imports ShellCmds
begin

text \<open>
  Pictures of the screen (\<open>apps/snapshot.c\<close>): a shortcut copies the video memory to \<open>snap_buffer\<close> and starts a thread that
  asks for a name and writes the buffer to a file in \<open>/snapshots\<close>; the command \<open>view\<close> reads such a file back into the
  video memory. Waiting for the escape key is left out.
\<close>

fun bytes_cells :: "bytes \<Rightarrow> u16 list" where
  "bytes_cells (a # b # bs) = un_le16 [a, b] # bytes_cells bs"
| "bytes_cells _ = []"

definition make_snapshot :: "kernel \<Rightarrow> thread_mem \<Rightarrow> u32 \<Rightarrow> (kernel \<times> bytes) option" where
  "make_snapshot k mem entry = do {
     snap_buffer \<leftarrow> rd_run 0 4000 (cells_bytes (k_vga k));
     (pm, pid) \<leftarrow> pm_create_thread (k_pm k) mem (Some (ascii ''SNAPSHOT'')) entry 4096;
     Some (k\<lparr>k_pm := pm\<rparr>, snap_buffer) }"

text \<open>
  The path that the thread makes: the 50 bytes begin with the directory, the name is read behind it, and the
  last character is taken away.
\<close>

definition snapshot_path :: "bytes \<Rightarrow> (bytes \<times> bytes \<times> bytes) option" where
  "snapshot_path inp = do {
     str \<leftarrow> wr_run 0 (ascii ''/snapshots/'' @ [0]) (replicate 50 0);
     (str, s, inp, echo) \<leftarrow> fgets str 11 39 inp;
     path \<leftarrow> buf_str str;
     if path = [] then None else Some (butlast path, inp, echo) }"

fun echo_chars :: "shell_env \<Rightarrow> shell \<Rightarrow> bytes \<Rightarrow> shell option" where
  "echo_chars e sh [] = Some sh"
| "echo_chars e sh (c # cs) = do { (sh, r) \<leftarrow> fputch e sh c (STDOUT sh); echo_chars e sh cs }"

definition snapshot :: "shell_env \<Rightarrow> shell \<Rightarrow> bytes \<Rightarrow> bytes \<Rightarrow> (shell \<times> bytes) option" where
  "snapshot e sh snap_buffer inp = do {
     (sh, d) \<leftarrow> sh_open e sh (ascii ''/snapshots/'') O_CREAT;
     sh \<leftarrow> sh_close e sh d;
     (sh, a) \<leftarrow> sh_malloc e sh 50;
     if a = 0 then None
     else do {
       (sh, stdin) \<leftarrow> sh_open e sh (ascii ''/dev/stdin'') 0;
       sh \<leftarrow> shell_printf e sh (ascii ''Please enter the snapshot file name and hit '' @ [39] @ ascii ''enter'' @ [39] @ ascii '': '') [];
       (str, inp, echo) \<leftarrow> snapshot_path inp;
       sh \<leftarrow> echo_chars e sh echo;
       (sh, fd) \<leftarrow> sh_open e sh str O_CREAT;
       (sh, r) \<leftarrow> sh_write e sh fd snap_buffer 4000;
       sh \<leftarrow> sh_free e sh a;
       sh \<leftarrow> sh_close e sh stdin;
       sh \<leftarrow> sh_close e sh fd;
       k \<leftarrow> exit_call (se_sys e) (sh_k sh);
       Some (sh\<lparr>sh_k := k, exited := True\<rparr>, inp) } }"

text \<open>The characters that were typed while the picture was shown are thrown away.\<close>

partial_function (option) flush_stdin :: "shell_env \<Rightarrow> shell \<Rightarrow> shell option" where
  "flush_stdin e sh = do {
     (sh, b, n) \<leftarrow> sh_read e sh (STDIN sh) [0] 1;
     if n \<noteq> 0 then flush_stdin e sh else Some sh }"

declare flush_stdin.simps [code]

definition set_refresh :: "bool \<Rightarrow> shell \<Rightarrow> shell option" where
  "set_refresh disabled sh = do {
     let k = sh_k sh;
     pm \<leftarrow> upd_monitor (k_pm k) (get_active_virt_monitor (k_pm k)) (\<lambda>vm. Some (vm\<lparr>disable_refresh := disabled\<rparr>));
     Some (sh\<lparr>sh_k := k\<lparr>k_pm := pm\<rparr>\<rparr>) }"

definition shell_cmd_snapshot :: command where
  "shell_cmd_snapshot e sh argv =
     (if length argv < 2 then shell_printf e sh (ascii ''Usage: view [path]'' @ [10]) [IntArg (STDOUT sh)]
      else do {
        sh \<leftarrow> shell_makepath sh (argv ! 1);
        (sh, fd) \<leftarrow> sh_open e sh (path_buf sh) 0;
        if fd <s 0 then say_missing e sh argv
        else do {
          (sh, keyboard) \<leftarrow> sh_open e sh (ascii ''/dev/keyboard'') 0;
          sh \<leftarrow> set_refresh True sh;
          (sh, b, n) \<leftarrow> sh_read e sh fd (cells_bytes (k_vga (sh_k sh))) 4000;
          sh \<leftarrow> set_refresh False (sh\<lparr>sh_k := (sh_k sh)\<lparr>k_vga := bytes_cells b\<rparr>\<rparr>);
          sh \<leftarrow> flush_stdin e sh;
          sh \<leftarrow> sh_close e sh keyboard;
          sh_close e sh fd } })"

section \<open>Pictures and names\<close>

lemma bytes_cells_bytes: "bytes_cells (cells_bytes cs) = cs"
proof (induction cs)
  case (Cons c cs)
  have "length (le16 c) = 2" by simp
  then obtain a b where "le16 c = [a, b]" by (metis (no_types, lifting) length_0_conv length_Suc_conv numeral_2_eq_2)
  moreover have "un_le16 (le16 c) = c" by simp
  ultimately show ?case using Cons by (simp add: cells_bytes_def)
qed (simp add: cells_bytes_def)

text \<open>The name that is typed, with its corrections, is the name of the file.\<close>

theorem snapshot_path_name:
  assumes "10 \<notin> set cs" "9 \<notin> set cs" "0 \<notin> set (edit_line [] cs)" "length cs < 38"
  shows "\<exists>echo. snapshot_path (cs @ 10 # inp) = Some (ascii ''/snapshots/'' @ edit_line [] cs, inp, echo)"
proof -
  let ?dir = "ascii ''/snapshots/''" and ?l = "edit_line [] cs"
  have dir: "length ?dir = 11" "0 \<notin> set ?dir" by (simp_all add: ascii_def)
  have w: "wr_run 0 (?dir @ [0]) (replicate 50 0) = Some (?dir @ replicate 39 0)"
    by (simp add: wr_run_def blit_def dir replicate_Suc [symmetric] del: replicate_Suc)
  obtain echo where f: "fgets (?dir @ replicate 39 0) 11 39 (cs @ 10 # inp) =
      Some (?dir @ ?l @ 10 # replicate (39 - (length ?l + 1)) 0, 11 + length ?l + 1, inp, echo)"
    using fgets_line [of cs 39 39 ?dir inp] assms dir by auto
  have "length ?l \<le> length cs" using edit_line_length [of "[]" cs] by simp
  then have "39 - (length ?l + 1) = Suc (37 - length ?l)" using assms(4) by simp
  then have "buf_str (?dir @ ?l @ 10 # replicate (39 - (length ?l + 1)) 0) = Some (?dir @ ?l @ [10])"
    using assms(3) dir(2) by (auto simp: buf_str_def takeWhile_append takeWhile_eq_all_conv)
  with w f show ?thesis by (simp add: snapshot_path_def butlast_append)
qed

theorem snapshot_path_name_witness:
  "\<exists>echo. snapshot_path ([97, 98, 8] @ 10 # [7]) = Some (ascii ''/snapshots/'' @ edit_line [] [97, 98, 8], [7], echo)"
  by (rule snapshot_path_name) simp_all

end
