(* ===== verification/Remount.thy ===== *)
theory Remount
  imports FsOps FileData
begin

text \<open>
  What of the file system survives a restart: \<open>fs_shutdown\<close> followed by \<open>fs_init\<close> on the same disk
  (\<open>fs/fs_main.c\<close>, with \<open>fs/fs_super.c\<close>, \<open>fs/fs_bmap.c\<close> and \<open>fs/fs_open_close.c\<close>).
\<close>

section \<open>The super block\<close>

lemma length_enc_super: "length (enc_super b) = 37"
  by (simp add: enc_super_def)

lemma dec_enc_super: "dec_super (enc_super b @ rest) = b"
  by (simp add: dec_super_def enc_super_def sub_bytes_def nth_append)

lemma write_super_block_eq:
  assumes "1 \<le> unat (get_hdsize (fs_hd s))"
  shows "\<exists>s'. write_super_block s = Some s' \<and>
    fs_disk s' = (fs_disk s)(SUPER_BLOCK := enc_super (fs_super s) @ replicate 475 0) \<and>
    fs_hd s' = fs_hd s \<and> fs_bmap s' = fs_bmap s \<and> inode_table s' = inode_table s \<and> gft s' = gft s \<and> fs_super s' = fs_super s"
  using assms by (simp add: write_super_block_def wrt_block_eq length_enc_super blit_0 SUPER_BLOCK_def)

lemma load_super_block_eq:
  assumes "1 \<le> unat (get_hdsize (fs_hd s))" "fs_disk s SUPER_BLOCK = enc_super b @ replicate 475 0"
  shows "\<exists>s'. load_super_block s = Some s' \<and> fs_super s' = b \<and> fs_disk s' = fs_disk s \<and>
    fs_bmap s' = fs_bmap s \<and> inode_table s' = inode_table s \<and> gft s' = gft s"
proof -
  have "sub_bytes 0 37 (fs_disk s SUPER_BLOCK) = enc_super b @ []"
    unfolding assms(2) by (simp add: sub_bytes_def length_enc_super)
  then have "dec_super (sub_bytes 0 37 (fs_disk s SUPER_BLOCK)) = b" by (simp only: dec_enc_super)
  moreover have "length (fs_disk s SUPER_BLOCK) = 512" unfolding assms(2) by (simp add: length_enc_super)
  ultimately show ?thesis
    using assms(1) rd_block_eq [of SUPER_BLOCK s 37] by (simp add: load_super_block_def SUPER_SIZE_def SUPER_BLOCK_def)
qed

section \<open>The bitmap on disk\<close>

text \<open>Block \<open>i\<close> of the bitmap, and its place on the disk.\<close>

definition bmap_part :: "bytes \<Rightarrow> nat \<Rightarrow> bytes" where
  "bmap_part bm i = sub_bytes (i * 512) 512 bm"

definition bmap_adr :: "nat \<Rightarrow> u32" where
  "bmap_adr i = FIRST_BMAP_BLOCK + word_of_nat i"

lemma unat_bmap_adr: "3 + i \<le> unat (h :: u32) \<Longrightarrow> unat (bmap_adr i) = 3 + i"
  using unat_u32_lt [of h] by (simp add: bmap_adr_def FIRST_BMAP_BLOCK_def unat_word_ariths unat_of_nat)

lemma write_bmap_loop_eq:
  "unat (get_hdsize (fs_hd s)) \<ge> 3 + (j + n) \<Longrightarrow> (j + n) * 512 \<le> length (fs_bmap s) \<Longrightarrow>
   \<exists>c. write_bmap_loop s j n = Some (s\<lparr>write_cache := c, fs_disk := (\<lambda>b. if 3 + j \<le> unat b \<and> unat b < 3 + j + n
      then bmap_part (fs_bmap s) (unat b - 3) else fs_disk s b)\<rparr>)"
proof (induction n arbitrary: s j)
  case 0
  have "(\<lambda>b. if 3 + j \<le> unat b \<and> unat b < 3 + j then bmap_part (fs_bmap s) (unat b - 3) else fs_disk s b) = fs_disk s" by (rule ext) auto
  then show ?case by (intro exI [of _ "write_cache s"]) simp
next
  case (Suc n)
  let ?b = "bmap_adr j"
  have b: "unat ?b = 3 + j" by (rule unat_bmap_adr [of _ "get_hdsize (fs_hd s)"]) (use Suc.prems in simp)
  have len: "length (bmap_part (fs_bmap s) j) = 512" using Suc.prems by (simp add: bmap_part_def)
  let ?s = "s\<lparr>write_cache := \<lparr>bc_nr = ?b, bc_data = bmap_part (fs_bmap s) j\<rparr>, fs_disk := (fs_disk s)(?b := bmap_part (fs_bmap s) j)\<rparr>"
  have "rd_run (j * 512) BLOCK_SIZE (fs_bmap s) = Some (bmap_part (fs_bmap s) j)"
    using Suc.prems by (simp add: bmap_part_def BLOCK_SIZE_def)
  moreover have "wrt_block s ?b (bmap_part (fs_bmap s) j) = Some ?s"
    using wrt_block_eq [of "bmap_part (fs_bmap s) j" ?b s] len b Suc.prems blit_0 [of "bmap_part (fs_bmap s) j" 512] by simp
  ultimately have "write_bmap_loop s j (Suc n) = write_bmap_loop ?s (j + 1) n" by (simp flip: bmap_adr_def)
  moreover obtain c where "write_bmap_loop ?s (j + 1) n = Some (?s\<lparr>write_cache := c, fs_disk := (\<lambda>b. if 3 + (j + 1) \<le> unat b \<and> unat b < 3 + (j + 1) + n
      then bmap_part (fs_bmap ?s) (unat b - 3) else fs_disk ?s b)\<rparr>)"
    using Suc.IH [of "j + 1" ?s] Suc.prems by auto
  moreover have "(\<lambda>b. if 3 + (j + 1) \<le> unat b \<and> unat b < 3 + (j + 1) + n then bmap_part (fs_bmap ?s) (unat b - 3) else fs_disk ?s b) =
      (\<lambda>b. if 3 + j \<le> unat b \<and> unat b < 3 + j + Suc n then bmap_part (fs_bmap s) (unat b - 3) else fs_disk s b)"
  proof
    fix c :: u32
    have "unat c = 3 + j \<Longrightarrow> c = ?b" using b by (simp add: word_unat_eq_iff)
    then show "(if 3 + (j + 1) \<le> unat c \<and> unat c < 3 + (j + 1) + n then bmap_part (fs_bmap ?s) (unat c - 3) else fs_disk ?s c) =
      (if 3 + j \<le> unat c \<and> unat c < 3 + j + Suc n then bmap_part (fs_bmap s) (unat c - 3) else fs_disk s c)"
      using b by (cases "unat c = 3 + j") auto
  qed
  ultimately show ?case by auto
qed

lemma bmap_part_blit:
  assumes "length buf = 512" "(j + 1) * 512 \<le> length bm" "(i + 1) * 512 \<le> length bm"
  shows "bmap_part (blit (j * 512) buf bm) i = (if i = j then buf else bmap_part bm i)"
proof (cases "i = j")
  case False
  then have "i * 512 + 512 \<le> j * 512 \<or> j * 512 + length buf \<le> i * 512" using assms(1) by arith
  then show ?thesis using assms False by (simp add: bmap_part_def sub_bytes_blit_other)
qed (use assms in \<open>simp add: bmap_part_def\<close>)

lemma bmap_eqI:
  assumes "length a = n * 512" "length b = n * 512" "\<And>i. i < n \<Longrightarrow> bmap_part a i = bmap_part b i"
  shows "a = b"
proof (rule nth_equalityI)
  fix k assume "k < length a"
  then have "k div 512 < n" using assms(1) by (simp add: less_mult_imp_div_less)
  then have "bmap_part a (k div 512) ! (k mod 512) = bmap_part b (k div 512) ! (k mod 512)" by (simp add: assms(3))
  moreover have "k div 512 * 512 + 512 \<le> n * 512" using \<open>k div 512 < n\<close> by arith
  ultimately show "a ! k = b ! k" using assms(1,2) by (simp add: bmap_part_def nth_sub_bytes)
qed (simp add: assms)

lemma load_bmap_loop_eq:
  "unat (get_hdsize (fs_hd s)) \<ge> 3 + (j + n) \<Longrightarrow> (j + n) * 512 \<le> length (fs_bmap s) \<Longrightarrow>
   (\<forall>i < j + n. length (fs_disk s (bmap_adr i)) = 512) \<Longrightarrow>
   \<exists>c bm. load_bmap_loop s j n = Some (s\<lparr>read_cache := c, fs_bmap := bm\<rparr>) \<and> length bm = length (fs_bmap s) \<and>
     (\<forall>i. (i + 1) * 512 \<le> length bm \<longrightarrow> bmap_part bm i = (if j \<le> i \<and> i < j + n then fs_disk s (bmap_adr i) else bmap_part (fs_bmap s) i))"
proof (induction n arbitrary: s j)
  case 0
  show ?case by (intro exI [of _ "read_cache s"] exI [of _ "fs_bmap s"]) auto
next
  case (Suc n)
  let ?b = "bmap_adr j"
  have b: "unat ?b = 3 + j" by (rule unat_bmap_adr [of _ "get_hdsize (fs_hd s)"]) (use Suc.prems in simp)
  have len: "length (fs_disk s ?b) = 512" using Suc.prems by simp
  let ?bm = "blit (j * 512) (fs_disk s ?b) (fs_bmap s)"
  let ?s = "s\<lparr>read_cache := \<lparr>bc_nr = ?b, bc_data = fs_disk s ?b\<rparr>, fs_bmap := ?bm\<rparr>"
  have l: "length ?bm = length (fs_bmap s)" using Suc.prems len by simp
  have "rd_block s ?b BLOCK_SIZE = Some (s\<lparr>read_cache := \<lparr>bc_nr = ?b, bc_data = fs_disk s ?b\<rparr>\<rparr>, fs_disk s ?b)"
    using rd_block_eq [of ?b s 512] b len Suc.prems by (simp add: BLOCK_SIZE_def)
  then have "load_bmap_loop s j (Suc n) = load_bmap_loop ?s (j + 1) n" using Suc.prems len by (simp flip: bmap_adr_def)
  moreover obtain c bm where bm: "load_bmap_loop ?s (j + 1) n = Some (?s\<lparr>read_cache := c, fs_bmap := bm\<rparr>)" "length bm = length (fs_bmap s)"
    "\<And>i. (i + 1) * 512 \<le> length bm \<Longrightarrow> bmap_part bm i = (if j + 1 \<le> i \<and> i < j + 1 + n then fs_disk s (bmap_adr i) else bmap_part ?bm i)"
    using Suc.IH [of "j + 1" ?s] Suc.prems l by auto
  have "bmap_part bm i = (if j \<le> i \<and> i < j + Suc n then fs_disk s (bmap_adr i) else bmap_part (fs_bmap s) i)" if "(i + 1) * 512 \<le> length bm" for i
    using bm(3) [OF that] bmap_part_blit [OF len, of j "fs_bmap s" i] Suc.prems that bm(2) by auto
  ultimately show ?case using bm(1,2) by (intro exI [of _ c] exI [of _ bm]) simp
qed

section \<open>Closing the files\<close>

text \<open>
  The invariant of the two tables together: an open file has its own inode of the table, the root apart, and
  every such inode has its place on the disk.
\<close>

definition file_inode :: "fs_state \<Rightarrow> nat \<Rightarrow> nat \<Rightarrow> bool" where
  "file_inode s i j \<longleftrightarrow> i < NUM_FILES \<and> f_desc (gft s ! i) \<noteq> NIL_FILE \<and> f_inode (gft s ! i) = Some j"

definition tables_ok :: "fs_state \<Rightarrow> bool" where
  "tables_ok s \<longleftrightarrow> gft_ok s \<and> inode_table_ok s \<and>
     inode_ok s (inode_table s ! ROOT_INODE) \<and> i_num (inode_table s ! ROOT_INODE) = word_of_nat ROOT_INODE \<and>
     i_adr (inode_table s ! ROOT_INODE) = ROOT_INODE_BLOCK \<and>
     (\<forall>i j. file_inode s i j \<longrightarrow> i_num (inode_table s ! j) = word_of_nat j \<and> inode_ok s (inode_table s ! j) \<and>
        (j \<noteq> ROOT_INODE \<longrightarrow> i_adr (inode_table s ! j) \<noteq> ROOT_INODE_BLOCK \<and> (\<forall>k. file_inode s k j \<longrightarrow> k = i)))"

text \<open>The contents of the block of an inode.\<close>

definition inode_block :: "m_inode \<Rightarrow> bytes" where
  "inode_block m = enc_dinode (cpy_minode_to_dinode m) @ replicate 362 0"

lemma inode_block_num [simp]: "inode_block (m\<lparr>i_num := n\<rparr>) = inode_block m"
  by (simp add: inode_block_def cpy_minode_to_dinode_def)

text \<open>What closing does not touch.\<close>

definition kept :: "fs_state \<Rightarrow> fs_state \<Rightarrow> bool" where
  "kept s s' \<longleftrightarrow> fs_hd s' = fs_hd s \<and> fs_bmap s' = fs_bmap s \<and> num_bmap_blocks s' = num_bmap_blocks s \<and>
     fs_super s' = fs_super s \<and> inode_table s' ! ROOT_INODE = inode_table s ! ROOT_INODE"

lemma kept_trans: "kept a b \<Longrightarrow> kept b c \<Longrightarrow> kept a c"
  by (simp add: kept_def)

lemma free_file_kept:
  assumes "free_file s fd = Some s'"
  shows "fs_hd s' = fs_hd s \<and> fs_bmap s' = fs_bmap s \<and> num_bmap_blocks s' = num_bmap_blocks s \<and> fs_super s' = fs_super s \<and> fs_disk s' = fs_disk s"
  using assms by (auto simp: free_file_def free_inode_def Let_def split: option.splits if_splits bind_splits)

text \<open>The state after the file of slot \<open>i\<close> is closed once.\<close>

definition closed_at :: "fs_state \<Rightarrow> nat \<Rightarrow> nat \<Rightarrow> fs_state \<Rightarrow> bool" where
  "closed_at s i j s' \<longleftrightarrow> tables_ok s' \<and> kept s s' \<and>
     fs_disk s' = (fs_disk s)(i_adr (inode_table s ! j) := inode_block (inode_table s ! j)) \<and>
     (\<forall>k l. k \<noteq> i \<longrightarrow> file_inode s' k l = file_inode s k l \<and> (file_inode s k l \<longrightarrow> inode_table s' ! l = inode_table s ! l))"

lemma fs_close_open:
  assumes ok: "tables_ok s" and f: "file_inode s i j"
  shows "\<exists>s'. fs_close s (f_desc (gft s ! i)) = Some (s', True) \<and> closed_at s i j s'"
proof -
  have g: "gft_ok s" "inode_table_ok s" using ok by (simp_all add: tables_ok_def)
  have i: "i < NUM_FILES" "f_desc (gft s ! i) \<noteq> NIL_FILE" "f_inode (gft s ! i) = Some j" using f by (simp_all add: file_inode_def)
  have d: "f_desc (gft s ! i) = word_of_nat i" by (rule gft_okD(3) [OF g(1) i(1,2)])
  have fd: "get_file s (word_of_nat i) = Some i" by (rule get_file_slot [OF g(1) i(1) d])
  have j10: "j < 10" using gft_okD(4) [OF g(1) i(1,2)] i(3) by (simp add: NUM_INODES_def)
  let ?m = "inode_table s ! j"
  have m: "i_num ?m = word_of_nat j" "inode_ok s ?m" "j \<noteq> ROOT_INODE \<Longrightarrow> i_adr ?m \<noteq> ROOT_INODE_BLOCK"
    "\<And>k. j \<noteq> ROOT_INODE \<Longrightarrow> file_inode s k j \<Longrightarrow> k = i"
    using ok f by (simp_all add: tables_ok_def)
  obtain c d where w: "write_inode s ?m = Some (s\<lparr>d_inode_cache := c, write_cache := d, fs_disk := (fs_disk s)(i_adr ?m := inode_block ?m)\<rparr>)"
    using write_inode_eq [of ?m s] m(2) by (simp add: inode_ok_def inode_block_def)
  let ?s = "s\<lparr>d_inode_cache := c, write_cache := d, fs_disk := (fs_disk s)(i_adr ?m := inode_block ?m)\<rparr>"
  have e: "gft ?s = gft s" "inode_table ?s = inode_table s" by simp_all
  have "gft_ok ?s" "inode_table_ok ?s" "get_file ?s (word_of_nat i) = Some i"
    using g fd by (simp_all add: gft_ok_def inode_table_ok_def get_file_def)
  note fr = free_file_eq [OF this desc_not_nil [OF i(1)], unfolded e, OF i(3) m(1)]
  obtain s' where s': "free_file ?s (word_of_nat i) = Some s'" "gft_ok s'" "inode_table_ok s'" "\<And>k. k \<noteq> i \<Longrightarrow> gft s' ! k = gft s ! k"
    "if unat (f_count (gft s ! i)) > 1
     then gft s' ! i = (gft s ! i)\<lparr>f_count := f_count (gft s ! i) - 1\<rparr> \<and> inode_table s' = inode_table s
     else f_desc (gft s' ! i) = NIL_FILE \<and> inode_table s' = (if i_adr ?m = ROOT_INODE_BLOCK then inode_table s
         else (inode_table s)[j := ?m\<lparr>i_num := NIL_INODE\<rparr>])"
    by (rule exE [OF fr], elim conjE) (rule that, assumption+, blast, simp split: if_splits)
  note k = free_file_kept [OF s'(1)]
  have len: "length (inode_table s) = 10" by (rule inode_table_len [OF g(2)])
  have it: "inode_table s' ! l = inode_table s ! l" if "l \<noteq> j \<or> j = ROOT_INODE" for l
    using s'(5) that ok by (auto simp: tables_ok_def split: if_splits)
  have fi: "file_inode s' k l = file_inode s k l" if "k \<noteq> i" for k l using s'(4) [OF that] by (simp add: file_inode_def)
  have fj: "file_inode s' i l \<Longrightarrow> l = j \<and> inode_table s' = inode_table s" for l
    using s'(5) i(3) by (auto simp: file_inode_def split: if_splits)
  have lj: "l \<noteq> j \<or> j = ROOT_INODE" if "k \<noteq> i" "file_inode s k l" for k l using m(4) [of k] that by blast
  have hd: "fs_hd s' = fs_hd s" using k by simp
  have iok: "inode_ok s' m = inode_ok s m" for m by (simp add: inode_ok_def hd)
  have "tables_ok s'"
  proof -
    have root: "inode_table s' ! ROOT_INODE = inode_table s ! ROOT_INODE" using it [of ROOT_INODE] by auto
    have "i_num (inode_table s' ! l) = word_of_nat l \<and> inode_ok s' (inode_table s' ! l) \<and>
        (l \<noteq> ROOT_INODE \<longrightarrow> i_adr (inode_table s' ! l) \<noteq> ROOT_INODE_BLOCK \<and> (\<forall>k'. file_inode s' k' l \<longrightarrow> k' = k))"
      if a: "file_inode s' k l" for k l
    proof -
      have l: "file_inode s k l" "inode_table s' ! l = inode_table s ! l"
        using a fi [of k l] fj [of l] f it [OF lj [of k l]] by (cases "k = i"; auto)+
      moreover have "file_inode s k' l" if "file_inode s' k' l" for k'
        using that fi [of k' l] fj [of l] f by (cases "k' = i") auto
      ultimately show ?thesis using ok by (simp add: tables_ok_def iok)
    qed
    then show ?thesis using ok s'(2,3) root by (simp add: tables_ok_def iok)
  qed
  moreover have "kept s s'" using k it [of ROOT_INODE] by (auto simp: kept_def)
  moreover have "fs_close s (f_desc (gft s ! i)) = Some (s', True)"
    using fd i j10 len w s'(1) by (simp add: fs_close_def d desc_not_nil)
  ultimately show ?thesis using k fi it [OF lj] by (simp add: closed_at_def)
qed

lemma fs_close_free: "tables_ok s \<Longrightarrow> fs_close s NIL_FILE = Some (s, False)"
  by (auto simp: fs_close_def get_file_def first_index_Some split: option.split)

text \<open>
  The inodes of the files from slot \<open>i\<close> on whose place is block \<open>b\<close>. What \<open>close_files\<close> leaves on the disk:
  a block is as before, or it is the block of such an inode and has the contents of one.
\<close>

definition open_inode :: "fs_state \<Rightarrow> nat \<Rightarrow> u32 \<Rightarrow> m_inode \<Rightarrow> bool" where
  "open_inode s i b m \<longleftrightarrow> (\<exists>k j. i \<le> k \<and> file_inode s k j \<and> m = inode_table s ! j \<and> i_adr m = b)"

definition closed_block :: "fs_state \<Rightarrow> nat \<Rightarrow> fs_state \<Rightarrow> u32 \<Rightarrow> bool" where
  "closed_block s i s' b \<longleftrightarrow>
     (if \<exists>m. open_inode s i b m then \<exists>m. open_inode s i b m \<and> fs_disk s' b = inode_block m
      else fs_disk s' b = fs_disk s b)"

lemma open_inode_free:
  assumes "\<And>j. \<not> file_inode s i j"
  shows "open_inode s (Suc i) = open_inode s i"
proof -
  have "i \<le> k \<and> file_inode s k j \<longleftrightarrow> Suc i \<le> k \<and> file_inode s k j" for k j
    using assms [of j] by (cases "k = i") auto
  then have "open_inode s (Suc i) b m = open_inode s i b m" for b m
    unfolding open_inode_def by blast
  then show ?thesis by blast
qed

lemma open_inode_step:
  assumes c: "closed_at s i j s1" and f: "file_inode s i j"
  shows "open_inode s i b m \<longleftrightarrow> (m = inode_table s ! j \<and> i_adr m = b) \<or> open_inode s1 (Suc i) b m"
proof -
  have ne: "file_inode s1 k l \<and> m = inode_table s1 ! l \<longleftrightarrow> file_inode s k l \<and> m = inode_table s ! l" if "Suc i \<le> k" for k l
  proof -
    have "\<forall>k l. k \<noteq> i \<longrightarrow> file_inode s1 k l = file_inode s k l \<and> (file_inode s k l \<longrightarrow> inode_table s1 ! l = inode_table s ! l)"
      using c unfolding closed_at_def by blast
    moreover have "k \<noteq> i" using that by simp
    ultimately have "file_inode s1 k l = file_inode s k l \<and> (file_inode s k l \<longrightarrow> inode_table s1 ! l = inode_table s ! l)" by blast
    then show ?thesis by auto
  qed
  have i: "file_inode s i l \<longleftrightarrow> l = j" for l using f by (auto simp: file_inode_def)
  have le: "i \<le> k \<longleftrightarrow> k = i \<or> Suc i \<le> k" for k by auto
  have "open_inode s1 (Suc i) b m = open_inode s (Suc i) b m"
    unfolding open_inode_def by (intro iffI; elim exE conjE) (use ne in blast)+
  moreover have "open_inode s i b m \<longleftrightarrow> (m = inode_table s ! j \<and> i_adr m = b) \<or> open_inode s (Suc i) b m"
    unfolding open_inode_def le by (auto simp: i)
  ultimately show ?thesis by simp
qed

lemma closed_block_step:
  assumes c: "closed_at s i j s1" and f: "file_inode s i j" and b: "closed_block s1 (Suc i) s' b"
  shows "closed_block s i s' b"
proof -
  have d: "fs_disk s1 = (fs_disk s)(i_adr (inode_table s ! j) := inode_block (inode_table s ! j))" using c by (simp add: closed_at_def)
  show ?thesis
    using b d unfolding closed_block_def open_inode_step [OF c f] by (auto split: if_splits)
qed

lemma close_files_eq:
  "tables_ok s \<Longrightarrow> i + n = NUM_FILES \<Longrightarrow>
   \<exists>s'. close_files s i n = Some s' \<and> kept s s' \<and> (\<forall>b. closed_block s i s' b)"
proof (induction n arbitrary: s i)
  case 0
  then have "\<not> open_inode s i b m" for b m by (auto simp: open_inode_def file_inode_def)
  then have "closed_block s i s b" for b by (simp add: closed_block_def)
  then show ?case by (auto simp: kept_def)
next
  case (Suc n)
  have i: "i < NUM_FILES" using Suc.prems by simp
  have g: "gft_ok s" using Suc.prems by (simp add: tables_ok_def)
  have len: "length (gft s) = NUM_FILES" by (rule gft_okD(1) [OF g i])
  show ?case
  proof (cases "f_desc (gft s ! i) = NIL_FILE")
    case True
    obtain s' where s': "close_files s (Suc i) n = Some s'" "kept s s'" "\<forall>b. closed_block s (Suc i) s' b"
      using Suc.IH [of s "Suc i"] Suc.prems by auto
    have "open_inode s (Suc i) = open_inode s i" by (rule open_inode_free) (simp add: file_inode_def True)
    then have "closed_block s (Suc i) s' b = closed_block s i s' b" for b by (simp only: closed_block_def)
    with s'(3) have "\<forall>b. closed_block s i s' b" by blast
    then show ?thesis using s' i len fs_close_free [OF Suc.prems(1)] True by simp
  next
    case False
    obtain j where j: "file_inode s i j" using gft_okD(4) [OF g i False] i False by (auto simp: file_inode_def)
    obtain s1 where s1: "fs_close s (f_desc (gft s ! i)) = Some (s1, True)" "closed_at s i j s1"
      using fs_close_open [OF Suc.prems(1) j] by blast
    then have k: "tables_ok s1" "kept s s1" by (simp_all add: closed_at_def)
    obtain s' where s': "close_files s1 (Suc i) n = Some s'" "kept s1 s'" "\<forall>b. closed_block s1 (Suc i) s' b"
      using Suc.IH [OF k(1), of "Suc i"] Suc.prems by auto
    have "\<forall>b. closed_block s i s' b" using closed_block_step [OF s1(2) j] s'(3) by blast
    then show ?thesis using s' i len s1(1) kept_trans [OF k(2) s'(2)] by simp
  qed
qed

section \<open>The shutdown\<close>

lemma write_root_eq:
  assumes ok: "tables_ok s"
  shows "\<exists>s'. write_root s = Some s' \<and> fs_disk s' = (fs_disk s)(ROOT_INODE_BLOCK := inode_block (inode_table s ! ROOT_INODE)) \<and>
    fs_hd s' = fs_hd s \<and> fs_bmap s' = fs_bmap s \<and> num_bmap_blocks s' = num_bmap_blocks s \<and> fs_super s' = fs_super s \<and>
    inode_table s' = inode_table s \<and> gft s' = gft s"
proof -
  have "inode_ok s (inode_table s ! ROOT_INODE)" "i_adr (inode_table s ! ROOT_INODE) = ROOT_INODE_BLOCK" "length (inode_table s) = 10"
    using ok inode_table_len by (simp_all add: tables_ok_def)
  then show ?thesis
    using write_inode_eq [of "inode_table s ! ROOT_INODE" s]
    by (simp add: write_root_def ROOT_INODE_def inode_ok_def inode_block_def)
qed

lemma shutdown_disk:
  assumes ok: "tables_ok s" "bmap_ok s"
  shows "\<exists>s'. fs_shutdown s = Some s' \<and> (\<forall>b. fs_disk s' b =
      (if b = SUPER_BLOCK then enc_super (fs_super s) @ replicate 475 0
       else if 3 \<le> unat b \<and> unat b < 3 + unat (num_bmap_blocks s) then bmap_part (fs_bmap s) (unat b - 3)
       else if b = ROOT_INODE_BLOCK then inode_block (inode_table s ! ROOT_INODE)
       else fs_disk s' b)) \<and>
    (\<forall>b. b \<noteq> SUPER_BLOCK \<and> b \<noteq> ROOT_INODE_BLOCK \<and> \<not> (3 \<le> unat b \<and> unat b < 3 + unat (num_bmap_blocks s)) \<longrightarrow> closed_block s 0 s' b)"
proof -
  let ?root = "inode_table s ! ROOT_INODE"
  obtain s1 where s1: "write_root s = Some s1" "fs_disk s1 = (fs_disk s)(ROOT_INODE_BLOCK := inode_block ?root)"
    "fs_hd s1 = fs_hd s" "fs_bmap s1 = fs_bmap s" "num_bmap_blocks s1 = num_bmap_blocks s" "fs_super s1 = fs_super s"
    "inode_table s1 = inode_table s" "gft s1 = gft s" using write_root_eq [OF ok(1)] by blast
  have fi: "file_inode s1 = file_inode s" by (intro ext) (simp add: file_inode_def s1(8))
  have "gft_ok s1" "inode_table_ok s1" using ok(1) s1(7,8) by (simp_all add: tables_ok_def gft_ok_def inode_table_ok_def)
  moreover have "inode_ok s1 m = inode_ok s m" for m by (simp add: inode_ok_def s1(3))
  ultimately have t1: "tables_ok s1" using ok(1) by (simp add: tables_ok_def fi s1(7))
  obtain s2 where s2: "close_files s1 0 NUM_FILES = Some s2" "kept s1 s2" "\<forall>b. closed_block s1 0 s2 b"
    using close_files_eq [OF t1, of 0 NUM_FILES] by auto
  have k: "fs_hd s2 = fs_hd s" "fs_bmap s2 = fs_bmap s" "num_bmap_blocks s2 = num_bmap_blocks s" "fs_super s2 = fs_super s"
    using s2(2) s1 by (simp_all add: kept_def)
  obtain c where s3: "write_bmap s2 = Some (s2\<lparr>write_cache := c, fs_disk := (\<lambda>b. if 3 \<le> unat b \<and> unat b < 3 + unat (num_bmap_blocks s)
      then bmap_part (fs_bmap s) (unat b - 3) else fs_disk s2 b)\<rparr>)"
    using write_bmap_loop_eq [of 0 "unat (num_bmap_blocks s)" s2] ok(2) unfolding write_bmap_def bmap_ok_def k by auto
  let ?s3 = "s2\<lparr>write_cache := c, fs_disk := (\<lambda>b. if 3 \<le> unat b \<and> unat b < 3 + unat (num_bmap_blocks s)
      then bmap_part (fs_bmap s) (unat b - 3) else fs_disk s2 b)\<rparr>"
  obtain s4 where s4: "write_super_block ?s3 = Some s4" "fs_disk s4 = (fs_disk ?s3)(SUPER_BLOCK := enc_super (fs_super s) @ replicate 475 0)"
    using write_super_block_eq [of ?s3] ok(2) k by (auto simp: bmap_ok_def)
  have run: "fs_shutdown s = Some s4" using s1(1) s2(1) s3 s4(1) by (simp add: fs_shutdown_def)
  have root: "m = ?root" if "open_inode s1 0 ROOT_INODE_BLOCK m" for m
    using that ok(1) s1(7) by (auto simp: open_inode_def tables_ok_def fi)
  have "fs_disk s2 ROOT_INODE_BLOCK = inode_block ?root"
    using s2(3) root s1(2) by (auto simp: closed_block_def split: if_splits)
  moreover have oi: "open_inode s1 = open_inode s" by (intro ext) (simp add: open_inode_def fi s1(7))
  have "closed_block s 0 s2 b" if "b \<noteq> ROOT_INODE_BLOCK" for b
    using s2(3) [rule_format, of b] that unfolding closed_block_def oi s1(2) by simp
  ultimately show ?thesis using run s4(2) by (intro exI [of _ s4]) (simp add: closed_block_def)
qed

section \<open>The start\<close>

text \<open>
  \<open>load_fs\<close> on a disk with \<open>bm\<close> in the blocks of the bitmap, an inode in the block of the root and a super
  block in its place. Nothing is needed of the memory the variables are in.
\<close>

lemma load_fs_eq:
  assumes nb: "nb = unat (get_hdsize (fs_hd r) div 8 div 512) + 1" "nb + 3 \<le> unat (get_hdsize (fs_hd r))" "length bm = nb * 512"
    and it: "length (inode_table r) = 10" and mem: "unat (get_hdsize (fs_hd r) div 8) + length mem = nb * 512"
    and d: "\<And>i. i < nb \<Longrightarrow> fs_disk r (bmap_adr i) = bmap_part bm i" "fs_disk r ROOT_INODE_BLOCK = inode_block m"
      "fs_disk r SUPER_BLOCK = enc_super sb @ replicate 475 0" and m: "length (i_direct m) = 30"
  shows "\<exists>s'. load_fs r (Some mem) = Some (s', s_magic_number sb = MAGIC_NUMBER) \<and> fs_bmap s' = bm \<and> fs_disk s' = fs_disk r \<and>
    inode_table s' ! ROOT_INODE = m\<lparr>i_adr := ROOT_INODE_BLOCK, i_num := word_of_nat ROOT_INODE\<rparr> \<and> fs_super s' = sb \<and>
    (\<forall>i < 9. i_num (inode_table s' ! Suc i) = NIL_INODE) \<and> (\<forall>f \<in> set (gft s'). f_desc f = NIL_FILE)"
proof -
  define r1 where "r1 = fst (malloc_bmap r (Some mem))"
  have nbu: "unat (get_hdsize (fs_hd r) div 8 div 512 + 1) = nb"
    using nb unat_u32_lt [of "get_hdsize (fs_hd r)"] by (simp add: unat_word_ariths)
  have r1: "fs_hd r1 = fs_hd r" "fs_disk r1 = fs_disk r" "unat (num_bmap_blocks r1) = nb" "length (fs_bmap r1) = nb * 512"
    "inode_table r1 = inode_table r" "gft r1 = gft r" 
    using nbu mem by (simp_all add: r1_def malloc_bmap_def Let_def)
  have dl: "\<forall>i < 0 + nb. length (fs_disk r1 (bmap_adr i)) = 512"
  proof (intro allI impI)
    fix i assume "i < 0 + nb"
    moreover from this have "i * 512 + 512 \<le> nb * 512" by simp
    ultimately show "length (fs_disk r1 (bmap_adr i)) = 512" using d(1) [of i] nb(3) r1(2) by (simp add: bmap_part_def)
  qed
  obtain c bm' where l: "load_bmap_loop r1 0 nb = Some (r1\<lparr>read_cache := c, fs_bmap := bm'\<rparr>)" "length bm' = nb * 512"
    "\<And>i. (i + 1) * 512 \<le> length bm' \<Longrightarrow> bmap_part bm' i = (if i < nb then fs_disk r1 (bmap_adr i) else bmap_part (fs_bmap r1) i)"
    using load_bmap_loop_eq [of 0 nb r1, OF _ _ dl] nb(2) r1 by auto
  have bm: "bm' = bm"
  proof (rule bmap_eqI [OF l(2) nb(3)])
    fix i assume "i < nb"
    then have "(i + 1) * 512 \<le> length bm'" using l(2) by simp
    then show "bmap_part bm' i = bmap_part bm i" using l(3) [of i] d(1) \<open>i < nb\<close> r1(2) by simp
  qed
  define r2 where "r2 = init_file_table (init_inode_table (r1\<lparr>read_cache := c, fs_bmap := bm\<rparr>))"
  have r2: "fs_hd r2 = fs_hd r" "fs_disk r2 = fs_disk r" "fs_bmap r2 = bm" "length (inode_table r2) = 10"
    "\<And>i. i < 10 \<Longrightarrow> i_num (inode_table r2 ! i) = NIL_INODE" "\<forall>f \<in> set (gft r2). f_desc f = NIL_FILE"
    using r1 it by (auto simp: r2_def init_file_table_def init_inode_table_def)
  have rl: "length (fs_disk r ROOT_INODE_BLOCK) = 512" unfolding d(2) using m by (simp add: inode_block_def length_enc_dinode)
  have di: "disk_inode s ROOT_INODE_BLOCK = cpy_minode_to_dinode m" if "fs_disk s = fs_disk r" for s
    by (rule disk_inode_written [OF m]) (simp add: that d(2) inode_block_def)
  obtain r3 where r3: "load_root r2 = Some r3" "fs_hd r3 = fs_hd r" "fs_disk r3 = fs_disk r" "fs_bmap r3 = bm" "gft r3 = gft r2"
    "inode_table r3 = (inode_table r2)[ROOT_INODE := m\<lparr>i_adr := ROOT_INODE_BLOCK, i_num := word_of_nat ROOT_INODE\<rparr>]"
    using read_minode_eq [of ROOT_INODE_BLOCK r2 "inode_table r2 ! ROOT_INODE"] rl nb(2) r2 di [of r2] cpy_roundtrip [OF m, of "inode_table r2 ! ROOT_INODE"]
    by (auto simp: load_root_def ROOT_INODE_def ROOT_INODE_BLOCK_def)
  obtain s' where s': "load_super_block r3 = Some s'" "fs_super s' = sb" "fs_disk s' = fs_disk r" "fs_bmap s' = bm"
    "inode_table s' = inode_table r3" "gft s' = gft r2"
    using load_super_block_eq [of r3 sb] nb(2) r3 d(3) by auto
  have "load_bmap r (Some mem) = Some (r1\<lparr>read_cache := c, fs_bmap := bm\<rparr>)"
    using l(1) bm r1(3) by (simp add: load_bmap_def Let_def flip: r1_def)
  then have "load_fs r (Some mem) = Some (s', s_magic_number sb = MAGIC_NUMBER)"
    using r3(1) s'(1,2) by (simp add: load_fs_def Let_def flip: r2_def)
  moreover have "i_num (inode_table s' ! Suc i) = NIL_INODE" if "i < 9" for i
    using r2(5) [of "Suc i"] that by (simp add: s'(5) r3(6) ROOT_INODE_def)
  ultimately show ?thesis using s' r3(6) r2(4,6) by (auto simp: ROOT_INODE_def)
qed

section \<open>Properties\<close>


definition remount_example :: fs_state where
  "remount_example = gft_example\<lparr>fs_super := (fs_super gft_example)\<lparr>s_magic_number := MAGIC_NUMBER\<rparr>\<rparr>"

lemma remount_example_ok: "tables_ok remount_example" "bmap_ok remount_example"
proof -
  have f: "file_inode remount_example i j \<longleftrightarrow> i = 0 \<and> j = 0" for i j
    by (cases "i < 10") (auto simp: file_inode_def NUM_FILES_def remount_example_def gft_example_nth NIL_FILE_def)
  have hd: "fs_hd remount_example = fs_hd fs_example" "inode_table remount_example = inode_table fs_example2" "gft remount_example = gft gft_example"
    by (simp_all add: remount_example_def gft_example_def fs_example2_def)
  have "gft_ok remount_example" "inode_table_ok remount_example"
    using gft_example_ok fs_example2_table hd by (simp_all add: gft_ok_def inode_table_ok_def)
  moreover have "inode_ok remount_example inode_example" by (simp add: inode_ok_def hd fs_example_hd inode_example_def)
  moreover have "inode_table remount_example ! 0 = inode_example" by (simp add: hd fs_example2_def)
  ultimately show "tables_ok remount_example"
    by (simp add: tables_ok_def f ROOT_INODE_def) (simp add: inode_example_def ROOT_INODE_BLOCK_def)
  show "bmap_ok remount_example" using fs_example_ok by (simp add: bmap_ok_def remount_example_def gft_example_def fs_example2_def)
qed


end
