(* ===== verification/Lookup.thy ===== *)
theory Lookup
  imports FsOps FileData DirData
begin

text \<open>
  Finding a file by its path (\<open>search_file\<close> of \<open>fs/fs_dir.c\<close>) and opening it (\<open>fs_open\<close> of
  \<open>fs/fs_open_close.c\<close>), for files of the root directory.
\<close>

section \<open>What reading does not touch\<close>

definition frame :: "fs_state \<Rightarrow> fs_state \<Rightarrow> bool" where
  "frame s s' \<longleftrightarrow> gft s' = gft s \<and> inode_table s' = inode_table s \<and> dir_cache s' = dir_cache s \<and> fs_hd s' = fs_hd s"

named_theorems frame_rules

lemma frame_refl [frame_rules]: "frame s s"
  by (simp add: frame_def)

lemma frame_trans: "frame a b \<Longrightarrow> frame b c \<Longrightarrow> frame a c"
  by (simp add: frame_def)

lemma cache_block_frame: "cache_block s b = Some s' \<Longrightarrow> frame s s'"
  by (auto simp: cache_block_def frame_def split: bind_splits)

lemma wrt_block_frame: "wrt_block s b buf = Some s' \<Longrightarrow> frame s s'"
  by (auto simp: wrt_block_def frame_def Let_def split: bind_splits)

lemma rd_block_frame: "rd_block s b n = Some (s', buf) \<Longrightarrow> frame s s'"
  using cache_block_frame by (auto simp: rd_block_def split: bind_splits)

lemma clear_block_frame:
  assumes "clear_block s b = Some s'"
  shows "frame s s'"
proof -
  obtain s1 buf where s1: "rd_block s b BLOCK_SIZE = Some (s1, buf)"
    "wrt_cache (s1\<lparr>read_cache := \<lparr>bc_nr = b, bc_data = replicate 512 0\<rparr>\<rparr>) \<lparr>bc_nr = b, bc_data = replicate 512 0\<rparr> BLOCK_SIZE = Some s'"
    using assms by (auto simp: clear_block_def split: bind_splits)
  then have "frame (s1\<lparr>read_cache := \<lparr>bc_nr = b, bc_data = replicate 512 0\<rparr>\<rparr>) s'"
    using wrt_block_frame by (auto simp: wrt_cache_def split: bind_splits)
  with rd_block_frame [OF s1(1)] show ?thesis by (simp add: frame_def)
qed

lemma mark_block_frame:
  assumes "mark_block s b f = Some s'"
  shows "frame s s'"
proof -
  obtain bm buf blk where "wrt_block (s\<lparr>fs_bmap := bm\<rparr>) blk buf = Some s'"
    using assms by (auto simp: mark_block_def Let_def split: bind_splits)
  from wrt_block_frame [OF this] show ?thesis by (simp add: frame_def)
qed

lemma enlarge_file_frame: "enlarge_file s a = Some (s', b) \<Longrightarrow> frame s s'"
  using mark_block_frame clear_block_frame frame_trans by (fastforce simp: enlarge_file_def alloc_block_def split: bind_splits)

lemma rd_addrs_frame: "rd_addrs s b = Some s' \<Longrightarrow> frame s s'"
  using rd_block_frame by (fastforce simp: rd_addrs_def frame_def split: bind_splits)

lemma get_pointer_frame: "get_pointer s p a f = Some (s', r) \<Longrightarrow> frame s s'"
  using enlarge_file_frame frame_refl by (auto simp: get_pointer_def split: if_splits bind_splits)

lemma get_cached_pointer_frame:
  assumes "get_cached_pointer s i h a f = Some (s', r)"
  shows "frame s s'"
proof -
  have "frame s s'" if "enlarge_file s a = Some (s1, b)" "wrt_addrs (s1\<lparr>addr_cache := c\<rparr>) h = Some s'" for s1 b c
    using enlarge_file_frame [OF that(1)] wrt_block_frame [OF that(2) [unfolded wrt_addrs_def]] by (simp add: frame_def)
  with assms frame_refl show ?thesis by (auto simp: get_cached_pointer_def split: if_splits bind_splits)
qed

lemma write_inode_frame: "write_inode s m = Some s' \<Longrightarrow> frame s s'"
  using wrt_block_frame [of "s\<lparr>d_inode_cache := cpy_minode_to_dinode m\<rparr>"] by (auto simp: write_inode_def Let_def frame_def)

lemmas frames = cache_block_frame get_pointer_frame get_cached_pointer_frame rd_addrs_frame write_inode_frame

lemma get_data_block_frame:
  assumes "get_data_block s m pos f = Some (s', m', b)"
  shows "frame s s'"
  using assms unfolding get_data_block_def Let_def
  by (auto split: if_splits bind_splits option.splits dest!: frames simp: frame_def)

lemma fs_read_frame: "fs_read s m n pos f = Some (s', m', data, k) \<Longrightarrow> frame s s'"
proof (induction "unat n" arbitrary: s m n pos data k rule: less_induct)
  case less
  note IH = less.hyps [OF over_edge]
  from less.prems show ?case
    by (subst (asm) fs_read.simps)
      (auto split: if_splits bind_splits simp: Let_def frame_def dest!: get_data_block_frame cache_block_frame IH)
qed

lemma read_minode_frame: "read_minode s m b = Some (s', m') \<Longrightarrow> frame s s'"
  by (auto simp: read_minode_def read_dinode_def Let_def frame_def split: bind_splits dest!: rd_block_frame)

section \<open>Reading a directory\<close>

text \<open>
  A directory of \<open>K\<close> blocks: its size is that of the blocks, each is a valid block of names, and the pointer
  behind the last one is free.
\<close>

definition dir_block :: "fs_state \<Rightarrow> m_inode \<Rightarrow> nat \<Rightarrow> bytes" where
  "dir_block s m k = fs_disk s (data_at (fs_disk s) m k)"

definition dir_ok :: "fs_state \<Rightarrow> m_inode \<Rightarrow> nat \<Rightarrow> bool" where
  "dir_ok s m K \<longleftrightarrow> 0 < K \<and> K < 30 \<and> file_ok s m (K * 512) \<and> unat (i_size m) = K * 512 \<and> i_direct m ! K = 0 \<and>
     (\<forall>k < K. block_ok (dir_block s m k) \<and> (\<forall>n. dir_map (dir_block s m k) n \<noteq> Some NOT_FOUND))"

text \<open>The block that the directory has for a name: the first one that knows it.\<close>

fun dir_find :: "fs_state \<Rightarrow> m_inode \<Rightarrow> bytes \<Rightarrow> nat \<Rightarrow> nat \<Rightarrow> u32 option" where
  "dir_find s m name k 0 = None"
| "dir_find s m name k (Suc n) = (case dir_map (dir_block s m k) name of Some b \<Rightarrow> Some b | None \<Rightarrow> dir_find s m name (k + 1) n)"

text \<open>A step that changes neither the tables nor the file's contents.\<close>

definition looked :: "fs_state \<Rightarrow> m_inode \<Rightarrow> fs_state \<Rightarrow> bool" where
  "looked s m s' \<longleftrightarrow> gft s' = gft s \<and> inode_table s' = inode_table s \<and> fs_hd s' = fs_hd s \<and> length (dir_cache s') = length (dir_cache s) \<and>
     (\<forall>b. b \<noteq> i_adr m \<longrightarrow> fs_disk s' b = fs_disk s b)"

lemma looked_trans: "looked a m b \<Longrightarrow> looked b m c \<Longrightarrow> looked a m c"
  by (simp add: looked_def)

definition dir_at :: "nat \<Rightarrow> u32" where
  "dir_at k = word_of_nat (k * 512)"

lemma dir_pos: "k < 30 \<Longrightarrow> unat (dir_at k) = k * 512"
  unfolding dir_at_def unat_of_nat by simp

lemma dir_at_Suc: "dir_at k + 512 = dir_at (Suc k)"
  by (simp add: dir_at_def)

lemma dir_block_step:
  assumes ok: "dir_ok s m K" and st: "inode_step m s s'"
  shows "dir_ok s' m K \<and> (\<forall>k < K. dir_block s' m k = dir_block s m k)"
proof -
  have f: "file_ok s m (K * 512)" "0 < K" "K < 30" using ok by (simp_all add: dir_ok_def)
  have d: "data_at (fs_disk t) m k = i_direct m ! k" if "k < K" for t k using that f(3) by (simp add: blk_path_def)
  have "k * 512 < K * 512 \<Longrightarrow> data_at (fs_disk s) m k \<noteq> i_adr m" for k using f(1) by (simp add: file_ok_def)
  then have b: "dir_block s' m k = dir_block s m k" if "k < K" for k
  proof -
    have "i_direct m ! k \<noteq> i_adr m" using \<open>\<And>k. k * 512 < K * 512 \<Longrightarrow> data_at (fs_disk s) m k \<noteq> i_adr m\<close> [of k] that d [OF that, of s] by (metis mult_less_mono1 zero_less_numeral)
    then show ?thesis using st by (simp add: dir_block_def d [OF that] inode_step_def)
  qed
  moreover have "file_ok s' m (K * 512)"
    by (rule inode_step_ok [OF f(1) _ st]) (use f(2) in \<open>simp_all add: same_ptrs_def\<close>)
  ultimately show ?thesis using ok by (simp add: dir_ok_def)
qed

lemma read_dir_block:
  assumes ok: "dir_ok s m K" and k: "k < K" and c: "length (dir_cache s) = 512"
  shows "\<exists>s'. read_dir s m (dir_at k) False = Some (s', m, 512) \<and> looked s m s' \<and> dir_cache s' = dir_block s m k \<and>
    dir_ok s' m K \<and> (\<forall>j < K. dir_block s' m j = dir_block s m j)"
proof -
  let ?pos = "dir_at k"
  have f: "file_ok s m (K * 512)" "K < 30" "unat (i_size m) = K * 512" using ok by (simp_all add: dir_ok_def)
  have p: "unat ?pos = k * 512" "unat ?pos < K * 512" using dir_pos [of k] k f(2) by simp_all
  obtain s1 where s1: "get_data_block s m ?pos False = Some (s1, m, data_at (fs_disk s) m k)" "inode_step m s s1"
    "data_at (fs_disk s1) m k = data_at (fs_disk s) m k" "data_at (fs_disk s) m k \<noteq> NOT_FOUND" "real_block s1 (data_at (fs_disk s) m k)"
    using get_data_block_ok [OF f(1) p(2), of False] p(1) by auto
  let ?b = "data_at (fs_disk s) m k"
  let ?s2 = "s1\<lparr>read_cache := \<lparr>bc_nr = ?b, bc_data = fs_disk s1 ?b\<rparr>\<rparr>"
  have cb: "cache_block s1 ?b = Some ?s2" "length (fs_disk s1 ?b) = 512" using real_blockD [OF s1(5)] by (simp_all add: cache_block_eq)
  have o: "?pos mod 512 = 0" by (rule word_unat_eq_iff [THEN iffD2]) (simp add: unat_mod p(1))
  have go: "\<not> (?pos > i_size m \<and> \<not> False \<or> (512 :: u32) = 0)" using p f(3) k by (simp add: word_less_nat_alt)
  have "fs_read s m 512 ?pos False = Some (?s2, m, fs_disk s1 ?b, 512)"
    using go s1(1,4) cb by (subst fs_read.simps) (simp add: o)
  moreover note fr = get_data_block_frame [OF s1(1)]
  have "length (dir_cache s1) = 512" using fr c by (simp add: frame_def)
  moreover have db: "fs_disk s1 ?b = dir_block s m k" "dir_ok s1 m K" "\<forall>j < K. dir_block s1 m j = dir_block s m j"
    using dir_block_step [OF ok s1(2)] k s1(3) by (auto simp: dir_block_def)
  ultimately have "read_dir s m ?pos False = Some (?s2\<lparr>dir_cache := dir_block s m k\<rparr>, m, 512)"
    using cb(2) by (simp add: read_dir_def)
  moreover have "looked s m (?s2\<lparr>dir_cache := dir_block s m k\<rparr>)"
    using fr s1(2) cb(2) db(1) c by (simp add: looked_def frame_def inode_step_def)
  moreover have "dir_ok (?s2\<lparr>dir_cache := dir_block s m k\<rparr>) m K \<and> (\<forall>j < K. dir_block (?s2\<lparr>dir_cache := dir_block s m k\<rparr>) m j = dir_block s m j)"
    using dir_block_step [OF db(2), of "?s2\<lparr>dir_cache := dir_block s m k\<rparr>"] db(3) by (auto simp: inode_step_def)
  ultimately show ?thesis by auto
qed

lemma read_dir_end:
  assumes ok: "dir_ok s m K"
  shows "read_dir s m (dir_at K) False = Some (s, m, 0)"
proof -
  let ?pos = "dir_at K"
  have f: "K < 30" "i_direct m ! K = 0" "length (i_direct m) = 30" "unat (i_size m) = K * 512"
    using ok by (simp_all add: dir_ok_def file_ok_def inode_ok_def)
  have p: "unat ?pos = K * 512" using dir_pos [OF f(1)] .
  have lt: "?pos < BYTES_DIRECT" "unat (?pos div 512) = K" "\<not> i_size m < ?pos"
    using f p by (simp_all add: BYTES_DIRECT_def word_less_nat_alt unat_div)
  then have "get_data_block s m ?pos False = Some (s, m, NOT_FOUND)" using f by (simp add: get_data_block_def get_pointer_def)
  then have "fs_read s m 512 ?pos False = Some (s, m, [], 0)" using lt(3) by (subst fs_read.simps) simp
  then show ?thesis by (simp add: read_dir_def)
qed

lemma dir_find_cong:
  "k + n \<le> K \<Longrightarrow> \<forall>j < K. dir_block s' m j = dir_block s m j \<Longrightarrow> dir_find s' m name k n = dir_find s m name k n"
  by (induction n arbitrary: k) (auto split: option.split)

lemma rf_loop_find:
  assumes n: "0 \<notin> set name" "name \<noteq> []"
  shows "dir_ok s m K \<Longrightarrow> k + j = K \<Longrightarrow> length (dir_cache s) = 512 \<Longrightarrow>
   \<exists>s'. rf_loop s m (dir_at k) (Some name) = Some (s', m, case dir_find s m name k j of None \<Rightarrow> NOT_FOUND | Some b \<Rightarrow> b) \<and>
     looked s m s' \<and> dir_ok s' m K \<and> dir_find s m name k j \<noteq> Some NOT_FOUND"
proof (induction j arbitrary: s k)
  case 0
  then have "read_dir s m (dir_at k) False = Some (s, m, 0)" using read_dir_end by simp
  then show ?case using 0 by (subst rf_loop.simps) (simp add: looked_def)
next
  case (Suc j)
  then have k: "k < K" "k < 30" by (auto simp: dir_ok_def)
  obtain s1 where s1: "read_dir s m (dir_at k) False = Some (s1, m, 512)" "looked s m s1" "dir_cache s1 = dir_block s m k"
    "dir_ok s1 m K" "\<forall>j < K. dir_block s1 m j = dir_block s m j"
    using read_dir_block [OF Suc.prems(1) k(1) Suc.prems(3)] by blast
  have bok: "block_ok (dir_block s m k)" "dir_map (dir_block s m k) name \<noteq> Some NOT_FOUND" using Suc.prems(1) k by (simp_all add: dir_ok_def)
  note ff = find_filename_eq [OF bok(1) n]
  show ?case
  proof (cases "dir_map (dir_block s m k) name")
    case (Some b)
    then have "rf_loop s m (dir_at k) (Some name) = Some (s1, m, b)"
      using s1(1,3) ff bok(2) by (subst rf_loop.simps) simp
    then show ?thesis using s1 Some bok(2) by simp
  next
    case None
    have "length (dir_cache s1) = 512" using s1(2) Suc.prems(3) by (simp add: looked_def)
    then obtain s' where s': "rf_loop s1 m (dir_at (Suc k)) (Some name) = Some (s', m, case dir_find s1 m name (Suc k) j of None \<Rightarrow> NOT_FOUND | Some b \<Rightarrow> b)"
      "looked s1 m s'" "dir_ok s' m K" "dir_find s1 m name (Suc k) j \<noteq> Some NOT_FOUND"
      using Suc.IH [OF s1(4), of "Suc k"] Suc.prems(2) by auto
    have e: "dir_find s1 m name (Suc k) j = dir_find s m name (Suc k) j"
      by (rule dir_find_cong [OF _ s1(5)]) (use Suc.prems(2) in simp)
    have "rf_loop s m (dir_at k) (Some name) = rf_loop s1 m (dir_at k + 512) (Some name)"
      using s1(1,3) ff None by (subst rf_loop.simps) simp
    then show ?thesis using s' None looked_trans [OF s1(2) s'(2)] unfolding dir_at_Suc e by auto
  qed
qed

section \<open>Files of the root directory\<close>

lemma search_root_eq:
  assumes it: "length (inode_table s) = 10" "inode_table s ! ROOT_INODE = m" and ok: "dir_ok s m K" and c: "length (dir_cache s) = 512"
    and n: "0 \<notin> set name" "47 \<notin> set name" "name \<noteq> []"
  shows "\<exists>s'. search_file s (47 # name) = Some (s', case dir_find s m name 0 K of None \<Rightarrow> NOT_FOUND | Some b \<Rightarrow> b) \<and>
    looked s m s' \<and> dir_ok s' m K \<and> dir_find s m name 0 K \<noteq> Some NOT_FOUND"
proof -
  obtain s' where s': "rf_loop s m (dir_at 0) (Some name) = Some (s', m, case dir_find s m name 0 K of None \<Rightarrow> NOT_FOUND | Some b \<Rightarrow> b)"
    "looked s m s'" "dir_ok s' m K" "dir_find s m name 0 K \<noteq> Some NOT_FOUND"
    using rf_loop_find [OF n(1,3) ok, of 0 K] c by auto
  have "(inode_table s')[ROOT_INODE := m] = inode_table s'"
    using s'(2) it(2) by (metis list_update_id looked_def)
  moreover have "length (inode_table s') = 10" using s'(2) it by (simp add: looked_def)
  ultimately have "rf_dir s (i_adr m) (Some name) = Some (s', case dir_find s m name 0 K of None \<Rightarrow> NOT_FOUND | Some b \<Rightarrow> b)"
    using s'(1) it by (simp add: rf_dir_def dir_at_def ROOT_INODE_def)
  then have "rfsearch s (i_adr m) None (Some name) = Some (s', case dir_find s m name 0 K of None \<Rightarrow> NOT_FOUND | Some b \<Rightarrow> b)"
    by (subst rfsearch.simps) simp
  moreover have "search_file s (47 # name) = rfsearch s (i_adr m) None (Some name)"
    using it n(2) by (simp add: search_file_def ROOT_INODE_def)
  ultimately show ?thesis using s'(2-4) by simp
qed

text \<open>The inode that \<open>fs_open\<close> puts into slot \<open>i\<close> for a file whose inode is in block \<open>b\<close>.\<close>

definition loaded_inode :: "fs_state \<Rightarrow> u32 \<Rightarrow> nat \<Rightarrow> m_inode" where
  "loaded_inode s b i = (cpy_dinode_to_minode heap_inode (disk_inode s b))\<lparr>i_num := word_of_nat i, i_adr := b\<rparr>"

lemma loaded_inode_eq: "i_num m = word_of_nat i \<Longrightarrow> (cpy_dinode_to_minode m (disk_inode s b))\<lparr>i_adr := b\<rparr> = loaded_inode s b i"
  by (cases m) (simp add: loaded_inode_def cpy_dinode_to_minode_def heap_inode_def)

text \<open>The state after a file is opened: the file \<open>f\<close> with the inode of block \<open>b\<close> in slot \<open>i\<close>.\<close>

definition opened :: "fs_state \<Rightarrow> bytes \<Rightarrow> u32 \<Rightarrow> nat \<Rightarrow> nat \<Rightarrow> fs_state \<Rightarrow> bool" where
  "opened s path b i f s' \<longleftrightarrow> gft_ok s' \<and> inode_table_ok s' \<and> open_as s' path f \<and> get_file s' (word_of_nat f) = Some f \<and>
     f_inode (gft s' ! f) = Some i \<and> i < NUM_INODES \<and> inode_table s' ! i = loaded_inode s b i \<and>
     f_mode (gft s' ! f) = ucast (di_mode (disk_inode s b)) \<and> f_count (gft s' ! f) = 0 \<and>
     (\<forall>k. k \<noteq> f \<longrightarrow> gft s' ! k = gft s ! k) \<and> (\<forall>k. k \<noteq> i \<longrightarrow> inode_table s' ! k = inode_table s ! k)"

lemma insert_file_rest: "insert_file s j name mode = (s', d) \<Longrightarrow> fs_hd s' = fs_hd s \<and> fs_disk s' = fs_disk s \<and> inode_table s' = inode_table s"
  by (auto simp: insert_file_def alloc_file_def Let_def split: option.splits if_splits)

lemma fs_open_root_file:
  assumes t: "gft_ok s" "inode_table_ok s" "inode_table s ! ROOT_INODE = m" "i_num m \<noteq> NIL_INODE"
    and d: "dir_ok s m K" "length (dir_cache s) = 512" "dir_find s m name 0 K = Some b"
    and n: "0 \<notin> set name" "47 \<notin> set name" "name \<noteq> []" and new: "\<nexists>k. open_as s (47 # name) k"
    and free: "\<exists>j < NUM_INODES. i_num (inode_table s ! j) = NIL_INODE" "\<exists>k < NUM_FILES. f_desc (gft s ! k) = NIL_FILE"
    and b: "unat b \<le> unat (get_hdsize (fs_hd s))" "length (fs_disk s b) = 512" "b \<noteq> i_adr m"
  shows "\<exists>s' i f. fs_open s (47 # name) = Some (s', word_of_nat f) \<and> f < NUM_FILES \<and> opened s (47 # name) b i f s' \<and>
    fs_hd s' = fs_hd s \<and> (\<forall>c. c \<noteq> i_adr m \<longrightarrow> fs_disk s' c = fs_disk s c)"
proof -
  let ?path = "47 # name"
  have p0: "0 \<notin> set ?path" using n(1) by simp
  have "str_cmp ?path [47] \<noteq> 0" using str_cmp_eq_0 [of ?path "[47]"] p0 n(3) by simp
  moreover have "name2desc s ?path = - 1" by (rule name2desc_eq(2) [OF t(1) p0 new])
  moreover obtain s1 where s1: "search_file s ?path = Some (s1, b)" "looked s m s1" "b \<noteq> NOT_FOUND"
    using search_root_eq [OF inode_table_len [OF t(2)] t(3) d(1,2) n] d(3) by auto
  moreover have l: "gft s1 = gft s" "inode_table s1 = inode_table s" "fs_hd s1 = fs_hd s" "\<And>c. c \<noteq> i_adr m \<Longrightarrow> fs_disk s1 c = fs_disk s c"
    using s1(2) by (simp_all add: looked_def)
  have t1: "gft_ok s1" "inode_table_ok s1" using t l by (simp_all add: gft_ok_def inode_table_ok_def)
  obtain i s2 where i: "alloc_inode s1 = (s2, Some i)" "i < 10" "i_num (inode_table s ! i) = NIL_INODE"
    "s2 = s1\<lparr>inode_table := (inode_table s1)[i := (inode_table s1 ! i)\<lparr>i_num := word_of_nat i\<rparr>]\<rparr>" "inode_table_ok s2"
    using alloc_inode_eq [OF t1(2)] free(1) l(2) by (auto simp: NUM_INODES_def split: option.splits)
  have len: "length (inode_table s) = 10" by (rule inode_table_len [OF t(2)])
  have di: "disk_inode s2 b = disk_inode s b" using l(4) b(3) i(4) by (simp add: disk_inode_def)
  let ?x = "loaded_inode s b i"
  obtain s3 where s3: "read_minode s2 (inode_table s2 ! i) b = Some (s3, ?x)" "fs_disk s3 = fs_disk s1"
    using read_minode_eq [of b s2 "inode_table s2 ! i"] b l loaded_inode_eq [of "inode_table s2 ! i" i b s] i(2,4) len di by auto
  note fr = read_minode_frame [OF s3(1)]
  define s4 where "s4 = s3\<lparr>inode_table := (inode_table s3)[i := ?x]\<rparr>"
  have s4: "gft s4 = gft s" "inode_table s4 = (inode_table s)[i := ?x]" "fs_hd s4 = fs_hd s" "fs_disk s4 = fs_disk s1"
    using fr i(4) l s3(2) by (simp_all add: s4_def frame_def)
  have t4: "gft_ok s4" using t(1) s4(1) by (simp add: gft_ok_def)
  have xi: "i_num ?x = word_of_nat i" by (simp add: loaded_inode_def)
  have it4: "inode_table_ok s4"
    using inode_table_ok_upd [OF t(2) i(2), of ?x] xi s4(2) by (simp add: inode_table_ok_def)
  have new4: "\<nexists>k. open_as s4 ?path k" using new s4(1) by (simp add: open_as_def)
  obtain s5 fd where s5: "insert_file s4 i ?path (ucast (i_mode ?x)) = (s5, fd)" by fastforce
  note ins = insert_file_eq [OF t4 _ p0, of i "ucast (i_mode ?x)", unfolded s5 prod.case]
  have nf: "\<not> (\<forall>k < NUM_FILES. f_desc (gft s4 ! k) \<noteq> NIL_FILE)" using free(2) s4(1) by auto
  have "\<not> (\<exists>k. open_as s4 ?path k)" using new4 .
  then obtain f where f: "gft_ok s5" "f < NUM_FILES" "fd = word_of_nat f" "get_file s5 fd = Some f" "open_as s5 ?path f" "f_inode (gft s5 ! f) = Some i"
    "f_mode (gft s5 ! f) = ucast (i_mode ?x)" "f_count (gft s5 ! f) = 0" "\<forall>k. k \<noteq> f \<longrightarrow> gft s5 ! k = gft s4 ! k"
    using ins i(2) nf unfolding NUM_INODES_def by (simp only: if_False) blast
  note rest = insert_file_rest [OF s5]
  have x: "inode_table s5 ! i = ?x" "\<forall>k. k \<noteq> i \<longrightarrow> inode_table s5 ! k = inode_table s ! k" "inode_table_ok s5"
    using rest s4(2) i(2) len it4 by (simp_all add: inode_table_ok_def)
  have "fs_open s ?path = Some (s5, fd)"
    using calculation i(1,2) s3(1) s5 len l(2) i(4) fr by (simp add: fs_open_def Let_def frame_def NIL_INODE_def s4_def)
  moreover have "opened s ?path b i f s5"
    using f x i(2) s4(1) by (simp add: opened_def NUM_INODES_def) (simp add: loaded_inode_def cpy_dinode_to_minode_def)
  ultimately show ?thesis using f(2,3) rest s4(3,4) l(4) by (intro exI [of _ s5] exI [of _ i] exI [of _ f]) simp
qed

section \<open>Properties\<close>

text \<open>
  \<open>search_file\<close> finds the files of the root directory: for a directory of up to 29 valid blocks and a name without
  slash, the result is the block of the first entry with this name, in the order of the blocks, and
  \<open>NOT_FOUND\<close> when no block has one. The tables of open files and inodes do not change, and the disk at most in the
  block of the root's inode.
\<close>

theorem search_root:
  assumes it: "length (inode_table s) = NUM_INODES" and ok: "dir_ok s (inode_table s ! ROOT_INODE) K" and c: "length (dir_cache s) = BLOCK_SIZE"
    and n: "0 \<notin> set name" "47 \<notin> set name" "name \<noteq> []"
  shows "\<exists>s'. search_file s (47 # name) =
      Some (s', case dir_find s (inode_table s ! ROOT_INODE) name 0 K of None \<Rightarrow> NOT_FOUND | Some b \<Rightarrow> b) \<and>
    gft s' = gft s \<and> inode_table s' = inode_table s \<and> (\<forall>b. b \<noteq> i_adr (inode_table s ! ROOT_INODE) \<longrightarrow> fs_disk s' b = fs_disk s b)"
  using search_root_eq [OF _ refl ok _ n] it c by (auto simp: NUM_INODES_def BLOCK_SIZE_def looked_def)

text \<open>A root directory with the file \<open>a\<close> of three bytes: its inode is block 9, its data block 10.\<close>

definition file_a :: m_inode where
  "file_a = inode_example\<lparr>i_mode := DATA_FILE, i_size := 3, i_direct := 10 # replicate 29 0\<rparr>"

definition root_example :: m_inode where
  "root_example = inode_example\<lparr>i_size := 512, i_direct := 4 # replicate 29 0\<rparr>"

definition look_example :: fs_state where
  "look_example = gft_example\<lparr>
     inode_table := root_example # replicate 9 (inode_example\<lparr>i_num := NIL_INODE\<rparr>),
     fs_disk := (\<lambda>b. if b = 4 then dir_cache dir_example else if b = 9 then enc_dinode (cpy_minode_to_dinode file_a) @ replicate 362 0
       else if b = 10 then [104, 105, 10] @ replicate 509 0 else replicate 512 0)\<rparr>"

lemma look_example_simps:
  "gft look_example = gft gft_example" "get_hdsize (fs_hd look_example) = 16" "length (dir_cache look_example) = 512"
  "inode_table look_example ! 0 = root_example" "length (inode_table look_example) = 10"
  "i < 10 \<Longrightarrow> i \<noteq> 0 \<Longrightarrow> inode_table look_example ! i = inode_example\<lparr>i_num := NIL_INODE\<rparr>"
  using fs_example_hd by (simp_all add: look_example_def gft_example_def fs_example2_def) (simp_all add: fs_example_def)

lemma dir_example_values: "dir_map (dir_cache dir_example) n \<noteq> Some NOT_FOUND"
proof -
  have len: "length (replicate 512 (0 :: u8)) = 512" by simp
  have e: "length (le32 9 @ 97 # replicate 27 (0 :: u8)) = 32" by simp
  have "entry_inode (dir_cache dir_example) i \<noteq> NOT_FOUND" if i: "i < 16" for i
  proof (cases "i = 0")
    case True
    have "sub_bytes (32 * 0) 4 (dir_cache dir_example) = le32 9"
      unfolding dir_example_def by (simp add: sub_bytes_def blit_def)
    then show ?thesis using True by (simp add: entry_inode_def NOT_FOUND_def)
  next
    case False
    have "sub_bytes (32 * i) 4 (dir_cache dir_example) = sub_bytes (32 * i) 4 (replicate 512 0)"
      unfolding dir_example_def using False i by (simp add: sub_bytes_blit_other)
    also have "\<dots> = replicate 4 0" using i by (simp add: sub_bytes_def)
    also have "\<dots> = le32 0" by (simp add: le32_zero)
    finally show ?thesis by (simp add: entry_inode_def NOT_FOUND_def)
  qed
  then show ?thesis using dir_map_Some [OF dir_example_ok(1)] by blast
qed

lemma look_example_dir: "dir_ok look_example root_example 1"
proof -
  have p: "blk_path d root_example 0 = ([], 4)" for d by (simp add: blk_path_def root_example_def)
  have len: "length (dir_cache dir_example) = 512" using dir_example_ok(1) by (simp add: block_ok_def)
  have f: "file_ok look_example root_example 512"
    unfolding file_ok_def inode_ok_def real_block_def look_example_simps(2)
    by (auto simp: p) (simp_all add: root_example_def inode_example_def look_example_def len)
  have "dir_block look_example root_example 0 = dir_cache dir_example" by (simp add: dir_block_def p) (simp add: look_example_def)
  then show ?thesis using f dir_example_ok(1) dir_example_values by (simp add: dir_ok_def) (simp add: root_example_def)
qed

lemma look_example_find: "dir_find look_example root_example [97] 0 1 = Some 9"
proof -
  have "dir_block look_example root_example 0 = dir_cache dir_example"
    by (simp add: dir_block_def blk_path_def root_example_def) (simp add: look_example_def)
  then show ?thesis by (simp add: dir_example_ok(2))
qed

theorem search_root_witness:
  "\<exists>s'. search_file look_example (47 # [97]) =
      Some (s', case dir_find look_example (inode_table look_example ! ROOT_INODE) [97] 0 1 of None \<Rightarrow> NOT_FOUND | Some b \<Rightarrow> b) \<and>
    gft s' = gft look_example \<and> inode_table s' = inode_table look_example \<and>
    (\<forall>b. b \<noteq> i_adr (inode_table look_example ! ROOT_INODE) \<longrightarrow> fs_disk s' b = fs_disk look_example b)"
  by (rule search_root)
    (simp_all add: look_example_simps look_example_dir [unfolded One_nat_def] NUM_INODES_def BLOCK_SIZE_def ROOT_INODE_def)


lemma look_example_tables: "gft_ok look_example" "inode_table_ok look_example"
proof -
  show "gft_ok look_example" using gft_example_ok look_example_simps(1) by (simp add: gft_ok_def)
  have "i_num (inode_table look_example ! i) = NIL_INODE \<or> i_num (inode_table look_example ! i) = word_of_nat i" if "i < 10" for i
    using look_example_simps(4) look_example_simps(6) [OF that] by (cases "i = 0") (simp_all add: root_example_def inode_example_def)
  then show "inode_table_ok look_example"
    using look_example_simps(5) by (simp add: inode_table_ok_def slots_ok_def NUM_INODES_def NIL_INODE_def)
qed

lemma look_example_file: "\<nexists>k. open_as look_example (47 # [97]) k" "length (fs_disk look_example 9) = 512"
  "\<exists>j < NUM_INODES. i_num (inode_table look_example ! j) = NIL_INODE" "\<exists>k < NUM_FILES. f_desc (gft look_example ! k) = NIL_FILE"
proof -
  show "\<nexists>k. open_as look_example (47 # [97]) k"
  proof
    assume "\<exists>k. open_as look_example (47 # [97]) k"
    then obtain k where "k < 10" "f_name (gft gft_example ! k) = Some (47 # [97])" by (auto simp: open_as_def look_example_simps NUM_FILES_def)
    then show False by (simp add: gft_example_nth split: if_splits)
  qed
  show "length (fs_disk look_example 9) = 512"
    by (simp add: look_example_def length_enc_dinode file_a_def cpy_minode_to_dinode_def NUM_DIRECT_POINTER_def)
  show "\<exists>j < NUM_INODES. i_num (inode_table look_example ! j) = NIL_INODE"
    by (rule exI [of _ 1]) (simp add: look_example_simps NUM_INODES_def)
  show "\<exists>k < NUM_FILES. f_desc (gft look_example ! k) = NIL_FILE"
    by (rule exI [of _ 1]) (simp add: look_example_simps gft_example_nth NUM_FILES_def)
qed


end
