(* ===== verification/Chips.thy ===== *)
theory Chips
  imports ShellUtils
begin

text \<open>
  The tool \<open>chips\<close> that works on a disk image from a host system (\<open>src/tools/chips\<close>): the file system's sources are
  linked with other functions for the disk (\<open>fs_wrappers.c\<close>), and the commands of \<open>chips.c\<close> call the interface of
  \<open>fs/fs_main.c\<close>. The commands are functions on the state of the file system; their output is a list of
  writes to the descriptors 1 and 2.
\<close>

section \<open>The disk image\<close>

record potatoes_disk =
  pd_data :: bytes
  pd_size :: u32

text \<open>The sizes of the host are in bytes. \<open>None\<close> stands for no selected disk.\<close>

definition potatoes_get_hdsize :: "potatoes_disk option \<Rightarrow> u32" where
  "potatoes_get_hdsize d = (case d of None \<Rightarrow> 0 | Some d \<Rightarrow> pd_size d)"

text \<open>A sector that the check lets pass but that is not in the mapping has no result.\<close>

definition potatoes_hd_write_sector :: "potatoes_disk option \<Rightarrow> u32 \<Rightarrow> bytes \<Rightarrow> potatoes_disk option option" where
  "potatoes_hd_write_sector disk dest src = (case disk of
       None \<Rightarrow> Some None
     | Some d \<Rightarrow>
         if (dest + 1) * 512 > pd_size d then Some (Some d)
         else do {
           run \<leftarrow> rd_run 0 512 src;
           data \<leftarrow> wr_run (unat (dest * 512)) run (pd_data d);
           Some (Some (d\<lparr>pd_data := data\<rparr>)) })"

definition potatoes_hd_read_sector :: "potatoes_disk option \<Rightarrow> bytes \<Rightarrow> u32 \<Rightarrow> bytes option" where
  "potatoes_hd_read_sector disk dest src = (case disk of
       None \<Rightarrow> Some dest
     | Some d \<Rightarrow>
         if (src + 1) * 512 > pd_size d then Some dest
         else do {
           run \<leftarrow> rd_run (unat (src * 512)) 512 (pd_data d);
           wr_run 0 run dest })"

text \<open>
  \<open>open\<close>, \<open>fstat\<close> and \<open>mmap\<close> on the file. A failed \<open>mmap\<close> returns \<open>MAP_FAILED\<close>, which is not \<open>NULL\<close>: the disk then has a
  pointer that is no address.
\<close>

datatype host_file = Cannot_open | Cannot_stat | Cannot_map | Opened bytes

fun potatoes_disc_create :: "host_file \<Rightarrow> potatoes_disk option option" where
  "potatoes_disc_create Cannot_open = Some None"
| "potatoes_disc_create Cannot_stat = Some None"
| "potatoes_disc_create Cannot_map = None"
| "potatoes_disc_create (Opened data) = Some (Some \<lparr>pd_data = data, pd_size = word_of_nat (length data)\<rparr>)"

text \<open>The sectors of the image, and the file system's variables with it as their disk.\<close>

definition image_sectors :: "potatoes_disk \<Rightarrow> sectors" where
  "image_sectors d b = sub_bytes (unat b * 512) 512 (pd_data d)"

definition image_state :: "fs_state \<Rightarrow> potatoes_disk \<Rightarrow> fs_state" where
  "image_state s d = s\<lparr>fs_disk := image_sectors d,
     fs_hd := (fs_hd s)\<lparr>capacity_low := ucast (pd_size d), capacity_high := ucast (drop_bit 16 (pd_size d))\<rparr>\<rparr>"

section \<open>The commands\<close>

text \<open>
  What the commands get from the host: the results of allocations in \<open>fs_init\<close>, the memory behind the buffer of a file
  name, a local array of 512 bytes before it is written, the largest \<open>long\<close>, the results of the calls of \<open>read\<close>
  on the standard input, the text of \<open>dump_consts\<close>.
\<close>

record host_env =
  he_bmap :: "bytes option"
  he_new :: "bytes option \<times> bool \<times> u32 \<times> u32"
  he_mem :: bytes
  he_buf :: bytes
  he_lmax :: int
  he_stdin :: "bytes list"
  he_consts :: bytes

type_synonym host_out = "(nat \<times> bytes) list"
type_synonym chips_cmd = "host_env \<Rightarrow> fs_state \<Rightarrow> bytes list \<Rightarrow> (fs_state \<times> host_out \<times> s32) option"

definition err :: "string \<Rightarrow> bytes \<Rightarrow> string \<Rightarrow> nat \<times> bytes" where
  "err a arg b = (2, ascii a @ arg @ ascii b @ [10])"

definition chips_consts :: chips_cmd where
  "chips_consts e s argv = Some (s, [(2, he_consts e)], 0)"

partial_function (option) cat_loop :: "fs_state \<Rightarrow> 16 word \<Rightarrow> bytes \<Rightarrow> u32 \<Rightarrow> host_out \<Rightarrow> (fs_state \<times> host_out) option" where
  "cat_loop s fd buf off out = do {
     (s, data, n) \<leftarrow> do_read s fd 512 off;
     buf \<leftarrow> wr_run 0 data buf;
     if 0 <s n then do {
       run \<leftarrow> rd_run 0 (unat n) buf;
       cat_loop s fd buf (off + n) (out @ [(1, run)]) }
     else Some (s, out) }"

declare cat_loop.simps [code]

fun cat_files :: "host_env \<Rightarrow> fs_state \<Rightarrow> bytes list \<Rightarrow> host_out \<Rightarrow> (fs_state \<times> host_out \<times> s32) option" where
  "cat_files e s [] out = Some (s, out, 0)"
| "cat_files e s (a # as) out = do {
     (s, fd) \<leftarrow> do_open s a;
     if fd <s 0 then Some (s, out @ [err ''Failed to open '' a ''''], 1)
     else do {
       info \<leftarrow> get_file_info s fd;
       if fi_mode info \<noteq> DATA_FILE then Some (s, out @ [err ''Not a file: '' a ''''], 1)
       else do {
         (s, out) \<leftarrow> cat_loop s fd (he_buf e) 0 out;
         cat_files e s as out } } }"

definition chips_cat :: chips_cmd where
  "chips_cat e s argv =
     (if length argv < 2 then Some (s, [err ''Usage: '' (hd argv) '' <file> [more files ...]''], - 1)
      else cat_files e s (tl argv) [])"

fun append_loop :: "fs_state \<Rightarrow> 16 word \<Rightarrow> bytes \<Rightarrow> u32 \<Rightarrow> bytes list \<Rightarrow> fs_state option" where
  "append_loop s fd buf off [] = Some s"
| "append_loop s fd buf off (c # cs) =
     (if c = [] then Some s
      else do {
        buf \<leftarrow> wr_run 0 c buf;
        (s, n) \<leftarrow> do_write s fd buf (word_of_nat (length c)) off;
        append_loop s fd buf (off + word_of_nat (length c)) cs })"

definition chips_append :: chips_cmd where
  "chips_append e s argv =
     (if length argv \<noteq> 2 then Some (s, [err ''Usage: '' (hd argv) '' <file>''], - 1)
      else do {
        (s, fd) \<leftarrow> do_open s (argv ! 1);
        (s, r) \<leftarrow>
          (if fd <s 0 then do {
             (s, ok) \<leftarrow> fs_create s (argv ! 1) DATA_FILE (he_mem e);
             if \<not> ok then Some (s, Inl (err ''Failed to create '' (argv ! 1) ''''))
             else do {
               (s, fd) \<leftarrow> do_open s (argv ! 1);
               Some (s, if fd <s 0 then Inl (err ''Failed to open '' (argv ! 1) '''') else Inr fd) } }
           else Some (s, Inr fd));
        case r of
          Inl msg \<Rightarrow> Some (s, [msg], 1)
        | Inr fd \<Rightarrow> do {
            info \<leftarrow> get_file_info s fd;
            if fi_mode info \<noteq> DATA_FILE then Some (s, [err ''Not a file: '' (argv ! 1) ''''], 1)
            else do {
              s \<leftarrow> append_loop s fd (he_buf e) (fi_size info) (he_stdin e);
              Some (s, [], 0) } } })"

text \<open>\<open>strtol\<close> of the host for base 0: the value and the rest.\<close>

definition hex_digit :: "u8 \<Rightarrow> int" where
  "hex_digit c =
     (if 48 \<le> c \<and> c \<le> 57 then uint c - 48
      else if 65 \<le> c \<and> c \<le> 70 then uint c - 55
      else if 97 \<le> c \<and> c \<le> 102 then uint c - 87
      else 99)"

fun read_digits :: "int \<Rightarrow> int \<Rightarrow> bytes \<Rightarrow> int \<times> bytes" where
  "read_digits base acc [] = (acc, [])"
| "read_digits base acc (c # cs) =
     (if hex_digit c < base then read_digits base (acc * base + hex_digit c) cs else (acc, c # cs))"

definition host_strtol :: "int \<Rightarrow> bytes \<Rightarrow> int \<times> bytes" where
  "host_strtol lmax s =
     (let s1 = dropWhile (\<lambda>c. c = 32 \<or> 9 \<le> c \<and> c \<le> 13) s;
          neg = (take 1 s1 = [45]);
          s2 = (if neg \<or> take 1 s1 = [43] then tl s1 else s1);
          hex = ((take 2 s2 = [48, 120] \<or> take 2 s2 = [48, 88]) \<and> length s2 > 2 \<and> hex_digit (s2 ! 2) < 16);
          base = (if hex then 16 else if take 1 s2 = [48] then 8 else 10);
          s3 = (if hex then drop 2 s2 else s2);
          (v, rest) = read_digits base 0 s3
      in if s3 = [] \<or> \<not> hex_digit (hd s3) < base then (0, s)
         else (if neg then max (- lmax - 1) (- v) else min lmax v, rest))"

definition chips_trunc :: chips_cmd where
  "chips_trunc e s argv =
     (if length argv < 2 \<or> 3 < length argv then Some (s, [err ''Usage: '' (hd argv) '' <file> [size]''], - 1)
      else
        let (v, rest) = (if length argv = 3 then host_strtol (he_lmax e) (argv ! 2) else (0, []));
            sz = word_of_int v :: s32
        in if length argv = 3 \<and> (rest \<noteq> [] \<or> sz <s 0)
           then Some (s, [err ''Not a nonnegative integer: '' (argv ! 2) ''''], - 1)
           else do {
             (s, ok) \<leftarrow> fs_truncate s (argv ! 1) sz;
             if \<not> ok then Some (s, [err ''Truncating '' (argv ! 1) '' failed.''], 1) else Some (s, [], 0) })"

text \<open>The entries of one block from entry \<open>i\<close> on: the list ends at the first one without an inode.\<close>

fun ls_block :: "bytes \<Rightarrow> nat \<Rightarrow> nat \<Rightarrow> bytes list option" where
  "ls_block buf i 0 = Some []"
| "ls_block buf i (Suc n) =
     (if entry_inode buf i = 0 then Some []
      else do {
        name \<leftarrow> buf_str (drop (32 * i + 4) buf);
        names \<leftarrow> ls_block buf (i + 1) n;
        Some (name # names) })"

text \<open>\<open>count\<close> is converted to an unsigned number for the comparison with \<open>i\<close>.\<close>

partial_function (option) dir_loop :: "fs_state \<Rightarrow> 16 word \<Rightarrow> bytes \<Rightarrow> u32 \<Rightarrow> bytes list \<Rightarrow> (fs_state \<times> bytes list) option" where
  "dir_loop s fd buf pos names = do {
     (s, data, n) \<leftarrow> do_read s fd 512 pos;
     buf \<leftarrow> wr_run 0 data buf;
     if n \<noteq> 0 then do {
       new \<leftarrow> ls_block buf 0 (unat (n div 32));
       dir_loop s fd buf (pos + n) (names @ new) }
     else Some (s, names) }"

declare dir_loop.simps [code]

definition chips_ls :: chips_cmd where
  "chips_ls e s argv = do {
     let path = (if length argv > 1 then argv ! 1 else [47]);
     (s, fd) \<leftarrow> do_open s path;
     if fd <s 0 then Some (s, [err ''Failed to open '' path ''''], - 1)
     else do {
       info \<leftarrow> get_file_info s fd;
       if fi_mode info \<noteq> DIRECTORY then do { name \<leftarrow> buf_str (fi_name info); Some (s, [(1, name @ [10])], 0) }
       else do {
         (s, names) \<leftarrow> dir_loop s fd (he_buf e) 0 [];
         (s, r) \<leftarrow> do_close s fd;
         Some (s, map (\<lambda>n. (1, n @ [10])) names, 0) } } }"

definition chips_mkdir :: chips_cmd where
  "chips_mkdir e s argv =
     (if length argv \<noteq> 2 then Some (s, [err ''Usage: '' (hd argv) '' <path>''], - 1)
      else do {
        (s, ok) \<leftarrow> fs_create s (argv ! 1) DIRECTORY (he_mem e);
        if \<not> ok then Some (s, [err ''Failed to create directory '' (argv ! 1) ''''], 1) else Some (s, [], 0) })"

definition chips_rm :: chips_cmd where
  "chips_rm e s argv =
     (if length argv \<noteq> 2 then Some (s, [err ''Usage: '' (hd argv) '' <path>''], - 1)
      else do {
        (s, fd) \<leftarrow> do_open s (argv ! 1);
        if fd <s 0 then Some (s, [err ''Failed to open '' (argv ! 1) ''''], 1)
        else do {
          info \<leftarrow> get_file_info s fd;
          (s, r) \<leftarrow> do_close s fd;
          if fi_mode info \<noteq> DATA_FILE then Some (s, [err ''Not a file: '' (argv ! 1) ''''], 1)
          else do {
            (s, ok) \<leftarrow> fs_delete s (argv ! 1) (he_mem e);
            if \<not> ok then Some (s, [err ''Failed to delete '' (argv ! 1) ''''], 1) else Some (s, [], 0) } } })"

section \<open>The program\<close>

definition chips_commands :: "(chips_cmd \<times> bytes \<times> bytes) list" where
  "chips_commands =
    [(chips_consts, ascii ''consts'', ascii ''Dump a list of constants used by the file system.''),
     (chips_cat, ascii ''cat'', ascii ''Dump contents of files to stdout.''),
     (chips_append, ascii ''append'', ascii ''Append stdin to a file, possibly creating it.''),
     (chips_trunc, ascii ''trunc'', ascii ''Set file size.''),
     (chips_ls, ascii ''ls'', ascii ''Show directory contents.''),
     (chips_mkdir, ascii ''mkdir'', ascii ''Create empty directory.''),
     (chips_rm, ascii ''rm'', ascii ''Delete a file.'')]"

definition chips_usage :: "bytes \<Rightarrow> host_out \<times> s32" where
  "chips_usage progname =
     ([(2, ascii ''Usage: '' @ progname @ ascii '' <disk image> <command> [args ...]'' @ [10, 10]), (2, ascii ''Available commands:'' @ [10])] @
      map (\<lambda>(c, name, desc). (2, [9] @ name @ replicate (10 - length name) 32 @ ascii '' - '' @ desc @ [10])) chips_commands, - 1)"

fun find_chips_cmd :: "(chips_cmd \<times> bytes \<times> bytes) list \<Rightarrow> bytes \<Rightarrow> chips_cmd option" where
  "find_chips_cmd [] name = None"
| "find_chips_cmd ((c, n, d) # cs) name = (if str_cmp name n = 0 then Some c else find_chips_cmd cs name)"

text \<open>
  \<open>statics\<close> are the variables of the file system before \<open>fs_init\<close>, \<open>file\<close> what the host has under a name. Without a
  disk image there is no file system, the first result is \<open>None\<close> then.
\<close>

definition chips_main :: "host_env \<Rightarrow> fs_state \<Rightarrow> (bytes \<Rightarrow> host_file) \<Rightarrow> bytes list \<Rightarrow> (fs_state option \<times> host_out \<times> s32) option" where
  "chips_main e statics file argv =
     (if length argv < 3 then let (out, r) = chips_usage (hd argv) in Some (None, out, r)
      else do {
        d \<leftarrow> potatoes_disc_create (file (argv ! 1));
        case d of
          None \<Rightarrow> Some (None, [err ''Failed to open disk image '' (argv ! 1) ''''], 1)
        | Some disk \<Rightarrow> do {
            s \<leftarrow> (case he_new e of (mem2, ok, bm, rt) \<Rightarrow> fs_init (image_state statics disk) (he_bmap e) mem2 ok bm rt);
            case find_chips_cmd chips_commands (argv ! 2) of
              None \<Rightarrow> let (out, r) = chips_usage (hd argv) in Some (Some s, out, r)
            | Some c \<Rightarrow> do {
                (s, out, r) \<leftarrow> c e s (drop 2 argv);
                Some (Some s, out, r) } } })"

end
