(* ===== verification/Chipsfs.thy ===== *)
theory Chipsfs
  imports Chips
begin

text \<open>
  The operations of the FUSE file system \<open>chipsfs\<close> (\<open>src/tools/chips/chipsfs.c\<close>). They are called by the library with a
  path; a result below zero is an error number. What is put into a \<open>struct stat\<close> or given to the function
  \<open>filler\<close> is returned.
\<close>

definition ENOENT :: s32 where "ENOENT = 2"
definition EPERM :: s32 where "EPERM = 1"

record fuse_stat =
  st_mode :: u32
  st_nlink :: nat
  st_size :: u32

text \<open>\<open>S_IFDIR | 0777\<close> and \<open>S_IFREG | 0666\<close>; the structure is cleared first.\<close>

definition chips_getattr :: "fs_state \<Rightarrow> bytes \<Rightarrow> (fs_state \<times> fuse_stat \<times> s32) option" where
  "chips_getattr s path = do {
     let st = \<lparr>st_mode = 0, st_nlink = 0, st_size = 0\<rparr>;
     (s, fd) \<leftarrow> do_open s path;
     if fd <s 0 then Some (s, st, - ENOENT)
     else do {
       info \<leftarrow> get_file_info s fd;
       let st = (if fi_mode info = DIRECTORY then st\<lparr>st_mode := 0x41FF, st_nlink := 2\<rparr>
                 else st\<lparr>st_mode := 0x81B6, st_nlink := 1, st_size := fi_size info\<rparr>);
       (s, r) \<leftarrow> do_close s fd;
       Some (s, st, 0) } }"

definition chips_readdir :: "bytes \<Rightarrow> fs_state \<Rightarrow> bytes \<Rightarrow> (fs_state \<times> bytes list \<times> s32) option" where
  "chips_readdir stack s path = do {
     (s, fd) \<leftarrow> do_open s path;
     if fd <s 0 then Some (s, [], - ENOENT)
     else do {
       info \<leftarrow> get_file_info s fd;
       if fi_mode info \<noteq> DIRECTORY then Some (s, [], - ENOENT)
       else do {
         (s, names) \<leftarrow> dir_loop s fd stack 0 [];
         (s, r) \<leftarrow> do_close s fd;
         Some (s, names, 0) } } }"

definition chips_open :: "fs_state \<Rightarrow> bytes \<Rightarrow> (fs_state \<times> s32) option" where
  "chips_open s path = do {
     (s, fd) \<leftarrow> do_open s path;
     if fd <s 0 then Some (s, - ENOENT)
     else do {
       info \<leftarrow> get_file_info s fd;
       if fi_mode info \<noteq> DATA_FILE then do { (s, r) \<leftarrow> do_close s fd; Some (s, - ENOENT) }
       else do { (s, r) \<leftarrow> do_close s fd; Some (s, 0) } } }"

text \<open>A path that cannot be opened is not noticed: the file with number \<open>-1\<close> is read then.\<close>

definition chips_read :: "fs_state \<Rightarrow> bytes \<Rightarrow> u32 \<Rightarrow> u32 \<Rightarrow> (fs_state \<times> bytes \<times> u32) option" where
  "chips_read s path sz offset = do {
     (s, fd) \<leftarrow> do_open s path;
     (s, data, ret) \<leftarrow> do_read s fd sz offset;
     (s, r) \<leftarrow> do_close s fd;
     Some (s, data, ret) }"

definition chips_write :: "fs_state \<Rightarrow> bytes \<Rightarrow> bytes \<Rightarrow> u32 \<Rightarrow> u32 \<Rightarrow> (fs_state \<times> u32) option" where
  "chips_write s path buf sz offset = do {
     (s, fd) \<leftarrow> do_open s path;
     (s, ret) \<leftarrow> do_write s fd buf sz offset;
     (s, r) \<leftarrow> do_close s fd;
     Some (s, ret) }"

definition chips_truncate :: "fs_state \<Rightarrow> bytes \<Rightarrow> u32 \<Rightarrow> (fs_state \<times> s32) option" where
  "chips_truncate s path offset = do { (s, ok) \<leftarrow> fs_truncate s path offset; Some (s, if ok then 0 else - 1) }"

definition chips_create :: "bytes \<Rightarrow> fs_state \<Rightarrow> bytes \<Rightarrow> (fs_state \<times> s32) option" where
  "chips_create mem s path = do {
     (s, r) \<leftarrow> chips_open s path;
     if r = 0 then Some (s, 0)
     else do {
       (s, ok) \<leftarrow> fs_create s path DATA_FILE mem;
       if \<not> ok then Some (s, - ENOENT) else chips_open s path } }"

definition fuse_mkdir :: "bytes \<Rightarrow> fs_state \<Rightarrow> bytes \<Rightarrow> (fs_state \<times> s32) option" where
  "fuse_mkdir mem s path = do {
     (s, ok) \<leftarrow> fs_create s path DIRECTORY mem;
     Some (s, if \<not> ok then - ENOENT else 0) }"

definition chips_unlink :: "bytes \<Rightarrow> fs_state \<Rightarrow> bytes \<Rightarrow> (fs_state \<times> s32) option" where
  "chips_unlink mem s path = do {
     (s, fd) \<leftarrow> do_open s path;
     if fd <s 0 then Some (s, - ENOENT)
     else do {
       info \<leftarrow> get_file_info s fd;
       if fi_mode info \<noteq> DATA_FILE then Some (s, - EPERM)
       else do {
         (s, r) \<leftarrow> do_close s fd;
         (s, ok) \<leftarrow> fs_delete s path mem;
         Some (s, if ok then 0 else - 1) } } }"

definition fuse_main_init :: "host_env \<Rightarrow> fs_state \<Rightarrow> (bytes \<Rightarrow> host_file) \<Rightarrow> bytes list \<Rightarrow> (fs_state option \<times> host_out \<times> s32) option" where
  "fuse_main_init e statics file argv =
     (if length argv < 3 then Some (None, [err ''Usage: '' (hd argv) '' <disk image> <mountpoint>''], 1)
      else do {
        d \<leftarrow> potatoes_disc_create (file (argv ! 1));
        case d of
          None \<Rightarrow> Some (None, [err ''Failed to open disk image '' (argv ! 1) ''''], 1)
        | Some disk \<Rightarrow> do {
            s \<leftarrow> (case he_new e of (mem2, ok, bm, rt) \<Rightarrow> fs_init (image_state statics disk) (he_bmap e) mem2 ok bm rt);
            Some (Some s, [], 0) } })"

end
