(* ===== verification/ChipsData.thy ===== *)
theory ChipsData
  imports Chips Lookup Remount
begin

text \<open>
  The tool \<open>chips\<close> (theory \<open>Chips\<close>) against the kernel's file system: the sectors of an image, what the command \<open>cat\<close>
  prints, and why the tool must not shut the file system down.
\<close>

section \<open>Sectors of an image\<close>

lemma sector_words:
  assumes "512 * (unat (b :: u32) + 1) \<le> unat (n :: u32)"
  shows "unat ((b + 1) * 512) = unat b * 512 + 512" "unat (b * 512) = unat b * 512" "\<not> (b + 1) * 512 > n"
proof -
  have m: "512 * (unat b + 1) < 2 ^ 32" using assms unat_u32_lt [of n] by simp
  then have p: "unat (b + 1) = unat b + 1" using unat_add_lem [of b 1] by simp
  show 1: "unat ((b + 1) * 512) = unat b * 512 + 512" using unat_mult_lem [of "b + 1" 512] m p by simp
  show "unat (b * 512) = unat b * 512" using unat_mult_lem [of b 512] m by simp
  show "\<not> (b + 1) * 512 > n" using assms 1 by (simp add: word_less_nat_alt)
qed

lemma image_sectors_blit:
  assumes "length src = 512" "unat dest * 512 + 512 \<le> length (pd_data d)" "unat c * 512 + 512 \<le> length (pd_data d)"
  shows "image_sectors (d\<lparr>pd_data := blit (unat dest * 512) src (pd_data d)\<rparr>) c = (if c = dest then src else image_sectors d c)"
proof (cases "c = dest")
  case False
  then have "unat c \<noteq> unat dest" by (simp add: word_unat_eq_iff)
  then have "unat c * 512 + 512 \<le> unat dest * 512 \<or> unat dest * 512 + length src \<le> unat c * 512" using assms(1) by arith
  then show ?thesis using False assms by (simp add: image_sectors_def sub_bytes_blit_other)
qed (use assms in \<open>simp add: image_sectors_def\<close>)

section \<open>Reading a whole file\<close>

text \<open>The descriptor \<open>fd\<close> is a data file that is open with the inode \<open>x\<close>.\<close>

definition open_data :: "fs_state \<Rightarrow> 16 word \<Rightarrow> nat \<Rightarrow> nat \<Rightarrow> m_inode \<Rightarrow> bool" where
  "open_data s fd f i x \<longleftrightarrow> get_file s fd = Some f \<and> f_inode (gft s ! f) = Some i \<and> f_name (gft s ! f) \<noteq> None \<and>
     ucast (f_mode (gft s ! f)) = DATA_FILE \<and> i < length (inode_table s) \<and> inode_table s ! i = x"

lemma open_data_cong: "gft s' = gft s \<Longrightarrow> inode_table s' = inode_table s \<Longrightarrow> open_data s' fd f i x = open_data s fd f i x"
  by (simp add: open_data_def get_file_def)

lemma do_read_data:
  assumes o: "open_data s fd f i x" and ok: "file_ok s x n" "unat (i_size x) \<le> n" and off: "unat off \<le> unat (i_size x)"
  shows "\<exists>s'. do_read s fd 512 off = Some (s', file_bytes s x (unat off) (min 512 (unat (i_size x) - unat off)),
      word_of_nat (min 512 (unat (i_size x) - unat off))) \<and>
    gft s' = gft s \<and> inode_table s' = inode_table s \<and> file_ok s' x n \<and> (\<forall>p < n. file_byte s' x p = file_byte s x p)"
proof -
  let ?k = "min 512 (unat (i_size x) - unat off)"
  have o': "get_file s fd = Some f" "f_inode (gft s ! f) = Some i" "ucast (f_mode (gft s ! f)) = DATA_FILE"
    "i < length (inode_table s)" "inode_table s ! i = x" using o by (simp_all add: open_data_def)
  obtain nm where nm: "f_name (gft s ! f) = Some nm" using o by (auto simp: open_data_def)
  have sub: "unat (i_size x - off) = unat (i_size x) - unat off" using off by (simp add: unat_sub word_le_nat_alt)
  let ?r = "if 512 > i_size x - off then i_size x - off else (512 :: u32)"
  have r: "unat ?r = ?k" using sub by (auto simp: word_less_nat_alt)
  have rk: "?r = word_of_nat ?k" by (rule word_unat_eq_iff [THEN iffD2]) (simp add: r unat_of_nat)
  have st: "t\<lparr>inode_table := (inode_table t)[i := x]\<rparr> = t" if "inode_table t = inode_table s" for t
  proof -
    have "(inode_table t)[i := x] = inode_table t" using that o'(4,5) by (metis list_update_id)
    then show ?thesis by simp
  qed
  have read: "do_read s fd 512 off = Some (s', data, cnt)" if "fs_read s x ?r off False = Some (s', x, data, cnt)" "frame s s'" for s' data cnt
    using that o' nm st [of s']
    by (cases "i_size x - off < 512") (simp_all add: do_read_def get_file_info_def inode_of_def frame_def DIRECTORY_def DATA_FILE_def Let_def)
  show ?thesis
  proof (cases "unat off = unat (i_size x)")
    case True
    then have "?k = 0" by simp
    then have "?r = 0" using rk by simp
    then have "fs_read s x ?r off False = Some (s, x, [], 0)" by (subst fs_read.simps) simp
    from read [OF this frame_refl] have "do_read s fd 512 off = Some (s, [], 0)" .
    moreover have "file_bytes s x (unat off) ?k = []" using True by (simp add: file_bytes_def)
    ultimately show ?thesis using True ok(1) by simp
  next
    case False
    then have pos: "0 < unat ?r" "unat off + unat ?r \<le> unat (i_size x)" using r off by auto
    obtain s' where s': "fs_read s x ?r off False = Some (s', x, file_bytes s x (unat off) (unat ?r), ?r)" "wrote s x s' x n 0 []"
      using fs_read_bytes [OF ok(1) _ pos(1), of off False] pos(2) ok(2) by auto
    note fr = fs_read_frame [OF s'(1)]
    have "do_read s fd 512 off = Some (s', file_bytes s x (unat off) (unat ?r), ?r)" by (rule read [OF s'(1) fr])
    then have "do_read s fd 512 off = Some (s', file_bytes s x (unat off) ?k, word_of_nat ?k)" unfolding r unfolding rk .
    then show ?thesis using s'(2) fr by (auto simp: wrote_def frame_def)
  qed
qed

lemma small_positive: "0 <s (word_of_nat k :: u32) \<longleftrightarrow> 0 < k" if "k \<le> 512"
proof -
  have "sint (word_of_nat k :: u32) = int k" using sint_small [of "word_of_nat k"] that by (simp add: unat_of_nat)
  then show ?thesis by (simp add: word_sless_alt)
qed

lemma cat_loop_all:
  "open_data s fd f i x \<Longrightarrow> file_ok s x n \<Longrightarrow> unat (i_size x) \<le> n \<Longrightarrow> unat off \<le> unat (i_size x) \<Longrightarrow> length buf = 512 \<Longrightarrow>
   \<exists>s' ps. cat_loop s fd buf off out = Some (s', out @ map (Pair 1) ps) \<and>
     concat ps = file_bytes s x (unat off) (unat (i_size x) - unat off) \<and> gft s' = gft s \<and> inode_table s' = inode_table s"
proof (induction "unat (i_size x) - unat off" arbitrary: s off buf out rule: less_induct)
  case less
  let ?k = "min 512 (unat (i_size x) - unat off)"
  obtain s1 where s1: "do_read s fd 512 off = Some (s1, file_bytes s x (unat off) ?k, word_of_nat ?k)"
    "gft s1 = gft s" "inode_table s1 = inode_table s" "file_ok s1 x n" "\<forall>p < n. file_byte s1 x p = file_byte s x p"
    using do_read_data [OF less.prems(1-4)] by blast
  have lb: "length (file_bytes s x (unat off) ?k) = ?k" by (simp add: file_bytes_def)
  let ?buf = "blit 0 (file_bytes s x (unat off) ?k) buf"
  have b: "wr_run 0 (file_bytes s x (unat off) ?k) buf = Some ?buf" "length ?buf = 512" using lb less.prems(5) by simp_all
  have pos: "0 <s (word_of_nat ?k :: u32) \<longleftrightarrow> 0 < ?k" by (rule small_positive) simp
  show ?case
  proof (cases "?k = 0")
    case True
    then have z: "unat (i_size x) - unat off = 0" by simp
    have "cat_loop s fd buf off out = Some (s1, out @ map (Pair 1) [])"
      using s1(1) b pos True by (subst cat_loop.simps) simp
    moreover have "concat [] = file_bytes s x (unat off) (unat (i_size x) - unat off)" unfolding z by (simp add: file_bytes_def)
    ultimately show ?thesis using s1(2,3) by blast
  next
    case False
    have uk: "unat (word_of_nat ?k :: u32) = ?k" by (simp add: unat_of_nat)
    have o: "unat (off + word_of_nat ?k) = unat off + ?k"
    proof -
      have "unat off + ?k \<le> unat (i_size x)" using less.prems(4) by simp
      also have "\<dots> < 2 ^ 32" using unat_u32_lt [of "i_size x"] by simp
      finally show ?thesis using unat_add_lem [of off "word_of_nat ?k"] unfolding uk by simp
    qed
    have od: "open_data s1 fd f i x" using less.prems(1) open_data_cong [OF s1(2,3)] by blast
    have dec: "unat (i_size x) - unat (off + word_of_nat ?k) < unat (i_size x) - unat off" unfolding o using False by auto
    have le: "unat (off + word_of_nat ?k) \<le> unat (i_size x)" unfolding o using less.prems(4) by simp
    obtain s' ps where s': "cat_loop s1 fd ?buf (off + word_of_nat ?k) (out @ [(1, file_bytes s x (unat off) ?k)]) =
        Some (s', (out @ [(1, file_bytes s x (unat off) ?k)]) @ map (Pair 1) ps)"
      "concat ps = file_bytes s1 x (unat (off + word_of_nat ?k)) (unat (i_size x) - unat (off + word_of_nat ?k))"
      "gft s' = gft s1" "inode_table s' = inode_table s1"
      using less.hyps [OF dec od s1(4) less.prems(3) le b(2)] by blast
    have "rd_run 0 ?k ?buf = Some (file_bytes s x (unat off) ?k)"
      using lb less.prems(5) by simp
    then have "cat_loop s fd buf off out = Some (s', out @ map (Pair 1) (file_bytes s x (unat off) ?k # ps))"
      using s1(1) b pos False s'(1) uk by (subst cat_loop.simps) simp
    moreover have "file_bytes s1 x (unat off + ?k) (unat (i_size x) - unat off - ?k) = file_bytes s x (unat off + ?k) (unat (i_size x) - unat off - ?k)"
      by (rule file_bytes_cong [OF s1(5)]) (use less.prems(3,4) in simp)
    then have "concat (file_bytes s x (unat off) ?k # ps) = file_bytes s x (unat off) (?k + (unat (i_size x) - unat off - ?k))"
      using s'(2) unfolding o file_bytes_append by simp
    moreover have "?k + (unat (i_size x) - unat off - ?k) = unat (i_size x) - unat off" by simp
    ultimately show ?thesis using s'(3,4) s1(2,3) by metis
  qed
qed

lemma desc_nonneg: "f < NUM_FILES \<Longrightarrow> \<not> (word_of_nat f :: 16 word) <s 0"
proof -
  assume "f < NUM_FILES"
  then have "f \<in> {0, 1, 2, 3, 4, 5, 6, 7, 8, 9}" by (auto simp: NUM_FILES_def)
  then show ?thesis by (elim insertE emptyE) (simp_all add: word_sless_alt)
qed

section \<open>The layout of the tool\<close>

lemma host_bmap_blocks:
  "unat ((n :: u32) div 8 div 512 + 1) = unat n div 8 div 512 + 1" "unat (ROOT_INODE_BLOCK + (n div 8 div 512 + 1) + 1) = unat n div 8 div 512 + 4"
  using unat_u32_lt [of n] by (simp_all add: unat_word_ariths unat_div ROOT_INODE_BLOCK_def)

lemma load_bmap_parts:
  assumes n: "nb = unat (get_hdsize (fs_hd r)) div 8 div 512 + 1" "nb + 3 \<le> unat (get_hdsize (fs_hd r))"
    and mem: "unat (get_hdsize (fs_hd r) div 8) + length mem = nb * 512" and len: "\<forall>c. length (fs_disk r c) = 512"
  shows "\<exists>s0. load_bmap r (Some mem) = Some s0 \<and> (\<forall>i < nb. bmap_part (fs_bmap s0) i = fs_disk r (bmap_adr i))"
proof -
  define r1 where "r1 = fst (malloc_bmap r (Some mem))"
  have r1: "fs_hd r1 = fs_hd r" "fs_disk r1 = fs_disk r" "unat (num_bmap_blocks r1) = nb" "length (fs_bmap r1) = nb * 512"
    using n(1) mem host_bmap_blocks(1) by (simp_all add: r1_def malloc_bmap_def Let_def)
  obtain c bm where "load_bmap_loop r1 0 nb = Some (r1\<lparr>read_cache := c, fs_bmap := bm\<rparr>)" "length bm = nb * 512"
    "\<And>i. (i + 1) * 512 \<le> length bm \<Longrightarrow> bmap_part bm i = (if i < nb then fs_disk r1 (bmap_adr i) else bmap_part (fs_bmap r1) i)"
    using load_bmap_loop_eq [of 0 nb r1] n(2) r1 len by auto
  then show ?thesis using r1(2,3) by (simp add: load_bmap_def Let_def flip: r1_def)
qed

section \<open>Properties\<close>


definition disk_example :: potatoes_disk where
  "disk_example = \<lparr>pd_data = replicate 2048 9, pd_size = 2048\<rparr>"


text \<open>
  C3. \<open>chips cat\<close> on a data file of the root directory that is not open prints the contents of the file: the data that
  it writes to the standard output, one block after the other, is the bytes of the file up to its size, it writes
  nothing else, and the result is 0.
\<close>

theorem cat_prints_file:
  assumes t: "gft_ok s" "inode_table_ok s" "inode_table s ! ROOT_INODE = m" "i_num m \<noteq> NIL_INODE"
    and d: "dir_ok s m K" "length (dir_cache s) = 512" "dir_find s m name 0 K = Some b"
    and n: "0 \<notin> set name" "47 \<notin> set name" "name \<noteq> []" and new: "\<nexists>k. open_as s (47 # name) k"
    and free: "\<exists>j < NUM_INODES. i_num (inode_table s ! j) = NIL_INODE" "\<exists>k < NUM_FILES. f_desc (gft s ! k) = NIL_FILE"
    and b: "unat b \<le> unat (get_hdsize (fs_hd s))" "length (fs_disk s b) = 512" "b \<noteq> i_adr m"
    and x: "x = loaded_inode s b 0" "di_mode (disk_inode s b) = DATA_FILE" "file_ok s x N" "unat (i_size x) \<le> N"
    and other: "\<forall>k. k * 512 < N \<longrightarrow> i_adr m \<noteq> data_at (fs_disk s) x k \<and> i_adr m \<notin> set (metas (fs_disk s) x k)"
    and buf: "length (he_buf e) = 512"
  shows "\<exists>s' ps. chips_cat e s [cmd, 47 # name] = Some (s', map (Pair 1) ps, 0) \<and> concat ps = file_bytes s x 0 (unat (i_size x))"
proof -
  let ?path = "47 # name"
  obtain s1 i f where s1: "fs_open s ?path = Some (s1, word_of_nat f)" "f < NUM_FILES" "opened s ?path b i f s1"
    "fs_hd s1 = fs_hd s" "\<forall>c. c \<noteq> i_adr m \<longrightarrow> fs_disk s1 c = fs_disk s c"
    using fs_open_root_file [OF t d n new free b] by blast
  let ?x = "loaded_inode s b i"
  have pt: "same_ptrs x ?x" "i_size ?x = i_size x" by (simp_all add: x(1) same_ptrs_def loaded_inode_def)
  have path: "blk_path (fs_disk s1) ?x k = blk_path (fs_disk s) x k" if "k * 512 < N" for k
  proof (rule blk_path_cong [OF pt(1)], rule ballI)
    fix y assume "y \<in> set (metas (fs_disk s) x k)"
    then have "y \<noteq> i_adr m" using other that by auto
    then show "fs_disk s1 y = fs_disk s y" using s1(5) by simp
  qed
  have io: "inode_ok s1 ?x" using x(3) pt s1(4) by (simp add: file_ok_def inode_ok_def same_ptrs_def)
  have rb: "real_block s1 c" if "real_block s c" "c \<noteq> i_adr m" for c using that s1(4,5) by (simp add: real_block_def)
  have adr: "i_adr ?x = i_adr x" using pt(1) by (simp add: same_ptrs_def)
  have "real_block s1 (data_at (fs_disk s) x k) \<and> (\<forall>y \<in> set (metas (fs_disk s) x k). real_block s1 y)" if "k * 512 < N" for k
    using that x(3) other rb by (auto simp: file_ok_def)
  then have fok: "file_ok s1 ?x N" using x(3) io by (simp add: file_ok_def path adr)
  have bytes: "file_bytes s1 ?x 0 (unat (i_size x)) = file_bytes s x 0 (unat (i_size x))"
    unfolding file_bytes_def
  proof (rule map_cong [OF refl])
    fix p assume "p \<in> set [0..<0 + unat (i_size x)]"
    then have p: "p div 512 * 512 < N" using x(4) by (simp add: order.strict_trans1 [OF div_times_less_eq_dividend])
    then have "data_at (fs_disk s) x (p div 512) \<noteq> i_adr m" using other by auto
    then show "file_byte s1 ?x p = file_byte s x p" using s1(5) path [OF p] by (simp add: file_byte_def)
  qed
  have nn: "\<not> (word_of_nat f :: 16 word) <s 0" "get_file s1 (word_of_nat f) = Some f" "f_mode (gft s1 ! f) = 1"
    "i < length (inode_table s1)" "inode_table s1 ! i = ?x" "f_inode (gft s1 ! f) = Some i" "f_name (gft s1 ! f) = Some ?path"
    using s1(3) x(2) inode_table_len [of s1] desc_nonneg [OF s1(2)]
    by (simp_all add: opened_def DATA_FILE_def NUM_INODES_def open_as_def)
  have od: "open_data s1 (word_of_nat f) f i ?x" using nn by (simp add: open_data_def DATA_FILE_def)
  obtain s2 ps where s2: "cat_loop s1 (word_of_nat f) (he_buf e) 0 [] = Some (s2, map (Pair 1) ps)"
    "concat ps = file_bytes s1 ?x 0 (unat (i_size x))"
    using cat_loop_all [OF od fok, of 0 "he_buf e" "[]"] x(4) pt(2) buf by auto
  have info: "\<exists>info. get_file_info s1 (word_of_nat f) = Some info \<and> fi_mode info = DATA_FILE"
    using nn by (simp add: get_file_info_def Let_def DATA_FILE_def)
  have "chips_cat e s [cmd, ?path] = Some (s2, map (Pair 1) ps, 0)"
    using s1(1) nn(1) info s2(1) by (auto simp: chips_cat_def do_open_def)
  with s2(2) bytes show ?thesis by metis
qed

definition host_example :: host_env where
  "host_example = \<lparr>he_bmap = None, he_new = (None, True, 0, 0), he_mem = [], he_buf = replicate 512 0, he_lmax = 2147483647,
     he_stdin = [], he_consts = []\<rparr>"

lemma look_example_a: "disk_inode look_example 9 = cpy_minode_to_dinode file_a"
  "loaded_inode look_example 9 0 = file_a\<lparr>i_num := 0, i_adr := 9\<rparr>"
proof -
  show d: "disk_inode look_example 9 = cpy_minode_to_dinode file_a"
    by (rule disk_inode_written) (simp_all add: file_a_def look_example_def)
  show "loaded_inode look_example 9 0 = file_a\<lparr>i_num := 0, i_adr := 9\<rparr>"
    unfolding loaded_inode_def d
    by (simp add: cpy_dinode_to_minode_def cpy_minode_to_dinode_def heap_inode_def file_a_def inode_example_def NUM_DIRECT_POINTER_def)
qed

lemma look_example_a_ok: "blk_path d (file_a\<lparr>i_num := 0, i_adr := 9\<rparr>) 0 = ([], 10)" "file_ok look_example (file_a\<lparr>i_num := 0, i_adr := 9\<rparr>) 512"
proof -
  show p: "blk_path d (file_a\<lparr>i_num := 0, i_adr := 9\<rparr>) 0 = ([], 10)" for d by (simp add: blk_path_def file_a_def)
  show "file_ok look_example (file_a\<lparr>i_num := 0, i_adr := 9\<rparr>) 512"
    unfolding file_ok_def inode_ok_def real_block_def look_example_simps(2)
    by (auto simp: p) (simp_all add: file_a_def look_example_def)
qed

theorem cat_prints_file_witness:
  "\<exists>s' ps. chips_cat host_example look_example [ascii ''cat'', 47 # [97]] = Some (s', map (Pair 1) ps, 0) \<and>
    concat ps = file_bytes look_example (loaded_inode look_example 9 0) 0 (unat (i_size (loaded_inode look_example 9 0)))"
proof (rule cat_prints_file [OF look_example_tables])
  show r: "inode_table look_example ! ROOT_INODE = root_example" by (simp add: look_example_simps ROOT_INODE_def)
  show "dir_ok look_example root_example 1" by (rule look_example_dir)
  show "dir_find look_example root_example [97] 0 1 = Some 9" by (rule look_example_find)
  show "i_num root_example \<noteq> NIL_INODE" "9 \<noteq> i_adr root_example"
    by (simp_all add: root_example_def inode_example_def NIL_INODE_def)
  show "di_mode (disk_inode look_example 9) = DATA_FILE" by (simp add: look_example_a cpy_minode_to_dinode_def file_a_def)
  show "file_ok look_example (loaded_inode look_example 9 0) 512" unfolding look_example_a by (rule look_example_a_ok(2))
  show "unat (i_size (loaded_inode look_example 9 0)) \<le> 512" unfolding look_example_a by (simp add: file_a_def)
  show "\<forall>k. k * 512 < 512 \<longrightarrow> i_adr root_example \<noteq> data_at (fs_disk look_example) (loaded_inode look_example 9 0) k \<and>
      i_adr root_example \<notin> set (metas (fs_disk look_example) (loaded_inode look_example 9 0) k)"
    unfolding look_example_a by (auto simp: look_example_a_ok(1)) (simp_all add: root_example_def inode_example_def)
qed (use look_example_file in \<open>simp_all add: look_example_simps host_example_def\<close>)


text \<open>An image of eight sectors, 4096 bytes: the kernel's first data block is 4, the tool's 5.\<close>

definition image_example :: fs_state where
  "image_example = remount_example\<lparr>fs_hd := (fs_hd remount_example)\<lparr>capacity_low := 4096\<rparr>, fs_bmap := replicate 1024 0, num_bmap_blocks := 2,
     fs_disk := (\<lambda>b. replicate 512 (if b = 4 then 7 else 0))\<rparr>"

lemma image_example_hd: "get_hdsize (fs_hd image_example) = 4096"
  by (simp add: image_example_def remount_example_def gft_example_def fs_example2_def fs_example_def get_hdsize_def)

lemma image_example_ok: "tables_ok image_example" "bmap_ok image_example"
proof -
  have f: "file_inode image_example = file_inode remount_example"
    by (intro ext) (simp add: file_inode_def image_example_def)
  have e: "gft image_example = gft remount_example" "inode_table image_example = inode_table remount_example" by (simp_all add: image_example_def)
  have "gft_ok image_example" "inode_table_ok image_example"
    using remount_example_ok(1) e by (simp_all add: tables_ok_def gft_ok_def inode_table_ok_def)
  moreover have "get_hdsize (fs_hd remount_example) = 16"
    by (simp add: remount_example_def gft_example_def fs_example2_def fs_example_def get_hdsize_def)
  then have "inode_ok remount_example m \<Longrightarrow> inode_ok image_example m" for m by (simp add: inode_ok_def image_example_hd)
  ultimately show "tables_ok image_example" using remount_example_ok(1) by (simp add: tables_ok_def f e)
  show "bmap_ok image_example" by (simp add: bmap_ok_def image_example_hd) (simp add: image_example_def)
qed


end
