(* ===== verification/Bin2c.thy ===== *)
theory Bin2c
  imports ShellUtils
begin

text \<open>
  The host tool \<open>bin2c\<close> (\<open>src/tools/bin2c/bin2c.c\<close>), which prints the bytes of a file as a C array, 15 in a line.
  The contents of the file and its name are arguments; a file that cannot be opened is \<open>None\<close>.
\<close>

definition hex_char :: "u8 \<Rightarrow> u8" where
  "hex_char d = (if d < 10 then d + 48 else d + 87)"

text \<open>\<open>0x%.2x\<close>.\<close>

definition print_byte :: "u8 \<Rightarrow> bytes" where
  "print_byte b = [48, 120, hex_char (b div 16), hex_char (b mod 16)]"

definition VARTAB :: bytes where "VARTAB = replicate 8 32"

text \<open>The loop from byte \<open>i\<close> on; \<open>sz\<close> is the number of bytes.\<close>

fun print_bytes :: "nat \<Rightarrow> nat \<Rightarrow> bytes \<Rightarrow> bytes" where
  "print_bytes sz i [] = []"
| "print_bytes sz i (b # bs) =
     (if 0 < i \<and> i mod 15 = 0 then 10 # VARTAB else []) @ print_byte b @
     (if Suc i \<noteq> sz then [44, 32] else []) @ print_bytes sz (Suc i) bs"

text \<open>The decimal number of bytes is printed by the C library, its numeral is an argument.\<close>

definition bin2c_main :: "bytes list \<Rightarrow> bytes option \<Rightarrow> bytes \<Rightarrow> bytes \<times> s32" where
  "bin2c_main argv file size_text =
     (if length argv < 2 then (ascii ''bin2c (c) Daniel Bader 2008'' @ [10] @ ascii ''Usage: bin2c [input_file]'' @ [10], 1)
      else case file of
        None \<Rightarrow> (ascii ''error opening input file '' @ argv ! 1 @ [10], 1)
      | Some buf \<Rightarrow>
          (ascii ''/* '' @ argv ! 1 @ ascii '', '' @ size_text @ ascii '' bytes */'' @ [10] @ ascii ''unsigned char data[] = {'' @ [10] @
           VARTAB @ print_bytes (length buf) 0 buf @ [10, 125, 10], 0))"

section \<open>Reading the array back\<close>

text \<open>What a compiler does with the initializers: every token \<open>0x\<close> and two digits is a byte, the rest is layout.\<close>

definition hex_val :: "u8 \<Rightarrow> u8" where
  "hex_val c = (if c < 58 then c - 48 else c - 87)"

fun read_bytes :: "bytes \<Rightarrow> bytes" where
  "read_bytes (c # d # h # l # cs) =
     (if c = 48 \<and> d = 120 then (hex_val h * 16 + hex_val l) # read_bytes cs else read_bytes (d # h # l # cs))"
| "read_bytes cs = []"

lemma hex_byte: "hex_val (hex_char (b div 16)) * 16 + hex_val (hex_char (b mod 16)) = (b :: u8)"
proof -
  have h: "hex_val (hex_char d) = d" if d: "d < 16" for d :: u8
  proof -
    have "\<forall>n \<in> set [0..<16]. hex_val (hex_char (word_of_nat n)) = (word_of_nat n :: u8)"
      by (simp add: upt_rec hex_val_def hex_char_def)
    moreover have "unat d \<in> set [0..<16]" using d by (simp add: word_less_nat_alt)
    ultimately have "hex_val (hex_char (word_of_nat (unat d))) = (word_of_nat (unat d) :: u8)" by blast
    then show ?thesis by simp
  qed
  have "b div 16 < 16" "b mod 16 < 16" 
    using unat_u8_lt [of b] by (simp_all add: word_less_nat_alt unat_div unat_mod less_mult_imp_div_less)
  note q = this
  show ?thesis unfolding h [OF q(1)] h [OF q(2)] by (rule word_mod_div_equality)
qed

lemma read_skip: "c \<noteq> 48 \<Longrightarrow> read_bytes (c # cs) = read_bytes cs"
proof (cases cs)
  case (Cons d ds)
  assume "c \<noteq> 48"
  then show ?thesis using Cons by (cases ds; cases "tl ds") auto
qed simp

lemma read_skips: "48 \<notin> set xs \<Longrightarrow> read_bytes (xs @ cs) = read_bytes cs"
  by (induction xs) (auto simp: read_skip)

text \<open>The printed array has the bytes of the file.\<close>

lemma bin2c_roundtrip: "read_bytes (print_bytes sz i bs @ [10, 125, 10]) = bs"
proof (induction bs arbitrary: i)
  case (Cons b bs)
  have "read_bytes (print_bytes sz i (b # bs) @ [10, 125, 10]) =
      read_bytes (print_byte b @ (if Suc i \<noteq> sz then [44, 32] else []) @ print_bytes sz (Suc i) bs @ [10, 125, 10])"
    using read_skips [of "if 0 < i \<and> i mod 15 = 0 then 10 # VARTAB else []"] by (simp add: VARTAB_def)
  also have "\<dots> = b # read_bytes ((if Suc i \<noteq> sz then [44, 32] else []) @ print_bytes sz (Suc i) bs @ [10, 125, 10])"
    by (simp add: print_byte_def hex_byte)
  also have "\<dots> = b # bs" using read_skips [of "if Suc i \<noteq> sz then [44, 32] else []"] Cons.IH by simp
  finally show ?case .
qed simp

end
