(* ===== verification/Console.thy ===== *)
theory Console
  imports Procs Stdio
begin

text \<open>
  Output of the kernel: directly to the memory of the graphics adapter (\<open>io/io_monitor.c\<close>), which \<open>panic\<close> of
  \<open>init/main.c\<close> uses, and to a virtual monitor (\<open>putchar\<close>, \<open>puts\<close>, \<open>printf\<close> and their variants with colors in
  \<open>lib/stdio.c\<close>).
\<close>

section \<open>The screen\<close>

definition VGA_DISPLAY :: u32 where "VGA_DISPLAY = 0xB8000"

text \<open>\<open>disp\<close> is the pointer to the next cell of two bytes; \<open>vga\<close> is the memory.\<close>

record screen =
  disp :: u32
  vga :: "u32 \<Rightarrow> u8"

definition set_disp :: "screen \<Rightarrow> u32 \<Rightarrow> screen" where
  "set_disp d addr = d\<lparr>disp := addr\<rparr>"

text \<open>\<open>char\<close> is signed: a byte from 0x80 on is subtracted from the colors.\<close>

definition mon_cell :: "u8 \<Rightarrow> u8 \<Rightarrow> u8 \<Rightarrow> u16" where
  "mon_cell bg fg ch = ucast bg * 0x1000 + ucast fg * 0x100 + scast ch"

definition mon_store :: "screen \<Rightarrow> u16 \<Rightarrow> screen" where
  "mon_store d c = d\<lparr>vga := (vga d)(disp d := ucast c, disp d + 1 := ucast (drop_bit 8 c))\<rparr>"

definition mon_put :: "screen \<Rightarrow> u8 \<Rightarrow> u8 \<Rightarrow> u8 \<Rightarrow> screen" where
  "mon_put d ch fg bg = (let d = mon_store d (mon_cell bg fg ch) in d\<lparr>disp := disp d + 2\<rparr>)"

text \<open>The loops that fill up with spaces call \<open>monitor_cputc\<close> itself, with a space.\<close>

primrec mon_fill :: "screen \<Rightarrow> u8 \<Rightarrow> u8 \<Rightarrow> nat \<Rightarrow> screen" where
  "mon_fill d fg bg 0 = d"
| "mon_fill d fg bg (Suc n) = mon_fill (mon_put d 32 fg bg) fg bg n"

function invert_loop :: "(u32 \<Rightarrow> u8) \<Rightarrow> u32 \<Rightarrow> (u32 \<Rightarrow> u8)" where
  "invert_loop m p = (if p < 0xB8FA0 then invert_loop (m(p := 0xFF - m p)) (p + 2) else m)"
  by pat_completeness auto
termination
proof (relation "measure (\<lambda>(m, p). 0xB8FA2 - unat p)")
  fix m :: "u32 \<Rightarrow> u8" and p :: u32
  assume "p < 0xB8FA0"
  then have "unat p < 0xB8FA0" by (simp add: word_less_nat_alt)
  moreover from this have "unat (p + 2) = unat p + 2" using unat_add_lem [of p 2] by simp
  ultimately show "((m(p := 0xFF - m p), p + 2), m, p) \<in> measure (\<lambda>(m, p). 0xB8FA2 - unat p)" by simp
qed simp

declare invert_loop.simps [simp del]

definition monitor_invert :: "screen \<Rightarrow> screen" where
  "monitor_invert d = d\<lparr>vga := invert_loop (vga d) 0xB8001\<rparr>"

text \<open>For the bell the screen is inverted for 15 ticks.\<close>

definition monitor_cputc :: "screen \<Rightarrow> u8 \<Rightarrow> u8 \<Rightarrow> u8 \<Rightarrow> screen" where
  "monitor_cputc d ch fg bg =
     (if ch = 7 then monitor_invert (monitor_invert d)
      else if ch = 10 then mon_fill d fg bg (unat (0x50 - ((disp d - VGA_DISPLAY) mod 0xA0) div 2))
      else if ch = 9 then mon_fill d fg bg (unat (0x8 - ((disp d - VGA_DISPLAY) mod 0x10) div 2))
      else if ch = 8 then mon_store (d\<lparr>disp := disp d - 2\<rparr>) (mon_cell bg fg 32)
      else mon_put d ch fg bg)"

fun monitor_cputs :: "screen \<Rightarrow> bytes \<Rightarrow> u8 \<Rightarrow> u8 \<Rightarrow> screen" where
  "monitor_cputs d [] fg bg = d"
| "monitor_cputs d (c # cs) fg bg = monitor_cputs (monitor_cputc d c fg bg) cs fg bg"

definition monitor_putc :: "screen \<Rightarrow> u8 \<Rightarrow> screen" where
  "monitor_putc d ch = monitor_cputc d ch WHITE BLACK"

definition monitor_puts :: "screen \<Rightarrow> bytes \<Rightarrow> screen" where
  "monitor_puts d str = monitor_cputs d str WHITE BLACK"

text \<open>
  The two loops of \<open>monitor_puti\<close>, with \<open>int\<close> as integers: \<open>div\<close> is never negative. The first one does not end for the smallest
  number, which stays negative when its sign is changed.
\<close>

partial_function (option) first_div :: "int \<Rightarrow> int \<Rightarrow> int option" where
  "first_div x d = (if d > x then first_div x (d div 10) else Some d)"

function puti_loop :: "screen \<Rightarrow> int \<Rightarrow> int \<Rightarrow> screen" where
  "puti_loop s x d = (if d > 0 then puti_loop (monitor_cputc s (word_of_int (x div d + 48)) RED BLACK) (x mod d) (d div 10) else s)"
  by pat_completeness auto
termination by (relation "measure (\<lambda>(s, x, d). nat d)") auto

declare puti_loop.simps [simp del]

definition monitor_puti :: "screen \<Rightarrow> s32 \<Rightarrow> screen option" where
  "monitor_puti s x =
     (if x = 0 then Some (monitor_cputc s 48 RED BLACK)
      else do {
        let (s, x) = (if x <s 0 then (monitor_cputc s 45 RED BLACK, - x) else (s, x));
        d \<leftarrow> first_div (sint x) 1000000000;
        Some (monitor_putc (puti_loop s (sint x) d) 10) })"

definition monitor_puthex :: "screen \<Rightarrow> u8 \<Rightarrow> screen" where
  "monitor_puthex s ch =
     (let low = ch mod 16; high = ch div 16;
          s = (if high > 9 then monitor_cputc s (high + 55) GREEN BLACK else monitor_cputc s (high + 48) GREEN BLACK)
      in if low > 9 then monitor_cputc s (low + 55) GREEN BLACK else monitor_cputc s (low + 48) GREEN BLACK)"

text \<open>What \<open>panic\<close> leaves on the screen; it does not return.\<close>

definition panic :: "screen \<Rightarrow> bytes \<Rightarrow> screen" where
  "panic s msg = monitor_cputs (monitor_cputs s [75, 69, 82, 78, 69, 76, 32, 80, 65, 78, 73, 67, 58, 32] BLACK RED) msg BLACK RED"

section \<open>Printing to a virtual monitor\<close>

definition SELECT_VMONITOR :: "pm_state \<Rightarrow> nat option" where
  "SELECT_VMONITOR s = (if kernel_proc s = 0 then Some (unat (active_monitor s)) else map_option p_vmonitor (p_store s (kernel_proc s)))"

definition on_vmonitor :: "pm_state \<Rightarrow> (vmonitor \<Rightarrow> (vmonitor \<times> 'a) option) \<Rightarrow> (pm_state \<times> 'a) option" where
  "on_vmonitor s f = do {
     i \<leftarrow> SELECT_VMONITOR s;
     vm \<leftarrow> rd_at (vmonitors s) i;
     (vm, r) \<leftarrow> f vm;
     v \<leftarrow> wr_at (vmonitors s) i vm;
     Some (s\<lparr>vmonitors := v\<rparr>, r) }"

definition putchar :: "pm_state \<Rightarrow> u8 \<Rightarrow> (pm_state \<times> u8) option" where
  "putchar s c = on_vmonitor s (\<lambda>vm. map_option (\<lambda>vm. (vm, c)) (virt_monitor_putc vm c))"

definition cputchar :: "pm_state \<Rightarrow> u8 \<Rightarrow> u8 \<Rightarrow> u8 \<Rightarrow> pm_state option" where
  "cputchar s c fg bg = map_option fst (on_vmonitor s (\<lambda>vm. map_option (\<lambda>vm. (vm, ())) (virt_monitor_cputc vm c fg bg)))"

definition puts :: "pm_state \<Rightarrow> bytes \<Rightarrow> (pm_state \<times> s32) option" where
  "puts s str = on_vmonitor s (\<lambda>vm. virt_monitor_cputs vm str WHITE BLACK 0)"

definition cputs :: "pm_state \<Rightarrow> bytes \<Rightarrow> u8 \<Rightarrow> u8 \<Rightarrow> (pm_state \<times> s32) option" where
  "cputs s str fg bg = on_vmonitor s (\<lambda>vm. virt_monitor_cputs vm str fg bg 0)"

text \<open>\<open>stack\<close> is the local buffer of 255 bytes before it is written.\<close>

definition printf :: "pm_state \<Rightarrow> bytes \<Rightarrow> bytes \<Rightarrow> fmt_arg list \<Rightarrow> pm_state option" where
  "printf s stack fmt args = do {
     buf \<leftarrow> snprintf stack 255 (Some fmt) args;
     (s, r) \<leftarrow> puts s (takeWhile (\<lambda>c. c \<noteq> 0) buf);
     Some s }"

section \<open>Decimal numbers\<close>

lemma monitor_cputs_append: "monitor_cputs d (xs @ ys) fg bg = monitor_cputs (monitor_cputs d xs fg bg) ys fg bg"
  by (induction xs arbitrary: d) simp_all

text \<open>The last \<open>k\<close> digits of a number, the last one first.\<close>

fun last_digits :: "nat \<Rightarrow> nat \<Rightarrow> nat list" where
  "last_digits 0 n = []"
| "last_digits (Suc k) n = n mod 10 # last_digits k (n div 10)"

lemma last_digits_top: "last_digits (Suc k) n = last_digits k (n mod 10 ^ k) @ [n div 10 ^ k mod 10]"
proof (induction k arbitrary: n)
  case (Suc k)
  have "n mod 10 ^ Suc k mod 10 = n mod 10" by (simp add: mod_mult2_eq)
  moreover have "n mod 10 ^ Suc k div 10 = n div 10 mod 10 ^ k" by (simp add: mod_mult2_eq)
  moreover have "n div 10 div 10 ^ k = n div 10 ^ Suc k" by (simp add: div_mult2_eq)
  ultimately show ?case using Suc.IH [of "n div 10"] by simp
qed simp

lemma num_digits_last:
  "n < 10 ^ Suc k \<Longrightarrow> 10 ^ k \<le> n \<or> k = 0 \<Longrightarrow> num_digits 10 n = last_digits (Suc k) n"
proof (induction k arbitrary: n)
  case (Suc k)
  have "(10 :: nat) \<le> 10 ^ Suc k" by simp
  moreover have "10 ^ Suc k \<le> n" using Suc.prems(2) by simp
  ultimately have "10 \<le> n" by (rule le_trans)
  moreover have "n div 10 < 10 ^ Suc k" "10 ^ k \<le> n div 10" using Suc.prems by (simp_all add: less_mult_imp_div_less less_eq_div_iff_mult_less_eq mult.commute)
  ultimately show ?case using Suc.IH [of "n div 10"] by (subst num_digits.simps) simp
qed (simp add: num_digits.simps)

lemma decimal_char: "d < 10 \<Longrightarrow> word_of_nat d + 48 = digit_char d"
proof -
  assume "d < 10"
  then have "d \<in> {0, 1, 2, 3, 4, 5, 6, 7, 8, 9}" by auto
  then show ?thesis by (elim insertE emptyE) (simp_all add: digit_char_def itoa_digit_def)
qed

lemma puti_loop_digits: "n < 10 ^ Suc k \<Longrightarrow> puti_loop s (int n) (10 ^ k) = monitor_cputs s (map digit_char (rev (last_digits (Suc k) n))) RED BLACK"
proof (induction k arbitrary: s n)
  case 0
  then show ?case by (subst puti_loop.simps, subst puti_loop.simps) (simp add: decimal_char)
next
  case (Suc k)
  let ?s = "monitor_cputc s (digit_char (n div 10 ^ Suc k)) RED BLACK"
  have d: "n div 10 ^ Suc k < 10" using Suc.prems by (simp add: less_mult_imp_div_less)
  have i: "int n div 10 ^ Suc k = int (n div 10 ^ Suc k)" "int n mod 10 ^ Suc k = int (n mod 10 ^ Suc k)"
    by (simp_all add: zdiv_int zmod_int)
  have "puti_loop s (int n) (10 ^ Suc k) = puti_loop ?s (int (n mod 10 ^ Suc k)) (10 ^ k)"
    unfolding puti_loop.simps [of s "int n" "10 ^ Suc k"] i using decimal_char [OF d] by simp
  also have "\<dots> = monitor_cputs ?s (map digit_char (rev (last_digits (Suc k) (n mod 10 ^ Suc k)))) RED BLACK"
    by (rule Suc.IH) simp
  also have "\<dots> = monitor_cputs s (map digit_char (rev (last_digits (Suc (Suc k)) n))) RED BLACK"
    unfolding last_digits_top [of "Suc k" n] using d by simp
  finally show ?case .
qed

lemma first_div_power: "0 < n \<Longrightarrow> n < 10 ^ Suc k \<Longrightarrow> \<exists>j. first_div (int n) (10 ^ k) = Some (10 ^ j) \<and> 10 ^ j \<le> n \<and> n < 10 ^ Suc j"
proof (induction k)
  case 0
  then show ?case by (subst first_div.simps) (auto intro: exI [of _ 0])
next
  case (Suc k)
  show ?case
  proof (cases "n < 10 ^ Suc k")
    case True
    then have "int n < 10 ^ Suc k" by (metis of_nat_less_iff of_nat_numeral of_nat_power)
    then have "first_div (int n) (10 ^ Suc k) = first_div (int n) (10 ^ k)" by (subst first_div.simps) simp
    with Suc.IH [OF Suc.prems(1) True] show ?thesis by simp
  next
    case False
    then have "10 ^ Suc k \<le> int n" by (metis not_less of_nat_less_iff of_nat_numeral of_nat_power)
    then have "first_div (int n) (10 ^ Suc k) = Some (10 ^ Suc k)" by (subst first_div.simps) simp
    with False Suc.prems(2) show ?thesis by (intro exI [of _ "Suc k"]) simp
  qed
qed

lemma first_div_negative: "first_div x d = Some r \<Longrightarrow> 0 \<le> d \<Longrightarrow> 0 \<le> x"
proof -
  have "(case (x, d) of (x, d) \<Rightarrow> \<lambda>r. 0 \<le> d \<longrightarrow> 0 \<le> x) r" if "(case (x, d) of (x, d) \<Rightarrow> first_div x d) = Some r"
  proof (rule first_div.raw_induct [OF _ that])
    fix f :: "int \<Rightarrow> int \<Rightarrow> int option" and x d r
    assume IH: "\<And>x d r. f x d = Some r \<Longrightarrow> 0 \<le> d \<longrightarrow> 0 \<le> x"
      and run: "(if d > x then f x (d div 10) else Some d) = Some r"
    show "0 \<le> d \<longrightarrow> 0 \<le> x"
      using IH [of x "d div 10" r] run by (auto split: if_splits)
  qed
  then show "first_div x d = Some r \<Longrightarrow> 0 \<le> d \<Longrightarrow> 0 \<le> x" by simp
qed

lemma sint_positive: "0 < sint y \<Longrightarrow> sint y = int (unat y) \<and> unat y < 2 ^ 31 \<and> 0 < unat y" for y :: s32
proof -
  assume y: "0 < sint y"
  have u: "unat y < 2 ^ 31"
  proof (rule ccontr)
    assume "\<not> unat y < 2 ^ 31"
    then have "int (2 ^ 31) \<le> int (unat y)" by (simp only: of_nat_le_iff not_less)
    then have "2 ^ 31 \<le> int (unat y)" by simp
    moreover have "int (unat y) < 2 ^ 32" using uint_lt2p [of y] by simp
    moreover have "sint y = (int (unat y) + 2 ^ 31) mod 2 ^ 32 - 2 ^ 31"
      using int_word_sint [of "int (unat y)", where 'a = 32] by simp
    moreover from calculation have "(int (unat y) + 2 ^ 31) mod 2 ^ 32 = int (unat y) + 2 ^ 31 - 2 ^ 32"
      by (simp add: mod_pos_geq)
    ultimately show False using y by simp
  qed
  then have "sint y = int (unat y)" by (rule sint_small)
  moreover from this y have "0 < unat y" by (simp only: of_nat_0_less_iff)
  ultimately show ?thesis using u by blast
qed

lemma sint_minus_positive: "x <s 0 \<Longrightarrow> x \<noteq> - (2 ^ 31) \<Longrightarrow> 0 < sint (- x)" for x :: s32
proof -
  assume n: "x <s 0" and m: "x \<noteq> - (2 ^ 31)"
  have s: "sint x < 0" using n by (simp add: word_sless_alt)
  have "sint x \<noteq> - (2 ^ 31)"
  proof
    assume "sint x = - (2 ^ 31)"
    then have "word_of_int (sint x) = (- (2 ^ 31) :: s32)" by simp
    with m show False by simp
  qed
  moreover have "- (2 ^ 31) \<le> sint x" using sint_ge [of x] by simp
  ultimately have "- (2 ^ 31) \<le> - sint x" "- sint x < 2 ^ 31" using s by simp_all
  then have "sint (word_of_int (- sint x) :: s32) = - sint x" by (simp add: sint_sbintrunc' signed_take_bit_int_eq_self del: of_int_minus)
  moreover have "(word_of_int (- sint x) :: s32) = - x" by simp
  ultimately show "0 < sint (- x)" using s by simp
qed

section \<open>Properties\<close>

text \<open>
  C24. \<open>monitor_puti\<close> prints the numeral that \<open>itoa\<close> makes for base 10, in red, and ends the line, for every number but
  two: 0 is printed without the end of the line, and for the smallest \<open>int\<close> it prints a minus sign and never returns.
\<close>

theorem monitor_puti_correct:
  "monitor_puti s x =
    (if x = 0 then Some (monitor_cputs s (num_str 10 0) RED BLACK)
     else if x = - (2 ^ 31) then None
     else Some (monitor_putc (monitor_cputs s (if x <s 0 then 45 # num_str 10 (- x) else num_str 10 x) RED BLACK) 10))"
proof (cases "x = 0")
  case True
  then show ?thesis by (simp add: monitor_puti_def num_str_def num_digits.simps digit_char_def itoa_digit_def)
next
  case False
  have main: "(first_div (sint y) 1000000000 \<bind> (\<lambda>d. Some (monitor_putc (puti_loop t (sint y) d) 10))) =
      Some (monitor_putc (monitor_cputs t (num_str 10 y) RED BLACK) 10)" if y: "0 < sint y" for t and y :: s32
  proof -
    have n: "sint y = int (unat y)" "unat y < 2 ^ 31" "0 < unat y"
      using sint_positive [OF y] by simp_all
    then have "0 < unat y" "unat y < 10 ^ Suc 9" using y by simp_all
    from first_div_power [OF this] obtain j where j: "first_div (sint y) 1000000000 = Some (10 ^ j)" "10 ^ j \<le> unat y" "unat y < 10 ^ Suc j"
      unfolding n(1) by auto
    have "puti_loop t (sint y) (10 ^ j) = monitor_cputs t (num_str 10 y) RED BLACK"
      unfolding n(1) puti_loop_digits [OF j(3)] num_str_def using num_digits_last [OF j(3)] j(2) by simp
    with j(1) show ?thesis by simp
  qed
  show ?thesis
  proof (cases "x <s 0")
    case neg: True
    show ?thesis
    proof (cases "x = - (2 ^ 31)")
      case True
      have "sint (- x) < 0" unfolding True by simp
      then have "first_div (sint (- x)) 1000000000 = None" using first_div_negative [of "sint (- x)" 1000000000] by fastforce
      then show ?thesis using True neg by (simp add: monitor_puti_def)
    next
      case nm: False
      have "0 < sint (- x)" by (rule sint_minus_positive [OF neg nm])
      from main [OF this, of "monitor_cputc s 45 RED BLACK"] show ?thesis using False neg nm by (simp add: monitor_puti_def)
    qed
  next
    case pos: False
    then have "0 < sint x" using False signed_eq_0_iff [of x] by (auto simp: word_sless_alt order_less_le)
    moreover from this have "x \<noteq> - (2 ^ 31)" by auto
    ultimately show ?thesis using main [of x s] pos False by (simp add: monitor_puti_def)
  qed
qed

end
