(* ===== verification/HdInit.thy ===== *)
theory HdInit
  imports Disk
begin

text \<open>
  The start of the hard disk driver (\<open>hd_init\<close> of \<open>io/io_harddisk.c\<close>): waiting for the drive, its interrupt, and the
  data of the command IDENTIFY DEVICE. What the drive and its interrupts do is given by functions of time; a
  step of time is a pass through the loop of \<open>wait_on_hd_interrupt\<close>, at whose end the processor halts until
  the next interrupt.
\<close>

definition HDCMD_IDENTIFY_DEVICE :: u8 where "HDCMD_IDENTIFY_DEVICE = 0xEC"
definition HDSTATE_FLOATINGBUS :: u8 where "HDSTATE_FLOATINGBUS = 0xFF"
definition HDSTATE_NOTREADY :: u8 where "HDSTATE_NOTREADY = 0x80"

text \<open>
  \<open>dv_status\<close> is the status register, also under its other address; \<open>dv_irq\<close> the times at which the handler runs before
  the test of the loop; \<open>dv_identify\<close> the 256 words of the answer to IDENTIFY DEVICE.
\<close>

record drive =
  dv_status :: "nat \<Rightarrow> u8"
  dv_irq :: "nat \<Rightarrow> bool"
  dv_identify :: "u16 list"

text \<open>The handler sets \<open>hd_interrupt\<close>; \<open>None\<close> is the panic.\<close>

definition hd_handler :: "u8 \<Rightarrow> bool \<Rightarrow> bool option" where
  "hd_handler stat hd_interrupt = (if stat AND 0x80 = 0 then Some True else None)"

definition hd_irq :: "drive \<Rightarrow> nat \<Rightarrow> bool \<Rightarrow> bool option" where
  "hd_irq d t hd_interrupt = (if dv_irq d t then hd_handler (dv_status d t) hd_interrupt else Some hd_interrupt)"

text \<open>The result is the time after the wait; \<open>hd_interrupt\<close> is false then.\<close>

partial_function (option) wait_on_hd_interrupt :: "drive \<Rightarrow> nat \<Rightarrow> bool \<Rightarrow> nat option" where
  "wait_on_hd_interrupt d t hd_interrupt = do {
     hd_interrupt \<leftarrow> hd_irq d t hd_interrupt;
     if hd_interrupt then Some t
     else if dv_status d t AND 0x80 = 0 then Some t
     else wait_on_hd_interrupt d (t + 1) hd_interrupt }"

declare wait_on_hd_interrupt.simps [code]

text \<open>The fields of \<open>struct hd_info\<close> that the driver uses, from the words of the packed structure.\<close>

definition read_identify :: "u16 list \<Rightarrow> hd_info" where
  "read_identify ws = \<lparr>apparent_cyl = ws ! 54, apparent_head = ws ! 55, apparent_spt = ws ! 56, capacity_low = ws ! 57, capacity_high = ws ! 58\<rparr>"

text \<open>The strings of the drive have the two bytes of every word swapped: word \<open>i\<close> to word \<open>j - 1\<close>.\<close>

definition hd_string :: "u16 list \<Rightarrow> nat \<Rightarrow> nat \<Rightarrow> bytes" where
  "hd_string ws i j = concat (map (\<lambda>k. [ucast (drop_bit 8 (ws ! k)), ucast (ws ! k)]) [i..<j])"

definition hd_serial :: "u16 list \<Rightarrow> bytes" where "hd_serial ws = hd_string ws 10 20"
definition hd_firmware :: "u16 list \<Rightarrow> bytes" where "hd_firmware ws = hd_string ws 23 27"
definition hd_model :: "u16 list \<Rightarrow> bytes" where "hd_model ws = hd_string ws 27 47"

text \<open>The register writes, the time and the geometry after \<open>hd_init\<close> at time \<open>t\<close>; \<open>None\<close> is a panic or a wait that does not end.\<close>

definition hd_init :: "drive \<Rightarrow> nat \<Rightarrow> (port_write list \<times> nat \<times> hd_info) option" where
  "hd_init d t =
     (let stat = dv_status d t in
      if stat = HDSTATE_FLOATINGBUS then None
      else do {
        t \<leftarrow> (if stat AND HDSTATE_NOTREADY \<noteq> 0 then wait_on_hd_interrupt d t False else Some t);
        let out = select_masterdrive 0 @ [Outb (HDBASE + 7) HDCMD_IDENTIFY_DEVICE];
        let t = t + 1;
        if dv_status d t = 0 then None
        else do {
          t \<leftarrow> wait_on_hd_interrupt d t False;
          Some (out, t, read_identify (dv_identify d)) } })"

section \<open>Waiting\<close>

text \<open>The drive is busy at \<open>t\<close> and does not interrupt.\<close>

definition still_busy :: "drive \<Rightarrow> nat \<Rightarrow> bool" where
  "still_busy d t \<longleftrightarrow> dv_status d t AND 0x80 \<noteq> 0 \<and> \<not> dv_irq d t"

lemma wait_busy: "(\<And>i. i < k \<Longrightarrow> still_busy d (t + i)) \<Longrightarrow> wait_on_hd_interrupt d t False = wait_on_hd_interrupt d (t + k) False"
proof (induction k arbitrary: t)
  case (Suc k)
  have "still_busy d t" using Suc.prems [of 0] by simp
  then have "wait_on_hd_interrupt d t False = wait_on_hd_interrupt d (t + 1) False"
    by (subst wait_on_hd_interrupt.simps) (simp add: hd_irq_def still_busy_def)
  also have "\<dots> = wait_on_hd_interrupt d (t + 1 + k) False"
    by (rule Suc.IH) (use Suc.prems [of "Suc i" for i] in simp)
  finally show ?case by simp
qed simp

text \<open>
  \<open>wait_on_hd_interrupt\<close> returns as soon as the drive is not busy any more, whether the interrupt has come or not, so a
  lost interrupt does not stop the system; an interrupt while the drive is busy is a panic.
\<close>

lemma wait_returns:
  assumes "\<And>i. i < k \<Longrightarrow> still_busy d (t + i)" "dv_status d (t + k) AND 0x80 = 0"
  shows "wait_on_hd_interrupt d t False = Some (t + k)"
proof -
  have "wait_on_hd_interrupt d t False = wait_on_hd_interrupt d (t + k) False" by (rule wait_busy) (rule assms(1))
  with assms(2) show ?thesis by (simp add: wait_on_hd_interrupt.simps [of d "t + k"] hd_irq_def hd_handler_def)
qed

lemma wait_panics:
  assumes "\<And>i. i < k \<Longrightarrow> still_busy d (t + i)" "dv_status d (t + k) AND 0x80 \<noteq> 0" "dv_irq d (t + k)"
  shows "wait_on_hd_interrupt d t False = None"
proof -
  have "wait_on_hd_interrupt d t False = wait_on_hd_interrupt d (t + k) False" by (rule wait_busy) (rule assms(1))
  with assms(2,3) show ?thesis by (simp add: wait_on_hd_interrupt.simps [of d "t + k"] hd_irq_def hd_handler_def)
qed

end
