(* ===== verification/Sleep.thy ===== *)
theory Sleep
  imports Keyboard
begin

text \<open>
  Waiting for a time (\<open>sleep\<close> and \<open>sleep_ticks\<close> of \<open>io/io_timer.c\<close>). The state is the counter of the timer interrupts;
  \<open>halt\<close> returns after the next one. The time that passes outside of the waiting loops is not counted.
\<close>

definition FREQUENCY :: s32 where "FREQUENCY = 100"

text \<open>What an interrupt of the timer does to the counter.\<close>

definition next_tick :: "s32 \<Rightarrow> s32" where
  "next_tick ticks = (let ticks = ticks + 1 in if ticks = SINT32_MAX then 0 else ticks)"

partial_function (option) wait_ticks :: "s32 \<Rightarrow> s32 \<Rightarrow> s32 option" where
  "wait_ticks i ticks = (if ticks <s i then wait_ticks i (next_tick ticks) else Some ticks)"

declare wait_ticks.simps [code]

text \<open>The seconds until the counter starts again.\<close>

definition seconds_left :: "s32 \<Rightarrow> s32" where
  "seconds_left ticks = word_of_int (sint (SINT32_MAX - ticks) sdiv sint FREQUENCY)"

partial_function (option) sleep :: "s32 \<Rightarrow> s32 \<Rightarrow> s32 option" where
  "sleep num ticks =
     (if SINT32_MAX - ticks <s FREQUENCY * num then do {
        ticks \<leftarrow> sleep (seconds_left ticks) ticks;
        sleep (num - seconds_left ticks) ticks }
      else wait_ticks (ticks + FREQUENCY * num) ticks)"

declare sleep.simps [code]

definition sleep_ticks :: "s32 \<Rightarrow> s32 \<Rightarrow> s32 option" where
  "sleep_ticks num ticks =
     (if SINT32_MAX - ticks <s num then do {
        ticks \<leftarrow> sleep (SINT32_MAX - ticks) ticks;
        sleep (num - (SINT32_MAX - ticks)) ticks }
      else wait_ticks (ticks + num) ticks)"

text \<open>The speaker (\<open>io/io_sound.c\<close>): the value that \<open>start_beep\<close> writes to its port, if it does, and the one of \<open>end_beep\<close>.\<close>

definition speaker_on :: "u8 \<Rightarrow> u8 option" where
  "speaker_on tmp = (if tmp \<noteq> tmp OR 3 then Some (tmp OR 3) else None)"

definition end_beep :: "u8 \<Rightarrow> u8" where
  "end_beep port = port AND 0xFC"

section \<open>Counting\<close>

text \<open>Numbers that are not negative, as natural numbers.\<close>

lemma sint_nat: "n < 2 ^ 31 \<Longrightarrow> sint (word_of_nat n :: s32) = int n"
  using sint_small [of "word_of_nat n"] by (simp add: unat_of_nat)

lemma less_nat: "m < 2 ^ 31 \<Longrightarrow> n < 2 ^ 31 \<Longrightarrow> (word_of_nat m :: s32) <s word_of_nat n \<longleftrightarrow> m < n"
  by (simp add: word_sless_alt sint_nat)

definition top_tick :: nat where "top_tick = 2147483647"

lemma SINT32_MAX_nat: "SINT32_MAX = word_of_nat top_tick" by (simp add: SINT32_MAX_def top_tick_def)

lemma less_top: "m \<le> top_tick \<Longrightarrow> n \<le> top_tick \<Longrightarrow> (word_of_nat m :: s32) <s word_of_nat n \<longleftrightarrow> m < n"
  by (rule less_nat) (simp_all add: top_tick_def)

lemma sint_top: "n \<le> top_tick \<Longrightarrow> sint (word_of_nat n :: s32) = int n"
  by (rule sint_nat) (simp add: top_tick_def)

lemma ticks_left: "t \<le> top_tick \<Longrightarrow> SINT32_MAX - word_of_nat t = word_of_nat (top_tick - t)"
  unfolding SINT32_MAX_nat by (simp add: of_nat_diff)

lemma FREQUENCY_nat: "FREQUENCY * word_of_nat n = word_of_nat (100 * n)" by (simp add: FREQUENCY_def)

lemma seconds_left_nat: "t \<le> top_tick \<Longrightarrow> seconds_left (word_of_nat t) = word_of_nat ((top_tick - t) div 100)"
proof -
  assume t: "t \<le> top_tick"
  have "sint (SINT32_MAX - word_of_nat t) = int (top_tick - t)" unfolding ticks_left [OF t] by (rule sint_top) simp
  moreover have "int k sdiv 100 = int (k div 100)" for k by (simp add: signed_divide_int_def zdiv_int sgn_if)
  ultimately show ?thesis by (simp add: seconds_left_def FREQUENCY_def)
qed

text \<open>When a sleep of \<open>n\<close> seconds is cut in two.\<close>

lemma cut_iff:
  "t \<le> top_tick \<Longrightarrow> 100 * n \<le> top_tick \<Longrightarrow> SINT32_MAX - word_of_nat t <s FREQUENCY * word_of_nat n \<longleftrightarrow> top_tick < t + 100 * n"
  unfolding FREQUENCY_nat using ticks_left [of t] less_top [of "top_tick - t" "100 * n"] by auto

lemma wait_ticks_ends: "t + k < top_tick \<Longrightarrow> wait_ticks (word_of_nat (t + k)) (word_of_nat t) = Some (word_of_nat (t + k))"
proof (induction k arbitrary: t)
  case 0
  then show ?case by (subst wait_ticks.simps) (simp add: word_sless_alt)
next
  case (Suc k)
  have "(word_of_nat t :: s32) <s word_of_nat (t + Suc k)" using Suc.prems less_top [of t "t + Suc k"] by simp
  moreover have "next_tick (word_of_nat t) = word_of_nat (Suc t)"
  proof -
    have "sint (word_of_nat (Suc t) :: s32) \<noteq> sint SINT32_MAX"
      unfolding SINT32_MAX_nat using Suc.prems sint_top [of "Suc t"] sint_top [of top_tick] by simp
    then have "(word_of_nat (Suc t) :: s32) \<noteq> SINT32_MAX" by auto
    moreover have "(word_of_nat t :: s32) + 1 = word_of_nat (Suc t)" by simp
    ultimately show ?thesis unfolding next_tick_def Let_def by (simp del: of_nat_Suc)
  qed
  ultimately show ?case using Suc.IH [of "Suc t"] Suc.prems by (subst wait_ticks.simps) simp
qed

lemma SINT32_MAX_top: "t \<noteq> SINT32_MAX \<Longrightarrow> t <s SINT32_MAX"
proof -
  assume t: "t \<noteq> SINT32_MAX"
  have m: "sint SINT32_MAX = 2 ^ 31 - 1" by (simp add: SINT32_MAX_def)
  have "sint t \<noteq> sint SINT32_MAX" using t signed_word_eqI by blast
  then show ?thesis using sint_lt [of t] m by (simp add: word_sless_alt)
qed

text \<open>The counter never has the value \<open>SINT32_MAX\<close> when the loop looks at it.\<close>

lemma wait_ticks_hangs: "t \<noteq> SINT32_MAX \<Longrightarrow> wait_ticks SINT32_MAX t = None"
proof (rule ccontr)
  assume t: "t \<noteq> SINT32_MAX" and "wait_ticks SINT32_MAX t \<noteq> None"
  then obtain r where r: "wait_ticks SINT32_MAX t = Some r" by auto
  have "SINT32_MAX = SINT32_MAX \<longrightarrow> t = SINT32_MAX"
  proof (rule wait_ticks.raw_induct [where P = "\<lambda>i t r. i = SINT32_MAX \<longrightarrow> t = SINT32_MAX", OF _ r])
    fix f :: "s32 \<Rightarrow> s32 \<Rightarrow> s32 option" and i t r
    assume IH: "\<And>i t r. f i t = Some r \<Longrightarrow> i = SINT32_MAX \<longrightarrow> t = SINT32_MAX"
      and run: "(if t <s i then f i (next_tick t) else Some t) = Some r"
    have "next_tick t \<noteq> SINT32_MAX" by (simp add: next_tick_def Let_def SINT32_MAX_def)
    then show "i = SINT32_MAX \<longrightarrow> t = SINT32_MAX" using IH [of i "next_tick t" r] run SINT32_MAX_top [of t] by (auto split: if_splits)
  qed
  with t show False by simp
qed

section \<open>Sleeping\<close>

text \<open>A sleep that ends before the counter starts again.\<close>

lemma sleep_ends: "t + 100 * n < top_tick \<Longrightarrow> sleep (word_of_nat n) (word_of_nat t) = Some (word_of_nat (t + 100 * n))"
proof -
  assume e: "t + 100 * n < top_tick"
  then have "\<not> SINT32_MAX - word_of_nat t <s FREQUENCY * word_of_nat n" using cut_iff [of t n] by simp
  then show ?thesis using wait_ticks_ends [OF e]
    by (subst sleep.simps) (simp add: FREQUENCY_nat del: of_nat_mult of_nat_add add: of_nat_add [symmetric])
qed

lemma sleep_exact: "t + 100 * n = top_tick \<Longrightarrow> 0 < n \<Longrightarrow> sleep (word_of_nat n) (word_of_nat t) = None"
proof -
  assume e: "t + 100 * n = top_tick" and n: "0 < n"
  have "sint (word_of_nat t :: s32) \<noteq> sint SINT32_MAX" unfolding SINT32_MAX_nat using e n sint_top [of t] sint_top [of top_tick] by simp
  then have "wait_ticks SINT32_MAX (word_of_nat t) = None" by (intro wait_ticks_hangs) auto
  moreover have "word_of_nat t + FREQUENCY * word_of_nat n = SINT32_MAX"
    unfolding FREQUENCY_nat SINT32_MAX_nat e [symmetric] by simp
  moreover have "\<not> SINT32_MAX - word_of_nat t <s FREQUENCY * word_of_nat n" using cut_iff [of t n] e by simp
  ultimately show ?thesis by (subst sleep.simps) simp
qed

text \<open>With less than a second left the second half of a sleep is the same call again.\<close>

lemma sleep_again:
  assumes t: "top_tick < t + 100" "t < top_tick" and n: "0 < n" "100 * n \<le> top_tick"
  shows "sleep (word_of_nat n) (word_of_nat t) = None"
proof (rule ccontr)
  let ?n = "word_of_nat n :: s32" and ?t = "word_of_nat t :: s32"
  assume "sleep ?n ?t \<noteq> None"
  then obtain r where r: "sleep ?n ?t = Some r" by auto
  have left: "seconds_left ?t = 0" using t seconds_left_nat [of t] by simp
  have big: "SINT32_MAX - ?t <s FREQUENCY * ?n" using t n cut_iff [of t n] by simp
  have small: "\<not> SINT32_MAX - ?t <s FREQUENCY * 0" using t cut_iff [of t 0] by simp
  have "(0 = ?n \<longrightarrow> ?t = ?t \<longrightarrow> r = ?t) \<and> \<not> (?n = ?n \<and> ?t = ?t)"
  proof (rule sleep.raw_induct [where P = "\<lambda>m u r. (0 = m \<longrightarrow> u = ?t \<longrightarrow> r = ?t) \<and> \<not> (m = ?n \<and> u = ?t)", OF _ r])
    fix f :: "s32 \<Rightarrow> s32 \<Rightarrow> s32 option" and m u r
    assume IH: "\<And>m u r. f m u = Some r \<Longrightarrow> (0 = m \<longrightarrow> u = ?t \<longrightarrow> r = ?t) \<and> \<not> (m = ?n \<and> u = ?t)"
      and run: "(if SINT32_MAX - u <s FREQUENCY * m then f (seconds_left u) u \<bind> (\<lambda>u. f (m - seconds_left u) u)
        else wait_ticks (u + FREQUENCY * m) u) = Some r"
    have "r = ?t" if "0 = m" "u = ?t"
      using run small wait_ticks.simps [of ?t ?t] unfolding that(1) [symmetric] that(2) by (simp add: word_sless_alt)
    moreover have False if m: "m = ?n" "u = ?t"
    proof -
      have "f 0 ?t \<bind> (\<lambda>u. f (?n - seconds_left u) u) = Some r" using run big left unfolding m by simp
      then obtain v where v: "f 0 ?t = Some v" "f (?n - seconds_left v) v = Some r" by (cases "f 0 ?t") auto
      have "v = ?t" using IH [OF v(1)] by simp
      then show False using IH [OF v(2)] left by simp
    qed
    ultimately show "(0 = m \<longrightarrow> u = ?t \<longrightarrow> r = ?t) \<and> \<not> (m = ?n \<and> u = ?t)" by blast
  qed
  then show False by simp
qed

text \<open>A sleep that reaches the end of the counter.\<close>

lemma sleep_never:
  assumes t: "t < top_tick" and n: "100 * n \<le> top_tick" and over: "top_tick \<le> t + 100 * n"
  shows "sleep (word_of_nat n) (word_of_nat t) = None"
proof -
  have pos: "0 < n" using t over by (cases n) simp_all
  consider "t + 100 * n = top_tick" | "top_tick < t + 100 * n" using over by linarith
  then show ?thesis
  proof cases
    case 2
    define q where q: "q = (top_tick - t) div 100"
    have q': "100 * q \<le> top_tick - t" "top_tick - t < 100 * q + 100" unfolding q by simp_all
    have split: "sleep (word_of_nat n) (word_of_nat t) = do {
        u \<leftarrow> sleep (word_of_nat q) (word_of_nat t); sleep (word_of_nat n - seconds_left u) u }"
      using cut_iff [of t n] seconds_left_nat [of t] t n 2 by (subst sleep.simps) (simp add: q)
    show ?thesis
    proof (cases "t + 100 * q = top_tick")
      case True
      then have "0 < q" using t by (cases q) simp_all
      with sleep_exact [OF True] split show ?thesis by simp
    next
      case False
      then have u: "t + 100 * q < top_tick" "top_tick < t + 100 * q + 100" using q' t by linarith+
      then have "seconds_left (word_of_nat (t + 100 * q)) = 0" using seconds_left_nat [of "t + 100 * q"] by simp
      moreover have "sleep (word_of_nat n) (word_of_nat (t + 100 * q)) = None" by (rule sleep_again [OF u(2,1) pos n])
      ultimately show ?thesis using split sleep_ends [OF u(1)] by simp
    qed
  qed (use sleep_exact pos in simp)
qed

section \<open>Properties\<close>

text \<open>
  C23. \<open>sleep\<close> returns after exactly \<open>FREQUENCY\<close> ticks for every second, if the counter does not reach \<open>SINT32_MAX\<close> until
  then. Otherwise it never returns: either it waits for a value that the counter skips, or it waits until less than
  a second is left and then calls itself with the same arguments for ever.
\<close>

theorem sleep_correct:
  assumes t: "t < 2 ^ 31 - 1" and n: "100 * n < 2 ^ 31"
  shows "sleep (word_of_nat n) (word_of_nat t) =
    (if t + 100 * n < 2 ^ 31 - 1 then Some (word_of_nat (t + 100 * n)) else None)"
  using sleep_ends [of t n] sleep_never [of t n] t n by (simp add: top_tick_def)

text \<open>Two seconds from the start, and two seconds from half a second before the counter starts again.\<close>

theorem sleep_correct_witness:
  "sleep (word_of_nat 2) (word_of_nat 7) = Some (word_of_nat (7 + 100 * 2)) \<and> sleep (word_of_nat 2) (word_of_nat 2147483597) = None"
  using sleep_correct [of 7 2] sleep_correct [of 2147483597 2] by simp

end
