(* ===== verification/Play.thy ===== *)
theory Play
  imports Synth Keyboard ShellCmds
begin

text \<open>
  Playing with the synthesizer (\<open>apps/synthesizer.c\<close>): the loop over the keys of \<open>synth\<close>, which prints what is played, and
  the command that plays a file. \<open>down t key\<close> is the answer to the \<open>t\<close>-th question whether a key is pressed. What is done
  is a list of events: \<open>Beep f\<close> and \<open>Silence\<close> are the calls of \<open>start_beep\<close> and \<open>end_beep\<close>, \<open>Wait n\<close> is \<open>n\<close> times \<open>halt\<close>,
  \<open>Print s\<close> is output.
\<close>

datatype synth_out = Beep u32 | Silence | Wait nat | Print bytes

type_synonym key_polls = "nat \<Rightarrow> u8 \<Rightarrow> bool"

definition KEY_PLUS :: u8 where "KEY_PLUS = 0x1B"
definition KEY_MINUS :: u8 where "KEY_MINUS = 0x35"
definition KEY_K :: u8 where "KEY_K = 0x25"

text \<open>The keys A, W, S, E, D, F, T, G, Z, H, U, J with the numbers of their notes, as they are asked for.\<close>

definition note_keys :: "(u8 \<times> nat) list" where
  "note_keys = [(0x1E, 0), (0x11, 1), (0x1F, 2), (0x12, 3), (0x20, 4), (0x21, 5), (0x14, 6), (0x22, 7), (0x15, 8), (0x23, 9),
     (0x16, 10), (0x24, 11)]"

text \<open>The loops while a key is held; the second one counts.\<close>

partial_function (option) release_loop :: "key_polls \<Rightarrow> nat \<Rightarrow> u8 \<Rightarrow> nat option" where
  "release_loop down t key = (if down t key then release_loop down (t + 1) key else Some (t + 1))"

partial_function (option) hold_loop :: "key_polls \<Rightarrow> nat \<Rightarrow> u8 \<Rightarrow> s32 \<Rightarrow> (s32 \<times> nat) option" where
  "hold_loop down t key note_length = (if down t key then hold_loop down (t + 1) key (note_length + 1) else Some (note_length, t + 1))"

declare release_loop.simps [code]
declare hold_loop.simps [code]

definition handle_note :: "key_polls \<Rightarrow> nat \<Rightarrow> u8 \<Rightarrow> nat \<Rightarrow> s32 \<Rightarrow> (synth_out list \<times> nat) option" where
  "handle_note down t key note octave = do {
     row \<leftarrow> rd_at notes_table note;
     f \<leftarrow> rd_at row (unat octave);
     (note_length, t') \<leftarrow> hold_loop down t key 0;
     Some ([Beep f, Wait (unat note_length)] @ (if note < 12 then [Print (note_text (note, octave, note_length))] else []) @ [Silence], t') }"

fun play_keys :: "key_polls \<Rightarrow> nat \<Rightarrow> s32 \<Rightarrow> (u8 \<times> nat) list \<Rightarrow> (synth_out list \<times> nat) option" where
  "play_keys down t octave [] = Some ([], t)"
| "play_keys down t octave ((key, note) # ks) =
     (if down t key then do {
        (out, t) \<leftarrow> handle_note down (t + 1) key note octave;
        (out', t) \<leftarrow> play_keys down t octave ks;
        Some (out @ out', t) }
      else play_keys down (t + 1) octave ks)"

definition change_octave :: "key_polls \<Rightarrow> nat \<Rightarrow> s32 \<Rightarrow> (s32 \<times> nat) option" where
  "change_octave down t octave = do {
     (octave, t) \<leftarrow>
       (if down t KEY_MINUS \<and> 0 <s octave then do { t \<leftarrow> release_loop down (t + 1) KEY_MINUS; Some (octave - 1, t) } else Some (octave, t + 1));
     (if down t KEY_PLUS \<and> octave <s 7 then do { t \<leftarrow> release_loop down (t + 1) KEY_PLUS; Some (octave + 1, t) } else Some (octave, t + 1)) }"

partial_function (option) synth_loop :: "key_polls \<Rightarrow> nat \<Rightarrow> s32 \<Rightarrow> synth_out list option" where
  "synth_loop down t octave =
     (if down t ESCAPE then Some []
      else do {
        (octave, t) \<leftarrow> change_octave down (t + 1) octave;
        (out, t) \<leftarrow> play_keys down t octave note_keys;
        (out2, t) \<leftarrow> (if down t KEY_K \<and> octave <s 7 then handle_note down (t + 1) KEY_K 0 (octave + 1) else Some ([], t + 1));
        rest \<leftarrow> synth_loop down t octave;
        Some (out @ out2 @ rest) })"

declare synth_loop.simps [code]

definition synth :: "key_polls \<Rightarrow> synth_out list option" where
  "synth down = synth_loop down 0 4"

section \<open>Playing a file\<close>

definition play_tone :: "tone \<Rightarrow> synth_out list" where
  "play_tone t =
     (if 0 <s frequency t then [Beep (frequency t)] else []) @ [Wait (nat (sint (duration t)))] @
     (if 0 <s frequency t then [Silence] else [])"

text \<open>\<open>fresh\<close> gives the memory of the allocations, \<open>entry\<close> is the address of \<open>synth\<close>. Neither way closes the file.\<close>

definition shell_cmd_synth :: "(nat \<Rightarrow> bytes) \<Rightarrow> thread_mem \<Rightarrow> u32 \<Rightarrow> shell_env \<Rightarrow> shell \<Rightarrow> bytes list \<Rightarrow> (shell \<times> synth_out list) option" where
  "shell_cmd_synth fresh mem entry e sh argv =
     (if 1 < length argv then do {
        sh \<leftarrow> shell_makepath sh (argv ! 1);
        (sh, fd) \<leftarrow> sh_open e sh (path_buf sh) 0;
        if fd \<le>s 0 then do { sh \<leftarrow> say e sh ''synth: can't open %s for reading'' [argv ! 1]; Some (sh, []) }
        else do {
          (k, sz) \<leftarrow> seek_call (se_sys e) (sh_k sh) fd 0 2;
          let sh = sh\<lparr>sh_k := k\<rparr>;
          if sz <s 0 then do {
            sh \<leftarrow> say e sh ''synth: %s has a negative size. Trying to open a special file?'' [argv ! 1]; Some (sh, []) }
          else do {
            (k, r) \<leftarrow> seek_call (se_sys e) (sh_k sh) fd 0 0;
            (sh, str, n) \<leftarrow> sh_read e (sh\<lparr>sh_k := k\<rparr>) fd (fresh (unat (sz + 1))) sz;
            str \<leftarrow> wr_at str (unat sz) 0;
            tones \<leftarrow> parse_sound fresh (put_bytes (\<lambda>_. 0) 0 str) 0;
            ts \<leftarrow> played tones 0;
            Some (sh, concat (map play_tone ts)) } } }
      else do {
        (pm, pid) \<leftarrow> pm_create_thread (k_pm (sh_k sh)) mem (Some (ascii ''SYNTH'')) entry 4096;
        Some (sh\<lparr>sh_k := (sh_k sh)\<lparr>k_pm := pm\<rparr>\<rparr>, []) })"

section \<open>What is printed\<close>

fun printed :: "synth_out list \<Rightarrow> bytes" where
  "printed [] = []"
| "printed (Print s # os) = s @ printed os"
| "printed (_ # os) = printed os"

lemma printed_append: "printed (xs @ ys) = printed xs @ printed ys"
  by (induction xs rule: printed.induct) simp_all

text \<open>\<open>out\<close> prints notes of the tables.\<close>

definition prints_notes :: "synth_out list \<Rightarrow> bool" where
  "prints_notes out \<longleftrightarrow> (\<exists>ts. printed out = concat (map note_text ts) \<and> (\<forall>(note, octave, len) \<in> set ts. note < 12 \<and> unat octave \<le> 7))"

lemma prints_notes_Nil: "prints_notes []"
  by (simp add: prints_notes_def exI [of _ "[]"])

lemma prints_notes_append: "prints_notes xs \<Longrightarrow> prints_notes ys \<Longrightarrow> prints_notes (xs @ ys)"
proof -
  assume "prints_notes xs" "prints_notes ys"
  then obtain ts us where "printed xs = concat (map note_text ts)" "printed ys = concat (map note_text us)"
    "\<forall>(note, octave, len) \<in> set (ts @ us). note < 12 \<and> unat octave \<le> 7" by (fastforce simp: prints_notes_def)
  then show ?thesis unfolding prints_notes_def by (intro exI [of _ "ts @ us"]) (simp add: printed_append)
qed

lemma handle_note_prints: "handle_note down t key note octave = Some (out, t') \<Longrightarrow> prints_notes out"
proof -
  assume h: "handle_note down t key note octave = Some (out, t')"
  have rows: "\<forall>r \<in> set notes_table. length r = 8" "length notes_table = 12" by (simp_all add: notes_table_def)
  from h obtain row f len where r: "rd_at notes_table note = Some row" "rd_at row (unat octave) = Some f"
    and o: "out = [Beep f, Wait (unat len)] @ (if note < 12 then [Print (note_text (note, octave, len))] else []) @ [Silence]"
    by (auto simp: handle_note_def bind_eq_Some_conv)
  have "note < 12" using r(1) rows(2) by (simp add: rd_at_def split: if_splits)
  moreover have "length row = 8" using r(1) rows by (auto simp: rd_at_def split: if_splits)
  then have "unat octave \<le> 7" using r(2) by (simp add: rd_at_def split: if_splits)
  ultimately show ?thesis unfolding prints_notes_def o by (intro exI [of _ "[(note, octave, len)]"]) simp
qed

lemma play_keys_prints: "play_keys down t octave ks = Some (out, t') \<Longrightarrow> prints_notes out"
proof (induction ks arbitrary: t out)
  case (Cons kn ks)
  obtain key nt where kn: "kn = (key, nt)" by (cases kn)
  show ?case
  proof (cases "down t key")
    case True
    with Cons.prems obtain o1 t1 o2 where "handle_note down (t + 1) key nt octave = Some (o1, t1)"
      "play_keys down t1 octave ks = Some (o2, t')" "out = o1 @ o2" by (auto simp: kn bind_eq_Some_conv)
    then show ?thesis using handle_note_prints Cons.IH prints_notes_append by blast
  qed (use Cons in \<open>auto simp: kn\<close>)
qed (simp add: prints_notes_Nil)

text \<open>
  Whatever keys are pressed: the synthesizer stays inside of its tables and prints notes that it can read again
  (\<open>parse_sound_roundtrip\<close>).
\<close>

lemma synth_loop_prints: "synth_loop down t octave = Some out \<Longrightarrow> prints_notes out"
proof -
  assume r: "synth_loop down t octave = Some out"
  show ?thesis
  proof (rule synth_loop.raw_induct [where P = "\<lambda>down t octave out. prints_notes out", OF _ r])
    fix f :: "key_polls \<Rightarrow> nat \<Rightarrow> s32 \<Rightarrow> synth_out list option" and down t octave out
    assume IH: "\<And>down t octave out. f down t octave = Some out \<Longrightarrow> prints_notes out"
      and run: "(if down t ESCAPE then Some [] else do {
        (octave, t) \<leftarrow> change_octave down (t + 1) octave;
        (out, t) \<leftarrow> play_keys down t octave note_keys;
        (out2, t) \<leftarrow> (if down t KEY_K \<and> octave <s 7 then handle_note down (t + 1) KEY_K 0 (octave + 1) else Some ([], t + 1));
        rest \<leftarrow> f down t octave;
        Some (out @ out2 @ rest) }) = Some out"
    show "prints_notes out"
    proof (cases "down t ESCAPE")
      case True
      with run show ?thesis by (auto simp: prints_notes_Nil)
    next
      case False
      with run obtain oct t1 o1 t2 o2 t3 rest where k: "play_keys down t1 oct note_keys = Some (o1, t2)"
        "(if down t2 KEY_K \<and> oct <s 7 then handle_note down (t2 + 1) KEY_K 0 (oct + 1) else Some ([], t2 + 1)) = Some (o2, t3)"
        "f down t3 oct = Some rest" "out = o1 @ o2 @ rest"
        by (auto simp: bind_eq_Some_conv split: prod.splits)
      have "prints_notes o2" using k(2) handle_note_prints prints_notes_Nil by (auto split: if_splits)
      then show ?thesis using play_keys_prints [OF k(1)] IH [OF k(3)] k(4) prints_notes_append by blast
    qed
  qed
qed

text \<open>A melody of one note: A is held for two questions, then ESCAPE is pressed.\<close>

lemma synth_example:
  "synth (\<lambda>t key. key = 0x1E \<and> t \<in> {3, 4, 5} \<or> key = ESCAPE \<and> t = 19) =
     Some [Beep 262, Wait 2, Print (note_text (0, 4, 2)), Silence]"
  by (simp add: synth_def synth_loop.simps change_octave_def note_keys_def KEY_MINUS_def KEY_PLUS_def KEY_K_def ESCAPE_def handle_note_def hold_loop.simps
      rd_at_def notes_table_def)

end
