(* ===== verification/MmInit.thy ===== *)
theory MmInit
  imports Heap
begin

text \<open>
  The start of the memory management (\<open>mm_init\<close> of \<open>mm/mm_main.c\<close>): the frame bitmap, the directory, the tables and frames of the
  kernel's own memory and of the heap. \<open>mem\<close> are the bytes of memory from the bitmap's address on, as many as the bitmap
  has in use. Loading the directory into the processor has no effect on this state.
\<close>

section \<open>Definitions\<close>

definition KHEAP_START :: u32 where "KHEAP_START = 0xC0000000"
definition KHEAP_INITIAL_SIZE :: u32 where "KHEAP_INITIAL_SIZE = 0x500000"

fun words_of :: "bytes \<Rightarrow> u32 list" where
  "words_of (a # b # c # d # bs) = un_le32 [a, b, c, d] # words_of bs"
| "words_of _ = []"

text \<open>The loop that makes the page tables of the heap, the one that gives frames to the kernel, and the one for the heap.\<close>

partial_function (option) heap_tables :: "mm_state \<Rightarrow> u32 \<Rightarrow> mm_state option" where
  "heap_tables s i =
     (if i < KHEAP_START + KHEAP_INITIAL_SIZE then do {
        (s, r) \<leftarrow> get_page s i 1;
        heap_tables s (i + 0x1000) }
      else Some s)"

text \<open>\<open>alloc_frame (get_page (i, 1, kernel_dir), 0, 0)\<close>\<close>

definition page_frame :: "mm_state \<Rightarrow> u32 \<Rightarrow> mm_state option" where
  "page_frame s i = do {
     (s, r) \<leftarrow> get_page s i 1;
     r \<leftarrow> r;
     alloc_frame s r False False }"

partial_function (option) kernel_frames :: "mm_state \<Rightarrow> u32 \<Rightarrow> u32 \<Rightarrow> mm_state option" where
  "kernel_frames s i max_size_of_page_tables =
     (if i \<le> placement_addr s + max_size_of_page_tables then do {
        s \<leftarrow> page_frame s i;
        kernel_frames s (i + 0x1000) max_size_of_page_tables }
      else Some s)"

partial_function (option) heap_frames :: "mm_state \<Rightarrow> u32 \<Rightarrow> mm_state option" where
  "heap_frames s i =
     (if i < KHEAP_START + KHEAP_INITIAL_SIZE then do {
        s \<leftarrow> page_frame s i;
        heap_frames s (i + 0x1000) }
      else Some s)"

text \<open>
  The bitmap and the directory; the bitmap gets \<open>nframes / 32\<close> bytes, which are cleared, but four times as many are in
  use: there is no result when these reach the directory.
\<close>

definition mm_start :: "u32 \<Rightarrow> u32 \<Rightarrow> bytes \<Rightarrow> mm_state option" where
  "mm_start start stop mem =
     (let n = stop div 0x1000;
          s = \<lparr>placement_addr = start + 0x100, nframes = n, frames = [], kernel_dir = \<lparr>pd_tables = [], pd_phys = []\<rparr>\<rparr>;
          (s, a) = kmalloc s (n div 32) 0;
          bitmap = replicate (unat (n div 32)) 0 @ drop (unat (n div 32)) mem;
          (s, d) = kmalloc s 8196 1
      in if unat a + length mem > unat d then None
         else Some (s\<lparr>frames := words_of bitmap, kernel_dir := \<lparr>pd_tables = replicate 1024 None, pd_phys = replicate 1024 0\<rparr>\<rparr>))"

definition mm_init :: "hstore \<Rightarrow> u32 \<Rightarrow> u32 \<Rightarrow> bytes \<Rightarrow> (mm_state \<times> heap) option" where
  "mm_init store start stop mem = do {
     s \<leftarrow> mm_start start stop mem;
     s \<leftarrow> heap_tables s KHEAP_START;
     s \<leftarrow> kernel_frames s 0 (stop div 4096 div 1024 * 4096);
     s \<leftarrow> heap_frames s KHEAP_START;
     Some (s, create_heap store KHEAP_START (KHEAP_START + KHEAP_INITIAL_SIZE) (KHEAP_START + stop) 0 0) }"

section \<open>Frames in the order of the pages\<close>

text \<open>The tables that are missing in a directory.\<close>

definition missing :: "mm_state \<Rightarrow> nat set" where
  "missing s = {t. t < 1024 \<and> pd_tables (kernel_dir s) ! t = None}"

lemma finite_missing [simp]: "finite (missing s)"
  by (simp add: missing_def)

lemma alloc_frame_dir:
  assumes "alloc_frame s r k w = Some s'" "dir_ok (kernel_dir s)"
  shows "dir_ok (kernel_dir s') \<and> missing s' = missing s \<and> placement_addr s' = placement_addr s"
proof (cases "s' = s")
  case False
  with assms(1) obtain x s1 q where s1: "set_frame s x = Some s1" "write_page s1 r q = Some s'"
    by (auto simp: alloc_frame_def bind_eq_Some_conv split: if_splits)
  then have k: "kernel_dir s1 = kernel_dir s" "placement_addr s1 = placement_addr s" by (auto simp: set_frame_def Let_def bind_eq_Some_conv)
  from s1(2) obtain ps where ps: "fst r < length (pd_tables (kernel_dir s))" "pd_tables (kernel_dir s) ! fst r = Some ps"
    "s' = s1\<lparr>kernel_dir := (kernel_dir s)\<lparr>pd_tables := (pd_tables (kernel_dir s))[fst r := Some (ps[snd r := q])]\<rparr>\<rparr>"
    unfolding write_page_def k by (auto simp: rd_at_def wr_at_def bind_eq_Some_conv split: if_splits)
  then have dir: "kernel_dir s' = (kernel_dir s)\<lparr>pd_tables := (pd_tables (kernel_dir s))[fst r := Some (ps[snd r := q])]\<rparr>"
    "placement_addr s' = placement_addr s" by (simp_all add: k)
  have "length ps = 1024" using assms(2) ps(1,2) by (intro dir_ok_nth) (auto simp: dir_ok_def)
  then have "dir_ok (kernel_dir s')"
    using assms(2) dir(1) set_update_subset_insert [of "pd_tables (kernel_dir s)" "fst r" "Some (ps[snd r := q])"] by (auto simp: dir_ok_def)
  moreover have "missing s' = missing s"
    unfolding missing_def dir(1) using ps(1,2) by (auto simp: nth_list_update split: if_splits)
  ultimately show ?thesis using dir(2) by simp
qed (use assms in simp)

text \<open>
  The pages \<open>rs\<close> have the frames 0, 1, 2, ... in this order, no other page has a frame and no other frame is used.
\<close>

definition seq_ok :: "mm_state \<Rightarrow> page_ref list \<Rightarrow> bool" where
  "seq_ok s rs \<longleftrightarrow> dir_ok (kernel_dir s) \<and> unat (nframes s) \<le> 2 ^ 20 \<and> length (frames s) = unat (nframes s) div 32 \<and>
     distinct rs \<and> length rs \<le> scanned s \<and> (\<forall>f < scanned s. frame_used s f \<longleftrightarrow> f < length rs) \<and>
     (\<forall>j < length rs. \<exists>p. read_page s (rs ! j) = Some p \<and> pg_present p = 1 \<and> unat (pg_frame p) = j) \<and>
     (\<forall>r p. r \<notin> set rs \<longrightarrow> read_page s r = Some p \<longrightarrow> pg_frame p = 0)"

lemma seq_okI:
  assumes "seq_ok s rs" "dir_ok (kernel_dir s')" "nframes s' = nframes s" "length (frames s') = length (frames s)"
    and "distinct rs'" "length rs' \<le> scanned s" "\<And>f. f < scanned s \<Longrightarrow> frame_used s' f \<longleftrightarrow> f < length rs'"
    and "\<And>j. j < length rs' \<Longrightarrow> \<exists>p. read_page s' (rs' ! j) = Some p \<and> pg_present p = 1 \<and> unat (pg_frame p) = j"
    and "\<And>r p. r \<notin> set rs' \<Longrightarrow> read_page s' r = Some p \<Longrightarrow> pg_frame p = 0"
  shows "seq_ok s' rs'"
proof -
  have "scanned s' = scanned s" by (simp add: scanned_def assms(3))
  then show ?thesis using assms unfolding seq_ok_def by (intro conjI allI impI) auto
qed

lemma seq_page: "seq_ok s rs \<Longrightarrow> j < length rs \<Longrightarrow> \<exists>p. read_page s (rs ! j) = Some p \<and> pg_present p = 1 \<and> unat (pg_frame p) = j"
  unfolding seq_ok_def by blast

lemma seq_zero: "seq_ok s rs \<Longrightarrow> r \<notin> set rs \<Longrightarrow> read_page s r = Some p \<Longrightarrow> pg_frame p = 0"
  unfolding seq_ok_def by blast

text \<open>How far the memory for tables can grow: a table takes a page, and up to a page to align it.\<close>

definition room :: "mm_state \<Rightarrow> nat \<Rightarrow> bool" where
  "room s P \<longleftrightarrow> unat (placement_addr s) + 0x2000 * card (missing s) \<le> P \<and> P < 2 ^ 32"

lemma page_ceiling:
  "x div 4096 * 4096 = x \<Longrightarrow> (x + 4095) div 4096 * 4096 = (x :: nat)"
  "x div 4096 * 4096 \<noteq> x \<Longrightarrow> (x + 4095) div 4096 * 4096 = (x :: nat) div 4096 * 4096 + 4096"
proof -
  define q r where "q = x div 4096" and "r = x mod 4096"
  have x: "x = 4096 * q + r" "r < 4096" by (simp_all add: q_def r_def)
  have up: "(x + 4095) div 4096 = (if r = 0 then q else q + 1)"
  proof (cases r)
    case (Suc r')
    then have "x + 4095 = r' + 4096 * (q + 1)" using x(1) by simp
    then have "(x + 4095) div 4096 = (r' + 4096 * (q + 1)) div 4096" by (rule arg_cong)
    then show ?thesis using x(2) Suc by simp
  qed (simp add: x(1))
  then show "x div 4096 * 4096 = x \<Longrightarrow> (x + 4095) div 4096 * 4096 = x" "x div 4096 * 4096 \<noteq> x \<Longrightarrow> (x + 4095) div 4096 * 4096 = x div 4096 * 4096 + 4096"
    using x unfolding q_def [symmetric] by (auto split: if_splits)
qed

lemma page_ceiling_bounds: "(x :: nat) \<le> (x + 4095) div 4096 * 4096" "(x + 4095) div 4096 * 4096 \<le> x + 4096"
proof -
  have x: "x = x div 4096 * 4096 + x mod 4096" "x mod 4096 < 4096" by simp_all
  show "x \<le> (x + 4095) div 4096 * 4096" "(x + 4095) div 4096 * 4096 \<le> x + 4096"
    using page_ceiling [of x] x by (cases "x div 4096 * 4096 = x"; linarith)+
qed

lemma kmalloc_aligned: "unat (placement_addr s) + 0x1000 + unat sz < 2 ^ 32 \<Longrightarrow> kmalloc s sz 1 = (s', a) \<Longrightarrow>
   unat a = (unat (placement_addr s) + 4095) div 4096 * 4096 \<and> unat (placement_addr s') = unat a + unat sz \<and>
   unat (placement_addr s) \<le> unat a \<and> unat (placement_addr s') \<le> unat (placement_addr s) + 0x1000 + unat sz \<and> s' = s\<lparr>placement_addr := a + sz\<rparr>"
proof -
  assume b: "unat (placement_addr s) + 0x1000 + unat sz < 2 ^ 32" and k: "kmalloc s sz 1 = (s', a)"
  let ?p = "placement_addr s"
  have "unat (?p AND 0xFFFFF000) = unat ?p div 4096 * 4096"
  proof -
    have m: "(0xFFFFF000 :: u32) = NOT (mask 12)" by (simp add: mask_eq_exp_minus_1)
    have "?p AND NOT (mask 12) = push_bit 12 (drop_bit 12 ?p)" by (rule bit_word_eqI) (auto simp: bit_simps)
    moreover have "unat (push_bit 12 (drop_bit 12 ?p)) = unat ?p div 4096 * 4096"
      using unat_u32_lt [of ?p] by (simp add: push_bit_eq_mult drop_bit_eq_div unat_word_ariths unat_div)
    ultimately show ?thesis unfolding m by simp
  qed
  moreover from this have "unat ((?p AND 0xFFFFF000) + 0x1000) = unat ?p div 4096 * 4096 + 4096"
  proof -
    have "unat ?p div 4096 * 4096 \<le> unat ?p" by (rule div_times_less_eq_dividend)
    then have "unat (?p AND 0xFFFFF000) + unat (0x1000 :: u32) < 2 ^ LENGTH(32)" using b calculation by simp
    then show ?thesis using unat_add_lem [of "?p AND 0xFFFFF000" "0x1000"] calculation by simp
  qed
  ultimately have a: "unat a = (unat ?p + 4095) div 4096 * 4096"
  proof (cases "?p AND 0xFFFFF000 = ?p")
    case True
    then have "unat ?p div 4096 * 4096 = unat ?p" using \<open>unat (?p AND 0xFFFFF000) = unat ?p div 4096 * 4096\<close> by simp
    then show ?thesis using k True page_ceiling(1) [of "unat ?p"] by (simp add: kmalloc_def Let_def)
  next
    case False
    then have "unat ?p div 4096 * 4096 \<noteq> unat ?p" using \<open>unat (?p AND 0xFFFFF000) = unat ?p div 4096 * 4096\<close> by (simp add: word_unat_eq_iff)
    then show ?thesis using k False page_ceiling(2) [of "unat ?p"] \<open>unat ((?p AND 0xFFFFF000) + 0x1000) = _\<close>
      by (simp add: kmalloc_def Let_def)
  qed
  then have a2: "unat ?p \<le> unat a" "unat a \<le> unat ?p + 0x1000" using page_ceiling_bounds [of "unat ?p"] by simp_all
  then have "unat (a + sz) = unat a + unat sz" using b unat_add_lem [of a sz] by simp
  moreover have "s' = s\<lparr>placement_addr := a + sz\<rparr>" using k by (auto simp: kmalloc_def Let_def)
  ultimately show ?thesis using a a2 by simp
qed

lemma get_page_seq:
  assumes s: "seq_ok s rs" "room s P"
  shows "\<exists>s'. get_page s a 1 = Some (s', Some (page_slot a)) \<and> seq_ok s' rs \<and> room s' P \<and> nframes s' = nframes s \<and>
    read_page s' (page_slot a) \<noteq> None \<and> (\<forall>r. read_page s r \<noteq> None \<longrightarrow> read_page s' r \<noteq> None) \<and>
    (read_page s (page_slot a) \<noteq> None \<longrightarrow> s' = s)"
proof -
  let ?t = "fst (page_slot a)"
  note b = page_slot_bounds [of a]
  have ok: "dir_ok (kernel_dir s)" using s(1) by (simp add: seq_ok_def)
  then have len: "length (pd_tables (kernel_dir s)) = 1024" "length (pd_phys (kernel_dir s)) = 1024" by (simp_all add: dir_ok_def)
  show ?thesis
  proof (cases "pd_tables (kernel_dir s) ! ?t")
    case (Some ps)
    with ok b have "length ps = 1024" by (intro dir_ok_nth)
    moreover have "get_page s a 1 = Some (s, Some (page_slot a))" using Some b len by (simp add: get_page_unfold)
    ultimately show ?thesis using s Some b len by (intro exI [of _ s]) (simp add: read_page_def)
  next
    case None
    obtain k tmp where k: "kmalloc s 0x1000 1 = (k, tmp)" by (cases "kmalloc s 0x1000 1")
    have m: "?t \<in> missing s" using None b by (simp add: missing_def)
    then have c: "0 < card (missing s)" by (auto simp: card_gt_0_iff)
    then have "unat (placement_addr s) + 0x1000 + unat (0x1000 :: u32) < 2 ^ 32" using s(2) by (simp add: room_def)
    note kk = kmalloc_aligned [OF this k]
    then have "unat (placement_addr k) \<le> unat (placement_addr s) + 0x1000 + unat (0x1000 :: u32)" by blast
    then have pl: "unat (placement_addr k) \<le> unat (placement_addr s) + 0x2000" "k = s\<lparr>placement_addr := tmp + 0x1000\<rparr>"
      using kk by simp_all
    define s' where "s' = k\<lparr>kernel_dir := \<lparr>pd_tables = (pd_tables (kernel_dir s))[?t := Some (replicate 1024 zero_page)],
      pd_phys = (pd_phys (kernel_dir s))[?t := tmp OR 0x7]\<rparr>\<rparr>"
    have g: "get_page s a 1 = Some (s', Some (page_slot a))" using None b len k pl(2) by (simp add: get_page_unfold s'_def)
    have "missing s' = missing s - {?t}" using b len by (auto simp: missing_def s'_def nth_list_update)
    then have "card (missing s') = card (missing s) - 1" using m by simp
    moreover have "placement_addr s' = placement_addr k" by (simp add: s'_def)
    ultimately have room: "room s' P" using s(2) pl(1) c by (simp add: room_def) linarith
    have old: "read_page s' r = (if fst r = ?t then (if snd r < 1024 then Some zero_page else None) else read_page s r)" for r
      using b len by (cases "fst r = ?t") (auto simp: read_page_def s'_def rd_at_def)
    have none: "read_page s r = None" if "fst r = ?t" for r using None that by (auto simp: read_page_def rd_at_def)
    have keep: "read_page s' r = Some p" if "read_page s r = Some p" for r p using that none [of r] old [of r] by (auto split: if_splits)
    have same: "nframes s' = nframes s" "frames s' = frames s" by (simp_all add: s'_def pl(2))
    have dir: "dir_ok (kernel_dir s')"
      using ok set_update_subset_insert [of "pd_tables (kernel_dir s)" ?t "Some (replicate 1024 zero_page)"] by (auto simp: s'_def dir_ok_def)
    have used: "frame_used s' f = frame_used s f" "scanned s' = scanned s" for f by (simp_all add: frame_used_def scanned_def same)
    have pages: "\<exists>p. read_page s' (rs ! j) = Some p \<and> pg_present p = 1 \<and> unat (pg_frame p) = j" if "j < length rs" for j
      using seq_page [OF s(1) that] keep by blast
    have zeros: "pg_frame p = 0" if "r \<notin> set rs" "read_page s' r = Some p" for r p
      using that old [of r] seq_zero [OF s(1), of r p] by (auto simp: zero_page_def split: if_splits)
    have "seq_ok s' rs"
    proof (rule seq_okI [OF s(1) dir same(1)])
      show "frame_used s' f \<longleftrightarrow> f < length rs" if "f < scanned s" for f using s(1) that used(1) [of f] by (simp add: seq_ok_def)
      show "distinct rs" "length rs \<le> scanned s" using s(1) by (simp_all add: seq_ok_def)
    qed (use pages zeros same(2) in auto)
    moreover have "read_page s' (page_slot a) \<noteq> None" using old [of "page_slot a"] b by simp
    moreover have "read_page s (page_slot a) = None" by (rule none) simp
    ultimately show ?thesis using g room same(1) keep by fastforce
  qed
qed

lemma page_frame_seq:
  assumes s: "seq_ok s rs" "room s P" and r: "page_slot a \<notin> set rs" "length rs < scanned s"
  shows "\<exists>s'. page_frame s a = Some s' \<and> seq_ok s' (rs @ [page_slot a]) \<and> room s' P \<and> nframes s' = nframes s \<and>
    (\<forall>r. read_page s r \<noteq> None \<longrightarrow> read_page s' r \<noteq> None) \<and> (read_page s (page_slot a) \<noteq> None \<longrightarrow> placement_addr s' = placement_addr s)"
proof -
  obtain s1 where s1: "get_page s a 1 = Some (s1, Some (page_slot a))" "seq_ok s1 rs" "room s1 P" "nframes s1 = nframes s"
    "read_page s1 (page_slot a) \<noteq> None" "\<forall>r. read_page s r \<noteq> None \<longrightarrow> read_page s1 r \<noteq> None" "read_page s (page_slot a) \<noteq> None \<longrightarrow> s1 = s"
    using get_page_seq [OF s] by blast
  have ok: "dir_ok (kernel_dir s1)" "unat (nframes s1) \<le> 2 ^ 20" "unat (nframes s1) div 32 \<le> length (frames s1)"
    "\<forall>f < scanned s1. frame_used s1 f \<longleftrightarrow> f < length rs" using s1(2) by (simp_all add: seq_ok_def)
  have sc: "scanned s1 = scanned s" by (simp add: scanned_def s1(4))
  obtain p where p: "read_page s1 (page_slot a) = Some p" using s1(5) by blast
  then have p0: "pg_frame p = 0" using s1(2) r(1) unfolding seq_ok_def by blast
  obtain x where x: "first_free_frame s1 = Some x" "if x = - 1 then \<forall>f < scanned s1. frame_used s1 f
     else unat x < scanned s1 \<and> \<not> frame_used s1 (unat x) \<and> (\<forall>f < unat x. frame_used s1 f)"
    using first_free_frame_eq [OF ok(3)] by blast
  have "\<not> frame_used s1 (length rs)" using ok(4) r(2) sc by simp
  then have x1: "x \<noteq> - 1" using x(2) r(2) sc by auto
  then have x2: "unat x < scanned s1" "\<not> frame_used s1 (unat x)" "\<forall>f < unat x. frame_used s1 f" using x(2) by auto
  have len: "unat x = length rs"
  proof (rule order.antisym)
    show "unat x \<le> length rs" using x2(3) \<open>\<not> frame_used s1 (length rs)\<close> by (meson not_le)
    show "length rs \<le> unat x" using x2(1,2) ok(4) by (meson not_le)
  qed
  obtain s' where s': "alloc_frame s1 (page_slot a) False False = Some s'" "nframes s' = nframes s1" "length (frames s') = length (frames s1)"
    "\<forall>g. frame_used s' g \<longleftrightarrow> g = unat x \<or> frame_used s1 g" "unat (ucast x :: 20 word) = unat x"
    "\<forall>r'. read_page s' r' = (if r' = page_slot a then Some (p\<lparr>pg_present := 1, pg_rw := 0, pg_user := 1, pg_frame := ucast x\<rparr>) else read_page s1 r')"
    using alloc_frame_at [OF p p0 ok(2,3) x(1) x1 x2(1), of False False] by auto
  note d = alloc_frame_dir [OF s'(1) ok(1)]
  let ?rs = "rs @ [page_slot a]"
  have pages: "\<exists>p. read_page s' (?rs ! j) = Some p \<and> pg_present p = 1 \<and> unat (pg_frame p) = j" if j: "j < length ?rs" for j
  proof (cases "j = length rs")
    case True
    then show ?thesis using s'(5) s'(6) [rule_format, of "page_slot a"] len by (simp add: nth_append)
  next
    case False
    then have lt: "j < length rs" using j by simp
    then have "rs ! j \<noteq> page_slot a" using r(1) by (metis nth_mem)
    then have "read_page s' (rs ! j) = read_page s1 (rs ! j)" using s'(6) [rule_format, of "rs ! j"] by simp
    then show ?thesis using seq_page [OF s1(2) lt] lt by (simp add: nth_append)
  qed
  have zeros: "pg_frame q = 0" if "r' \<notin> set ?rs" "read_page s' r' = Some q" for r' q
    using that s'(6) [rule_format, of r'] seq_zero [OF s1(2), of r' q] by (auto split: if_splits)
  have used: "frame_used s' f \<longleftrightarrow> f < length ?rs" if "f < scanned s1" for f
    using that s'(4) ok(4) len by auto
  have "seq_ok s' ?rs"
  proof (rule seq_okI [OF s1(2)])
    show "dir_ok (kernel_dir s')" using d by simp
    show "distinct ?rs" "length ?rs \<le> scanned s1" using s1(2) r sc by (simp_all add: seq_ok_def)
  qed (use s'(2,3) used pages zeros in auto)
  moreover have "room s' P" using s1(3) d by (simp add: room_def)
  moreover have "page_frame s a = Some s'" using s1(1) s'(1) by (simp add: page_frame_def)
  moreover have "\<forall>r. read_page s r \<noteq> None \<longrightarrow> read_page s' r \<noteq> None" using s1(6) s'(6) by simp
  ultimately show ?thesis using s'(2) s1(4,7) d by (intro exI [of _ s']) auto
qed

section \<open>The loops\<close>

text \<open>The address of page \<open>n\<close> and its slot.\<close>

definition page_at :: "nat \<Rightarrow> u32" where
  "page_at n = word_of_nat (4096 * n)"

definition slot_of :: "nat \<Rightarrow> page_ref" where
  "slot_of n = (n div 1024, n mod 1024)"

lemma unat_page_at: "n < 2 ^ 20 \<Longrightarrow> unat (page_at n) = 4096 * n"
  by (simp add: page_at_def unat_of_nat del: of_nat_mult)

lemma page_at_slot: "n < 2 ^ 20 \<Longrightarrow> page_slot (page_at n) = slot_of n"
  by (simp add: page_slot_def slot_of_def unat_page_at)

lemma page_slot_of: "page_slot a = slot_of (unat a div 4096)"
  by (simp add: page_slot_def slot_of_def)

lemma page_at_next: "page_at n + 0x1000 = page_at (n + 1)"
  by (simp add: page_at_def)

lemma page_at_less: "m < 2 ^ 20 \<Longrightarrow> n < 2 ^ 20 \<Longrightarrow> page_at m < page_at n \<longleftrightarrow> m < n"
  by (simp add: word_less_nat_alt unat_page_at)

lemma heap_end: "n < 2 ^ 20 \<Longrightarrow> page_at n < KHEAP_START + KHEAP_INITIAL_SIZE \<longleftrightarrow> n < 787712"
  using page_at_less [of n 787712] by (simp add: KHEAP_START_def KHEAP_INITIAL_SIZE_def page_at_def)

lemma slot_of_eq: "slot_of m = slot_of n \<longleftrightarrow> m = n"
  unfolding slot_of_def by (metis div_mod_decomp prod.inject)

text \<open>The tables of the heap exist.\<close>

definition heap_mapped :: "mm_state \<Rightarrow> nat \<Rightarrow> bool" where
  "heap_mapped s n \<longleftrightarrow> (\<forall>j < n. read_page s (slot_of (786432 + j)) \<noteq> None)"

lemma heap_mapped_mono: "heap_mapped s n \<Longrightarrow> \<forall>r. read_page s r \<noteq> None \<longrightarrow> read_page s' r \<noteq> None \<Longrightarrow> heap_mapped s' n"
  unfolding heap_mapped_def by blast

lemma heap_tables_all:
  "j \<le> 1280 \<Longrightarrow> seq_ok s [] \<Longrightarrow> room s P \<Longrightarrow> heap_mapped s j \<Longrightarrow>
   \<exists>s'. heap_tables s (page_at (786432 + j)) = Some s' \<and> seq_ok s' [] \<and> room s' P \<and> nframes s' = nframes s \<and> heap_mapped s' 1280"
proof (induction "1280 - j" arbitrary: j s)
  case 0
  then show ?case by (intro exI [of _ s]) (simp add: heap_tables.simps [of s] heap_end)
next
  case (Suc d)
  then have j: "j < 1280" and d: "d = 1280 - (j + 1)" by simp_all
  obtain s1 where s1: "get_page s (page_at (786432 + j)) 1 = Some (s1, Some (slot_of (786432 + j)))" "seq_ok s1 []" "room s1 P"
    "nframes s1 = nframes s" "read_page s1 (slot_of (786432 + j)) \<noteq> None" "\<forall>r. read_page s r \<noteq> None \<longrightarrow> read_page s1 r \<noteq> None"
    using get_page_seq [OF Suc.prems(2,3), of "page_at (786432 + j)"] j by (auto simp: page_at_slot)
  have "heap_mapped s1 (j + 1)"
    using heap_mapped_mono [OF Suc.prems(4) s1(6)] s1(5) by (auto simp: heap_mapped_def less_Suc_eq)
  then obtain s' where s': "heap_tables s1 (page_at (786432 + (j + 1))) = Some s'" "seq_ok s' []" "room s' P" "nframes s' = nframes s1" "heap_mapped s' 1280"
    using Suc.hyps(1) [OF d, of s1] j s1(2,3) by auto
  have "heap_tables s (page_at (786432 + j)) = heap_tables s1 (page_at (786432 + (j + 1)))"
    using s1(1) j page_at_next [of "786432 + j"] by (subst heap_tables.simps) (simp add: heap_end)
  with s' s1(4) show ?case by auto
qed

lemma kernel_frames_all:
  "seq_ok s (map slot_of [0..<k]) \<Longrightarrow> room s P \<Longrightarrow> heap_mapped s 1280 \<Longrightarrow> P + unat mx < 4096 * scanned s \<Longrightarrow> scanned s \<le> 786432 \<Longrightarrow>
   k \<le> (P + unat mx) div 4096 + 1 \<Longrightarrow>
   \<exists>s' K. kernel_frames s (page_at k) mx = Some s' \<and> seq_ok s' (map slot_of [0..<K]) \<and> room s' P \<and> heap_mapped s' 1280 \<and>
     nframes s' = nframes s \<and> K \<le> (P + unat mx) div 4096 + 1 \<and> unat (placement_addr s') + unat mx < 4096 * K"
proof (induction "(P + unat mx) div 4096 + 1 - k" arbitrary: k s rule: less_induct)
  case less
  have lim: "P + unat mx < 4096 * 786432" using less.prems(4,5) by simp
  have pl: "unat (placement_addr s) \<le> P" using less.prems(2) by (simp add: room_def)
  then have "unat (placement_addr s) + unat mx < 2 ^ LENGTH(32)" using lim by simp
  then have sum: "unat (placement_addr s + mx) = unat (placement_addr s) + unat mx" by (rule iffD1 [OF unat_add_lem])
  have k: "k < 2 ^ 20" using less.prems(6) lim by simp
  show ?case
  proof (cases "page_at k \<le> placement_addr s + mx")
    case False
    then have "kernel_frames s (page_at k) mx = Some s" by (subst kernel_frames.simps) simp
    moreover have "unat (placement_addr s) + unat mx < 4096 * k" using False k sum by (simp add: word_le_nat_alt unat_page_at)
    ultimately show ?thesis using less.prems by blast
  next
    case True
    then have le: "4096 * k \<le> P + unat mx" using k sum pl by (simp add: word_le_nat_alt unat_page_at)
    then have ks: "k < scanned s" "k \<le> (P + unat mx) div 4096" using less.prems(4) by simp_all
    have new: "page_slot (page_at k) \<notin> set (map slot_of [0..<k])" using k by (auto simp: page_at_slot slot_of_eq)
    obtain s1 where s1: "page_frame s (page_at k) = Some s1" "seq_ok s1 (map slot_of [0..<k] @ [page_slot (page_at k)])" "room s1 P"
      "nframes s1 = nframes s" "\<forall>r. read_page s r \<noteq> None \<longrightarrow> read_page s1 r \<noteq> None"
      using page_frame_seq [OF less.prems(1,2) new] ks(1) by auto
    have "seq_ok s1 (map slot_of [0..<k + 1])" using s1(2) k by (simp add: page_at_slot)
    moreover have "heap_mapped s1 1280" by (rule heap_mapped_mono [OF less.prems(3) s1(5)])
    moreover have "scanned s1 = scanned s" by (simp add: scanned_def s1(4))
    moreover have "(P + unat mx) div 4096 + 1 - (k + 1) < (P + unat mx) div 4096 + 1 - k" using ks(2) by simp
    ultimately obtain s' K where s': "kernel_frames s1 (page_at (k + 1)) mx = Some s'" "seq_ok s' (map slot_of [0..<K])" "room s' P"
      "heap_mapped s' 1280" "nframes s' = nframes s1" "K \<le> (P + unat mx) div 4096 + 1" "unat (placement_addr s') + unat mx < 4096 * K"
      using less.hyps [of "k + 1" s1] s1(3) less.prems(4,5) ks(2) by auto
    have "kernel_frames s (page_at k) mx = kernel_frames s1 (page_at (k + 1)) mx"
      using True s1(1) page_at_next [of k] by (subst kernel_frames.simps) simp
    with s' s1(4) show ?thesis by auto
  qed
qed

text \<open>The kernel's pages and the first \<open>j\<close> of the heap.\<close>

definition boot_pages :: "nat \<Rightarrow> nat \<Rightarrow> page_ref list" where
  "boot_pages K j = map slot_of ([0..<K] @ [786432..<786432 + j])"

lemma boot_pages_start: "boot_pages K 0 = map slot_of [0..<K]"
  by (simp add: boot_pages_def)

lemma boot_pages_snoc: "boot_pages K (j + 1) = boot_pages K j @ [slot_of (786432 + j)]"
proof -
  have "[786432..<786432 + (j + 1)] = [786432..<786432 + j] @ [786432 + j]" using upt_Suc_append [of 786432 "786432 + j"] by simp
  then show ?thesis by (simp only: boot_pages_def map_append list.map append_assoc)
qed

lemma heap_frames_all:
  "j \<le> 1280 \<Longrightarrow> seq_ok s (boot_pages K j) \<Longrightarrow> room s P \<Longrightarrow> heap_mapped s 1280 \<Longrightarrow> K + 1280 \<le> scanned s \<Longrightarrow> scanned s \<le> 786432 \<Longrightarrow>
   \<exists>s'. heap_frames s (page_at (786432 + j)) = Some s' \<and> seq_ok s' (boot_pages K 1280) \<and> placement_addr s' = placement_addr s"
proof (induction "1280 - j" arbitrary: j s)
  case 0
  then show ?case by (intro exI [of _ s]) (simp add: heap_frames.simps [of s] heap_end)
next
  case (Suc d)
  then have j: "j < 1280" and d: "d = 1280 - (j + 1)" by simp_all
  have new: "page_slot (page_at (786432 + j)) \<notin> set (boot_pages K j)"
    using j Suc.prems(5,6) by (auto simp: page_at_slot slot_of_eq boot_pages_def)
  have len: "length (boot_pages K j) < scanned s" using j Suc.prems(5) by (simp add: boot_pages_def)
  obtain s1 where s1: "page_frame s (page_at (786432 + j)) = Some s1" "seq_ok s1 (boot_pages K j @ [page_slot (page_at (786432 + j))])" "room s1 P"
    "nframes s1 = nframes s" "\<forall>r. read_page s r \<noteq> None \<longrightarrow> read_page s1 r \<noteq> None"
    "read_page s (page_slot (page_at (786432 + j))) \<noteq> None \<longrightarrow> placement_addr s1 = placement_addr s"
    using page_frame_seq [OF Suc.prems(2,3) new len] by blast
  have "seq_ok s1 (boot_pages K (j + 1))" using s1(2) j unfolding boot_pages_snoc by (simp add: page_at_slot)
  moreover have "heap_mapped s1 1280" by (rule heap_mapped_mono [OF Suc.prems(4) s1(5)])
  moreover have "scanned s1 = scanned s" by (simp add: scanned_def s1(4))
  ultimately obtain s' where s': "heap_frames s1 (page_at (786432 + (j + 1))) = Some s'" "seq_ok s' (boot_pages K 1280)" "placement_addr s' = placement_addr s1"
    using Suc.hyps(1) [OF d, of s1] j s1(3) Suc.prems(5,6) by auto
  have "placement_addr s1 = placement_addr s" using s1(6) Suc.prems(4) j by (simp add: page_at_slot heap_mapped_def)
  moreover have "heap_frames s (page_at (786432 + j)) = heap_frames s1 (page_at (786432 + (j + 1)))"
    using s1(1) j page_at_next [of "786432 + j"] by (subst heap_frames.simps) (simp add: heap_end)
  ultimately show ?case using s' by auto
qed

section \<open>The start\<close>

lemma words_of_zero: "words_of (replicate (4 * n) 0) = replicate n 0"
proof (induction n)
  case (Suc n)
  have "replicate (4 * Suc n) (0 :: u8) = 0 # 0 # 0 # 0 # replicate (4 * n) 0" by (simp add: numeral_eq_Suc)
  then show ?case using Suc by (simp add: un_le32_def)
qed simp

text \<open>The size of memory that the bitmap and the tables may need at most.\<close>

lemma mm_start_ok:
  assumes n: "n = unat stop div 4096" and mem: "mem = replicate (4 * (n div 32)) 0"
    and fit: "unat start + 0x100 + 4 * (n div 32) \<le> (unat start + 0x100 + n div 32 + 4095) div 4096 * 4096"
    and P: "P = unat start + 0x100 + n div 32 + 0x1000 + 8196 + 0x2000 * 1024" "P < 2 ^ 32"
  shows "\<exists>s. mm_start start stop mem = Some s \<and> seq_ok s [] \<and> room s P \<and> unat (nframes s) = n"
proof -
  have un: "unat (stop div 0x1000) = n" "unat (stop div 0x1000 div 32) = n div 32" using n by (simp_all add: unat_div)
  have st: "unat (start + 0x100) = unat start + 0x100" using P unat_add_lem [of start "0x100"] by simp
  let ?a = "start + 0x100" and ?m = "stop div 0x1000 div 32"
  have am: "unat (?a + ?m) = unat start + 0x100 + n div 32" using P st un(2) unat_add_lem [of ?a ?m] by simp
  let ?s0 = "\<lparr>placement_addr = start + 0x100, nframes = stop div 0x1000, frames = [], kernel_dir = \<lparr>pd_tables = [], pd_phys = []\<rparr>\<rparr>"
  let ?s1 = "?s0\<lparr>placement_addr := ?a + ?m\<rparr>"
  have k1: "kmalloc ?s0 ?m 0 = (?s1, ?a)" by (simp add: kmalloc_def Let_def)
  obtain s2 d where k2: "kmalloc ?s1 8196 1 = (s2, d)" by (cases "kmalloc ?s1 8196 1")
  have "unat (placement_addr ?s1) + 0x1000 + unat (8196 :: u32) < 2 ^ 32" using P am by simp
  note kk = kmalloc_aligned [OF this k2]
  have pa: "unat (placement_addr ?s1) = unat start + 0x100 + n div 32" using am by simp
  have "unat (placement_addr s2) \<le> unat (placement_addr ?s1) + 0x1000 + unat (8196 :: u32)"
    "unat d = (unat (placement_addr ?s1) + 4095) div 4096 * 4096" using kk by blast+
  then have d: "unat d = (unat start + 0x100 + n div 32 + 4095) div 4096 * 4096"
    "unat (placement_addr s2) \<le> unat start + 0x100 + n div 32 + 0x1000 + 8196" "s2 = ?s1\<lparr>placement_addr := d + 8196\<rparr>"
    unfolding pa using kk by simp_all
  define s where "s = s2\<lparr>frames := replicate (n div 32) 0, kernel_dir := \<lparr>pd_tables = replicate 1024 None, pd_phys = replicate 1024 0\<rparr>\<rparr>"
  have bitmap: "replicate (n div 32) 0 @ drop (n div 32) mem = replicate (4 * (n div 32)) 0"
    unfolding mem by (simp add: replicate_add [symmetric])
  have "mm_start start stop mem = Some s"
    unfolding mm_start_def Let_def k1 prod.case k2 un(2) bitmap words_of_zero s_def using d(1) fit st mem by simp
  moreover have sf: "nframes s = stop div 0x1000" "frames s = replicate (n div 32) 0" "placement_addr s = placement_addr s2"
    "kernel_dir s = \<lparr>pd_tables = replicate 1024 None, pd_phys = replicate 1024 0\<rparr>" by (simp_all add: s_def d(3))
  moreover have "card (missing s) \<le> 1024"
  proof -
    have "missing s \<subseteq> {..<1024}" by (auto simp: missing_def)
    then show ?thesis using card_mono [of "{..<1024}" "missing s"] by simp
  qed
  then have "room s P" using d(2) P by (simp add: room_def sf(3))
  moreover have "read_page s r = None" for r by (auto simp: read_page_def sf(4) rd_at_def)
  then have "seq_ok s []"
    using un n unat_u32_lt [of stop]
    by (auto simp: seq_ok_def sf scanned_def dir_ok_def frame_used_def less_mult_imp_div_less)
  ultimately show ?thesis using un by auto
qed

lemma boot_pages_nth: "k < K \<Longrightarrow> boot_pages K J ! k = slot_of k" "j < J \<Longrightarrow> boot_pages K J ! (K + j) = slot_of (786432 + j)"
  by (simp_all add: boot_pages_def nth_append)

lemma length_boot_pages: "length (boot_pages K J) = K + J"
  by (simp add: boot_pages_def)

section \<open>Properties\<close>

text \<open>
  C6. \<open>mm_init\<close> on a memory of zeros that has room for the kernel and the heap returns, and maps the kernel's memory to
  itself: each address below a bound, which lies above the bitmap, the directory and all page tables, is
  in a page that is present and whose frame is the one at this address, so that nothing moves when paging is switched on. The
  pages of the heap are present and have the frames behind this bound, each its own.
\<close>

theorem mm_init_maps:
  assumes n: "n = unat stop div 4096" and mem: "mem = replicate (4 * (n div 32)) 0"
    and fit: "unat start + 0x100 + 4 * (n div 32) \<le> (unat start + 0x100 + n div 32 + 4095) div 4096 * 4096"
    and P: "P = unat start + 0x100 + n div 32 + 0x1000 + 8196 + 0x2000 * 1024"
    and big: "(P + n div 1024 * 4096) div 4096 + 1281 \<le> n div 32 * 32" "n \<le> 786432"
  shows "\<exists>s hp K. mm_init store start stop mem = Some (s, hp) \<and> unat (placement_addr s) < 4096 * K \<and>
    (\<forall>a. unat a < 4096 * K \<longrightarrow>
      (\<exists>p. read_page s (page_slot a) = Some p \<and> pg_present p = 1 \<and> unat (pg_frame p) = unat a div 4096)) \<and>
    (\<forall>a. unat KHEAP_START \<le> unat a \<and> unat a < unat KHEAP_START + unat KHEAP_INITIAL_SIZE \<longrightarrow>
      (\<exists>p. read_page s (page_slot a) = Some p \<and> pg_present p = 1 \<and>
        unat (pg_frame p) = K + (unat a - unat KHEAP_START) div 4096))"
proof -
  let ?mx = "stop div 4096 div 1024 * 4096"
  have mx: "unat ?mx = n div 1024 * 4096"
  proof -
    have "unat (stop div 4096 div 1024) = n div 1024" using n by (simp add: unat_div)
    moreover have "n div 1024 * 4096 < 2 ^ 32" using big(2) by simp
    ultimately show ?thesis using unat_mult_lem [of "stop div 4096 div 1024" 4096] by simp
  qed
  have "n div 32 * 32 \<le> n" by (rule div_times_less_eq_dividend)
  then have lim: "(P + unat ?mx) div 4096 + 1281 \<le> 786432" using big unfolding mx by linarith
  then have P32: "P < 2 ^ 32" by simp
  obtain s0 where s0: "mm_start start stop mem = Some s0" "seq_ok s0 []" "room s0 P" "unat (nframes s0) = n"
    using mm_start_ok [OF n mem fit P P32] by blast
  obtain s1 where s1: "heap_tables s0 (page_at (786432 + 0)) = Some s1" "seq_ok s1 []" "room s1 P" "nframes s1 = nframes s0" "heap_mapped s1 1280"
    using heap_tables_all [of 0 s0 P] s0(2,3) by (auto simp: heap_mapped_def)
  have sc: "scanned s1 = n div 32 * 32" "scanned s1 \<le> 786432"
    using \<open>n div 32 * 32 \<le> n\<close> big(2) s0(4) by (simp_all add: scanned_def s1(4))
  have room: "P + unat ?mx < 4096 * scanned s1" using big(1) unfolding sc(1) mx by linarith
  obtain s2 K where s2: "kernel_frames s1 (page_at 0) ?mx = Some s2" "seq_ok s2 (map slot_of [0..<K])" "room s2 P" "heap_mapped s2 1280"
    "nframes s2 = nframes s1" "K \<le> (P + unat ?mx) div 4096 + 1" "unat (placement_addr s2) + unat ?mx < 4096 * K"
    using kernel_frames_all [of s1 0 P ?mx] s1(2,3,5) room sc(2) by auto
  have K: "K + 1280 \<le> scanned s2" "scanned s2 \<le> 786432" using s2(5,6) sc big(1) unfolding mx by (simp_all add: scanned_def)
  obtain s3 where s3: "heap_frames s2 (page_at (786432 + 0)) = Some s3" "seq_ok s3 (boot_pages K 1280)" "placement_addr s3 = placement_addr s2"
    using heap_frames_all [of 0 s2 K P] s2(2,3,4) K boot_pages_start [of K] by auto
  have start: "KHEAP_START = page_at (786432 + 0)" "page_at 0 = 0" by (simp_all add: KHEAP_START_def page_at_def)
  have run: "mm_init store start stop mem =
      Some (s3, create_heap store KHEAP_START (KHEAP_START + KHEAP_INITIAL_SIZE) (KHEAP_START + stop) 0 0)"
    unfolding mm_init_def using s0(1) s1(1) s2(1) s3(1) unfolding start(1) start(2) by simp
  have "\<exists>p. read_page s3 (page_slot a) = Some p \<and> pg_present p = 1 \<and> unat (pg_frame p) = unat a div 4096" if "unat a < 4096 * K" for a
  proof -
    have a: "unat a div 4096 < K" using that by (simp add: less_mult_imp_div_less mult.commute)
    then show ?thesis using seq_page [OF s3(2), of "unat a div 4096"] a boot_pages_nth(1) [OF a] by (simp add: page_slot_of length_boot_pages)
  qed
  moreover have "\<exists>p. read_page s3 (page_slot a) = Some p \<and> pg_present p = 1 \<and> unat (pg_frame p) = K + (unat a - unat KHEAP_START) div 4096"
    if a: "unat KHEAP_START \<le> unat a" "unat a < unat KHEAP_START + unat KHEAP_INITIAL_SIZE" for a
  proof -
    let ?j = "(unat a - unat KHEAP_START) div 4096"
    have j: "?j < 1280" using a by (simp add: KHEAP_START_def KHEAP_INITIAL_SIZE_def less_mult_imp_div_less)
    have "unat a = (unat a - unat KHEAP_START) + 786432 * 4096" using a(1) by (simp add: KHEAP_START_def)
    then have "unat a div 4096 = ((unat a - unat KHEAP_START) + 786432 * 4096) div 4096" by (rule arg_cong)
    then have "unat a div 4096 = 786432 + ?j" by simp
    then show ?thesis using seq_page [OF s3(2), of "K + ?j"] j boot_pages_nth(2) [OF j, of K] by (simp add: page_slot_of length_boot_pages)
  qed
  moreover have "unat (placement_addr s3) < 4096 * K" using s2(7) s3(3) by simp
  ultimately show ?thesis using run by blast
qed

text \<open>A computer with 32 MB, and the start address that \<open>main\<close> uses.\<close>

theorem mm_init_maps_witness:
  "\<exists>s hp K. mm_init (\<lambda>_. None) 0x300001 0x2000000 (replicate (4 * (8192 div 32)) 0) = Some (s, hp) \<and> unat (placement_addr s) < 4096 * K \<and>
    (\<forall>a. unat a < 4096 * K \<longrightarrow>
      (\<exists>p. read_page s (page_slot a) = Some p \<and> pg_present p = 1 \<and> unat (pg_frame p) = unat a div 4096)) \<and>
    (\<forall>a. unat KHEAP_START \<le> unat a \<and> unat a < unat KHEAP_START + unat KHEAP_INITIAL_SIZE \<longrightarrow>
      (\<exists>p. read_page s (page_slot a) = Some p \<and> pg_present p = 1 \<and>
        unat (pg_frame p) = K + (unat a - unat KHEAP_START) div 4096))"
  by (rule mm_init_maps [OF _ refl _ refl]) simp_all

end
