(* ===== verification/Spec2Isabelle.thy ===== *)
theory Spec2Isabelle
  imports Keyboard Stdio Pong Descriptors ProcReach BfEquiv FileData DirData FsOps VMonSafe Snake Synth ShellMain Memview Alloc Editor Snapshot
    Remount Lookup Chips Chipsfs ChipsData Bin2c Console HdInit Sleep Play MmInit
begin

text \<open>
  A verification development of POTATOES, a small operating system for 32 bit x86 computers. The
  system is a kernel (\<open>src/kernel\<close>: memory management, interrupts, devices, a file system, processes)
  and programs that run on it (\<open>src/apps\<close>: a shell, games, a Brainfuck interpreter, a synthesizer),
  and tools for the host on which it is built (\<open>src/tools\<close>).
  Everything is written in C; the theories translate the C functions one by one into HOL functions.

  \<^bold>\<open>Conventions.\<close> Machine integers are words of the width that the code gives them (\<open>u8\<close>, \<open>u16\<close>, \<open>u32\<close>;
  \<open>s32\<close> is the same type as \<open>u32\<close> and read with \<open>sint\<close>), so that arithmetic wraps around as on the machine. A C
  structure is a record, a static variable is a field of the state record of its component, and a function that
  changes state returns the new state. Memory that several functions share is a list of bytes; structures that
  are stored in it or on the disk are encoded and decoded with explicit offsets. The value \<open>None\<close> of an
  \<open>option\<close> type says that the code gives no result: an access outside of an object, a division by zero, a
  panic or a loop that does not end. Error codes that the code returns are ordinary values (or \<open>Inl\<close> where
  the result is a sum). A loop is a recursive function; where it may run forever it is a
  \<open>partial_function (option)\<close>, so that its result is \<open>None\<close> exactly if the loop does not end or goes wrong,
  and the theorems about it say that it has a result. There is no fuel except the length of finite
  structures that bound a loop in the code itself, and the levels of nested batch files in \<open>ShellMain\<close>, where a
  result stays the same with more levels (\<open>shell_levels_enough\<close>).

  \<^bold>\<open>Theories.\<close>
    \<^item> \<open>Prelude\<close>: the types of \<open>include/types.h\<close>, checked array accesses (\<open>rd_at\<close>, \<open>wr_at\<close>), copying runs of
      bytes (\<open>blit\<close>, \<open>sub_bytes\<close>), the little-endian layout of integers.
    \<^item> \<open>CMemory\<close>, \<open>CString\<close>, \<open>Numconv\<close>: \<open>lib/string.c\<close> and the random numbers of \<open>lib/stdlib.c\<close>. \<open>memmove\<close> copies under
      overlap, \<open>strcmp\<close> and \<open>strsep\<close> do what the standard says, \<open>strtol\<close> reads back what \<open>itoa\<close> prints.
    \<^item> \<open>Ringbuffer\<close>: \<open>lib/ringbuffer.c\<close>. The locale \<open>byte_queue\<close> is the contract of a bounded queue of bytes,
      interpreted on the code; any sequence of calls is a first-in-first-out queue.
    \<^item> \<open>Stdio\<close>: \<open>vsnprintf\<close> and \<open>snprintf\<close> of \<open>lib/stdio.c\<close>: bounds, and the overflow of \<open>%s\<close>.
    \<^item> \<open>Frames\<close>, \<open>Heap\<close>, \<open>Descriptors\<close>: \<open>mm/mm_bitmap.c\<close>, \<open>mm_main.c\<close>, \<open>mm_heap.c\<close>, \<open>mm_gdt.c\<close> and \<open>io/int_*.c\<close>. The frame
      allocator gives out unshared frames, page tables map addresses to slots injectively, the heap is a list of
      disjoint blocks in address order that every operation keeps (\<open>heap_ok\<close>).
    \<^item> \<open>Disk\<close>, \<open>Rtc\<close>: the geometry and register writes of \<open>io/io_harddisk.c\<close>, the clock of \<open>io/io_rtc.c\<close>.
    \<^item> \<open>FsState\<close>, \<open>Bmap\<close>, \<open>Inodes\<close>, \<open>FileTables\<close>, \<open>ReadWrite\<close>, \<open>Dir\<close>, \<open>FsOps\<close>: the file system \<open>fs/fs_*.c\<close> on a
      function from block numbers to blocks of 512 bytes, with the caches of \<open>fs_buf.h\<close> in its state.
      \<open>Slots\<close> holds the locale \<open>slot_table\<close>, the contract of a table of reusable slots, which is interpreted on the
      inode table and both file tables. \<open>FileData\<close> proves that a byte that is written to a file is read back at
      its position and nothing else changes, through all levels of indirection; \<open>DirData\<close> that a block of a
      directory implements a finite map from names to blocks.
    \<^item> \<open>VMonitor\<close>, \<open>VMonSafe\<close>: one virtual monitor (\<open>io/io_virtual.c\<close>) and the proof that it stays inside of its memory.
    \<^item> \<open>Procs\<close>, \<open>Scheduler\<close>: \<open>pm/pm_main.c\<close>, \<open>pm_input.c\<close> and \<open>io_virtual_monitors.c\<close>. Processes live in a store that maps
      addresses to structures and are linked to a ring by their \<open>next\<close> fields. The scheduler is fair, and it
      returns if and only if some process is alive.
    \<^item> \<open>ProcRing\<close>, \<open>ProcReach\<close>: the invariant of the process management (one ring through the kernel process, one
      monitor for each process) in every state that is reached from the start of the system, and with it the
      properties of the scheduler without hypotheses about the list.
    \<^item> \<open>Syscalls\<close>: the devices (\<open>pm/pm_devices.c\<close>, \<open>pm/dev_*.c\<close>) and the system calls (\<open>pm/pm_syscalls.c\<close>).
    \<^item> \<open>Stubs\<close>: the client side of the system calls (\<open>pm/syscalls_cli.c\<close>): each stub reaches its handler.
    \<^item> \<open>Keyboard\<close>: \<open>io/io_keyboard.c\<close>, and the timer and sound divisors of \<open>io_timer.c\<close> and \<open>io_sound.c\<close>.
    \<^item> \<open>Brainfuck\<close>, \<open>BfEquiv\<close>: \<open>apps/brainfuck_interpreter.c\<close>, which is fed one character at a time and replays
      recorded loops, and its equivalence with the big-step semantics of the language.
    \<^item> \<open>Pong\<close>: \<open>apps/pong.c\<close> with the macros of \<open>apps/games.h\<close>.
    \<^item> \<open>Snake\<close>: \<open>apps/snake.c\<close>; the snakes are ring buffers. A round moves the snake by one cell and loses nothing, and
      the points are the apples that were eaten.
    \<^item> \<open>Synth\<close>: \<open>parse_sound\<close> of \<open>apps/synthesizer.c\<close>, which reads back what the synthesizer prints.
    \<^item> \<open>ShellUtils\<close>, \<open>ShellCmds\<close>, \<open>ShellMain\<close>: the shell (\<open>apps/shell_*.c\<close>) on the state of the kernel: editing a line,
      cutting it into words, completion, the table of the commands and the commands. A command gets exactly the words
      of its line.
    \<^item> \<open>Alloc\<close>: \<open>mallocn\<close>, \<open>callocn\<close>, \<open>realloc\<close> and \<open>free\<close> of \<open>lib/stdlib.c\<close>, and \<open>memmove\<close> with its temporary block, on the
      heap and the bytes of its blocks.
    \<^item> \<open>Memview\<close>: \<open>apps/memview.c\<close>, whose picture shows the blocks of the heap as long as it has at most 2000 cells.
    \<^item> \<open>Editor\<close>, \<open>Snapshot\<close>: \<open>apps/editor.c\<close>, which saves exactly the edited text, and \<open>apps/snapshot.c\<close>.
    \<^item> \<open>Remount\<close>: \<open>fs_shutdown\<close> and a later \<open>fs_init\<close> on the same disk lose nothing. \<open>Lookup\<close>: searching and opening a
      file of the root directory, through the blocks of the directory, the inode on the disk and both tables.
    \<^item> \<open>Chips\<close>, \<open>Chipsfs\<close>: the host tools \<open>src/tools/chips\<close>, which link the sources of the file system with functions for a disk
      image (\<open>fs_wrappers.c\<close>): the commands of \<open>chips.c\<close> and the operations of \<open>chipsfs.c\<close> as functions on the state of the file
      system. \<open>ChipsData\<close>: sectors of an image are the sectors of a drive, \<open>chips cat\<close> prints exactly the bytes of a file,
      and why the tool reverts changes when it calls \<open>fs_shutdown\<close>. \<open>Bin2c\<close>: the array that \<open>bin2c\<close> prints has the bytes of
      the file.
    \<^item> \<open>Console\<close>: the text screen (\<open>io/io_monitor.c\<close>), \<open>panic\<close>, and \<open>putchar\<close>, \<open>puts\<close> and \<open>printf\<close> of \<open>lib/stdio.c\<close>.
    \<^item> \<open>HdInit\<close>: the start of the hard disk, its interrupt and waiting for it; the drive is a function of time.
    \<^item> \<open>Sleep\<close>: \<open>sleep\<close> of \<open>io/io_timer.c\<close>, which returns after the given time exactly if the counter of the ticks does not
      start again.
    \<^item> \<open>MmInit\<close>: \<open>mm_init\<close>, which maps the kernel's memory with all page tables to itself and gives the heap its frames.
    \<^item> \<open>Play\<close>: the keys of the synthesizer and playing a file, as a list of events; what is printed are notes that
      \<open>parse_sound\<close> reads back.
    \<^item> \<open>Spec2Isabelle\<close>: the path of a character from the interrupt of the keyboard through the process in focus to
      the reader of its standard input.

  \<^bold>\<open>How the parts interact.\<close> An interrupt of the keyboard runs \<open>kb_handler\<close>, which hands characters to
  \<open>pm_handle_input\<close>; that function stores them in the ring buffer of the process in focus and wakes it up. The timer
  interrupt runs \<open>pm_schedule\<close>. A program calls \<open>pm_syscall\<close>, which looks up a device or goes to the file system;
  the file system reads and writes blocks through its two caches. The ring buffer, the string functions, the number
  conversion and the heap serve all of them.

  \<^bold>\<open>Parameters.\<close> What the hardware or \<open>malloc\<close> supplies is an argument: the contents of the CMOS registers,
  the state of the keys, the memory that an allocation returns (any contents, \<open>None\<close> where it
  fails), the addresses of new structures. Port output is returned as a list of writes or left out where
  the component's note says so.

  \<^bold>\<open>Not modelled.\<close> Port input and output where it carries no state of the program, the assembly files
  (\<open>boot.s\<close>, \<open>int_interrupt.s\<close>, \<open>mm_paging_asm.s\<close>), the order of the calls at boot (\<open>main\<close> of \<open>init/main.c\<close>, \<open>io/io_main.c\<close>), test programs
  (\<open>init/tests.c\<close>, \<open>fs/fs_tests.c\<close>), functions that only print a table for debugging, and the
  wrappers of \<open>fs_wrappers.c\<close> that rename functions of the C library. Concurrency is modelled as the
  sequence of the interrupts and calls; the kernel itself runs with one processor and disables interrupts where it needs to.
\<close>

section \<open>From the keyboard to the reader\<close>

text \<open>Scan codes of pressed keys that stand for a character, and a row of interrupts of the keyboard.\<close>

definition char_key :: "u8 \<Rightarrow> bool" where
  "char_key sc \<longleftrightarrow> unat sc < 128 \<and> kb_map ! unat sc \<noteq> 0 \<and>
     sc \<notin> {CTRL, SUPER, CURSOR_UP, CURSOR_DOWN, CURSOR_LEFT, CURSOR_RIGHT, LSHIFT, RSHIFT, ALT, SCROLL_UP, SCROLL_DOWN}"

definition no_modifier :: "kbd \<Rightarrow> bool" where
  "no_modifier b \<longleftrightarrow> \<not> kb_shift b \<and> \<not> kb_alt b \<and> \<not> kb_ctrl b \<and> \<not> kb_super b \<and> \<not> kb_echo b"

fun kb_run :: "kbd \<Rightarrow> kernel \<Rightarrow> bytes \<Rightarrow> (kbd \<times> kernel) option" where
  "kb_run b k [] = Some (b, k)"
| "kb_run b k (sc # scs) = do { (b, k, f) \<leftarrow> kb_handler b k sc; kb_run b k scs }"

text \<open>The process in focus, its state and what is in its queue.\<close>

definition focus_holds :: "kernel \<Rightarrow> process \<Rightarrow> ring_fifo \<Rightarrow> bool" where
  "focus_holds k p q \<longleftrightarrow> focus_proc (k_pm k) \<noteq> 0 \<and> p_store (k_pm k) (focus_proc (k_pm k)) = Some p \<and> p_stdin p = Some q \<and>
     rf_inv q \<and> 128 \<le> length (keyboard_state k)"

lemma not_released: "unat (sc :: u8) < 128 \<Longrightarrow> sc AND 0x80 = 0"
proof -
  assume "unat sc < 128"
  then have "take_bit 7 sc = sc" by (simp add: word_unat_eq_iff unsigned_take_bit_eq take_bit_nat_eq_self)
  from this have "\<not> bit sc 7" using bit_take_bit_iff [of 7 sc 7] by simp
  then have "sc AND 2 ^ 7 = 0" by (simp only: and_exp_eq_0_iff_not_bit not_False_eq_True)
  then show ?thesis by simp
qed

lemma length_kb_map: "length kb_map = 128"
  by (simp add: kb_map_def)

lemma kb_handler_char:
  assumes h: "focus_holds k p q" and b: "no_modifier b" and c: "char_key sc" and room: "unat (rf_len q) < unat (rf_size q)"
  shows "\<exists>k' p' q'. kb_handler b k sc = Some (b, k', None) \<and> focus_holds k' p' q' \<and> rf_list q' = rf_list q @ [kb_map ! unat sc] \<and>
    rf_size q' = rf_size q \<and> p_state p' \<noteq> PSTATE_STDINSLEEP \<and> focus_proc (k_pm k') = focus_proc (k_pm k)"
proof -
  let ?c = "kb_map ! unat sc" and ?f = "focus_proc (k_pm k)"
  let ?p = "if p_state p = PSTATE_STDINSLEEP then p\<lparr>p_state := PSTATE_ALIVE\<rparr> else p"
  obtain q' where q': "rf_write (Some q) (Some [?c]) 1 = Some (Some q', 1)" "rf_inv q'" "rf_size q' = rf_size q" "rf_list q' = rf_list q @ [?c]"
    using rf_write_correct [of q 1 "[?c]"] h room by (auto simp: focus_holds_def min_def)
  let ?ks = "(keyboard_state k)[unat sc := 1]"
  define pm where "pm = (k_pm k)\<lparr>p_store := (p_store (k_pm k))(?f \<mapsto> ?p\<lparr>p_stdin := Some q'\<rparr>)\<rparr>"
  have hi: "pm_handle_input (k_pm k) ?c = Some pm"
    using h q'(1) by (simp add: pm_handle_input_def focus_holds_def pm_def Let_def)
  define k' where "k' = k\<lparr>keyboard_state := ?ks, k_pm := pm\<rparr>"
  have sc: "unat sc < 128" "?c \<noteq> 0" using c by (simp_all add: char_key_def)
  have sk: "set_key k sc 1 = Some (k\<lparr>keyboard_state := ?ks\<rparr>)" using h sc(1) by (simp add: set_key_def focus_holds_def)
  have kc: "kb_char b (k\<lparr>keyboard_state := ?ks\<rparr>) ?c = Some k'" using b sc(2) hi by (simp add: kb_char_def no_modifier_def k'_def)
  have "kb_plain b k sc = Some (b, k')"
    using c sc(1) sk kc unfolding kb_plain_def char_key_def by (simp add: length_kb_map)
  then have "kb_handler b k sc = Some (b, k', None)"
    using b not_released [OF sc(1)] by (simp add: kb_handler_def no_modifier_def)
  moreover have "focus_holds k' (?p\<lparr>p_stdin := Some q'\<rparr>) q'" using h q'(2) by (simp add: focus_holds_def k'_def pm_def)
  moreover have "p_state (?p\<lparr>p_stdin := Some q'\<rparr>) \<noteq> PSTATE_STDINSLEEP" by (simp add: PSTATE_ALIVE_def PSTATE_STDINSLEEP_def)
  moreover have "focus_proc (k_pm k') = ?f" by (simp add: k'_def pm_def)
  ultimately show ?thesis using q'(3,4) by blast
qed

lemma kb_run_chars:
  "focus_holds k p q \<Longrightarrow> no_modifier b \<Longrightarrow> \<forall>sc \<in> set scs. char_key sc \<Longrightarrow> unat (rf_len q) + length scs \<le> unat (rf_size q) \<Longrightarrow>
   \<exists>k' p' q'. kb_run b k scs = Some (b, k') \<and> focus_holds k' p' q' \<and> rf_list q' = rf_list q @ map (\<lambda>sc. kb_map ! unat sc) scs \<and>
     (scs \<noteq> [] \<or> p_state p \<noteq> PSTATE_STDINSLEEP \<longrightarrow> p_state p' \<noteq> PSTATE_STDINSLEEP) \<and>
     focus_proc (k_pm k') = focus_proc (k_pm k)"
proof (induction scs arbitrary: k p q)
  case (Cons sc scs)
  have sc: "char_key sc" "unat (rf_len q) < unat (rf_size q)" using Cons.prems(3,4) by simp_all
  obtain k1 p1 q1 where 1: "kb_handler b k sc = Some (b, k1, None)" "focus_holds k1 p1 q1" "rf_list q1 = rf_list q @ [kb_map ! unat sc]"
    "rf_size q1 = rf_size q" "p_state p1 \<noteq> PSTATE_STDINSLEEP" "focus_proc (k_pm k1) = focus_proc (k_pm k)"
    using kb_handler_char [OF Cons.prems(1,2) sc] by blast
  have "length (rf_list q1) = length (rf_list q) + 1" using 1(3) by simp
  then have "unat (rf_len q1) + length scs \<le> unat (rf_size q1)" using Cons.prems(4) 1(4) by simp
  from Cons.IH [OF 1(2) Cons.prems(2) _ this] Cons.prems(3) obtain k' p' q' where
    "kb_run b k1 scs = Some (b, k')" "focus_holds k' p' q'" "rf_list q' = rf_list q1 @ map (\<lambda>sc. kb_map ! unat sc) scs"
    "p_state p' \<noteq> PSTATE_STDINSLEEP" "focus_proc (k_pm k') = focus_proc (k_pm k1)" using 1(5) by auto
  with 1 show ?case by (auto intro!: exI [of _ k'])
next
  case Nil
  then show ?case by auto
qed

text \<open>
  C13. What is typed is what the process in focus reads: with room in its queue, the interrupts of any keys with a character
  append these characters to its standard input, wake it up if it sleeps, and when it is active \<open>dev_stdin_read\<close> gives it
  the oldest characters in the order of typing, and leaves the others in the queue.
\<close>

theorem typed_is_read:
  assumes h: "focus_holds k p q" and b: "no_modifier b" and c: "\<forall>sc \<in> set scs. char_key sc"
    and room: "unat (rf_len q) + length scs \<le> unat (rf_size q)"
  shows "\<exists>k' p' s' q'. kb_run b k scs = Some (b, k') \<and> p_store (k_pm k') (focus_proc (k_pm k)) = Some p' \<and>
    (scs \<noteq> [] \<longrightarrow> p_state p' \<noteq> PSTATE_STDINSLEEP) \<and>
    dev_stdin_read ((k_pm k')\<lparr>active_proc := focus_proc (k_pm k)\<rparr>) n =
      Some (s', Inr (take (unat n) (rf_list q @ map (\<lambda>sc. kb_map ! unat sc) scs),
        word_of_nat (min (unat n) (unat (rf_len q) + length scs)))) \<and>
    p_store s' (focus_proc (k_pm k)) = Some (p'\<lparr>p_stdin := Some q'\<rparr>) \<and>
    rf_list q' = drop (unat n) (rf_list q @ map (\<lambda>sc. kb_map ! unat sc) scs)"
proof -
  let ?cs = "rf_list q @ map (\<lambda>sc. kb_map ! unat sc) scs"
  obtain k' p' q1 where 1: "kb_run b k scs = Some (b, k')" "focus_holds k' p' q1" "rf_list q1 = ?cs"
    "scs \<noteq> [] \<longrightarrow> p_state p' \<noteq> PSTATE_STDINSLEEP" "focus_proc (k_pm k') = focus_proc (k_pm k)"
    using kb_run_chars [OF h b c room] by blast
  have "length (rf_list q1) = unat (rf_len q) + length scs" using 1(3) by simp
  then have len: "unat (rf_len q1) = unat (rf_len q) + length scs" by simp
  obtain q' where "rf_read (Some q1) True n = Some (Some q', take (unat n) ?cs, word_of_nat (min (unat n) (unat (rf_len q1))))"
    "rf_list q' = drop (unat n) ?cs"
    using rf_read_correct [of q1 n] 1(2,3) by (auto simp: focus_holds_def)
  with 1 len show ?thesis by (auto simp: focus_holds_def dev_stdin_read_def upd_proc_def)
qed

text \<open>A process that sleeps until input comes, the keys \<open>h\<close>, \<open>i\<close> and enter, and a read of two characters.\<close>

definition queue_example :: ring_fifo where
  "queue_example = \<lparr>rf_data = replicate 64 0, rf_size = 64, rf_start = 0, rf_end = 0, rf_len = 0\<rparr>"

definition kernel_example :: kernel where
  "kernel_example = \<lparr>k_pm = pm_example\<lparr>p_store := [300 \<mapsto> (proc_example 300 PSTATE_STDINSLEEP 1 0)\<lparr>p_stdin := Some queue_example\<rparr>]\<rparr>,
     k_fs = fs_example, devices = [], k_bf = init_bf [], k_mm = mm_example, k_heap = heap_example, keyboard_state = replicate 128 0, k_vga = []\<rparr>"

definition kbd_example :: kbd where
  "kbd_example = \<lparr>kb_shift = False, kb_alt = False, kb_super = False, kb_ctrl = False, kb_echo = False, shortcuts = [], shcut_num = 0\<rparr>"

theorem typed_is_read_witness:
  "\<exists>k' p' s' q'. kb_run kbd_example kernel_example [0x23, 0x17, 0x1C] = Some (kbd_example, k') \<and>
    p_store (k_pm k') (focus_proc (k_pm kernel_example)) = Some p' \<and>
    ([0x23, 0x17, 0x1C :: u8] \<noteq> [] \<longrightarrow> p_state p' \<noteq> PSTATE_STDINSLEEP) \<and>
    dev_stdin_read ((k_pm k')\<lparr>active_proc := focus_proc (k_pm kernel_example)\<rparr>) 2 =
      Some (s', Inr (take (unat (2 :: u32)) (rf_list queue_example @ map (\<lambda>sc. kb_map ! unat sc) [0x23, 0x17, 0x1C :: u8]),
        word_of_nat (min (unat (2 :: u32)) (unat (rf_len queue_example) + length [0x23, 0x17, 0x1C :: u8])))) \<and>
    p_store s' (focus_proc (k_pm kernel_example)) = Some (p'\<lparr>p_stdin := Some q'\<rparr>) \<and>
    rf_list q' = drop (unat (2 :: u32)) (rf_list queue_example @ map (\<lambda>sc. kb_map ! unat sc) [0x23, 0x17, 0x1C :: u8])"
proof (rule typed_is_read)
  show "focus_holds kernel_example ((proc_example 300 PSTATE_STDINSLEEP 1 0)\<lparr>p_stdin := Some queue_example\<rparr>) queue_example"
    by (simp add: focus_holds_def kernel_example_def pm_example_def) (simp add: rf_inv_def queue_example_def)
  show "no_modifier kbd_example" by (simp add: no_modifier_def kbd_example_def)
  show "\<forall>sc \<in> set [0x23, 0x17, 0x1C]. char_key sc"
    by (simp add: char_key_def kb_map_def CTRL_def SUPER_def CURSOR_UP_def CURSOR_DOWN_def CURSOR_LEFT_def CURSOR_RIGHT_def
        LSHIFT_def RSHIFT_def ALT_def SCROLL_UP_def SCROLL_DOWN_def)
qed (simp add: queue_example_def)

end
